(* ===== verification/Prelude.thy ===== *)
theory Prelude
  imports Main "HOL-Library.Word"
begin

text \<open>
  Shared vocabulary of the development. Go's sized integers are words, \<open>big.Int\<close> is \<open>int\<close>,
  a \<open>[]byte\<close> is a list of bytes. The theory also holds the model of \<open>big.Int.Bytes\<close>,
  \<open>big.Int.SetBytes\<close> and the lemmas on big-endian byte strings that the codecs
  (compact targets, RLP, trie keys) share.
\<close>

unbundle bit_operations_syntax

named_theorems be_simps \<open>big-endian byte strings\<close>

type_synonym byte = "8 word"
type_synonym uint32 = "32 word"
type_synonym uint64 = "64 word"
type_synonym address = "160 word"
type_synonym hash = "256 word"
type_synonym bytes = "byte list"

section \<open>Big-endian byte strings\<close>

text \<open>\<open>be_nat\<close> is \<open>big.Int.SetBytes\<close>: the unsigned big-endian value of a byte string.\<close>

definition be_nat :: "bytes \<Rightarrow> nat" where
  "be_nat bs = foldl (\<lambda>acc b. acc * 256 + unat b) 0 bs"

text \<open>
  \<open>nat_bytes\<close> is \<open>big.Int.Bytes\<close> on a non-negative number: the shortest big-endian byte
  string, empty for zero.
\<close>

fun nat_bytes :: "nat \<Rightarrow> bytes" where
  "nat_bytes n = (if n = 0 then [] else nat_bytes (n div 256) @ [of_nat (n mod 256)])"

declare nat_bytes.simps [simp del]

lemma be_nat_Nil [simp]: "be_nat [] = 0"
  by (simp add: be_nat_def)

lemma be_nat_snoc [be_simps]: "be_nat (bs @ [b]) = be_nat bs * 256 + unat b"
  by (simp add: be_nat_def)

lemma be_nat_append [be_simps]: "be_nat (xs @ ys) = be_nat xs * 256 ^ length ys + be_nat ys"
proof (induction ys rule: rev_induct)
  case (snoc y ys)
  have "be_nat (xs @ ys @ [y]) = be_nat (xs @ ys) * 256 + unat y"
    using be_nat_snoc [of "xs @ ys" y] by simp
  with snoc show ?case by (simp add: be_nat_snoc algebra_simps)
qed simp

lemma be_nat_Cons [be_simps]: "be_nat (b # bs) = unat b * 256 ^ length bs + be_nat bs"
  using be_nat_append [of "[b]" bs] by (simp add: be_nat_def)

lemma unat_byte_less [simp]: "unat (b :: byte) < 256"
proof -
  have "unat b < 2 ^ LENGTH(8)" by (rule unsigned_less)
  then show ?thesis by simp
qed

lemma be_nat_less: "be_nat bs < 256 ^ length bs"
proof (induction bs rule: rev_induct)
  case (snoc b bs)
  have "be_nat bs * 256 + unat b < (be_nat bs + 1) * 256"
    using unat_byte_less [of b] by simp
  also have "\<dots> \<le> 256 ^ length bs * 256"
    using snoc by (intro mult_right_mono) simp_all
  finally show ?case by (simp add: be_nat_snoc mult.commute)
qed simp

lemma nat_bytes_0 [simp]: "nat_bytes 0 = []"
  by (simp add: nat_bytes.simps)

lemma nat_bytes_pos: "0 < n \<Longrightarrow> nat_bytes n = nat_bytes (n div 256) @ [of_nat (n mod 256)]"
  by (simp add: nat_bytes.simps [of n])

lemma unat_byte_mod [simp]: "unat (of_nat (n mod 256) :: byte) = n mod 256"
  by (simp add: unat_of_nat)

lemma be_nat_nat_bytes [simp]: "be_nat (nat_bytes n) = n"
proof (induction n rule: nat_bytes.induct)
  case (1 n)
  show ?case
  proof (cases "n = 0")
    case False
    with 1 have "be_nat (nat_bytes (n div 256)) = n div 256" by simp
    with False show ?thesis
      by (simp add: nat_bytes_pos [of n] be_nat_snoc mult.commute)
  qed simp
qed

lemma nat_bytes_eq_Nil [simp]: "nat_bytes n = [] \<longleftrightarrow> n = 0"
  by (simp add: nat_bytes.simps [of n])

lemma hd_nat_bytes: "0 < n \<Longrightarrow> hd (nat_bytes n) \<noteq> 0"
proof (induction n rule: nat_bytes.induct)
  case (1 n)
  show ?case
  proof (cases "n div 256 = 0")
    case True
    with 1(2) have "unat (of_nat (n mod 256) :: byte) \<noteq> 0"
      unfolding unat_byte_mod by (simp add: div_eq_0_iff)
    then have "(of_nat (n mod 256) :: byte) \<noteq> 0" by (rule contrapos_nn) simp
    with True 1(2) show ?thesis by (simp add: nat_bytes_pos [of n])
  next
    case False
    with 1 show ?thesis by (simp add: nat_bytes_pos [of n] hd_append)
  qed
qed

lemma nat_bytes_mult_add:
  assumes "0 < q \<or> 0 < unat b"
  shows "nat_bytes (q * 256 + unat b) = nat_bytes q @ [b]"
proof -
  have "(q * 256 + unat b) div 256 = q" "(q * 256 + unat b) mod 256 = unat b"
    using unat_byte_less [of b] by simp_all
  with assms show ?thesis by (simp add: nat_bytes_pos [of "q * 256 + unat b"])
qed

text \<open>A byte string without a leading zero is the shortest one of its value.\<close>

lemma nat_bytes_be_nat: "bs = [] \<or> hd bs \<noteq> 0 \<Longrightarrow> nat_bytes (be_nat bs) = bs"
proof (induction bs rule: rev_induct)
  case (snoc b bs)
  show ?case
  proof (cases "bs = []")
    case True
    with snoc.prems have "0 < unat b" by (simp add: unat_gt_0)
    with True show ?thesis using nat_bytes_mult_add [of 0 b] by (simp add: be_nat_Cons)
  next
    case False
    with snoc have IH: "nat_bytes (be_nat bs) = bs" by simp
    with False have "0 < be_nat bs" using gr0I by fastforce
    with IH show ?thesis by (simp add: be_nat_snoc nat_bytes_mult_add)
  qed
qed simp

lemma length_nat_bytes_le: "length (nat_bytes n) \<le> k \<longleftrightarrow> n < 256 ^ k"
proof (induction k arbitrary: n)
  case (Suc k)
  show ?case
  proof (cases "n = 0")
    case False
    then have "length (nat_bytes n) \<le> Suc k \<longleftrightarrow> n div 256 < 256 ^ k"
      using Suc [of "n div 256"] by (simp add: nat_bytes_pos [of n])
    also have "\<dots> \<longleftrightarrow> n < 256 ^ Suc k"
      by (simp add: div_less_iff_less_mult mult.commute)
    finally show ?thesis .
  qed simp
qed simp

lemma length_nat_bytes_ge: "0 < n \<Longrightarrow> 256 ^ (length (nat_bytes n) - 1) \<le> n"
  using length_nat_bytes_le [of n "length (nat_bytes n) - 1"]
  by (cases "length (nat_bytes n)") auto

lemma less_pow_length_nat_bytes: "n < 256 ^ length (nat_bytes n)"
  using length_nat_bytes_le by blast

lemma be_nat_inj: "length xs = length ys \<Longrightarrow> be_nat xs = be_nat ys \<Longrightarrow> xs = ys"
proof (induction xs arbitrary: ys rule: rev_induct)
  case (snoc x xs)
  then obtain y zs where ys: "ys = zs @ [y]" by (cases ys rule: rev_cases) auto
  have "be_nat xs * 256 + unat x = be_nat zs * 256 + unat y"
    using snoc.prems by (simp add: ys be_nat_snoc)
  then have "(be_nat xs * 256 + unat x) div 256 = (be_nat zs * 256 + unat y) div 256"
    and "(be_nat xs * 256 + unat x) mod 256 = (be_nat zs * 256 + unat y) mod 256" by simp_all
  then have "be_nat xs = be_nat zs \<and> unat x = unat y"
    using unat_byte_less [of x] unat_byte_less [of y] by simp
  with snoc ys show ?case by (simp add: word_unat_eq_iff)
qed simp

end
