(* ===== verification/CompactTarget.thy ===== *)
theory CompactTarget
  imports Prelude
begin

text \<open>
  Proof-of-work targets of the Hayekash engine: \<open>consensus/hykash/calcTarget.go\<close> and
  \<open>consensus/hykash/uint256.go\<close>. A target travels in a header as a 32-bit \<open>compact\<close> number
  (8 bits base-256 exponent, one sign bit, 23 bits mantissa). The theory models the two decoders
  (\<open>SetCompact\<close>, \<open>CompactToBig\<close>), the two encoders (\<open>GetCompact\<close>, \<open>BigToCompact\<close>), the
  difficulty conversions and the checks of a hash against a target, and shows that encoding
  rounds a target down to the precision of the format and never loosens a check.
\<close>

section \<open>Model\<close>

text \<open>\<open>len(b.Bytes())\<close>: the bytes of the absolute value.\<close>

definition big_byte_len :: "int \<Rightarrow> nat" where
  "big_byte_len b = length (nat_bytes (nat \<bar>b\<bar>))"

text \<open>\<open>big.Int.Div\<close> is Euclidean division and panics on a zero divisor (\<open>None\<close>).\<close>

definition big_Div :: "int \<Rightarrow> int \<Rightarrow> int option" where
  "big_Div x y = (if y = 0 then None else Some (if 0 < y then x div y else - (x div (- y))))"

text \<open>Go's \<open>copy(dst, src)\<close> on byte slices.\<close>

definition copy_into :: "bytes \<Rightarrow> bytes \<Rightarrow> bytes" where
  "copy_into dst src = take (length dst) src @ drop (length src) dst"

definition SetCompact :: "uint32 \<Rightarrow> int" where
  "SetCompact nCompact =
     (let size = drop_bit 24 nCompact;
          neg = (nCompact AND 0x00800000 \<noteq> 0);
          word = nCompact AND 0x007fffff;
          res = (if size \<le> 3 then uint (drop_bit (unat (8 * (3 - size))) word)
                 else push_bit (unat (8 * (size - 3))) (uint word))
      in if neg then - res else res)"

definition GetCompact :: "int \<Rightarrow> uint32" where
  "GetCompact b0 =
     (let size0 = of_nat (big_byte_len b0) :: uint32;
          (b, compact0) =
            (if size0 \<le> 3
             then (b0, ucast (push_bit (unat (8 * (3 - size0))) (word_of_int b0 :: uint64)))
             else let b' = drop_bit (unat (8 * (size0 - 3))) b0
                  in (b', ucast (word_of_int b' :: uint64)));
          (compact1, size1) =
            (if compact0 AND 0x00800000 \<noteq> 0 then (drop_bit 8 compact0, size0 + 1)
             else (compact0, size0));
          compact2 = compact1 OR push_bit 24 size1
      in if b < 0 then compact2 OR 0x00800000 else compact2)"

definition CompactToBig :: "uint32 \<Rightarrow> int" where
  "CompactToBig compact =
     (let mantissa = compact AND 0x007fffff;
          isNegative = (compact AND 0x00800000 \<noteq> 0);
          exponent = ucast (drop_bit 24 compact) :: uint64;
          bn = (if exponent \<le> 3
                then uint (drop_bit (unat (8 * (3 - exponent))) mantissa)
                else push_bit (unat (8 * (exponent - 3))) (uint mantissa))
      in if isNegative then - bn else bn)"

text \<open>\<open>n.Bits()[0]\<close>: the least significant machine word of the absolute value.\<close>

definition big_low_word :: "int \<Rightarrow> uint64" where
  "big_low_word n = word_of_int \<bar>n\<bar>"

definition BigToCompact :: "int \<Rightarrow> uint32" where
  "BigToCompact n =
     (if n = 0 then 0
      else let exponent0 = of_nat (big_byte_len n) :: uint64;
               mantissa0 =
                 (if exponent0 \<le> 3
                  then push_bit (unat (8 * (3 - exponent0))) (ucast (big_low_word n) :: uint32)
                  else ucast (big_low_word (drop_bit (unat (8 * (exponent0 - 3))) n)));
               (mantissa, exponent) =
                 (if mantissa0 AND 0x00800000 \<noteq> 0 then (drop_bit 8 mantissa0, exponent0 + 1)
                  else (mantissa0, exponent0));
               compact = ucast (push_bit 24 exponent) OR mantissa
           in if n < 0 then compact OR 0x00800000 else compact)"

definition CheckPOW :: "bytes \<Rightarrow> uint32 \<Rightarrow> bool" where
  "CheckPOW hash bits \<longleftrightarrow> int (be_nat hash) \<le> SetCompact bits"

text \<open>The in-place reversal loop of \<open>HashToBig\<close> and \<open>ChecReservekPOW\<close>.\<close>

function reverse_loop :: "nat \<Rightarrow> bytes \<Rightarrow> bytes" where
  "reverse_loop i buf =
     (let blen = length buf
      in if i < blen div 2
         then reverse_loop (Suc i) (buf[i := buf ! (blen - 1 - i), blen - 1 - i := buf ! i])
         else buf)"
  by pat_completeness auto
termination
  by (relation "measure (\<lambda>(i, buf). length buf div 2 - i)") auto

declare reverse_loop.simps [simp del]

text \<open>The reversed buffer is computed and then not used, as in the source.\<close>

definition ChecReservekPOW :: "bytes \<Rightarrow> uint32 \<Rightarrow> bool" where
  "ChecReservekPOW hash bits =
     (let buf = reverse_loop 0 (copy_into (replicate 32 0) hash)
      in int (be_nat hash) \<le> SetCompact bits)"

definition maxTarget :: int where
  "maxTarget = 0x00000000FFFFFFFFFFFFFFFFFFFFFFFFFFFFFFFFFFFFFFFFFFFFFFFFFFFFFFFF"

definition DiffToTarget :: "int \<Rightarrow> int option" where
  "DiffToTarget diff = big_Div maxTarget diff"

definition TargetToDiff :: "uint32 \<Rightarrow> int option" where
  "TargetToDiff target = (let bigTarget = SetCompact target in big_Div maxTarget bigTarget)"

definition CalcWork :: "uint32 \<Rightarrow> int" where
  "CalcWork bits =
     (let difficultyNum = CompactToBig bits
      in if difficultyNum \<le> 0 then 0 else 2 ^ 256 div (difficultyNum + 1))"

subsection \<open>Hashes\<close>

datatype hash_error = InvalidHashLength nat

definition HashSize :: nat where
  "HashSize = 32"

definition Hash_SetBytes :: "bytes \<Rightarrow> bytes \<Rightarrow> hash_error + bytes" where
  "Hash_SetBytes hash newHash =
     (let nhlen = length newHash
      in if nhlen \<noteq> HashSize then Inl (InvalidHashLength nhlen)
         else Inr (copy_into hash newHash))"

definition NewHash :: "bytes \<Rightarrow> hash_error + bytes" where
  "NewHash newHash = Hash_SetBytes (replicate HashSize 0) newHash"

definition HashToBig :: "bytes \<Rightarrow> int" where
  "HashToBig hash = int (be_nat (reverse_loop 0 hash))"

record Uint256 =
  Hash :: bytes

definition NewUint256 :: "bytes \<Rightarrow> Uint256" where
  "NewUint256 h = \<lparr>Hash = copy_into (replicate 32 0) h\<rparr>"

definition BigInt :: "Uint256 \<Rightarrow> int" where
  "BigInt u = int (be_nat (map (\<lambda>i. Hash u ! (31 - i)) [0..<32]))"

definition CheckProofOfWork :: "Uint256 \<Rightarrow> uint32 \<Rightarrow> bool" where
  "CheckProofOfWork hash bits \<longleftrightarrow> BigInt hash \<le> SetCompact bits"

text \<open>\<open>encoding/hex\<close>: the digits \<open>DecodeString\<close> accepts and \<open>%02x\<close> prints.\<close>

definition fromHexChar :: "char \<Rightarrow> nat option" where
  "fromHexChar c =
     (let n = of_char c
      in if 48 \<le> n \<and> n \<le> 57 then Some (n - 48)
         else if 97 \<le> n \<and> n \<le> 102 then Some (n - 87)
         else if 65 \<le> n \<and> n \<le> 70 then Some (n - 55)
         else None)"

fun hex_DecodeString :: "string \<Rightarrow> bytes option" where
  "hex_DecodeString [] = Some []"
| "hex_DecodeString [c] = None"
| "hex_DecodeString (c # d # s) =
     (case fromHexChar c of None \<Rightarrow> None
      | Some hi \<Rightarrow>
          (case fromHexChar d of None \<Rightarrow> None
           | Some lo \<Rightarrow> map_option (Cons (of_nat (16 * hi + lo))) (hex_DecodeString s)))"

definition hex_digit :: "nat \<Rightarrow> char" where
  "hex_digit n = (if n < 10 then char_of (48 + n) else char_of (87 + n))"

definition hex_byte :: "byte \<Rightarrow> string" where
  "hex_byte b = [hex_digit (unat b div 16), hex_digit (unat b mod 16)]"

definition NewUint256FromString :: "string \<Rightarrow> Uint256 option" where
  "NewUint256FromString s =
     (case hex_DecodeString s of
        None \<Rightarrow> None
      | Some d \<Rightarrow>
          (if length d \<noteq> 32 then None
           else Some \<lparr>Hash = fold (\<lambda>i h. h[31 - i := d ! i]) [0..<32] (replicate 32 0)\<rparr>))"

definition Uint256_String :: "Uint256 \<Rightarrow> string" where
  "Uint256_String u = concat (map (\<lambda>i. hex_byte (Hash u ! (31 - i))) [0..<32])"

section \<open>Arithmetic reading of the word operations\<close>

lemma mask23: "(0x007fffff :: uint32) = mask 23"
  by (simp add: mask_eq_exp_minus_1)

lemma unat_and_mantissa: "unat (c AND 0x007fffff) = unat c mod 2 ^ 23" for c :: uint32
proof -
  have "c AND 0x007fffff = take_bit 23 c"
    by (simp only: mask23 take_bit_eq_mask)
  then have "unat (c AND 0x007fffff) = take_bit 23 (unat c)"
    by (simp only: unsigned_take_bit_eq)
  then show ?thesis by (simp only: take_bit_eq_mod)
qed

lemma and_sign_bit: "c AND 0x00800000 \<noteq> 0 \<longleftrightarrow> odd (unat c div 2 ^ 23)" for c :: uint32
proof -
  have "(0x00800000 :: uint32) = push_bit 23 1"
    by (simp add: push_bit_eq_mult)
  then have "c AND 0x00800000 \<noteq> 0 \<longleftrightarrow> bit c 23"
    by (simp only: bit_iff_and_push_bit_not_eq_0)
  also have "\<dots> \<longleftrightarrow> bit (unat c) 23"
    by (simp add: bit_unsigned_iff)
  finally show ?thesis by (simp add: bit_iff_odd)
qed

lemma unat_exponent: "unat (drop_bit 24 c) = unat c div 2 ^ 24" for c :: uint32
  unfolding unat_drop_bit_eq by (rule drop_bit_eq_div)

lemma unat_uint32_less: "unat (c :: uint32) < 2 ^ 32"
proof -
  have "unat c < 2 ^ LENGTH(32)" by (rule unsigned_less)
  then show ?thesis by simp
qed

lemma unat_of_nat_uint32: "k < 2 ^ 32 \<Longrightarrow> unat (of_nat k :: uint32) = k"
  by (simp add: unat_of_nat take_bit_nat_eq_self)

lemma uint_drop_bit: "uint (drop_bit k w) = uint w div 2 ^ k" for w :: "'a::len word"
  unfolding uint_nat unat_drop_bit_eq by (simp add: drop_bit_eq_div zdiv_int)

lemma power2_8: "(2 :: 'a :: comm_semiring_1) ^ (8 * k) = 256 ^ k"
  by (simp add: power_mult)

lemma pow_256_eq: "(256 :: 'a :: comm_semiring_1) ^ k = 2 ^ (8 * k)"
  by (simp add: power_mult)

text \<open>The shift amounts do not wrap: the exponent is one byte.\<close>

lemma unat_of_nat_small:
  assumes "k < 2 ^ 16" and "16 \<le> LENGTH('a)"
  shows "unat (of_nat k :: 'a::len word) = k"
proof -
  have "(2::nat) ^ 16 \<le> 2 ^ LENGTH('a)" using assms(2) by (rule power_increasing) simp
  with assms(1) have "k < 2 ^ LENGTH('a)" by (rule less_le_trans)
  then show ?thesis by (simp only: unat_of_nat mod_less take_bit_nat_eq_self)
qed

lemma unat_shift_up:
  assumes "e < 256" "3 < e" and "16 \<le> LENGTH('a)"
  shows "unat (8 * (of_nat e - 3) :: 'a::len word) = 8 * (e - 3)"
proof -
  have eq: "(8 * (of_nat e - 3) :: 'a word) = of_nat (8 * (e - 3))"
    using assms by (simp add: of_nat_diff)
  show ?thesis unfolding eq using assms by (intro unat_of_nat_small) simp_all
qed

lemma unat_shift_down:
  assumes "e \<le> 3" and "16 \<le> LENGTH('a)"
  shows "unat (8 * (3 - of_nat e) :: 'a::len word) = 8 * (3 - e)"
proof -
  have eq: "(8 * (3 - of_nat e) :: 'a word) = of_nat (8 * (3 - e))"
    using assms by (simp add: of_nat_diff)
  show ?thesis unfolding eq using assms by (intro unat_of_nat_small) simp_all
qed

lemma len32_16: "16 \<le> LENGTH(32)" and len64_16: "16 \<le> LENGTH(64)"
  by simp_all

lemma of_nat_le_3:
  assumes "e < 256" and "16 \<le> LENGTH('a)"
  shows "(of_nat e :: 'a::len word) \<le> 3 \<longleftrightarrow> e \<le> 3"
  using unat_of_nat_small [of e, where 'a = 'a] unat_of_nat_small [of 3, where 'a = 'a] assms
  by (simp add: word_le_nat_alt)

text \<open>The value of a compact number, read off its three fields.\<close>

definition compact_value :: "nat \<Rightarrow> nat \<Rightarrow> nat" where
  "compact_value e m = (if e \<le> 3 then m div 256 ^ (3 - e) else m * 256 ^ (e - 3))"

lemma SetCompact_fields:
  "SetCompact c =
     (if odd (unat c div 2 ^ 23) then - 1 else 1) *
     int (compact_value (unat c div 2 ^ 24) (unat c mod 2 ^ 23))"
proof -
  define e where "e = unat c div 2 ^ 24"
  have e: "e < 256" using unat_uint32_less [of c] by (simp add: e_def)
  have size: "drop_bit 24 c = of_nat e"
    unfolding e_def unat_exponent [symmetric] by (simp only: of_nat_unat ucast_id)
  have m: "uint (c AND 0x007fffff) = int (unat c mod 2 ^ 23)"
    by (simp only: unat_and_mantissa [symmetric] uint_nat)
  have le3: "(of_nat e :: uint32) \<le> 3 \<longleftrightarrow> e \<le> 3"
    using e by (intro of_nat_le_3) simp_all
  define r where "r = (if (of_nat e :: uint32) \<le> 3
    then uint (drop_bit (unat (8 * (3 - of_nat e) :: uint32)) (c AND 0x007fffff))
    else push_bit (unat (8 * (of_nat e - 3) :: uint32)) (uint (c AND 0x007fffff)))"
  have "r = int (compact_value e (unat c mod 2 ^ 23))"
  proof (cases "e \<le> 3")
    case True
    then have "r = uint (drop_bit (8 * (3 - e)) (c AND 0x007fffff))"
      unfolding r_def le3 by (simp only: if_True) (subst unat_shift_down, simp_all)
    also have "\<dots> = int (unat c mod 2 ^ 23) div 256 ^ (3 - e)"
      unfolding uint_drop_bit m power2_8 ..
    finally show ?thesis using True by (simp add: compact_value_def zdiv_int)
  next
    case False
    then have "r = push_bit (8 * (e - 3)) (uint (c AND 0x007fffff))"
      unfolding r_def le3 using e by (simp only: if_False) (subst unat_shift_up, simp_all)
    also have "\<dots> = int (unat c mod 2 ^ 23) * 256 ^ (e - 3)"
      unfolding push_bit_eq_mult m power2_8 ..
    finally show ?thesis using False by (simp add: compact_value_def)
  qed
  moreover have "SetCompact c = (if odd (unat c div 2 ^ 23) then - r else r)"
    unfolding SetCompact_def Let_def size and_sign_bit r_def ..
  ultimately show ?thesis by (simp add: e_def)
qed

section \<open>What the encoders compute\<close>

text \<open>
  The three leading bytes of a number, and the exponent and mantissa the encoders pick: one byte
  more, and one byte of precision less, when the leading bit would read as the sign.
\<close>

definition top3 :: "nat \<Rightarrow> nat" where
  "top3 n = (let L = length (nat_bytes n)
             in if L \<le> 3 then n * 256 ^ (3 - L) else n div 256 ^ (L - 3))"

definition compact_exp :: "nat \<Rightarrow> nat" where
  "compact_exp n = (if top3 n < 2 ^ 23 then length (nat_bytes n) else Suc (length (nat_bytes n)))"

definition compact_mant :: "nat \<Rightarrow> nat" where
  "compact_mant n = (if top3 n < 2 ^ 23 then top3 n else top3 n div 256)"

lemma top3_less: "top3 n < 2 ^ 24"
proof -
  define L where "L = length (nat_bytes n)"
  have n: "n < 256 ^ L" unfolding L_def by (rule less_pow_length_nat_bytes)
  show ?thesis
  proof (cases "L \<le> 3")
    case True
    have "n * 256 ^ (3 - L) < 256 ^ L * 256 ^ (3 - L)"
      using n by (intro mult_strict_right_mono) simp_all
    also have "\<dots> = 256 ^ 3" using True by (simp add: power_add [symmetric])
    finally show ?thesis using True by (simp add: top3_def L_def Let_def)
  next
    case False
    then have "(256::nat) ^ L = 256 ^ 3 * 256 ^ (L - 3)" by (simp only: power_add [symmetric]) simp
    with n have "n div 256 ^ (L - 3) < 256 ^ 3" by (simp add: div_less_iff_less_mult)
    then show ?thesis using False by (simp add: top3_def L_def Let_def)
  qed
qed

lemma compact_mant_less: "compact_mant n < 2 ^ 23"
  using top3_less [of n] by (auto simp: compact_mant_def)

lemma or_disjoint_fields:
  assumes "m < 2 ^ 24"
  shows "push_bit 24 (of_nat e) OR of_nat m = (of_nat (e * 2 ^ 24 + m) :: uint32)"
proof -
  have "push_bit 24 (of_nat e) AND of_nat m = (0 :: uint32)"
  proof (rule bit_eqI)
    fix k
    show "bit (push_bit 24 (of_nat e) AND of_nat m :: uint32) k = bit (0 :: uint32) k"
      using assms bit_take_bit_iff [of 24 m k]
      by (auto simp: bit_and_iff bit_push_bit_iff bit_of_nat_iff take_bit_nat_eq_self)
  qed
  from disjunctive_add_eq_or [OF this]
  show ?thesis by (simp add: push_bit_eq_mult)
qed

lemma normalise_mantissa:
  assumes "m < 2 ^ 24"
  shows "(of_nat m :: uint32) AND 0x00800000 \<noteq> 0 \<longleftrightarrow> \<not> m < 2 ^ 23"
    and "drop_bit 8 (of_nat m :: uint32) = of_nat (m div 256)"
proof -
  have u: "unat (of_nat m :: uint32) = m"
    using assms by (simp add: unat_of_nat take_bit_nat_eq_self)
  show "(of_nat m :: uint32) AND 0x00800000 \<noteq> 0 \<longleftrightarrow> \<not> m < 2 ^ 23"
    unfolding and_sign_bit u using assms
    by (cases "m < 2 ^ 23") (auto simp: div_nat_eqI [of "2 ^ 23" 1 m, simplified])
  have "unat (drop_bit 8 (of_nat m :: uint32)) = m div 256"
    unfolding unat_drop_bit_eq u by (simp add: drop_bit_eq_div)
  then show "drop_bit 8 (of_nat m :: uint32) = of_nat (m div 256)"
    by (metis of_nat_unat ucast_id)
qed

lemma ucast_word_of_nat: "(ucast (of_nat n :: uint64) :: uint32) = of_nat n"
  by (rule bit_word_eqI) (simp add: bit_simps)

lemma word_of_nat_drop_bit:
  "word_of_int (drop_bit (8 * k) (int n)) = (of_nat (n div 256 ^ k) :: 'a::len word)"
proof -
  have "drop_bit (8 * k) (int n) = int (n div 256 ^ k)"
    unfolding drop_bit_eq_div power2_8 by (simp add: zdiv_int)
  then show ?thesis by simp
qed

text \<open>Both encoders start from the same three leading bytes.\<close>

lemma length_le_compact_exp: "length (nat_bytes n) \<le> compact_exp n"
  by (simp add: compact_exp_def)

lemma BigToCompact_mantissa:
  assumes "L = length (nat_bytes n)" "L < 256"
  shows "(if (of_nat L :: uint64) \<le> 3
          then push_bit (unat (8 * (3 - of_nat L) :: uint64)) (ucast (big_low_word (int n)) :: uint32)
          else ucast (big_low_word (drop_bit (unat (8 * (of_nat L - 3) :: uint64)) (int n))))
         = of_nat (top3 n)"
proof (cases "L \<le> 3")
  case True
  with assms(2) have "(of_nat L :: uint64) \<le> 3" "unat (8 * (3 - of_nat L) :: uint64) = 8 * (3 - L)"
    by (simp_all only: of_nat_le_3 unat_shift_down len64_16)
  with True show ?thesis
    by (simp only: if_True, simp add: big_low_word_def ucast_word_of_nat push_bit_eq_mult power2_8
        top3_def assms(1) [symmetric])
next
  case False
  have "\<bar>drop_bit (8 * (L - 3)) (int n)\<bar> = drop_bit (8 * (L - 3)) (int n)" by simp
  moreover from False assms(2)
  have "\<not> (of_nat L :: uint64) \<le> 3" "unat (8 * (of_nat L - 3) :: uint64) = 8 * (L - 3)"
    by (simp_all only: of_nat_le_3 unat_shift_up len64_16 not_le)
  ultimately show ?thesis using False
    by (simp only: if_False, simp add: big_low_word_def word_of_nat_drop_bit ucast_word_of_nat
        top3_def assms(1) [symmetric])
qed

lemma GetCompact_mantissa:
  assumes "L = length (nat_bytes n)" "L < 256"
  shows "(if (of_nat L :: uint32) \<le> 3
          then (int n, ucast (push_bit (unat (8 * (3 - of_nat L) :: uint32)) (word_of_int (int n) :: uint64)))
          else let b' = drop_bit (unat (8 * (of_nat L - 3) :: uint32)) (int n)
               in (b', ucast (word_of_int b' :: uint64)))
         = (int (if L \<le> 3 then n else n div 256 ^ (L - 3)), of_nat (top3 n) :: uint32)"
proof (cases "L \<le> 3")
  case True
  have "(ucast (push_bit (8 * (3 - L)) (of_nat n :: uint64)) :: uint32) = of_nat (n * 256 ^ (3 - L))"
    using ucast_word_of_nat [of "n * 256 ^ (3 - L)"] by (simp add: push_bit_eq_mult power2_8)
  moreover from True assms(2)
  have "(of_nat L :: uint32) \<le> 3" "unat (8 * (3 - of_nat L) :: uint32) = 8 * (3 - L)"
    by (simp_all only: of_nat_le_3 unat_shift_down len32_16)
  ultimately show ?thesis using True
    by (simp only: if_True, simp add: top3_def assms(1) [symmetric])
next
  case False
  have "drop_bit (8 * (L - 3)) (int n) = int (n div 256 ^ (L - 3))"
    unfolding drop_bit_eq_div power2_8 by (simp add: zdiv_int)
  moreover from False assms(2)
  have "\<not> (of_nat L :: uint32) \<le> 3" "unat (8 * (of_nat L - 3) :: uint32) = 8 * (L - 3)"
    by (simp_all only: of_nat_le_3 unat_shift_up len32_16 not_le)
  ultimately show ?thesis using False
    by (simp only: if_False, simp add: ucast_word_of_nat top3_def assms(1) [symmetric])
qed

lemma BigToCompact_fields:
  assumes "0 < n" "compact_exp n < 256"
  shows "BigToCompact (int n) = of_nat (compact_exp n * 2 ^ 24 + compact_mant n)"
proof -
  define L where "L = length (nat_bytes n)"
  have L: "L < 256" using assms(2) length_le_compact_exp [of n] by (simp add: L_def)
  note t = top3_less [of n]
  have m: "compact_mant n < 2 ^ 24" using compact_mant_less [of n] by simp
  have len: "big_byte_len (int n) = L" by (simp add: big_byte_len_def L_def)
  have shift: "ucast (push_bit 24 (of_nat e :: uint64)) = push_bit 24 (of_nat e :: uint32)" for e
    by (rule bit_word_eqI) (auto simp: bit_simps)
  have "BigToCompact (int n) = push_bit 24 (of_nat (compact_exp n)) OR of_nat (compact_mant n)"
    using assms(1)
    by (simp add: BigToCompact_def Let_def len BigToCompact_mantissa [OF L_def L]
        normalise_mantissa [OF t] shift shift [of "Suc L", simplified, unfolded add.commute [of 1]]
        compact_exp_def compact_mant_def L_def [symmetric] add.commute [of 1])
  then show ?thesis using or_disjoint_fields [OF m] by simp
qed

text \<open>
  The exponent is the number of bytes of \<open>2 * n\<close>: the bytes of \<open>n\<close> with room for the sign bit.
\<close>

lemma top3_less_iff: "top3 n < 2 ^ 23 \<longleftrightarrow> 2 * n < 256 ^ length (nat_bytes n)"
proof (cases "length (nat_bytes n) \<le> 3")
  case True
  define d where "d = 3 - length (nat_bytes n)"
  have "top3 n < 2 ^ 23 \<longleftrightarrow> 2 * n * 256 ^ d < 256 ^ 3"
    using True by (simp add: top3_def d_def)
  also have "(256::nat) ^ 3 = 256 ^ length (nat_bytes n) * 256 ^ d"
    using True by (simp only: d_def power_add [symmetric]) simp
  finally show ?thesis by simp
next
  case False
  define d where "d = length (nat_bytes n) - 3"
  have "top3 n < 2 ^ 23 \<longleftrightarrow> n < 2 ^ 23 * 256 ^ d"
    using False by (simp add: top3_def d_def div_less_iff_less_mult)
  also have "\<dots> \<longleftrightarrow> 2 * n < 256 ^ 3 * 256 ^ d" by simp
  also have "(256::nat) ^ 3 * 256 ^ d = 256 ^ length (nat_bytes n)"
    using False by (simp only: d_def power_add [symmetric]) simp
  finally show ?thesis .
qed

lemma compact_exp_alt:
  "compact_exp n = (if 2 * n < 256 ^ length (nat_bytes n) then length (nat_bytes n)
                    else Suc (length (nat_bytes n)))"
  unfolding compact_exp_def top3_less_iff ..

lemma compact_exp_eq: "compact_exp n = length (nat_bytes (2 * n))"
proof (cases "n = 0")
  case True
  then show ?thesis by (simp add: compact_exp_def top3_def)
next
  case False
  define L where "L = length (nat_bytes n)"
  have lo: "256 ^ (L - 1) \<le> n" and hi: "n < 256 ^ L" and pos: "0 < L"
    using False length_nat_bytes_ge [of n] less_pow_length_nat_bytes [of n]
    by (auto simp: L_def)
  have le: "length (nat_bytes (2 * n)) \<le> k \<longleftrightarrow> 2 * n < 256 ^ k" for k
    by (rule length_nat_bytes_le)
  show ?thesis
  proof (cases "2 * n < 256 ^ L")
    case True
    moreover have "\<not> 2 * n < 256 ^ (L - 1)" using lo by simp
    ultimately show ?thesis
      using le [of L] le [of "L - 1"] pos
      by (simp add: compact_exp_alt L_def [symmetric])
  next
    case False
    moreover have "2 * n < 256 ^ Suc L" using hi by simp
    ultimately show ?thesis
      using le [of L] le [of "Suc L"]
      by (simp add: compact_exp_alt L_def [symmetric])
  qed
qed

text \<open>Rounding down to the precision of the format.\<close>

definition compact_floor :: "nat \<Rightarrow> nat" where
  "compact_floor n = (let k = length (nat_bytes (2 * n)) - 3 in n div 256 ^ k * 256 ^ k)"

lemma compact_value_fields: "compact_value (compact_exp n) (compact_mant n) = compact_floor n"
proof -
  define L where "L = length (nat_bytes n)"
  have floor: "compact_floor n = n div 256 ^ (compact_exp n - 3) * 256 ^ (compact_exp n - 3)"
    by (simp add: compact_floor_def compact_exp_eq Let_def)
  have t: "top3 n = (if L \<le> 3 then n * 256 ^ (3 - L) else n div 256 ^ (L - 3))"
    by (simp add: top3_def L_def)
  show ?thesis
  proof (cases "top3 n < 2 ^ 23")
    case True
    then show ?thesis
      by (simp add: floor compact_value_def compact_exp_def compact_mant_def L_def [symmetric] t)
  next
    case False
    show ?thesis
    proof (cases "L < 3")
      case True
      then have "3 - L = Suc (2 - L)" by simp
      then have "(256::nat) ^ (3 - L) = 256 * 256 ^ (2 - L)" by simp
      with True False show ?thesis
        by (simp add: floor compact_value_def compact_exp_def compact_mant_def L_def [symmetric] t)
    next
      case L: False
      then have "L - 2 = Suc (L - 3)" by simp
      then have "n div 256 ^ (L - 3) div 256 = n div 256 ^ (L - 2)"
        by (simp only: div_mult2_eq power_Suc2)
      moreover have "top3 n = n div 256 ^ (L - 3)" using L t by (cases "L = 3") auto
      ultimately show ?thesis using False L
        by (simp add: floor compact_value_def compact_exp_def compact_mant_def L_def [symmetric])
    qed
  qed
qed

lemma unat_fields:
  assumes "e < 256" "m < 2 ^ 23"
  defines "c \<equiv> of_nat (e * 2 ^ 24 + m) :: uint32"
  shows "unat c div 2 ^ 24 = e" "unat c mod 2 ^ 23 = m" "even (unat c div 2 ^ 23)"
proof -
  have "e * 2 ^ 24 + m < 2 ^ 32" using assms(1,2) by simp
  then have u: "unat c = e * 2 ^ 24 + m"
    unfolding c_def by (rule unat_of_nat_uint32)
  then have u': "unat c = m + 2 * e * 2 ^ 23" by simp
  show "unat c div 2 ^ 24 = e" unfolding u using assms(2) by simp
  show "unat c mod 2 ^ 23 = m" unfolding u' mod_mult_self1 using assms(2) by simp
  have "unat c div 2 ^ 23 = 2 * e"
    unfolding u' using assms(2) by simp
  then show "even (unat c div 2 ^ 23)" by simp
qed

section \<open>Decoding after encoding\<close>

lemma compact_exp_bound: "n < 256 ^ 254 \<Longrightarrow> compact_exp n < 256"
  using length_nat_bytes_le [of "2 * n" 255] by (simp add: compact_exp_eq)

lemma SetCompact_BigToCompact:
  assumes "n < 256 ^ 254"
  shows "SetCompact (BigToCompact (int n)) = int (compact_floor n)"
proof (cases "n = 0")
  case True
  then show ?thesis by (simp add: BigToCompact_def SetCompact_def compact_floor_def)
next
  case False
  have e: "compact_exp n < 256" using assms by (rule compact_exp_bound)
  with False have "BigToCompact (int n) = of_nat (compact_exp n * 2 ^ 24 + compact_mant n)"
    by (intro BigToCompact_fields) simp_all
  then show ?thesis
    unfolding SetCompact_fields
    by (simp only: unat_fields [OF e compact_mant_less] compact_value_fields if_False) simp
qed

lemma GetCompact_eq_BigToCompact:
  assumes "n < 256 ^ 254"
  shows "GetCompact (int n) = BigToCompact (int n)"
proof (cases "n = 0")
  case True
  then show ?thesis by (simp add: GetCompact_def BigToCompact_def big_byte_len_def)
next
  case False
  have e: "compact_exp n < 256" using assms by (rule compact_exp_bound)
  define L where "L = length (nat_bytes n)"
  have L: "L < 256" using e length_le_compact_exp [of n] by (simp add: L_def)
  have len: "big_byte_len (int n) = L" by (simp add: big_byte_len_def L_def)
  have m: "compact_mant n < 2 ^ 24" using compact_mant_less [of n] by simp
  have "GetCompact (int n) = of_nat (compact_mant n) OR push_bit 24 (of_nat (compact_exp n))"
    unfolding GetCompact_def len Let_def [of "of_nat L :: uint32"] GetCompact_mantissa [OF L_def L]
    by (simp add: Let_def normalise_mantissa [OF top3_less] compact_exp_def
        compact_mant_def L_def [symmetric] add.commute [of 1])
  also have "\<dots> = of_nat (compact_exp n * 2 ^ 24 + compact_mant n)"
    using or_disjoint_fields [OF m] by (simp only: or.commute)
  also have "\<dots> = BigToCompact (int n)"
    using BigToCompact_fields [of n] False e by simp
  finally show ?thesis .
qed

lemma CompactToBig_eq_SetCompact: "CompactToBig c = SetCompact c"
proof -
  define e where "e = unat c div 2 ^ 24"
  have e: "e < 256" using unat_uint32_less [of c] by (simp add: e_def)
  have size: "drop_bit 24 c = of_nat e"
    unfolding e_def unat_exponent [symmetric] by (simp only: of_nat_unat ucast_id)
  have exp: "(ucast (of_nat e :: uint32) :: uint64) = of_nat e"
    using e by (simp add: unsigned_of_nat take_bit_nat_eq_self)
  note le3 = of_nat_le_3 [OF e len32_16] of_nat_le_3 [OF e len64_16]
  show ?thesis
  proof (cases "e \<le> 3")
    case True
    then show ?thesis
      unfolding CompactToBig_def SetCompact_def Let_def size exp le3
      by (simp only: unat_shift_down [OF True len32_16] unat_shift_down [OF True len64_16] if_True)
  next
    case False
    then have "3 < e" by simp
    with False show ?thesis
      unfolding CompactToBig_def SetCompact_def Let_def size exp le3
      by (simp only: unat_shift_up [OF e _ len32_16] unat_shift_up [OF e _ len64_16] if_False)
  qed
qed

lemma compact_floor_le: "compact_floor n \<le> n"
  by (simp add: compact_floor_def Let_def)

lemma compact_floor_mult:
  "compact_floor n = n div 256 ^ (compact_exp n - 3) * 256 ^ (compact_exp n - 3)"
  by (simp add: compact_floor_def compact_exp_eq Let_def)

lemma compact_floor_small: "compact_exp n \<le> 3 \<Longrightarrow> compact_floor n = n"
  by (simp add: compact_floor_mult)

text \<open>The leading 15 bits always survive.\<close>

lemma compact_mantissa_ge:
  assumes "3 < compact_exp n"
  shows "2 ^ 15 \<le> n div 256 ^ (compact_exp n - 3)"
proof -
  define k where "k = compact_exp n - 3"
  have "compact_exp n - 1 = Suc (Suc k)" using assms by (simp add: k_def)
  moreover have "256 ^ (compact_exp n - 1) \<le> 2 * n"
    using assms length_nat_bytes_ge [of "2 * n"] by (cases "n = 0") (auto simp: compact_exp_eq)
  ultimately have "2 ^ 15 * 256 ^ k \<le> n" by simp
  then show ?thesis by (simp add: k_def [symmetric] less_eq_div_iff_mult_less_eq)
qed

lemma compact_floor_error: "(n - compact_floor n) * 2 ^ 15 \<le> n"
proof (cases "compact_exp n \<le> 3")
  case False
  define q where "q = n div 256 ^ (compact_exp n - 3)"
  define p where "p = (256::nat) ^ (compact_exp n - 3)"
  have "n - q * p = n mod p" unfolding q_def p_def by (simp add: minus_div_mult_eq_mod)
  moreover have "n mod p < p" by (simp add: p_def)
  moreover have "2 ^ 15 \<le> q" using False compact_mantissa_ge [of n] by (simp add: q_def)
  ultimately have "(n - q * p) * 2 ^ 15 \<le> p * q"
    by (intro mult_mono) simp_all
  also have "p * q \<le> n" unfolding q_def p_def by (simp add: mult.commute)
  finally show ?thesis by (simp add: compact_floor_mult q_def p_def)
qed (simp add: compact_floor_small)

lemma compact_exp_floor: "compact_exp (compact_floor n) = compact_exp n"
proof (cases "compact_exp n \<le> 3")
  case True
  then show ?thesis by (simp add: compact_floor_small)
next
  case False
  define k where "k = compact_exp n - 3"
  have e: "compact_exp n = Suc (Suc (Suc k))" using False by (simp add: k_def)
  have "2 * n < 256 ^ compact_exp n"
    using less_pow_length_nat_bytes [of "2 * n"] by (simp add: compact_exp_eq)
  then have hi: "2 * compact_floor n < 256 ^ compact_exp n"
    using compact_floor_le [of n] by simp
  have "2 ^ 15 * 256 ^ k \<le> compact_floor n"
    using compact_mantissa_ge [of n] False
    by (simp add: compact_floor_mult k_def [symmetric] del: power_Suc)
  then have "\<not> 2 * compact_floor n < 256 ^ Suc (Suc k)" by simp
  then show ?thesis
    using hi length_nat_bytes_le [of "2 * compact_floor n" "compact_exp n"]
      length_nat_bytes_le [of "2 * compact_floor n" "Suc (Suc k)"]
    by (simp add: compact_exp_eq [of "compact_floor n"] e del: power_Suc)
qed

lemma compact_floor_idem: "compact_floor (compact_floor n) = compact_floor n"
  unfolding compact_floor_mult [of "compact_floor n"] compact_exp_floor
  by (simp add: compact_floor_mult)

lemma compact_exp_mono: "m \<le> n \<Longrightarrow> compact_exp m \<le> compact_exp n"
  using less_pow_length_nat_bytes [of "2 * n"]
  by (simp add: compact_exp_eq length_nat_bytes_le)

lemma compact_floor_mono:
  assumes "m \<le> n"
  shows "compact_floor m \<le> compact_floor n"
proof (cases "compact_exp m = compact_exp n")
  case True
  with assms show ?thesis by (simp add: compact_floor_mult div_le_mono)
next
  case False
  with assms have lt: "compact_exp m < compact_exp n"
    using compact_exp_mono [of m n] by simp
  show ?thesis
  proof (cases "compact_exp n \<le> 3")
    case True
    with lt assms show ?thesis by (simp add: compact_floor_small)
  next
    case False
    define k where "k = compact_exp n - 3"
    have "2 * m < 256 ^ compact_exp m"
      using less_pow_length_nat_bytes [of "2 * m"] by (simp add: compact_exp_eq)
    also have "\<dots> \<le> 256 ^ Suc (Suc k)"
      using lt False by (intro power_increasing) (simp_all add: k_def)
    finally have "m \<le> 2 ^ 15 * 256 ^ k" by simp
    also have "\<dots> \<le> compact_floor n"
      using compact_mantissa_ge [of n] False by (simp add: compact_floor_mult k_def [symmetric])
    finally show ?thesis using compact_floor_le [of m] by simp
  qed
qed

lemma compact_mant_floor: "compact_mant (compact_floor n) = compact_mant n"
proof (cases "compact_exp n \<le> 3")
  case False
  have "compact_value (compact_exp n) (compact_mant (compact_floor n)) =
    compact_value (compact_exp n) (compact_mant n)"
    using compact_value_fields [of "compact_floor n"]
    by (simp add: compact_exp_floor compact_floor_idem compact_value_fields)
  with False show ?thesis by (simp add: compact_value_def)
qed (simp add: compact_floor_small)

lemma BigToCompact_floor:
  assumes "n < 256 ^ 254"
  shows "BigToCompact (int (compact_floor n)) = BigToCompact (int n)"
proof (cases "n = 0")
  case False
  have e: "compact_exp n < 256" using assms by (rule compact_exp_bound)
  have "compact_exp n \<noteq> 0" using False by (simp add: compact_exp_eq)
  then have "compact_floor n \<noteq> 0"
    using compact_exp_floor [of n] by (metis compact_exp_eq mult_0_right nat_bytes_0 list.size(3))
  with False e show ?thesis
    by (subst (1 2) BigToCompact_fields) (simp_all add: compact_exp_floor compact_mant_floor)
qed (simp add: compact_floor_def)

section \<open>Hashes as numbers\<close>

lemma reverse_loop_nth:
  "length (reverse_loop i buf) = length buf \<and>
   (\<forall>j < length buf. reverse_loop i buf ! j =
      (if i \<le> j \<and> j < length buf - i then buf ! (length buf - 1 - j) else buf ! j))"
proof (induction i buf rule: reverse_loop.induct)
  case (1 i buf)
  define n where "n = length buf"
  show ?case
  proof (cases "i < n div 2")
    case True
    define buf' where "buf' = buf[i := buf ! (n - 1 - i), n - 1 - i := buf ! i]"
    have len: "length buf' = n" by (simp add: buf'_def n_def)
    have step: "reverse_loop i buf = reverse_loop (Suc i) buf'"
      using True by (subst reverse_loop.simps) (simp add: Let_def buf'_def n_def)
    have nth: "buf' ! j = (if j = i \<or> j = n - 1 - i then buf ! (n - 1 - j) else buf ! j)"
      if "j < n" for j
      using True that by (auto simp: buf'_def n_def nth_list_update)
    have IH: "length (reverse_loop (Suc i) buf') = n \<and>
      (\<forall>j < n. reverse_loop (Suc i) buf' ! j =
        (if Suc i \<le> j \<and> j < n - Suc i then buf' ! (n - 1 - j) else buf' ! j))"
      using 1 True len by (simp add: buf'_def n_def)
    show ?thesis
    proof (intro conjI allI impI)
      show "length (reverse_loop i buf) = length buf" using IH step by (simp add: n_def)
      fix j assume "j < length buf"
      then have j: "j < n" by (simp add: n_def)
      consider "Suc i \<le> j \<and> j < n - Suc i" | "j = i \<or> j = n - 1 - i" | "j < i \<or> n - 1 - i < j"
        by linarith
      then show "reverse_loop i buf ! j =
        (if i \<le> j \<and> j < length buf - i then buf ! (length buf - 1 - j) else buf ! j)"
      proof cases
        case 1
        then have "reverse_loop i buf ! j = buf' ! (n - 1 - j)" using IH j by (simp add: step)
        also have "\<dots> = buf ! (n - 1 - j)" using 1 j by (subst nth) auto
        finally show ?thesis using 1 by (auto simp: n_def [symmetric])
      next
        case 2
        then have "reverse_loop i buf ! j = buf' ! j" using IH j by (auto simp: step)
        also have "\<dots> = buf ! (n - 1 - j)" using 2 j by (simp add: nth)
        finally show ?thesis using 2 j True by (auto simp: n_def [symmetric])
      next
        case 3
        then have "reverse_loop i buf ! j = buf' ! j" using IH j by (auto simp: step)
        also have "\<dots> = buf ! j" using 3 j True by (subst nth) auto
        finally show ?thesis using 3 j by (auto simp: n_def [symmetric])
      qed
    qed
  next
    case False
    then have "reverse_loop i buf = buf" by (subst reverse_loop.simps) (simp add: Let_def n_def)
    moreover have "buf ! (n - 1 - j) = buf ! j" if "i \<le> j" "j < n - i" for j
    proof -
      from False that have "n - 1 - j = j" by linarith
      then show ?thesis by simp
    qed
    ultimately show ?thesis by (simp add: n_def)
  qed
qed

lemma reverse_loop_rev: "reverse_loop 0 buf = rev buf"
  using reverse_loop_nth [of 0 buf] by (intro nth_equalityI) (auto simp: rev_nth)

lemma copy_into_same_length: "length src = length dst \<Longrightarrow> copy_into dst src = src"
  by (simp add: copy_into_def)

lemma map_rev_index_gen: "length xs = n \<Longrightarrow> map (\<lambda>i. xs ! (n - 1 - i)) [0..<n] = rev xs"
  by (intro nth_equalityI) (auto simp: rev_nth)

lemma map_rev_index: "length xs = 32 \<Longrightarrow> map (\<lambda>i. xs ! (31 - i)) [0..<32] = rev xs"
  using map_rev_index_gen [of xs 32] by (simp only: diff_numeral_special num.simps) simp

lemma BigInt_NewUint256: "length h = 32 \<Longrightarrow> BigInt (NewUint256 h) = int (be_nat (rev h))"
  by (simp only: BigInt_def NewUint256_def Uint256.simps copy_into_same_length length_replicate
      map_rev_index)

lemma replicate_update: "(replicate (Suc k) a @ ys)[k := v] = replicate k a @ v # ys"
  by (induction k) simp_all

lemma fold_rev_update:
  assumes "n \<le> length d"
  shows "fold (\<lambda>i h. h[length d - 1 - i := d ! i]) [0..<n] (replicate (length d) 0) =
    replicate (length d - n) 0 @ rev (take n d)"
  using assms
proof (induction n)
  case (Suc n)
  define k where "k = length d - Suc n"
  have k: "length d - n = Suc k" using Suc.prems by (simp add: k_def)
  have "fold (\<lambda>i h. h[length d - 1 - i := d ! i]) [0..<Suc n] (replicate (length d) 0) =
      (replicate (length d - n) 0 @ rev (take n d))[k := d ! n]"
    using Suc by (simp add: k_def)
  also have "\<dots> = replicate k 0 @ d ! n # rev (take n d)"
    unfolding k by (rule replicate_update)
  finally show ?case using Suc.prems by (simp add: take_Suc_conv_app_nth k_def)
qed simp

lemma fromHexChar_hex_digit: "n < 16 \<Longrightarrow> fromHexChar (hex_digit n) = Some n"
  by (auto simp: fromHexChar_def hex_digit_def Let_def)

lemma hex_DecodeString_bytes: "hex_DecodeString (concat (map hex_byte bs)) = Some bs"
proof (induction bs)
  case (Cons b bs)
  have "unat b div 16 < 16" using unat_byte_less [of b] by (intro less_mult_imp_div_less) simp
  moreover have "(of_nat (16 * (unat b div 16) + unat b mod 16) :: byte) = b"
    by (simp only: mult_div_mod_eq of_nat_unat ucast_id)
  ultimately show ?case
    using Cons by (simp add: hex_byte_def fromHexChar_hex_digit del: of_nat_add of_nat_mult)
qed simp

section \<open>Properties\<close>

lemma SetCompact_GetCompact:
  assumes "0 \<le> t" "t < 256 ^ 254"
  shows "SetCompact (GetCompact t) = int (compact_floor (nat t))"
proof -
  obtain n where t: "t = int n" using assms(1) nonneg_int_cases by blast
  have "n < 256 ^ 254" using assms(2) t by simp
  then show ?thesis by (simp only: t GetCompact_eq_BigToCompact SetCompact_BigToCompact nat_int)
qed

text \<open>C34: For every target from zero up to \<open>256 ^ 254\<close>, packing it with \<open>GetCompact\<close> and unpacking it
  with \<open>SetCompact\<close> gives the target rounded down to the precision of the format: never more
  than the target, and short of it by at most one part in \<open>2 ^ 15\<close>. Packing the
  unpacked target again gives the same 32 bits.\<close>

theorem compact_target_roundtrip:
  assumes "0 \<le> t" "t < 256 ^ 254"
  shows "SetCompact (GetCompact t) \<le> t \<and> (t - SetCompact (GetCompact t)) * 2 ^ 15 \<le> t \<and>
    GetCompact (SetCompact (GetCompact t)) = GetCompact t"
proof -
  obtain n where t: "t = int n" using assms(1) nonneg_int_cases by blast
  have n: "n < 256 ^ 254" using assms(2) t by simp
  have floor: "compact_floor n < 256 ^ 254" using n compact_floor_le [of n] by (rule le_less_trans [rotated])
  have dec: "SetCompact (GetCompact t) = int (compact_floor n)"
    using SetCompact_GetCompact [OF assms] by (simp add: t)
  have "int ((n - compact_floor n) * 2 ^ 15) \<le> int n"
    using compact_floor_error [of n] by (simp only: of_nat_le_iff)
  then have "(int n - int (compact_floor n)) * 2 ^ 15 \<le> int n"
    using compact_floor_le [of n] by (simp add: of_nat_diff)
  moreover have "GetCompact (int (compact_floor n)) = GetCompact t"
    using GetCompact_eq_BigToCompact [OF floor] GetCompact_eq_BigToCompact [OF n]
      BigToCompact_floor [OF n] by (simp only: t)
  ultimately show ?thesis
    using compact_floor_le [of n] unfolding dec by (simp add: t)
qed

theorem compact_target_roundtrip_witness:
  "SetCompact (GetCompact 0x1234567890) \<le> 0x1234567890 \<and>
   (0x1234567890 - SetCompact (GetCompact 0x1234567890)) * 2 ^ 15 \<le> 0x1234567890 \<and>
   GetCompact (SetCompact (GetCompact 0x1234567890)) = GetCompact 0x1234567890"
  by (rule compact_target_roundtrip) simp_all

text \<open>C36: The two encoders and the two decoders of the file are interchangeable on targets: \<open>GetCompact\<close>
  and \<open>BigToCompact\<close> pack every number from zero up to \<open>256 ^ 254\<close> to the same bits, and
  \<open>SetCompact\<close> and \<open>CompactToBig\<close> read all 32-bit patterns alike.\<close>

theorem compact_codecs_agree:
  assumes "0 \<le> t" "t < 256 ^ 254"
  shows "GetCompact t = BigToCompact t \<and> CompactToBig c = SetCompact c"
proof -
  obtain n where t: "t = int n" using assms(1) nonneg_int_cases by blast
  with assms(2) have "n < 256 ^ 254" by simp
  then show ?thesis
    using GetCompact_eq_BigToCompact CompactToBig_eq_SetCompact by (simp only: t)
qed

theorem compact_codecs_agree_witness:
  "GetCompact 77777 = BigToCompact 77777 \<and> CompactToBig 0x1d00ffff = SetCompact 0x1d00ffff"
  by (rule compact_codecs_agree) simp_all

text \<open>C35: A hash that passes \<open>CheckPOW\<close> against the packed form of a target is, as a number, at most
  that target, so packing a target into a header never admits a block the target excludes. Every
  hash at most the target less one part in \<open>2 ^ 15\<close> is still admitted, and raising the target
  never rejects a hash it admitted before.\<close>

theorem CheckPOW_packed_target:
  assumes "0 \<le> t" "t \<le> t'" "t' < 256 ^ 254"
  shows "(CheckPOW h (GetCompact t) \<longrightarrow> int (be_nat h) \<le> t) \<and>
    (int (be_nat h) \<le> t - t div 2 ^ 15 \<longrightarrow> CheckPOW h (GetCompact t)) \<and>
    (CheckPOW h (GetCompact t) \<longrightarrow> CheckPOW h (GetCompact t'))"
proof -
  obtain n where t: "t = int n" using assms(1) nonneg_int_cases by blast
  obtain n' where t': "t' = int n'" using assms(1,2) nonneg_int_cases by (meson order_trans)
  have dec: "SetCompact (GetCompact t) = int (compact_floor n)"
    "SetCompact (GetCompact t') = int (compact_floor n')"
    using SetCompact_GetCompact [of t] SetCompact_GetCompact [of t'] assms by (simp_all add: t t')
  have "n - compact_floor n \<le> n div 2 ^ 15"
    using compact_floor_error [of n] by (simp add: less_eq_div_iff_mult_less_eq)
  then have "int n - int n div 2 ^ 15 \<le> int (compact_floor n)"
    using compact_floor_le [of n] by (simp add: zdiv_int [symmetric])
  moreover have "compact_floor n \<le> compact_floor n'"
    using assms(2) by (intro compact_floor_mono) (simp add: t t')
  ultimately show ?thesis
    unfolding CheckPOW_def dec using compact_floor_le [of n] by (auto simp: t)
qed

theorem CheckPOW_packed_target_witness:
  "CheckPOW [0x12, 0x34] (GetCompact 0x1234567) \<and> int (be_nat [0x12, 0x34]) \<le> 0x1234567 \<and>
   CheckPOW [0x12, 0x34] (GetCompact 0x7654321)"
  using CheckPOW_packed_target [of "0x1234567" "0x7654321" "[0x12, 0x34]"] by (simp add: be_nat_def)

text \<open>C37: For a difficulty from 1 up to the maximal target, \<open>DiffToTarget\<close> and \<open>TargetToDiff\<close> do not
  panic on the way difficulty, target, packed target, difficulty, and the difficulty read back is
  at least the one asked for.\<close>

theorem difficulty_not_lowered:
  assumes "0 < d" "d \<le> maxTarget"
  shows "\<exists>t d'. DiffToTarget d = Some t \<and> TargetToDiff (GetCompact t) = Some d' \<and> d \<le> d'"
proof -
  define t where "t = maxTarget div d"
  have td: "t * d \<le> maxTarget"
    using minus_mod_eq_div_mult [of maxTarget d] pos_mod_sign [OF assms(1), of maxTarget]
    unfolding t_def by linarith
  have t: "0 < t" using assms by (simp add: t_def pos_imp_zdiv_pos_iff)
  have "t * 1 \<le> t * d" using t assms(1) by (intro mult_left_mono) simp_all
  also have "\<dots> < 256 ^ 254" using td by (simp add: maxTarget_def)
  finally have tb: "t < 256 ^ 254" by simp
  define f where "f = SetCompact (GetCompact t)"
  have f: "f = int (compact_floor (nat t))" using SetCompact_GetCompact [of t] t tb by (simp add: f_def)
  have ft: "f \<le> t" using compact_floor_le [of "nat t"] t by (simp add: f)
  have f0: "0 < f"
    using compact_floor_error [of "nat t"] t by (cases "compact_floor (nat t) = 0") (simp_all add: f)
  have "f * d \<le> t * d" using ft assms(1) by (intro mult_right_mono) simp_all
  with td have "f * d \<le> maxTarget" by simp
  then have "f * d div f \<le> maxTarget div f" using f0 by (rule zdiv_mono1)
  then have "d \<le> maxTarget div f" using f0 by simp
  moreover have "TargetToDiff (GetCompact t) = Some (maxTarget div f)"
    using f0 by (simp add: TargetToDiff_def big_Div_def f_def Let_def)
  moreover have "DiffToTarget d = Some t" using assms(1) by (simp add: DiffToTarget_def big_Div_def t_def)
  ultimately show ?thesis by blast
qed

theorem difficulty_not_lowered_witness:
  "\<exists>t d'. DiffToTarget 1000000 = Some t \<and> TargetToDiff (GetCompact t) = Some d' \<and> 1000000 \<le> d'"
  by (rule difficulty_not_lowered) (simp_all add: maxTarget_def)

text \<open>\<open>DiffToTarget\<close> panics exactly on difficulty zero. A difficulty above the maximal target gives
  the target zero, whose packed form makes \<open>TargetToDiff\<close> panic on a division by zero;
  \<open>TargetToDiff\<close> panics exactly on packed targets whose value is zero.\<close>

theorem difficulty_panics:
  "(DiffToTarget d = None \<longleftrightarrow> d = 0) \<and>
   (TargetToDiff c = None \<longleftrightarrow> SetCompact c = 0) \<and>
   DiffToTarget (maxTarget + 1) = Some 0 \<and> TargetToDiff (GetCompact 0) = None"
proof -
  have "SetCompact (GetCompact 0) = 0"
    using SetCompact_GetCompact [of 0] by (simp add: compact_floor_def)
  then show ?thesis
    by (simp add: DiffToTarget_def TargetToDiff_def big_Div_def maxTarget_def Let_def)
qed

text \<open>C38: The work of a block with a positive target is the largest number \<open>w\<close> with
  \<open>w * (target + 1) \<le> 2 ^ 256\<close>, and a harder (smaller) target never has less work.\<close>

theorem CalcWork_inverse_target:
  assumes "0 < SetCompact bits" "SetCompact bits \<le> SetCompact bits'"
  shows "CalcWork bits * (SetCompact bits + 1) \<le> 2 ^ 256 \<and>
    2 ^ 256 < (CalcWork bits + 1) * (SetCompact bits + 1) \<and>
    CalcWork bits' \<le> CalcWork bits"
proof -
  define b where "b = SetCompact bits + 1"
  define N where "N = (2::int) ^ 256"
  have work: "CalcWork c = (if SetCompact c \<le> 0 then 0 else N div (SetCompact c + 1))" for c
    unfolding CalcWork_def CompactToBig_eq_SetCompact Let_def N_def ..
  have b: "0 < b" using assms(1) by (simp add: b_def)
  have "N div b * b \<le> N \<and> N < (N div b + 1) * b"
    using minus_mod_eq_div_mult [of N b] pos_mod_bound [OF b, of N] pos_mod_sign [OF b, of N]
    by (simp only: distrib_right) linarith
  moreover have "N div (SetCompact bits' + 1) \<le> N div b"
    using assms b by (intro zdiv_mono2) (simp_all add: N_def b_def)
  ultimately show ?thesis
    using assms unfolding work N_def [symmetric] b_def by simp
qed

theorem CalcWork_inverse_target_witness:
  "CalcWork 0x1d00ffff * (SetCompact 0x1d00ffff + 1) \<le> 2 ^ 256 \<and>
   2 ^ 256 < (CalcWork 0x1d00ffff + 1) * (SetCompact 0x1d00ffff + 1) \<and>
   CalcWork 0x1e00ffff \<le> CalcWork 0x1d00ffff"
  by (rule CalcWork_inverse_target) (simp_all add: SetCompact_def Let_def)

text \<open>A 32-byte hash is read as the same little-endian number through \<open>NewHash\<close> and \<open>HashToBig\<close> and
  through \<open>NewUint256\<close> and \<open>BigInt\<close>; \<open>NewHash\<close> refuses every other length. Printing a
  \<open>Uint256\<close> and parsing the string gives it back.\<close>

theorem hash_readings_agree:
  assumes "length h = 32"
  shows "\<exists>x. NewHash h = Inr x \<and> HashToBig x = BigInt (NewUint256 h) \<and>
    BigInt (NewUint256 h) = int (be_nat (rev h)) \<and>
    NewUint256FromString (Uint256_String (NewUint256 h)) = Some (NewUint256 h) \<and>
    (length k \<noteq> 32 \<longrightarrow> NewHash k = Inl (InvalidHashLength (length k)))"
proof -
  have u: "NewUint256 h = \<lparr>Hash = h\<rparr>"
    using assms by (simp only: NewUint256_def copy_into_same_length length_replicate)
  have new: "NewHash h = Inr h"
    using assms by (simp add: NewHash_def Hash_SetBytes_def HashSize_def copy_into_same_length)
  have "Uint256_String (NewUint256 h) = concat (map hex_byte (map (\<lambda>i. h ! (31 - i)) [0..<32]))"
    by (simp only: Uint256_String_def u Uint256.simps map_map o_def)
  also have "\<dots> = concat (map hex_byte (rev h))"
    by (simp only: map_rev_index [OF assms])
  finally have str: "hex_DecodeString (Uint256_String (NewUint256 h)) = Some (rev h)"
    by (simp only: hex_DecodeString_bytes)
  have "fold (\<lambda>i x. x[31 - i := rev h ! i]) [0..<32] (replicate 32 0) = h"
    using fold_rev_update [of 32 "rev h"] assms by (simp only: length_rev) simp
  then have "NewUint256FromString (Uint256_String (NewUint256 h)) = Some (NewUint256 h)"
    using assms str unfolding NewUint256FromString_def u by (simp only: option.case length_rev) simp
  moreover have "NewHash k = Inl (InvalidHashLength (length k))" if "length k \<noteq> 32"
    using that by (simp add: NewHash_def Hash_SetBytes_def HashSize_def)
  moreover have "HashToBig h = BigInt (NewUint256 h)"
    by (simp only: HashToBig_def reverse_loop_rev BigInt_NewUint256 [OF assms])
  ultimately show ?thesis
    using new by (simp add: BigInt_NewUint256 [OF assms])
qed

theorem hash_readings_agree_witness:
  "\<exists>x. NewHash (replicate 31 7 @ [1]) = Inr x \<and> HashToBig x = BigInt (NewUint256 (replicate 31 7 @ [1])) \<and>
    BigInt (NewUint256 (replicate 31 7 @ [1])) = int (be_nat (rev (replicate 31 7 @ [1]))) \<and>
    NewUint256FromString (Uint256_String (NewUint256 (replicate 31 7 @ [1]))) =
      Some (NewUint256 (replicate 31 7 @ [1])) \<and>
    (length [2 :: byte] \<noteq> 32 \<longrightarrow> NewHash [2] = Inl (InvalidHashLength (length [2 :: byte])))"
  by (rule hash_readings_agree) simp

text \<open>\<open>ChecReservekPOW\<close> copies the hash and reverses the copy, but compares the unreversed hash: it
  is \<open>CheckPOW\<close> under another name. It differs from the check on the little-endian number
  (\<open>CheckProofOfWork\<close>), for instance on a hash whose first byte is one and whose others are zero.\<close>

theorem ChecReservekPOW_does_not_reverse:
  "ChecReservekPOW h bits = CheckPOW h bits \<and>
   CheckProofOfWork (NewUint256 (1 # replicate 31 0)) 0x03000001 \<and>
   \<not> ChecReservekPOW (1 # replicate 31 0) 0x03000001"
proof -
  have same: "ChecReservekPOW h bits = CheckPOW h bits" for h bits
    by (simp add: ChecReservekPOW_def CheckPOW_def Let_def)
  have dec: "SetCompact 0x03000001 = 1" by (simp add: SetCompact_def Let_def)
  have zero: "be_nat (replicate n 0) = 0" for n by (induction n) (simp_all add: be_simps)
  have "BigInt (NewUint256 (1 # replicate 31 0)) = 1"
    by (subst BigInt_NewUint256, simp, simp only: rev.simps rev_replicate be_simps zero) simp
  moreover have "be_nat (1 # replicate 31 0) = 256 ^ 31"
    by (simp only: be_simps zero length_replicate) simp
  ultimately show ?thesis
    by (simp only: same CheckPOW_def CheckProofOfWork_def dec) simp
qed

text \<open>On a negative number the two encoders of the file part: \<open>BigToCompact (-1)\<close> decodes to \<open>-1\<close>, while
  \<open>GetCompact\<close> shifts the two's complement pattern and decodes to \<open>-32767\<close>.\<close>

theorem GetCompact_negative:
  "SetCompact (BigToCompact (- 1)) = - 1 \<and> SetCompact (GetCompact (- 1)) = - 32767"
proof -
  have len: "big_byte_len (- 1) = 1" by (simp add: big_byte_len_def nat_bytes.simps)
  have "BigToCompact (- 1) = 0x01810000"
    by (simp add: BigToCompact_def len big_low_word_def Let_def push_bit_eq_mult)
  moreover have "GetCompact (- 1) = 0x02ffff00"
    by (simp add: GetCompact_def len Let_def push_bit_eq_mult)
  ultimately show ?thesis by (simp add: SetCompact_def Let_def)
qed

end
