(* ===== verification/AccessList.thy ===== *)
theory AccessList
  imports Prelude
begin

text \<open>
  The per-transaction access list (\<open>core/state/access_list.go\<close>). An address maps to the index of its slot
  set, or to -1 when it has none. The journal undoes additions in reverse order; each deletion is shown to
  undo the addition exactly, given that no slot set is empty.
\<close>

section \<open>Model\<close>

record accessList =
  al_addresses :: "address \<rightharpoonup> int"
  al_slots :: "hash set list"

definition ContainsAddress :: "accessList \<Rightarrow> address \<Rightarrow> bool" where
  "ContainsAddress al address = (al_addresses al address \<noteq> None)"

text \<open>An index out of range is a run-time panic: \<open>None\<close>.\<close>

definition Contains :: "accessList \<Rightarrow> address \<Rightarrow> hash \<Rightarrow> (bool \<times> bool) option" where
  "Contains al address slot =
     (case al_addresses al address of
        None \<Rightarrow> Some (False, False)
      | Some idx \<Rightarrow>
          if idx = -1 then Some (True, False)
          else if 0 \<le> idx \<and> nat idx < length (al_slots al) then Some (True, slot \<in> al_slots al ! nat idx)
          else None)"

definition newAccessList :: accessList where
  "newAccessList = \<lparr>al_addresses = Map.empty, al_slots = []\<rparr>"

definition AddAddress :: "accessList \<Rightarrow> address \<Rightarrow> accessList \<times> bool" where
  "AddAddress al address =
     (if al_addresses al address \<noteq> None then (al, False)
      else (al\<lparr>al_addresses := (al_addresses al)(address \<mapsto> -1)\<rparr>, True))"

definition AddSlot :: "accessList \<Rightarrow> address \<Rightarrow> hash \<Rightarrow> (accessList \<times> bool \<times> bool) option" where
  "AddSlot al address slot =
     (case al_addresses al address of
        None \<Rightarrow>
          Some (al\<lparr>al_addresses := (al_addresses al)(address \<mapsto> int (length (al_slots al))),
                   al_slots := al_slots al @ [{slot}]\<rparr>, True, True)
      | Some idx \<Rightarrow>
          if idx = -1 then
            Some (al\<lparr>al_addresses := (al_addresses al)(address \<mapsto> int (length (al_slots al))),
                     al_slots := al_slots al @ [{slot}]\<rparr>, False, True)
          else if 0 \<le> idx \<and> nat idx < length (al_slots al) then
            if slot \<notin> al_slots al ! nat idx
            then Some (al\<lparr>al_slots := (al_slots al)[nat idx := insert slot (al_slots al ! nat idx)]\<rparr>, False, True)
            else Some (al, False, False)
          else None)"

definition DeleteSlot :: "accessList \<Rightarrow> address \<Rightarrow> hash \<Rightarrow> accessList option" where
  "DeleteSlot al address slot =
     (case al_addresses al address of
        None \<Rightarrow> None
      | Some idx \<Rightarrow>
          if 0 \<le> idx \<and> nat idx < length (al_slots al) then
            let slotmap = al_slots al ! nat idx - {slot};
                al' = al\<lparr>al_slots := (al_slots al)[nat idx := slotmap]\<rparr>
            in Some (if slotmap = {} then al'\<lparr>al_slots := take (nat idx) (al_slots al'),
                                              al_addresses := (al_addresses al')(address \<mapsto> -1)\<rparr>
                     else al')
          else None)"

definition DeleteAddress :: "accessList \<Rightarrow> address \<Rightarrow> accessList" where
  "DeleteAddress al address = al\<lparr>al_addresses := (al_addresses al)(address := None)\<rparr>"

definition accessList_Copy :: "accessList \<Rightarrow> accessList" where
  "accessList_Copy a = \<lparr>al_addresses = (\<lambda>k. al_addresses a k), al_slots = map (\<lambda>slotMap. slotMap) (al_slots a)\<rparr>"

section \<open>Invariant\<close>

text \<open>Indices are -1 or in range, no two addresses share a slot set, and no slot set is empty.\<close>

definition al_ok :: "accessList \<Rightarrow> bool" where
  "al_ok al \<longleftrightarrow>
     (\<forall>a i. al_addresses al a = Some i \<longrightarrow> i = -1 \<or> 0 \<le> i \<and> nat i < length (al_slots al)) \<and>
     (\<forall>a b i. al_addresses al a = Some i \<longrightarrow> al_addresses al b = Some i \<longrightarrow> i = -1 \<or> a = b) \<and>
     (\<forall>s \<in> set (al_slots al). s \<noteq> {})"

lemma al_ok_new: "al_ok newAccessList"
  by (simp add: al_ok_def newAccessList_def)

lemma al_ok_AddAddress: "al_ok al \<Longrightarrow> al_ok (fst (AddAddress al a))"
  by (auto simp: al_ok_def AddAddress_def)

lemma al_ok_range: "al_ok al \<Longrightarrow> al_addresses al a = Some i \<Longrightarrow> i = -1 \<or> 0 \<le> i \<and> nat i < length (al_slots al)"
  by (simp add: al_ok_def)

lemma al_ok_inj: "al_ok al \<Longrightarrow> al_addresses al a = Some i \<Longrightarrow> al_addresses al b = Some i \<Longrightarrow> i \<noteq> -1 \<Longrightarrow> a = b"
  unfolding al_ok_def by blast

lemma al_ok_fresh:
  assumes "al_ok al"
  shows "al_ok (al\<lparr>al_addresses := (al_addresses al)(a \<mapsto> int (length (al_slots al))), al_slots := al_slots al @ [{k}]\<rparr>)"
proof -
  have "i = -1 \<or> 0 \<le> i \<and> nat i < Suc (length (al_slots al))" "i \<noteq> int (length (al_slots al))"
    if "al_addresses al b = Some i" for b i
    using al_ok_range [OF assms that] by auto
  then show ?thesis using assms al_ok_inj [OF assms] by (auto simp: al_ok_def)
qed

lemma al_ok_insert:
  assumes "al_ok al" "n < length (al_slots al)"
  shows "al_ok (al\<lparr>al_slots := (al_slots al)[n := insert k (al_slots al ! n)]\<rparr>)"
  using assms by (auto simp: al_ok_def dest!: set_update_subset_insert [THEN subsetD])

lemma AddSlot_total:
  assumes "al_ok al"
  obtains al' c d where "AddSlot al a k = Some (al', c, d)" "al_ok al'"
proof (cases "al_addresses al a")
  case None
  with al_ok_fresh [OF assms] that show ?thesis by (simp add: AddSlot_def)
next
  case (Some i)
  then consider "i = -1" | "i \<noteq> -1" "0 \<le> i" "nat i < length (al_slots al)"
    using al_ok_range [OF assms] by blast
  then show ?thesis
  proof cases
    case 1
    with Some al_ok_fresh [OF assms] that show ?thesis by (auto simp: AddSlot_def)
  next
    case 2
    with Some al_ok_insert [OF assms 2(3)] assms that show ?thesis
      by (cases "k \<in> al_slots al ! nat i") (auto simp: AddSlot_def)
  qed
qed

text \<open>Deletions undo additions.\<close>

lemma DeleteAddress_AddAddress: "AddAddress al a = (al', True) \<Longrightarrow> DeleteAddress al' a = al"
  by (cases al) (auto simp: AddAddress_def DeleteAddress_def fun_upd_idem split: if_splits)

lemma DeleteSlot_AddSlot:
  assumes "al_ok al" "AddSlot al a k = Some (al', c, True)"
  shows "DeleteSlot al' a k = Some (if c then al\<lparr>al_addresses := (al_addresses al)(a \<mapsto> -1)\<rparr> else al)"
proof (cases "al_addresses al a")
  case None
  with assms show ?thesis by (auto simp: AddSlot_def DeleteSlot_def nth_append)
next
  case (Some i)
  show ?thesis
  proof (cases "i = -1")
    case True
    with Some assms(2) show ?thesis
      by (cases al) (auto simp: AddSlot_def DeleteSlot_def nth_append fun_upd_idem)
  next
    case False
    with Some assms have i: "0 \<le> i" "nat i < length (al_slots al)" "k \<notin> al_slots al ! nat i" "\<not> c"
        "al' = al\<lparr>al_slots := (al_slots al)[nat i := insert k (al_slots al ! nat i)]\<rparr>"
      by (auto simp: AddSlot_def al_ok_def split: if_splits)
    moreover have "al_slots al ! nat i \<noteq> {}" using assms(1) i by (simp add: al_ok_def)
    ultimately show ?thesis using Some by (simp add: DeleteSlot_def Let_def)
  qed
qed

lemma DeleteAddress_AddSlot:
  assumes "AddSlot al a k = Some (al', True, d)"
  shows "DeleteAddress (al\<lparr>al_addresses := (al_addresses al)(a \<mapsto> -1)\<rparr>) a = al"
  using assms by (cases al) (auto simp: AddSlot_def DeleteAddress_def fun_upd_idem split: option.splits if_splits)

lemma Contains_AddAddress:
  assumes "al_ok al"
  shows "Contains (fst (AddAddress al a)) b j =
    (if b = a then Some (True, Contains al a j = Some (True, True)) else Contains al b j)"
  using al_ok_range [OF assms, of a] by (auto simp: Contains_def AddAddress_def split: option.splits)

lemma Contains_AddSlot:
  assumes "al_ok al" "AddSlot al a k = Some (al', c, d)"
  shows "Contains al' b j = (if b = a then Some (True, j = k \<or> Contains al a j = Some (True, True)) else Contains al b j)"
proof (cases "al_addresses al a = None \<or> al_addresses al a = Some (-1)")
  case True
  then have al': "al' = al\<lparr>al_addresses := (al_addresses al)(a \<mapsto> int (length (al_slots al))),
      al_slots := al_slots al @ [{k}]\<rparr>"
    using assms(2) by (auto simp: AddSlot_def split: if_splits)
  show ?thesis
  proof (cases "b = a")
    case True
    with \<open>_ \<or> _\<close> al' show ?thesis by (auto simp: Contains_def nth_append)
  next
    case False
    then show ?thesis
      using al_ok_range [OF assms(1), of b] al' by (auto simp: Contains_def nth_append split: option.splits)
  qed
next
  case False
  then obtain i where i: "al_addresses al a = Some i" "0 \<le> i" "nat i < length (al_slots al)"
    using assms(1) by (auto simp: al_ok_def)
  then have al': "al' = al\<lparr>al_slots := (al_slots al)[nat i := insert k (al_slots al ! nat i)]\<rparr>"
    using assms(2) False
    by (cases al) (auto simp: AddSlot_def insert_absorb list_update_id split: if_splits)
  have ne: "nat i' \<noteq> nat i" if "al_addresses al b = Some i'" "b \<noteq> a" "i' \<noteq> -1" for i'
    using al_ok_inj [OF assms(1) i(1)] al_ok_range [OF assms(1) that(1)] that i(2) by (auto simp: eq_nat_nat_iff)
  show ?thesis
    using i False ne al' by (auto simp: Contains_def nth_list_update split: option.splits)
qed

lemma AddSlot_changes:
  "al_ok al \<Longrightarrow> AddSlot al a k = Some (al', c, d) \<Longrightarrow>
    (c \<longleftrightarrow> \<not> ContainsAddress al a) \<and> (d \<longleftrightarrow> Contains al a k \<noteq> Some (True, True))"
  using al_ok_range [of al a] by (auto simp: AddSlot_def Contains_def ContainsAddress_def split: option.splits if_splits)

section \<open>Properties\<close>

text \<open>C24: Adding to a well-formed access list makes exactly what was added a member, loses nothing, and reports exactly
  what was new. After \<open>AddSlot\<close> the slot is there, after \<open>AddAddress\<close> the address, with the slots that it had; every
  other address and slot is a member exactly when it was before. The flags returned say whether the address, and the
  slot, was not there yet. Neither operation panics, and both keep the list well-formed.\<close>

theorem access_list_add:
  assumes "al_ok al"
  shows "\<exists>al' c d. AddSlot al a k = Some (al', c, d) \<and> al_ok al' \<and>
      (\<forall>b j. Contains al' b j =
        (if b = a then Some (True, j = k \<or> Contains al a j = Some (True, True)) else Contains al b j)) \<and>
      (c \<longleftrightarrow> \<not> ContainsAddress al a) \<and> (d \<longleftrightarrow> Contains al a k \<noteq> Some (True, True)) \<and>
      al_ok (fst (AddAddress al a)) \<and> (snd (AddAddress al a) \<longleftrightarrow> \<not> ContainsAddress al a) \<and>
      (\<forall>b j. Contains (fst (AddAddress al a)) b j =
        (if b = a then Some (True, Contains al a j = Some (True, True)) else Contains al b j)) \<and>
      (\<forall>b. ContainsAddress (fst (AddAddress al a)) b \<longleftrightarrow> b = a \<or> ContainsAddress al b)"
proof -
  obtain al' c d where s: "AddSlot al a k = Some (al', c, d)" "al_ok al'" by (rule AddSlot_total [OF assms])
  moreover have "snd (AddAddress al a) \<longleftrightarrow> \<not> ContainsAddress al a"
    "ContainsAddress (fst (AddAddress al a)) b \<longleftrightarrow> b = a \<or> ContainsAddress al b" for b
    by (auto simp: ContainsAddress_def AddAddress_def)
  ultimately show ?thesis
    using al_ok_AddAddress [OF assms] Contains_AddSlot [OF assms s(1)] Contains_AddAddress [OF assms] AddSlot_changes [OF assms s(1)]
    by auto
qed

theorem access_list_add_witness:
  "\<exists>al' c d. AddSlot newAccessList 7 9 = Some (al', c, d) \<and> c \<and> d \<and> Contains al' 7 9 = Some (True, True) \<and>
     Contains al' 8 9 = Some (False, False) \<and> Contains (fst (AddAddress al' 7)) 7 9 = Some (True, True)"
proof -
  have "Contains newAccessList b j = Some (False, False)" "\<not> ContainsAddress newAccessList b" for b j
    by (simp_all add: Contains_def ContainsAddress_def newAccessList_def)
  then obtain al' c d where "AddSlot newAccessList 7 9 = Some (al', c, d)" "c" "d" "al_ok al'"
    "Contains al' 7 9 = Some (True, True)" "Contains al' 8 9 = Some (False, False)"
    using access_list_add [OF al_ok_new, of 7 9] by auto
  moreover from this have "Contains (fst (AddAddress al' 7)) 7 9 = Some (True, True)"
    using access_list_add [of al' 7 9] by auto
  ultimately show ?thesis by blast
qed

end
