(* ===== verification/RlpEncode.thy ===== *)
theory RlpEncode
  imports Prelude
begin

text \<open>
  The RLP encoder, \<open>rlp/encode.go\<close>. Values are written into an \<open>encbuf\<close> that collects all string
  data in one buffer and the list headers apart, each with the offset it belongs to, because the
  size of a list is known only when it ends. \<open>toBytes\<close> and \<open>toWriter\<close> weave the headers into the
  data. The theory gives the encoding rules as a recursive specification on items and shows that
  the buffered encoder produces it.
\<close>

section \<open>Model\<close>

datatype rlp_error =
    EOF | UnexpectedEOF | EOL
  | ErrExpectedString | ErrExpectedList | ErrCanonInt | ErrCanonSize | ErrElemTooLarge
  | ErrValueTooLarge | ErrMoreThanOneValue
  | ErrNotInList | ErrNotAtEOL | ErrUintOverflow
  | ErrNegativeBigInt | ErrInvalidBool uint64
  | ErrInputTooLong | ErrInputTooShort | ErrTooFewElements | ErrWrongEmptyKind
  | DecodeError rlp_error

text \<open>The kinds of values.\<close>

datatype Kind = Byte | String | List

text \<open>\<open>putint\<close>: the bytes it writes; their number is its result.\<close>

definition putint :: "uint64 \<Rightarrow> bytes" where
  "putint i =
     (if i < 2 ^ 8 then [ucast i]
      else if i < 2 ^ 16 then [ucast (drop_bit 8 i), ucast i]
      else if i < 2 ^ 24 then [ucast (drop_bit 16 i), ucast (drop_bit 8 i), ucast i]
      else if i < 2 ^ 32 then
        [ucast (drop_bit 24 i), ucast (drop_bit 16 i), ucast (drop_bit 8 i), ucast i]
      else if i < 2 ^ 40 then
        [ucast (drop_bit 32 i), ucast (drop_bit 24 i), ucast (drop_bit 16 i), ucast (drop_bit 8 i),
         ucast i]
      else if i < 2 ^ 48 then
        [ucast (drop_bit 40 i), ucast (drop_bit 32 i), ucast (drop_bit 24 i), ucast (drop_bit 16 i),
         ucast (drop_bit 8 i), ucast i]
      else if i < 2 ^ 56 then
        [ucast (drop_bit 48 i), ucast (drop_bit 40 i), ucast (drop_bit 32 i), ucast (drop_bit 24 i),
         ucast (drop_bit 16 i), ucast (drop_bit 8 i), ucast i]
      else
        [ucast (drop_bit 56 i), ucast (drop_bit 48 i), ucast (drop_bit 40 i), ucast (drop_bit 32 i),
         ucast (drop_bit 24 i), ucast (drop_bit 16 i), ucast (drop_bit 8 i), ucast i])"

function intsize_loop :: "int \<Rightarrow> uint64 \<Rightarrow> int" where
  "intsize_loop n i = (let i' = drop_bit 8 i in if i' = 0 then n else intsize_loop (n + 1) i')"
  by pat_completeness auto
termination
proof (relation "measure (\<lambda>(n, i). unat i)", goal_cases)
  case (2 n i i')
  have "unat i' = unat i div 256"
    unfolding 2(1) unat_drop_bit_eq by (simp add: drop_bit_eq_div)
  moreover have "unat i' \<noteq> 0" using 2(2) by (simp add: unat_eq_0)
  ultimately show ?case by simp
qed simp

declare intsize_loop.simps [simp del]

definition intsize :: "uint64 \<Rightarrow> int" where
  "intsize i = intsize_loop 1 i"

definition headsize :: "uint64 \<Rightarrow> int" where
  "headsize sz = (if sz < 56 then 1 else 1 + intsize sz)"

text \<open>\<open>puthead\<close>: the bytes it writes to the start of \<open>buf\<close>; their number is its result.\<close>

definition puthead :: "byte \<Rightarrow> byte \<Rightarrow> uint64 \<Rightarrow> bytes" where
  "puthead smalltag largetag sz =
     (if sz < 56 then [smalltag + ucast sz]
      else let sizesize = putint sz in (largetag + of_nat (length sizesize)) # sizesize)"

record listhead =
  lh_offset :: int
  lh_size :: int

definition listhead_encode :: "listhead \<Rightarrow> bytes" where
  "listhead_encode head = puthead 0xC0 0xF7 (word_of_int (lh_size head))"

record encbuf =
  eb_str :: bytes
  eb_lheads :: "listhead list"
  eb_lhsize :: int

definition encbuf_reset :: encbuf where
  "encbuf_reset = \<lparr>eb_str = [], eb_lheads = [], eb_lhsize = 0\<rparr>"

abbreviation eb_append :: "encbuf \<Rightarrow> bytes \<Rightarrow> encbuf" where
  "eb_append w bs \<equiv> w\<lparr>eb_str := eb_str w @ bs\<rparr>"

definition encodeStringHeader :: "encbuf \<Rightarrow> int \<Rightarrow> encbuf" where
  "encodeStringHeader w sz =
     (if sz < 56 then eb_append w [0x80 + word_of_int sz]
      else let sizesize = putint (word_of_int sz)
           in eb_append w ((0xB7 + of_nat (length sizesize)) # sizesize))"

definition encodeString :: "encbuf \<Rightarrow> bytes \<Rightarrow> encbuf" where
  "encodeString w b =
     (if length b = 1 \<and> b ! 0 \<le> 0x7F then eb_append w [b ! 0]
      else eb_append (encodeStringHeader w (int (length b))) b)"

definition encodeUint :: "encbuf \<Rightarrow> uint64 \<Rightarrow> encbuf" where
  "encodeUint w i =
     (if i = 0 then eb_append w [0x80]
      else if i < 128 then eb_append w [ucast i]
      else let s = putint i in eb_append w ((0x80 + of_nat (length s)) # s))"

definition encbuf_list :: "encbuf \<Rightarrow> encbuf \<times> nat" where
  "encbuf_list w =
     (let w' = w\<lparr>eb_lheads := eb_lheads w @ [\<lparr>lh_offset = int (length (eb_str w)), lh_size = eb_lhsize w\<rparr>]\<rparr>
      in (w', length (eb_lheads w') - 1))"

definition encbuf_size :: "encbuf \<Rightarrow> int" where
  "encbuf_size w = int (length (eb_str w)) + eb_lhsize w"

definition listEnd :: "encbuf \<Rightarrow> nat \<Rightarrow> encbuf option" where
  "listEnd w index =
     (if index < length (eb_lheads w) then
        let lh = eb_lheads w ! index;
            sz = encbuf_size w - lh_offset lh - lh_size lh;
            w' = w\<lparr>eb_lheads := (eb_lheads w)[index := lh\<lparr>lh_size := sz\<rparr>]\<rparr>
        in Some (if sz < 56 then w'\<lparr>eb_lhsize := eb_lhsize w' + 1\<rparr>
                 else w'\<lparr>eb_lhsize := eb_lhsize w' + (1 + intsize (word_of_int sz))\<rparr>)
      else None)"

text \<open>
  \<open>toBytes\<close> fills a buffer of the computed size. \<open>copy\<close> stops at the end of the buffer; a slice
  with bad bounds or a header past the end is a run-time panic (\<open>None\<close>).
\<close>

definition overwrite :: "bytes \<Rightarrow> nat \<Rightarrow> bytes \<Rightarrow> bytes" where
  "overwrite out pos bs = take pos out @ take (length out - pos) bs @ drop (pos + length bs) out"

primrec toBytes_loop :: "listhead list \<Rightarrow> bytes \<Rightarrow> bytes \<Rightarrow> nat \<Rightarrow> nat \<Rightarrow> (bytes \<times> nat \<times> nat) option" where
  "toBytes_loop [] str out pos strpos = Some (out, pos, strpos)"
| "toBytes_loop (head # heads) str out pos strpos =
     (if int strpos \<le> lh_offset head \<and> lh_offset head \<le> int (length str) then
        let seg = take (nat (lh_offset head) - strpos) (drop strpos str);
            n = min (length out - pos) (length seg);
            out1 = overwrite out pos seg;
            enc = listhead_encode head
        in if pos + n + length enc \<le> length out
           then toBytes_loop heads str (overwrite out1 (pos + n) enc) (pos + n + length enc) (strpos + n)
           else None
      else None)"

definition toBytes :: "encbuf \<Rightarrow> bytes option" where
  "toBytes w =
     (if encbuf_size w < 0 then None
      else case toBytes_loop (eb_lheads w) (eb_str w) (replicate (nat (encbuf_size w)) 0) 0 0 of
        None \<Rightarrow> None
      | Some (out, pos, strpos) \<Rightarrow> Some (overwrite out pos (drop strpos (eb_str w))))"

text \<open>\<open>toWriter\<close> to a writer that accepts everything: what it writes, in order.\<close>

primrec toWriter_loop :: "listhead list \<Rightarrow> bytes \<Rightarrow> nat \<Rightarrow> bytes option" where
  "toWriter_loop [] str strpos = Some (if strpos < length str then drop strpos str else [])"
| "toWriter_loop (head # heads) str strpos =
     (if lh_offset head - int strpos > 0 then
        if lh_offset head \<le> int (length str) then
          let seg = take (nat (lh_offset head) - strpos) (drop strpos str)
          in map_option (\<lambda>rest. seg @ listhead_encode head @ rest)
               (toWriter_loop heads str (strpos + length seg))
        else None
      else map_option (\<lambda>rest. listhead_encode head @ rest) (toWriter_loop heads str strpos))"

definition toWriter :: "encbuf \<Rightarrow> bytes option" where
  "toWriter w = toWriter_loop (eb_lheads w) (eb_str w) 0"

subsection \<open>Writers\<close>

text \<open>
  The Go values the encoder is given, by the writer \<open>makeWriter\<close> picks for their type: raw values,
  unsigned integers, booleans, big integers, byte slices (and strings), byte arrays, and slices or
  structs, which are both written as the list of their elements or fields. A nil pointer is written as
  the empty value of the kind its type or tag asks for; any other pointer as what it points to.
\<close>

datatype rlp_value =
    VRaw bytes | VUint uint64 | VBool bool | VBigInt int | VBytes bytes | VArray bytes
  | VList "rlp_value list" | VNil Kind

text \<open>\<open>big.Int.Bits\<close>: the magnitude as machine words, least significant first.\<close>

function nat_words :: "nat \<Rightarrow> uint64 list" where
  "nat_words n = (if n = 0 then [] else of_nat (n mod 2 ^ 64) # nat_words (n div 2 ^ 64))"
  by pat_completeness auto
termination
  by (relation "measure id") simp_all

declare nat_words.simps [simp del]

fun big_bitlen :: "nat \<Rightarrow> nat" where
  "big_bitlen n = (if n = 0 then 0 else Suc (big_bitlen (n div 2)))"

declare big_bitlen.simps [simp del]

fun writeBigInt_word :: "nat \<Rightarrow> uint64 \<Rightarrow> bytes \<Rightarrow> nat \<Rightarrow> bytes \<times> nat" where
  "writeBigInt_word 0 d buf index = (buf, index)"
| "writeBigInt_word (Suc j) d buf index =
     (if index > 0 then writeBigInt_word j (drop_bit 8 d) (buf[index - 1 := ucast d]) (index - 1)
      else (buf, index))"

fun writeBigInt_loop :: "uint64 list \<Rightarrow> bytes \<Rightarrow> nat \<Rightarrow> bytes" where
  "writeBigInt_loop [] buf index = buf"
| "writeBigInt_loop (d # ds) buf index =
     (case writeBigInt_word 8 d buf index of (buf', index') \<Rightarrow> writeBigInt_loop ds buf' index')"

definition writeBigInt :: "int \<Rightarrow> encbuf \<Rightarrow> rlp_error + encbuf" where
  "writeBigInt i w =
     (if i < 0 then Inl ErrNegativeBigInt
      else let bitlen = big_bitlen (nat i)
           in if bitlen \<le> 64 then Inr (encodeUint w (word_of_int i))
              else let len = (bitlen + 7) div 8
                   in Inr (eb_append (encodeStringHeader w (int len))
                        (writeBigInt_loop (nat_words (nat i)) (replicate len 0) len)))"

definition writeBool :: "bool \<Rightarrow> encbuf \<Rightarrow> encbuf" where
  "writeBool b w = (if b then eb_append w [0x01] else eb_append w [0x80])"

text \<open>\<open>makeByteArrayWriter\<close>: the writers for arrays of length zero, of length one and longer.\<close>

definition writeByteArray :: "bytes \<Rightarrow> encbuf \<Rightarrow> encbuf" where
  "writeByteArray b w =
     (if length b = 0 then eb_append w [0x80]
      else if length b = 1 then (if b ! 0 \<le> 0x7f then eb_append w [b ! 0] else eb_append w [0x81, b ! 0])
      else eb_append (encodeStringHeader w (int (length b))) b)"

fun writeValue :: "rlp_value \<Rightarrow> encbuf \<Rightarrow> rlp_error + encbuf option"
  and writeElems :: "rlp_value list \<Rightarrow> encbuf \<Rightarrow> rlp_error + encbuf option" where
  "writeValue (VRaw b) w = Inr (Some (eb_append w b))"
| "writeValue (VUint i) w = Inr (Some (encodeUint w i))"
| "writeValue (VBool b) w = Inr (Some (writeBool b w))"
| "writeValue (VBigInt i) w = map_sum id Some (writeBigInt i w)"
| "writeValue (VBytes b) w = Inr (Some (encodeString w b))"
| "writeValue (VArray b) w = Inr (Some (writeByteArray b w))"
| "writeValue (VList vs) w =
     (case encbuf_list w of (w1, lh) \<Rightarrow>
        (case writeElems vs w1 of
           Inl e \<Rightarrow> Inl e
         | Inr None \<Rightarrow> Inr None
         | Inr (Some w2) \<Rightarrow> Inr (listEnd w2 lh)))"
| "writeValue (VNil k) w =
     (if k = String then Inr (Some (eb_append w [0x80]))
      else (case encbuf_list w of (w1, lh) \<Rightarrow> Inr (listEnd w1 lh)))"
| "writeElems [] w = Inr (Some w)"
| "writeElems (v # vs) w =
     (case writeValue v w of
        Inl e \<Rightarrow> Inl e
      | Inr None \<Rightarrow> Inr None
      | Inr (Some w') \<Rightarrow> writeElems vs w')"

definition EncodeToBytes :: "rlp_value \<Rightarrow> rlp_error + bytes option" where
  "EncodeToBytes v =
     (case writeValue v encbuf_reset of
        Inl e \<Rightarrow> Inl e
      | Inr None \<Rightarrow> Inr None
      | Inr (Some w) \<Rightarrow> Inr (toBytes w))"

text \<open>\<open>Encode\<close> to a writer that is not itself an encoder buffer: the bytes written.\<close>

definition Encode :: "rlp_value \<Rightarrow> rlp_error + bytes option" where
  "Encode v =
     (case writeValue v encbuf_reset of
        Inl e \<Rightarrow> Inl e
      | Inr None \<Rightarrow> Inr None
      | Inr (Some w) \<Rightarrow> Inr (toWriter w))"

subsection \<open>The reader\<close>

text \<open>
  \<open>encReader\<close> hands the encoding out piece by piece. A buffer or piece that is nil is \<open>None\<close>; an
  outer \<open>None\<close> of \<open>encReader_next\<close> and \<open>encReader_Read\<close> is a run-time panic.
\<close>

record encReader =
  er_buf :: "encbuf option"
  er_lhpos :: nat
  er_strpos :: nat
  er_piece :: "bytes option"

definition encReader_next :: "encReader \<Rightarrow> (encReader \<times> bytes option) option" where
  "encReader_next r =
     (case er_buf r of
        None \<Rightarrow> Some (r, None)
      | Some w \<Rightarrow>
          (case er_piece r of
             Some p \<Rightarrow> Some (r, Some p)
           | None \<Rightarrow>
               if er_lhpos r < length (eb_lheads w) then
                 let head = eb_lheads w ! er_lhpos r;
                     sizebefore = lh_offset head - int (er_strpos r)
                 in if sizebefore > 0 then
                      if lh_offset head \<le> int (length (eb_str w))
                      then Some (r\<lparr>er_strpos := nat (int (er_strpos r) + sizebefore)\<rparr>,
                             Some (take (nat sizebefore) (drop (er_strpos r) (eb_str w))))
                      else None
                    else Some (r\<lparr>er_lhpos := er_lhpos r + 1\<rparr>, Some (listhead_encode head))
               else if er_strpos r < length (eb_str w)
               then Some (r\<lparr>er_strpos := length (eb_str w)\<rparr>, Some (drop (er_strpos r) (eb_str w)))
               else Some (r, None)))"

definition encReader_left :: "encReader \<Rightarrow> nat" where
  "encReader_left r =
     (case er_buf r of
        None \<Rightarrow> 0
      | Some w \<Rightarrow> (length (eb_lheads w) - er_lhpos r) + (length (eb_str w) - er_strpos r)
          + (if er_piece r = None then 0 else 1))"

lemma encReader_left_next:
  "encReader_next r = Some (r', Some p) \<Longrightarrow> encReader_left (r'\<lparr>er_piece := None\<rparr>) < encReader_left r"
  by (auto simp: encReader_next_def encReader_left_def Let_def split: option.splits if_splits)

text \<open>\<open>k\<close> is the room that is left in the caller's slice, \<open>acc\<close> what has been copied into it.\<close>

function encReader_loop :: "encReader \<Rightarrow> nat \<Rightarrow> bytes \<Rightarrow> (encReader \<times> bytes \<times> rlp_error option) option" where
  "encReader_loop r k acc =
     (case encReader_next r of
        None \<Rightarrow> None
      | Some (r', None) \<Rightarrow> Some (r'\<lparr>er_piece := None, er_buf := None\<rparr>, acc, Some EOF)
      | Some (r', Some piece) \<Rightarrow>
          let nn = min k (length piece)
          in if nn < length piece then Some (r'\<lparr>er_piece := Some (drop nn piece)\<rparr>, acc @ take nn piece, None)
             else encReader_loop (r'\<lparr>er_piece := None\<rparr>) (k - nn) (acc @ take nn piece))"
  by pat_completeness auto
termination
  by (relation "measure (\<lambda>(r, _, _). encReader_left r)") (auto intro: encReader_left_next)

declare encReader_loop.simps [simp del]

definition encReader_Read :: "encReader \<Rightarrow> nat \<Rightarrow> (encReader \<times> bytes \<times> rlp_error option) option" where
  "encReader_Read r k = encReader_loop r k []"

definition EncodeToReader :: "rlp_value \<Rightarrow> rlp_error + (int \<times> encReader) option" where
  "EncodeToReader v =
     (case writeValue v encbuf_reset of
        Inl e \<Rightarrow> Inl e
      | Inr None \<Rightarrow> Inr None
      | Inr (Some w) \<Rightarrow>
          Inr (Some (encbuf_size w, \<lparr>er_buf = Some w, er_lhpos = 0, er_strpos = 0, er_piece = None\<rparr>)))"

text \<open>A client that reads with slices of the given lengths: the bytes of every read.\<close>

primrec encReader_Reads :: "encReader \<Rightarrow> nat list \<Rightarrow> bytes list option" where
  "encReader_Reads r [] = Some []"
| "encReader_Reads r (k # ks) =
     (case encReader_Read r k of
        None \<Rightarrow> None
      | Some (r', b, e) \<Rightarrow> map_option ((#) b) (encReader_Reads r' ks))"

section \<open>Specification\<close>

text \<open>The encoding rules, on items: byte strings and lists of items.\<close>

datatype item = Str bytes | Lst "item list"

definition enc_head :: "nat \<Rightarrow> nat \<Rightarrow> bytes" where
  "enc_head off n =
     (if n < 56 then [of_nat (off + n)]
      else of_nat (off + 55 + length (nat_bytes n)) # nat_bytes n)"

definition enc_str :: "bytes \<Rightarrow> bytes" where
  "enc_str b = (if length b = 1 \<and> hd b < 0x80 then b else enc_head 0x80 (length b) @ b)"

fun rlp_enc :: "item \<Rightarrow> bytes" where
  "rlp_enc (Str b) = enc_str b"
| "rlp_enc (Lst xs) =
     (let c = concat (map rlp_enc xs) in enc_head 0xC0 (length c) @ c)"

text \<open>The encoding of a Go value; a raw value stands for itself.\<close>

fun value_enc :: "rlp_value \<Rightarrow> bytes" where
  "value_enc (VRaw b) = b"
| "value_enc (VUint i) = enc_str (nat_bytes (unat i))"
| "value_enc (VBool b) = enc_str (if b then [1] else [])"
| "value_enc (VBigInt i) = enc_str (nat_bytes (nat i))"
| "value_enc (VBytes b) = enc_str b"
| "value_enc (VArray b) = enc_str b"
| "value_enc (VList vs) =
     (let c = concat (map value_enc vs) in enc_head 0xC0 (length c) @ c)"
| "value_enc (VNil k) = (if k = String then [0x80] else [0xC0])"

fun value_ok :: "rlp_value \<Rightarrow> bool" where
  "value_ok (VBigInt i) \<longleftrightarrow> 0 \<le> i"
| "value_ok (VList vs) \<longleftrightarrow> (\<forall>v \<in> set vs. value_ok v)"
| "value_ok _ \<longleftrightarrow> True"

section \<open>Integers\<close>

definition be_word :: "nat \<Rightarrow> uint64 \<Rightarrow> bytes" where
  "be_word L i = map (\<lambda>k. ucast (drop_bit (8 * k) i)) (rev [0..<L])"

lemma unat_uint64_less: "unat (i :: uint64) < 2 ^ 64"
proof -
  have "unat i < 2 ^ LENGTH(64)" by (rule unsigned_less)
  then show ?thesis by simp
qed

lemma unat_ucast_byte: "unat (ucast (drop_bit (8 * k) i) :: byte) = unat i div 256 ^ k mod 256" for i :: uint64
proof -
  have "unat (ucast (drop_bit (8 * k) i) :: byte) = unat (drop_bit (8 * k) i) mod 256"
    unfolding unsigned_ucast_eq take_bit_eq_mod by simp
  also have "unat (drop_bit (8 * k) i) = unat i div 2 ^ (8 * k)"
    unfolding unat_drop_bit_eq by (rule drop_bit_eq_div)
  finally show ?thesis by (simp add: power_mult)
qed

lemma be_nat_be_word: "be_nat (be_word L i) = unat i mod 256 ^ L"
proof (induction L)
  case (Suc L)
  have "be_word (Suc L) i = ucast (drop_bit (8 * L) i) # be_word L i"
    by (simp add: be_word_def)
  then have "be_nat (be_word (Suc L) i) = unat i div 256 ^ L mod 256 * 256 ^ L + unat i mod 256 ^ L"
    using Suc by (simp add: be_nat_Cons unat_ucast_byte be_word_def)
  also have "\<dots> = unat i mod 256 ^ Suc L"
    unfolding power_Suc2 mod_mult2_eq by (simp add: mult.commute)
  finally show ?case .
qed (simp add: be_word_def)

lemma be_word_eq_nat_bytes:
  assumes "256 ^ L \<le> unat i" "unat i < 256 ^ Suc L"
  shows "be_word (Suc L) i = nat_bytes (unat i)"
proof -
  have "unat i div 256 ^ L mod 256 = unat i div 256 ^ L"
    using assms(2) by (simp add: div_less_iff_less_mult)
  moreover have "0 < unat i div 256 ^ L" using assms(1) by (simp add: div_greater_zero_iff)
  ultimately have "unat (hd (be_word (Suc L) i)) \<noteq> 0"
    by (simp add: be_word_def unat_ucast_byte)
  then have "hd (be_word (Suc L) i) \<noteq> 0" by (rule contrapos_nn) simp
  then have "nat_bytes (be_nat (be_word (Suc L) i)) = be_word (Suc L) i"
    by (intro nat_bytes_be_nat) simp
  then show ?thesis using assms(2) by (simp add: be_nat_be_word)
qed

lemma be_word_0: "be_word 0 i = []"
  by (simp add: be_word_def)

lemma be_word_Suc: "be_word (Suc L) i = ucast (drop_bit (8 * L) i) # be_word L i"
  by (simp add: be_word_def)

lemma be_word_numeral:
  "be_word (numeral n) i = ucast (drop_bit (8 * pred_numeral n) i) # be_word (pred_numeral n) i"
  by (simp only: numeral_eq_Suc be_word_Suc)

lemma putint_eq_be_word:
  "putint i =
     (if unat i < 256 then be_word 1 i else if unat i < 256 ^ 2 then be_word 2 i
      else if unat i < 256 ^ 3 then be_word 3 i else if unat i < 256 ^ 4 then be_word 4 i
      else if unat i < 256 ^ 5 then be_word 5 i else if unat i < 256 ^ 6 then be_word 6 i
      else if unat i < 256 ^ 7 then be_word 7 i else be_word 8 i)"
  by (simp add: putint_def word_less_nat_alt be_word_numeral be_word_Suc be_word_0)

lemma putint_eq_nat_bytes: "i \<noteq> 0 \<Longrightarrow> putint i = nat_bytes (unat i)"
proof -
  assume "i \<noteq> 0"
  then have "0 < unat i" by (simp add: unat_gt_0)
  note b = be_word_eq_nat_bytes
  have b2: "be_word 2 i = nat_bytes (unat i)" if "256 \<le> unat i" "unat i < 65536"
    using b [of 1 i] that unfolding numeral_2_eq_2 by simp
  show ?thesis
    unfolding putint_eq_be_word
    using b [of 0 i] b2 b [of 2 i] b [of 3 i] b [of 4 i] b [of 5 i] b [of 6 i] b [of 7 i]
      unat_uint64_less [of i] \<open>0 < unat i\<close>
    by (simp add: not_less)
qed

lemma intsize_loop_eq: "i \<noteq> 0 \<Longrightarrow> intsize_loop n i = n - 1 + int (length (nat_bytes (unat i)))"
proof (induction n i rule: intsize_loop.induct)
  case (1 n i)
  define j where "j = drop_bit 8 i"
  have u: "unat j = unat i div 256"
    unfolding j_def unat_drop_bit_eq by (simp add: drop_bit_eq_div)
  have pos: "0 < unat i" using 1(2) by (simp add: unat_gt_0)
  have step: "intsize_loop n i = (if j = 0 then n else intsize_loop (n + 1) j)"
    unfolding j_def by (subst intsize_loop.simps) (simp only: Let_def)
  show ?case
  proof (cases "j = 0")
    case True
    then have "unat i div 256 = 0" unfolding u [symmetric] by simp
    with True pos show ?thesis by (simp add: step nat_bytes_pos [OF pos])
  next
    case False
    with 1(1) [OF j_def] have "intsize_loop (n + 1) j = n + int (length (nat_bytes (unat i div 256)))"
      unfolding u by simp
    with False show ?thesis by (simp add: step nat_bytes_pos [OF pos])
  qed
qed

lemma intsize_eq: "i \<noteq> 0 \<Longrightarrow> intsize i = int (length (nat_bytes (unat i)))"
  by (simp add: intsize_def intsize_loop_eq)

lemma unat_of_nat_uint64: "n < 2 ^ 64 \<Longrightarrow> unat (of_nat n :: uint64) = n"
  by (simp add: unat_of_nat take_bit_nat_eq_self)

lemma uint64_less_56: "n < 2 ^ 64 \<Longrightarrow> (of_nat n :: uint64) < 56 \<longleftrightarrow> n < 56"
  by (simp add: word_less_nat_alt unat_of_nat_uint64)

lemma putint_of_nat: "0 < n \<Longrightarrow> n < 2 ^ 64 \<Longrightarrow> putint (of_nat n) = nat_bytes n"
proof -
  assume "0 < n" "n < 2 ^ 64"
  then have u: "unat (of_nat n :: uint64) = n" by (intro unat_of_nat_uint64)
  with \<open>0 < n\<close> have "(of_nat n :: uint64) \<noteq> 0" by (metis unsigned_0 less_irrefl)
  then show ?thesis using putint_eq_nat_bytes [of "of_nat n"] u by simp
qed

lemma puthead_eq: "n < 2 ^ 64 \<Longrightarrow> puthead tag (tag + 55) (of_nat n) = enc_head (unat tag) n"
proof -
  assume n: "n < 2 ^ 64"
  have tag: "(of_nat (unat tag) :: byte) = tag" by (simp only: of_nat_unat ucast_id)
  have cast: "(ucast (of_nat n :: uint64) :: byte) = of_nat n"
    by (rule bit_word_eqI) (simp add: bit_simps)
  show ?thesis
    using n by (simp add: puthead_def enc_head_def uint64_less_56 cast putint_of_nat Let_def tag
        del: of_nat_unat)
qed

lemma enc_head_length:
  "length (enc_head off n) = (if n < 56 then 1 else Suc (length (nat_bytes n)))"
  by (simp add: enc_head_def)

lemma headsize_eq: "n < 2 ^ 64 \<Longrightarrow> headsize (of_nat n) = int (length (enc_head off n))"
proof -
  assume n: "n < 2 ^ 64"
  have "(of_nat n :: uint64) \<noteq> 0" if "\<not> n < 56"
  proof
    assume "(of_nat n :: uint64) = 0"
    then have "unat (of_nat n :: uint64) = 0" by simp
    with n that show False by (simp only: unat_of_nat_uint64)
  qed
  then show ?thesis
    using n by (simp add: headsize_def enc_head_length uint64_less_56 intsize_eq unat_of_nat_uint64)
qed

lemma encodeStringHeader_eq:
  assumes "n < 2 ^ 64"
  shows "encodeStringHeader w (int n) = eb_append w (enc_head 0x80 n)"
  using assms by (simp add: encodeStringHeader_def enc_head_def putint_of_nat Let_def)

lemma byte_le_7F: "x \<le> 0x7F \<longleftrightarrow> x < 0x80" for x :: byte
  by (simp add: word_le_nat_alt word_less_nat_alt) arith

lemma encodeString_eq:
  assumes "length b < 2 ^ 64"
  shows "encodeString w b = eb_append w (enc_str b)"
proof (cases "length b = 1")
  case True
  then obtain x where "b = [x]" by (cases b) auto
  then show ?thesis
    using encodeStringHeader_eq [of 1 w]
    by (simp add: encodeString_def enc_str_def byte_le_7F)
next
  case False
  with assms show ?thesis by (simp add: encodeString_def enc_str_def encodeStringHeader_eq)
qed

lemma enc_str_small:
  assumes "0 < n" "n < 128"
  shows "enc_str (nat_bytes n) = [of_nat n]"
proof -
  have "nat_bytes n = [of_nat n]" using assms by (simp add: nat_bytes_pos [of n])
  moreover have "(of_nat n :: byte) < 0x80"
    using assms by (simp add: word_less_nat_alt unat_of_nat)
  ultimately show ?thesis by (simp add: enc_str_def)
qed

lemma enc_str_large:
  assumes "128 \<le> n" "n < 2 ^ 64"
  shows "enc_str (nat_bytes n) = (0x80 + of_nat (length (nat_bytes n))) # nat_bytes n"
proof -
  have len: "length (nat_bytes n) \<le> 8" using assms(2) by (simp add: length_nat_bytes_le)
  have "\<not> hd (nat_bytes n) < 0x80" if "length (nat_bytes n) = 1"
  proof -
    have "n < 256" using that length_nat_bytes_le [of n 1] by simp
    then have "nat_bytes n = [of_nat n]" using assms(1) by (simp add: nat_bytes_pos [of n])
    moreover have "unat (of_nat n :: byte) = n" using \<open>n < 256\<close> by (simp add: unat_of_nat)
    ultimately show ?thesis using assms(1) by (simp add: word_less_nat_alt)
  qed
  with len show ?thesis by (auto simp: enc_str_def enc_head_def)
qed

lemma encodeUint_eq: "encodeUint w i = eb_append w (enc_str (nat_bytes (unat i)))"
proof (cases "i = 0")
  case True
  then show ?thesis by (simp add: encodeUint_def enc_str_def enc_head_def)
next
  case False
  then have pos: "0 < unat i" by (simp add: unat_gt_0)
  have lt: "i < 128 \<longleftrightarrow> unat i < 128" by (simp add: word_less_nat_alt)
  have cast: "(of_nat (unat i) :: byte) = ucast i" by (simp only: of_nat_unat)
  show ?thesis
  proof (cases "unat i < 128")
    case True
    then show ?thesis using False pos enc_str_small [OF pos True]
      by (simp only: encodeUint_def lt cast if_True if_False)
  next
    case ge: False
    then have "enc_str (nat_bytes (unat i)) = (0x80 + of_nat (length (nat_bytes (unat i)))) # nat_bytes (unat i)"
      using unat_uint64_less by (intro enc_str_large) simp_all
    then show ?thesis using False ge
      by (simp only: encodeUint_def lt if_False Let_def putint_eq_nat_bytes [OF False])
  qed
qed

lemma writeBool_eq: "writeBool b w = eb_append w (enc_str (if b then [1] else []))"
  by (simp add: writeBool_def enc_str_def enc_head_def word_less_nat_alt)

lemma writeByteArray_eq:
  assumes "length b < 2 ^ 64"
  shows "writeByteArray b w = eb_append w (enc_str b)"
proof (cases "length b \<le> 1")
  case True
  then consider "b = []" | x where "b = [x]" by (cases b) auto
  then show ?thesis
    by cases (auto simp: writeByteArray_def enc_str_def enc_head_def byte_le_7F)
next
  case False
  with assms show ?thesis by (auto simp: writeByteArray_def enc_str_def encodeStringHeader_eq)
qed

subsection \<open>Big integers\<close>

definition be_fixed :: "nat \<Rightarrow> nat \<Rightarrow> bytes" where
  "be_fixed L n = map (\<lambda>k. of_nat (n div 256 ^ k mod 256)) (rev [0..<L])"

lemma be_fixed_0 [simp]: "be_fixed 0 n = []"
  by (simp add: be_fixed_def)

lemma length_be_fixed [simp]: "length (be_fixed L n) = L"
  by (simp add: be_fixed_def)

lemma be_fixed_Suc: "be_fixed (Suc L) n = be_fixed L (n div 256) @ [of_nat (n mod 256)]"
proof -
  have "rev [0..<Suc L] = map Suc (rev [0..<L]) @ [0]"
    by (simp add: rev_map [symmetric] map_Suc_upt upt_conv_Cons del: upt_Suc)
  then show ?thesis
    by (simp add: be_fixed_def div_mult2_eq mult.commute del: upt_Suc)
qed

lemma be_fixed_add: "be_fixed (a + b) n = be_fixed a (n div 256 ^ b) @ be_fixed b n"
  by (induction b arbitrary: n) (simp_all add: be_fixed_Suc div_mult2_eq)

lemma be_nat_be_fixed: "be_nat (be_fixed L n) = n mod 256 ^ L"
proof (induction L arbitrary: n)
  case (Suc L)
  then show ?case by (simp add: be_fixed_Suc be_nat_snoc mod_mult2_eq)
qed simp

lemma be_fixed_nat_bytes: "be_fixed (length (nat_bytes n)) n = nat_bytes n"
  by (rule be_nat_inj) (simp_all add: be_nat_be_fixed less_pow_length_nat_bytes)

lemma be_fixed_mod: "L \<le> k \<Longrightarrow> be_fixed L (n mod 256 ^ k) = be_fixed L n"
  by (rule be_nat_inj) (simp_all add: be_nat_be_fixed mod_mod_cancel le_imp_power_dvd)

lemma big_bitlen_le: "big_bitlen n \<le> k \<longleftrightarrow> n < 2 ^ k"
proof (induction k arbitrary: n)
  case 0
  then show ?case by (simp add: big_bitlen.simps [of n])
next
  case (Suc k)
  show ?case
  proof (cases "n = 0")
    case False
    then have "big_bitlen n \<le> Suc k \<longleftrightarrow> n div 2 < 2 ^ k"
      using Suc [of "n div 2"] by (simp add: big_bitlen.simps [of n])
    also have "\<dots> \<longleftrightarrow> n < 2 ^ Suc k" by (simp add: div_less_iff_less_mult mult.commute)
    finally show ?thesis .
  qed (simp add: big_bitlen.simps)
qed

lemma bitlen_bytes: "(big_bitlen n + 7) div 8 = length (nat_bytes n)"
proof (rule antisym)
  have "big_bitlen n \<le> 8 * length (nat_bytes n)"
    using less_pow_length_nat_bytes [of n] by (simp add: big_bitlen_le power_mult)
  then show "(big_bitlen n + 7) div 8 \<le> length (nat_bytes n)" by simp
  have "big_bitlen n \<le> 8 * ((big_bitlen n + 7) div 8)" by presburger
  then show "length (nat_bytes n) \<le> (big_bitlen n + 7) div 8"
    by (simp only: big_bitlen_le length_nat_bytes_le power_mult) simp
qed

lemma writeBigInt_word_eq:
  assumes "index \<le> length buf"
  shows "writeBigInt_word j d buf index =
    (take (index - min j index) buf @ be_fixed (min j index) (unat d) @ drop index buf, index - min j index)"
  using assms
proof (induction j arbitrary: d buf index)
  case (Suc j)
  show ?case
  proof (cases index)
    case (Suc i)
    have u: "unat (drop_bit 8 d) = unat d div 256"
      unfolding unat_drop_bit_eq by (simp add: drop_bit_eq_div)
    have c: "(ucast d :: byte) = of_nat (unat d mod 256)"
      using unat_ucast_byte [of 0 d] by (simp add: word_unat_eq_iff unat_of_nat)
    define m where "m = min j i"
    have IH: "writeBigInt_word j (drop_bit 8 d) (buf[i := ucast d]) i =
      (take (i - m) (buf[i := ucast d]) @ be_fixed m (unat d div 256) @ drop i (buf[i := ucast d]), i - m)"
      using Suc.IH [of i "buf[i := ucast d]" "drop_bit 8 d"] Suc.prems Suc by (simp add: u m_def)
    have "drop i (buf[i := ucast d]) = ucast d # drop (Suc i) buf"
      using Suc.prems Suc by (simp add: Cons_nth_drop_Suc [symmetric] drop_update_swap)
    with IH show ?thesis
      using Suc by (simp add: m_def be_fixed_Suc c min_def)
  qed simp
qed simp

lemma writeBigInt_loop_eq:
  assumes "index \<le> length buf" "index \<le> 8 * length (nat_words n)"
  shows "writeBigInt_loop (nat_words n) buf index = be_fixed index n @ drop index buf"
  using assms
proof (induction n arbitrary: buf index rule: nat_words.induct)
  case (1 n)
  show ?case
  proof (cases "n = 0")
    case True
    with 1(3) show ?thesis by (simp add: nat_words.simps [of 0])
  next
    case False
    define m where "m = min 8 index"
    define buf' where "buf' = take (index - m) buf @ be_fixed m n @ drop index buf"
    have ws: "nat_words n = of_nat (n mod 2 ^ 64) # nat_words (n div 2 ^ 64)"
      using False by (subst nat_words.simps) simp
    have "unat (of_nat (n mod 2 ^ 64) :: uint64) = n mod 256 ^ 8"
      by (subst unat_of_nat_uint64) simp_all
    then have "writeBigInt_word 8 (of_nat (n mod 2 ^ 64)) buf index = (buf', index - m)"
      using writeBigInt_word_eq [OF 1(2), of 8] be_fixed_mod [of m 8 n]
      by (simp only: m_def [symmetric] buf'_def) (simp add: m_def)
    then have "writeBigInt_loop (nat_words n) buf index =
        writeBigInt_loop (nat_words (n div 2 ^ 64)) buf' (index - m)"
      unfolding ws by (simp only: writeBigInt_loop.simps prod.case)
    also have "\<dots> = be_fixed (index - m) (n div 2 ^ 64) @ drop (index - m) buf'"
    proof (rule 1(1) [OF False])
      show "index - m \<le> length buf'" using 1(2) by (simp add: buf'_def)
      show "index - m \<le> 8 * length (nat_words (n div 2 ^ 64))"
        using 1(3) unfolding ws m_def by simp
    qed
    also have "drop (index - m) buf' = be_fixed m n @ drop index buf"
      using 1(2) by (simp add: buf'_def)
    also have "be_fixed (index - m) (n div 2 ^ 64) @ be_fixed m n @ drop index buf =
        (be_fixed (index - m) (n div 2 ^ 64) @ be_fixed m n) @ drop index buf" by simp
    also have "be_fixed (index - m) (n div 2 ^ 64) @ be_fixed m n = be_fixed index n"
    proof (cases "index \<le> 8")
      case False
      then show ?thesis using be_fixed_add [of "index - 8" 8 n] by (simp add: m_def)
    qed (simp add: m_def)
    finally show ?thesis .
  qed
qed

lemma nat_words_bound: "n < 2 ^ (64 * length (nat_words n))"
proof (induction n rule: nat_words.induct)
  case (1 n)
  show ?case
  proof (cases "n = 0")
    case False
    define q where "q = n div 2 ^ 64"
    have ws: "length (nat_words n) = Suc (length (nat_words q))"
      using False unfolding q_def by (subst nat_words.simps) simp
    have "q < 2 ^ (64 * length (nat_words q))" using 1 [OF False] by (simp only: q_def)
    then have "n < 2 ^ (64 * length (nat_words q)) * 2 ^ 64"
      unfolding q_def by (simp only: div_less_iff_less_mult zero_less_power zero_less_numeral)
    then show ?thesis by (simp add: ws power_add mult.commute)
  qed (simp add: nat_words.simps)
qed

lemma writeBigInt_eq:
  assumes "0 \<le> i" "length (nat_bytes (nat i)) < 2 ^ 64"
  shows "writeBigInt i w = Inr (eb_append w (enc_str (nat_bytes (nat i))))"
proof -
  obtain n where i: "i = int n" using assms(1) nonneg_int_cases by blast
  show ?thesis
  proof (cases "big_bitlen n \<le> 64")
    case True
    then have "n < 2 ^ 64" by (simp add: big_bitlen_le)
    with True show ?thesis
      by (simp add: writeBigInt_def i encodeUint_eq unat_of_nat_uint64)
  next
    case False
    define L where "L = length (nat_bytes n)"
    have "\<not> n < 256 ^ 8" using False by (simp add: big_bitlen_le)
    then have L: "8 < L" using length_nat_bytes_le [of n 8] by (simp add: L_def)
    have "n < 256 ^ (8 * length (nat_words n))" using nat_words_bound [of n] by (simp add: power_mult)
    then have "L \<le> 8 * length (nat_words n)" by (simp only: L_def length_nat_bytes_le)
    then have "writeBigInt_loop (nat_words n) (replicate L 0) L = nat_bytes n"
      using writeBigInt_loop_eq [of L "replicate L 0" n] by (simp add: L_def be_fixed_nat_bytes)
    then show ?thesis
      using False L assms(2)
      by (simp add: writeBigInt_def i bitlen_bytes Let_def L_def [symmetric] encodeStringHeader_eq
          enc_str_def)
  qed
qed

section \<open>The buffer\<close>

text \<open>What a value adds to the three fields of the buffer.\<close>

fun sdata :: "rlp_value \<Rightarrow> bytes" where
  "sdata (VList vs) = concat (map sdata vs)"
| "sdata (VNil k) = (if k = String then [0x80] else [])"
| "sdata v = value_enc v"

fun hsize :: "rlp_value \<Rightarrow> nat" where
  "hsize (VList vs) =
     sum_list (map hsize vs) + length (enc_head 0xC0 (length (concat (map value_enc vs))))"
| "hsize (VNil k) = (if k = String then 0 else 1)"
| "hsize v = 0"

fun heads :: "nat \<Rightarrow> rlp_value \<Rightarrow> listhead list"
  and heads_list :: "nat \<Rightarrow> rlp_value list \<Rightarrow> listhead list" where
  "heads off (VList vs) =
     \<lparr>lh_offset = int off, lh_size = int (length (concat (map value_enc vs)))\<rparr> # heads_list off vs"
| "heads off (VRaw b) = []"
| "heads off (VUint i) = []"
| "heads off (VBool b) = []"
| "heads off (VBigInt n) = []"
| "heads off (VBytes b) = []"
| "heads off (VArray b) = []"
| "heads off (VNil k) = (if k = String then [] else [\<lparr>lh_offset = int off, lh_size = 0\<rparr>])"
| "heads_list off [] = []"
| "heads_list off (v # vs) = heads off v @ heads_list (off + length (sdata v)) vs"

lemma length_value_enc: "length (value_enc v) = length (sdata v) + hsize v"
proof (induction v)
  case (VList vs)
  then have "length (concat (map value_enc vs)) = length (concat (map sdata vs)) + sum_list (map hsize vs)"
    by (induction vs) auto
  then show ?case by (simp add: Let_def)
qed simp_all

lemma listEnd_eq:
  assumes "eb_lheads w = hs @ \<lparr>lh_offset = int off, lh_size = lhs\<rparr> # hs'"
    and "encbuf_size w = int off + lhs + int n" "n < 2 ^ 64"
  shows "listEnd w (length hs) =
    Some (w\<lparr>eb_lheads := hs @ \<lparr>lh_offset = int off, lh_size = int n\<rparr> # hs',
            eb_lhsize := eb_lhsize w + int (length (enc_head 0xC0 n))\<rparr>)"
proof -
  have "(of_nat n :: uint64) \<noteq> 0" if "\<not> n < 56"
  proof
    assume "(of_nat n :: uint64) = 0"
    then have "unat (of_nat n :: uint64) = 0" by simp
    with assms(3) that show False by (simp only: unat_of_nat_uint64)
  qed
  with assms show ?thesis
    by (simp add: listEnd_def Let_def enc_head_length intsize_eq unat_of_nat_uint64 nth_append)
qed

definition add_value :: "encbuf \<Rightarrow> bytes \<Rightarrow> listhead list \<Rightarrow> nat \<Rightarrow> encbuf" where
  "add_value w str hs n =
     w\<lparr>eb_str := eb_str w @ str, eb_lheads := eb_lheads w @ hs, eb_lhsize := eb_lhsize w + int n\<rparr>"

lemma add_value_str: "add_value w str [] 0 = eb_append w str"
  by (cases w) (simp add: add_value_def)

lemma add_value_add_value:
  "add_value (add_value w s1 h1 n1) s2 h2 n2 = add_value w (s1 @ s2) (h1 @ h2) (n1 + n2)"
  by (simp add: add_value_def)

lemma eb_str_add_value [simp]: "eb_str (add_value w str hs n) = eb_str w @ str"
  by (simp add: add_value_def)

lemma concat_map_length_le: "x \<in> set xs \<Longrightarrow> length (f x) \<le> length (concat (map f xs))"
  by (induction xs) auto

lemma enc_str_length: "length b \<le> length (enc_str b)"
  by (simp add: enc_str_def)

lemma write_eq:
  "value_ok v \<Longrightarrow> length (value_enc v) < 2 ^ 64 \<Longrightarrow>
     writeValue v w = Inr (Some (add_value w (sdata v) (heads (length (eb_str w)) v) (hsize v)))"
  "\<forall>v \<in> set vs. value_ok v \<Longrightarrow> length (concat (map value_enc vs)) < 2 ^ 64 \<Longrightarrow>
     writeElems vs w = Inr (Some (add_value w (concat (map sdata vs)) (heads_list (length (eb_str w)) vs)
       (sum_list (map hsize vs))))"
proof (induction v w and vs w rule: writeValue_writeElems.induct)
  case (1 b w)
  then show ?case by (simp add: add_value_str)
next
  case (2 i w)
  then show ?case by (simp add: add_value_str encodeUint_eq)
next
  case (3 b w)
  then show ?case by (simp add: add_value_str writeBool_eq)
next
  case (4 i w)
  then have "length (nat_bytes (nat i)) < 2 ^ 64"
    using enc_str_length [of "nat_bytes (nat i)"] by simp
  with 4 show ?case by (simp add: add_value_str writeBigInt_eq)
next
  case (5 b w)
  then have "length b < 2 ^ 64" using enc_str_length [of b] by simp
  then show ?case by (simp add: add_value_str encodeString_eq)
next
  case (6 b w)
  then have "length b < 2 ^ 64" using enc_str_length [of b] by simp
  then show ?case by (simp add: add_value_str writeByteArray_eq)
next
  case (7 vs w)
  define n where "n = length (concat (map value_enc vs))"
  define off where "off = length (eb_str w)"
  define h where "h = \<lparr>lh_offset = int off, lh_size = eb_lhsize w\<rparr>"
  define w1 where "w1 = w\<lparr>eb_lheads := eb_lheads w @ [h]\<rparr>"
  have list: "encbuf_list w = (w1, length (eb_lheads w))"
    by (simp add: encbuf_list_def w1_def h_def off_def)
  have n: "n < 2 ^ 64" using 7(3) by (simp add: n_def Let_def)
  have sum: "n = length (concat (map sdata vs)) + sum_list (map hsize vs)"
    unfolding n_def by (induction vs) (simp_all add: length_value_enc)
  define w2 where "w2 = add_value w1 (concat (map sdata vs)) (heads_list off vs) (sum_list (map hsize vs))"
  have elems: "writeElems vs w1 = Inr (Some w2)"
    using 7(1) [OF list [symmetric]] 7(2) n by (simp add: n_def w2_def off_def w1_def)
  have heads: "eb_lheads w2 = eb_lheads w @ h # heads_list off vs"
    by (simp add: w2_def w1_def add_value_def)
  have size: "encbuf_size w2 = int off + eb_lhsize w + int n"
    by (simp add: w2_def w1_def add_value_def encbuf_size_def sum off_def)
  show ?case
    unfolding writeValue.simps list elems prod.case sum.case option.case
    using listEnd_eq [OF heads [unfolded h_def] size n]
    by (simp add: add_value_def w2_def w1_def n_def off_def)
next
  case (8 k w)
  have "listEnd (w\<lparr>eb_lheads := eb_lheads w @ [\<lparr>lh_offset = int (length (eb_str w)), lh_size = eb_lhsize w\<rparr>]\<rparr>)
      (length (eb_lheads w)) = Some (add_value w [] [\<lparr>lh_offset = int (length (eb_str w)), lh_size = 0\<rparr>] 1)"
    by (simp add: listEnd_def add_value_def encbuf_size_def)
  then show ?case by (simp add: add_value_str encbuf_list_def Let_def)
next
  case (9 w)
  then show ?case by (simp add: add_value_str)
next
  case (10 v vs w)
  then have "length (value_enc v) < 2 ^ 64" "length (concat (map value_enc vs)) < 2 ^ 64" by simp_all
  with 10 show ?case by (simp add: add_value_add_value)
qed

lemma write_error:
  "(case writeValue v w of Inl e \<Rightarrow> \<not> value_ok v \<and> e = ErrNegativeBigInt
     | Inr None \<Rightarrow> False
     | Inr (Some w') \<Rightarrow> value_ok v \<and> length (eb_lheads w) \<le> length (eb_lheads w'))"
  "(case writeElems vs w of Inl e \<Rightarrow> \<not> (\<forall>v \<in> set vs. value_ok v) \<and> e = ErrNegativeBigInt
     | Inr None \<Rightarrow> False
     | Inr (Some w') \<Rightarrow> (\<forall>v \<in> set vs. value_ok v) \<and> length (eb_lheads w) \<le> length (eb_lheads w'))"
proof (induction v w and vs w rule: writeValue_writeElems.induct)
  case (4 i w)
  then show ?case
    by (auto simp: writeBigInt_def Let_def encodeUint_def encodeStringHeader_def)
next
  case (7 vs w)
  then show ?case
    by (auto simp: encbuf_list_def listEnd_def Let_def split: sum.splits option.splits)
next
  case (8 k w)
  then show ?case by (auto simp: encbuf_list_def listEnd_def Let_def)
next
  case (10 v vs w)
  then show ?case by (auto split: sum.splits option.splits)
qed (auto simp: encodeUint_def writeBool_def encodeString_def encodeStringHeader_def writeByteArray_def Let_def)

text \<open>The bytes that come out when the headers are woven into the string data.\<close>

primrec weave :: "listhead list \<Rightarrow> nat \<Rightarrow> bytes \<Rightarrow> bytes" where
  "weave [] p s = s"
| "weave (h # hs) p s =
     take (nat (lh_offset h) - p) s @ listhead_encode h @
       weave hs (nat (lh_offset h)) (drop (nat (lh_offset h) - p) s)"

primrec chain :: "listhead list \<Rightarrow> nat \<Rightarrow> nat \<Rightarrow> bool" where
  "chain [] p L \<longleftrightarrow> p \<le> L"
| "chain (h # hs) p L \<longleftrightarrow> int p \<le> lh_offset h \<and> chain hs (nat (lh_offset h)) L"

lemma chain_le: "chain hs p L \<Longrightarrow> p \<le> L"
  by (induction hs arbitrary: p) fastforce+

lemma chain_mono: "chain hs q L \<Longrightarrow> p \<le> q \<Longrightarrow> chain hs p L"
  by (cases hs) auto

lemma chain_heads:
  "p \<le> off \<Longrightarrow> chain hs (off + length (sdata v)) L \<Longrightarrow> chain (heads off v @ hs) p L"
  "p \<le> off \<Longrightarrow> chain hs (off + length (concat (map sdata vs))) L \<Longrightarrow> chain (heads_list off vs @ hs) p L"
  by (induction off v and off vs arbitrary: p hs and p hs rule: heads_heads_list.induct)
    (auto intro: chain_mono simp: add.assoc)

lemma weave_skip:
  "chain hs (p + length s) L \<Longrightarrow> weave hs p (s @ b) = s @ weave hs (p + length s) b"
  by (cases hs) (auto simp: le_nat_iff)

lemma listhead_encode_eq:
  "n < 2 ^ 64 \<Longrightarrow> listhead_encode \<lparr>lh_offset = off, lh_size = int n\<rparr> = enc_head 0xC0 n"
  using puthead_eq [of n "0xC0"] by (simp add: listhead_encode_def)

lemma weave_heads:
  "chain hs (off + length (sdata v)) L \<Longrightarrow> length (value_enc v) < 2 ^ 64 \<Longrightarrow>
     weave (heads off v @ hs) off (sdata v @ b) = value_enc v @ weave hs (off + length (sdata v)) b"
  "chain hs (off + length (concat (map sdata vs))) L \<Longrightarrow> length (concat (map value_enc vs)) < 2 ^ 64 \<Longrightarrow>
     weave (heads_list off vs @ hs) off (concat (map sdata vs) @ b) =
       concat (map value_enc vs) @ weave hs (off + length (concat (map sdata vs))) b"
proof (induction off v and off vs arbitrary: hs b and hs b rule: heads_heads_list.induct)
  case (1 off vs)
  then have "length (concat (map value_enc vs)) < 2 ^ 64" by (simp add: Let_def)
  with 1 show ?case by (simp add: listhead_encode_eq Let_def)
next
  case (8 off k)
  then show ?case using listhead_encode_eq [of 0] weave_skip [of hs off "[0x80]" L b]
    by (simp add: enc_head_def split: if_splits)
next
  case (10 off v vs)
  then have "length (value_enc v) < 2 ^ 64" "length (concat (map value_enc vs)) < 2 ^ 64"
    by simp_all
  with 10 show ?case
    by (simp add: add.assoc [symmetric] chain_heads)
qed (simp_all add: weave_skip)

lemma toWriter_loop_eq:
  "chain hs p (length str) \<Longrightarrow> toWriter_loop hs str p = Some (weave hs p (drop p str))"
proof (induction hs arbitrary: p)
  case (Cons h hs)
  define q where "q = nat (lh_offset h)"
  have off: "lh_offset h = int q" "p \<le> q" using Cons(2) by (auto simp: q_def)
  then have "chain hs q (length str)" "q \<le> length str"
    using Cons(2) by (auto dest: chain_le)
  with off Cons(1) [of q] show ?case
    by (cases "p = q") (auto simp: Let_def)
qed simp

lemma overwrite_overwrite:
  assumes "pos + length a + length b \<le> length out"
  shows "take (pos + length a + length b) (overwrite (overwrite out pos a) (pos + length a) b) =
      take pos out @ a @ b"
    and "length (overwrite (overwrite out pos a) (pos + length a) b) = length out"
  using assms by (auto simp: overwrite_def)

definition toBytes_finish :: "bytes \<Rightarrow> (bytes \<times> nat \<times> nat) option \<Rightarrow> bytes option" where
  "toBytes_finish str r =
     (case r of None \<Rightarrow> None | Some (out, pos, strpos) \<Rightarrow> Some (overwrite out pos (drop strpos str)))"

lemma toBytes_alt:
  "toBytes w = (if encbuf_size w < 0 then None
     else toBytes_finish (eb_str w)
       (toBytes_loop (eb_lheads w) (eb_str w) (replicate (nat (encbuf_size w)) 0) 0 0))"
  by (simp add: toBytes_def toBytes_finish_def)

lemma toBytes_loop_eq:
  "chain hs p (length str) \<Longrightarrow> length out = pos + length (weave hs p (drop p str)) \<Longrightarrow>
     toBytes_finish str (toBytes_loop hs str out pos p) = Some (take pos out @ weave hs p (drop p str))"
proof (induction hs arbitrary: p out pos)
  case Nil
  then show ?case by (simp add: toBytes_finish_def overwrite_def)
next
  case (Cons h hs)
  define n where "n = nat (lh_offset h) - p"
  define enc where "enc = listhead_encode h"
  define seg where "seg = take n (drop p str)"
  define W where "W = weave hs (p + n) (drop (p + n) str)"
  have off: "lh_offset h = int (p + n)" using Cons(2) by (auto simp: n_def)
  then have q: "chain hs (p + n) (length str)" "p + n \<le> length str"
    using Cons(2) by (auto dest: chain_le simp: nat_int_add)
  then have seg: "length seg = n" by (simp add: seg_def)
  have w: "weave (h # hs) p (drop p str) = seg @ enc @ W"
    using off q by (simp add: seg_def enc_def W_def add.commute nat_int_add)
  have len: "length out = pos + n + length enc + length W"
    using Cons(3) unfolding w by (simp add: seg)
  define out2 where "out2 = overwrite (overwrite out pos seg) (pos + n) enc"
  have out2: "take (pos + n + length enc) out2 = take pos out @ seg @ enc" "length out2 = length out"
    unfolding out2_def using overwrite_overwrite [of pos seg enc out] len seg by simp_all
  have step: "toBytes_loop (h # hs) str out pos p = toBytes_loop hs str out2 (pos + n + length enc) (p + n)"
    using off q len by (simp add: Let_def seg_def [symmetric] enc_def [symmetric] seg out2_def nat_int_add)
  show ?case
    using Cons(1) [OF q(1), of out2 "pos + n + length enc"] out2 len
    unfolding step w by (simp add: W_def [symmetric])
qed

section \<open>The reader\<close>

definition er_pending :: "encReader \<Rightarrow> bytes" where
  "er_pending r =
     (case er_buf r of
        None \<Rightarrow> []
      | Some w \<Rightarrow> (case er_piece r of None \<Rightarrow> [] | Some p \<Rightarrow> p) @
          weave (drop (er_lhpos r) (eb_lheads w)) (er_strpos r) (drop (er_strpos r) (eb_str w)))"

definition er_inv :: "encReader \<Rightarrow> bool" where
  "er_inv r \<longleftrightarrow>
     (case er_buf r of
        None \<Rightarrow> True
      | Some w \<Rightarrow> chain (drop (er_lhpos r) (eb_lheads w)) (er_strpos r) (length (eb_str w)) \<and> er_piece r \<noteq> Some [])"

lemma listhead_encode_neq_Nil: "listhead_encode h \<noteq> []"
  by (simp add: listhead_encode_def puthead_def Let_def)

lemma encReader_next_eq:
  assumes "er_inv r"
  shows "(encReader_next r = Some (r, None) \<and> er_pending r = []) \<or>
    (\<exists>r' p. encReader_next r = Some (r', Some p) \<and> p \<noteq> [] \<and> er_inv (r'\<lparr>er_piece := None\<rparr>) \<and>
      er_buf r' = er_buf r \<and> er_buf r \<noteq> None \<and>
      er_pending r = p @ er_pending (r'\<lparr>er_piece := None\<rparr>))"
proof (cases "er_buf r")
  case None
  then show ?thesis by (simp add: encReader_next_def er_pending_def)
next
  case (Some w)
  show ?thesis
  proof (cases "er_piece r")
    case None
    show ?thesis
    proof (cases "er_lhpos r < length (eb_lheads w)")
      case True
      define h where "h = eb_lheads w ! er_lhpos r"
      define n where "n = nat (lh_offset h) - er_strpos r"
      have d: "drop (er_lhpos r) (eb_lheads w) = h # drop (Suc (er_lhpos r)) (eb_lheads w)"
        using True by (simp add: h_def Cons_nth_drop_Suc)
      then have off: "lh_offset h = int (er_strpos r + n)"
        and ch: "chain (drop (Suc (er_lhpos r)) (eb_lheads w)) (er_strpos r + n) (length (eb_str w))"
        using assms Some by (auto simp: er_inv_def n_def)
      show ?thesis
      proof (cases "n = 0")
        case True
        with \<open>er_lhpos r < _\<close> Some None d off ch show ?thesis
          by (simp add: encReader_next_def er_pending_def er_inv_def h_def [symmetric] listhead_encode_neq_Nil)
      next
        case False
        with \<open>er_lhpos r < _\<close> Some None d off ch chain_le [OF ch] show ?thesis
          by (simp add: encReader_next_def er_pending_def er_inv_def h_def [symmetric] Let_def nat_int_add add.commute)
      qed
    next
      case False
      with Some None assms show ?thesis
        by (simp add: encReader_next_def er_pending_def er_inv_def)
    qed
  next
    case (Some p)
    with \<open>er_buf r = Some w\<close> assms show ?thesis
      by (simp add: encReader_next_def er_pending_def er_inv_def)
  qed
qed

lemma encReader_loop_eq:
  "er_inv r \<Longrightarrow>
     \<exists>r'. encReader_loop r k acc = Some (r', acc @ take k (er_pending r),
       if k < length (er_pending r) then None else Some EOF) \<and> er_inv r' \<and> er_pending r' = drop k (er_pending r)"
proof (induction r k acc rule: encReader_loop.induct)
  case (1 r k acc)
  from encReader_next_eq [OF 1(2)] show ?case
  proof (elim disjE exE conjE)
    assume "encReader_next r = Some (r, None)" "er_pending r = []"
    then show ?case
      by (simp add: encReader_loop.simps [of r] er_inv_def er_pending_def)
  next
    fix r' p
    assume nx: "encReader_next r = Some (r', Some p)" and p: "p \<noteq> []"
      and inv: "er_inv (r'\<lparr>er_piece := None\<rparr>)" and buf: "er_buf r' = er_buf r" "er_buf r \<noteq> None"
      and pend: "er_pending r = p @ er_pending (r'\<lparr>er_piece := None\<rparr>)"
    show ?case
    proof (cases "k < length p")
      case True
      have "er_inv (r'\<lparr>er_piece := Some (drop k p)\<rparr>)" using inv True buf by (auto simp: er_inv_def)
      moreover have "er_pending (r'\<lparr>er_piece := Some (drop k p)\<rparr>) = drop k (er_pending r)"
        using pend buf True by (auto simp: er_pending_def)
      ultimately show ?thesis
        using nx True pend by (simp add: encReader_loop.simps [of r] Let_def min_def)
    next
      case False
      then have m: "min k (length p) = length p" by simp
      have "encReader_loop r k acc = encReader_loop (r'\<lparr>er_piece := None\<rparr>) (k - length p) (acc @ p)"
        using nx by (simp add: encReader_loop.simps [of r] Let_def m)
      with 1(1) [OF nx refl refl refl, unfolded m] inv pend False show ?thesis
        by (simp add: less_diff_conv2 add.commute)
    qed
  qed
qed

lemma encReader_Reads_eq:
  "er_inv r \<Longrightarrow> \<exists>bs. encReader_Reads r ks = Some bs \<and> concat bs = take (sum_list ks) (er_pending r)"
proof (induction ks arbitrary: r)
  case (Cons k ks)
  obtain r' e where r': "encReader_Read r k = Some (r', take k (er_pending r), e)"
      "er_inv r'" "er_pending r' = drop k (er_pending r)"
    using encReader_loop_eq [OF Cons(2), of k "[]"] by (auto simp: encReader_Read_def)
  with Cons(1) [OF r'(2)] show ?case
    by (auto simp: take_add)
qed simp

section \<open>Properties\<close>

definition value_buf :: "rlp_value \<Rightarrow> encbuf" where
  "value_buf v = \<lparr>eb_str = sdata v, eb_lheads = heads 0 v, eb_lhsize = int (hsize v)\<rparr>"

lemma value_buf_sel [simp]:
  "eb_str (value_buf v) = sdata v" "eb_lheads (value_buf v) = heads 0 v"
  by (simp_all add: value_buf_def)

lemma writeValue_reset:
  "value_ok v \<Longrightarrow> length (value_enc v) < 2 ^ 64 \<Longrightarrow> writeValue v encbuf_reset = Inr (Some (value_buf v))"
  by (simp add: write_eq(1) add_value_def encbuf_reset_def value_buf_def)

lemma chain_value: "chain (heads 0 v) 0 (length (sdata v))"
  using chain_heads(1) [of 0 0 "[]" v "length (sdata v)"] by simp

lemma weave_value: "length (value_enc v) < 2 ^ 64 \<Longrightarrow> weave (heads 0 v) 0 (sdata v) = value_enc v"
  using weave_heads(1) [of "[]" 0 v "length (sdata v)" "[]"] by simp

lemma encbuf_size_value: "encbuf_size (value_buf v) = int (length (value_enc v))"
  by (simp add: encbuf_size_def value_buf_def length_value_enc)

lemma toWriter_value: "length (value_enc v) < 2 ^ 64 \<Longrightarrow> toWriter (value_buf v) = Some (value_enc v)"
  using toWriter_loop_eq [OF chain_value] by (simp add: toWriter_def value_buf_def weave_value)

lemma toBytes_value: "length (value_enc v) < 2 ^ 64 \<Longrightarrow> toBytes (value_buf v) = Some (value_enc v)"
  using toBytes_loop_eq [OF chain_value, of "replicate (length (value_enc v)) 0" 0 v]
  by (simp add: toBytes_alt encbuf_size_value weave_value)

lemmas value_simps = writeValue_reset toWriter_value toBytes_value encbuf_size_value

text \<open>C26: Every value without a negative big integer whose encoding fits a 64-bit length is encoded by
  \<open>EncodeToBytes\<close> to exactly the bytes the encoding rules prescribe, nested lists at any depth included,
  although the encoder writes the contents first and weaves the list headers in afterwards.\<close>

theorem EncodeToBytes_correct:
  assumes "value_ok v" "length (value_enc v) < 2 ^ 64"
  shows "EncodeToBytes v = Inr (Some (value_enc v))"
  using assms by (simp add: EncodeToBytes_def value_simps)

theorem EncodeToBytes_correct_witness:
  "EncodeToBytes (VList [VBytes [0x63, 0x61, 0x74], VList [VUint 1024, VBool True], VBigInt 0]) =
     Inr (Some [0xCA, 0x83, 0x63, 0x61, 0x74, 0xC4, 0x82, 4, 0, 1, 0x80])"
proof -
  let ?v = "VList [VBytes [0x63, 0x61, 0x74], VList [VUint 1024, VBool True], VBigInt 0]"
  have "value_enc ?v = [0xCA, 0x83, 0x63, 0x61, 0x74, 0xC4, 0x82, 4, 0, 1, 0x80]"
    by (simp add: enc_str_def enc_head_def nat_bytes_pos [of 1024] nat_bytes_pos [of 4] nat_bytes_0)
  then show ?thesis using EncodeToBytes_correct [of ?v] by simp
qed

text \<open>Encoding fails exactly when the value holds a negative big integer, and then with the error for
  that.\<close>

theorem EncodeToBytes_error:
  "EncodeToBytes v = Inl e \<longleftrightarrow> e = ErrNegativeBigInt \<and> \<not> value_ok v"
  using write_error(1) [of v encbuf_reset]
  by (auto simp: EncodeToBytes_def split: sum.splits option.splits)

text \<open>C28: The three outputs of the encoder agree. Writing to an \<open>io.Writer\<close> produces the bytes
  \<open>EncodeToBytes\<close> returns, and reading from the reader of \<open>EncodeToReader\<close> with slices of any lengths
  produces the bytes of the same encoding in order, as many as there is room for, and the size it
  announces is the length of the encoding.\<close>

theorem encoder_outputs_agree:
  assumes "value_ok v" "length (value_enc v) < 2 ^ 64"
  shows "Encode v = EncodeToBytes v \<and>
         (\<exists>r bs. EncodeToReader v = Inr (Some (int (length (value_enc v)), r)) \<and>
           encReader_Reads r ks = Some bs \<and> concat bs = take (sum_list ks) (value_enc v))"
proof (intro conjI)
  show "Encode v = EncodeToBytes v"
    using assms by (simp add: Encode_def EncodeToBytes_def value_simps)
  define r where "r = \<lparr>er_buf = Some (value_buf v), er_lhpos = 0, er_strpos = 0, er_piece = None\<rparr>"
  have "er_inv r" using chain_value by (simp add: r_def er_inv_def value_buf_def)
  moreover have "er_pending r = value_enc v"
    using weave_value assms by (simp add: r_def er_pending_def value_buf_def)
  ultimately show "\<exists>r bs. EncodeToReader v = Inr (Some (int (length (value_enc v)), r)) \<and>
      encReader_Reads r ks = Some bs \<and> concat bs = take (sum_list ks) (value_enc v)"
    using assms encReader_Reads_eq [of r ks] by (auto simp: EncodeToReader_def value_simps r_def)
qed

theorem encoder_outputs_agree_witness:
  "\<exists>r bs. EncodeToReader (VList [VUint 7, VList []]) = Inr (Some (3, r)) \<and>
     encReader_Reads r [2, 4] = Some bs \<and> concat bs = [0xC2, 7, 0xC0]"
  using encoder_outputs_agree [of "VList [VUint 7, VList []]" "[2, 4]"]
  by (simp add: enc_str_def enc_head_def nat_bytes_pos [of 7] nat_bytes_0)

end
