(* ===== verification/RlpRaw.thy ===== *)
theory RlpRaw
  imports RlpEncode
begin

text \<open>
  The raw RLP functions (\<open>rlp/raw.go\<close>, \<open>rlp/iterator.go\<close>): \<open>readKind\<close> and \<open>readSize\<close> parse the header of
  a value, \<open>Split\<close> and its variants take the first value of a byte slice apart, \<open>CountValues\<close> counts the
  values in a slice, \<open>AppendUint64\<close> encodes an integer and \<open>listIterator\<close> walks over a list.

  The functions that parse a prefix of their input share one contract, the locale \<open>prefix_codec\<close>: an
  input is accepted exactly when it starts with the one encoding of the result. It is interpreted for the
  string, list and integer splitters and gives unique parsing of sequences.
\<close>

unbundle bit_operations_syntax

section \<open>Model\<close>

text \<open>On an error the functions return \<open>Kind\<close> 0 and sizes 0; \<open>Split\<close> returns its input as the rest.\<close>

definition readSize :: "bytes \<Rightarrow> byte \<Rightarrow> rlp_error + uint64" where
  "readSize b slen =
     (if unat slen > length b then Inl UnexpectedEOF
      else
        let c = (\<lambda>k. ucast (b ! k) :: uint64);
            s = (if slen = 1 then c 0
                 else if slen = 2 then push_bit 8 (c 0) OR c 1
                 else if slen = 3 then push_bit 16 (c 0) OR push_bit 8 (c 1) OR c 2
                 else if slen = 4 then push_bit 24 (c 0) OR push_bit 16 (c 1) OR push_bit 8 (c 2) OR c 3
                 else if slen = 5 then push_bit 32 (c 0) OR push_bit 24 (c 1) OR push_bit 16 (c 2)
                   OR push_bit 8 (c 3) OR c 4
                 else if slen = 6 then push_bit 40 (c 0) OR push_bit 32 (c 1) OR push_bit 24 (c 2)
                   OR push_bit 16 (c 3) OR push_bit 8 (c 4) OR c 5
                 else if slen = 7 then push_bit 48 (c 0) OR push_bit 40 (c 1) OR push_bit 32 (c 2)
                   OR push_bit 24 (c 3) OR push_bit 16 (c 4) OR push_bit 8 (c 5) OR c 6
                 else if slen = 8 then push_bit 56 (c 0) OR push_bit 48 (c 1) OR push_bit 40 (c 2)
                   OR push_bit 32 (c 3) OR push_bit 24 (c 4) OR push_bit 16 (c 5) OR push_bit 8 (c 6) OR c 7
                 else 0)
        in if s < 56 \<or> b ! 0 = 0 then Inl ErrCanonSize else Inr s)"

definition readKind :: "bytes \<Rightarrow> rlp_error + (Kind \<times> uint64 \<times> uint64)" where
  "readKind buf =
     (case buf of
        [] \<Rightarrow> Inl UnexpectedEOF
      | b # rest \<Rightarrow>
          (case (if b < 0x80 then Inr (Byte, 0, 1)
                 else if b < 0xB8 then
                   let contentsize = ucast (b - 0x80)
                   in if contentsize = 1 \<and> length buf > 1 \<and> buf ! 1 < 128 then Inl ErrCanonSize
                      else Inr (String, 1, contentsize)
                 else if b < 0xC0 then
                   map_sum id (\<lambda>contentsize. (String, ucast (b - 0xB7) + 1, contentsize)) (readSize rest (b - 0xB7))
                 else if b < 0xF8 then Inr (List, 1, ucast (b - 0xC0))
                 else
                   map_sum id (\<lambda>contentsize. (List, ucast (b - 0xF7) + 1, contentsize)) (readSize rest (b - 0xF7)))
           of Inl err \<Rightarrow> Inl err
            | Inr (k, tagsize, contentsize) \<Rightarrow>
                if contentsize > of_nat (length buf) - tagsize then Inl ErrValueTooLarge
                else Inr (k, tagsize, contentsize)))"

definition Split :: "bytes \<Rightarrow> rlp_error + (Kind \<times> bytes \<times> bytes)" where
  "Split b =
     (case readKind b of
        Inl err \<Rightarrow> Inl err
      | Inr (k, ts, cs) \<Rightarrow> Inr (k, take (unat cs) (drop (unat ts) b), drop (unat (ts + cs)) b))"

definition SplitString :: "bytes \<Rightarrow> rlp_error + (bytes \<times> bytes)" where
  "SplitString b =
     (case Split b of
        Inl err \<Rightarrow> Inl err
      | Inr (k, content, rest) \<Rightarrow> if k = List then Inl ErrExpectedString else Inr (content, rest))"

definition SplitUint64 :: "bytes \<Rightarrow> rlp_error + (uint64 \<times> bytes)" where
  "SplitUint64 b =
     (case SplitString b of
        Inl err \<Rightarrow> Inl err
      | Inr (content, rest) \<Rightarrow>
          if length content = 0 then Inr (0, rest)
          else if length content = 1 then
            if content ! 0 = 0 then Inl ErrCanonInt else Inr (ucast (content ! 0), rest)
          else if length content > 8 then Inl ErrUintOverflow
          else (case readSize content (of_nat (length content)) of
                  Inl _ \<Rightarrow> Inl ErrCanonInt
                | Inr x \<Rightarrow> Inr (x, rest)))"

definition SplitList :: "bytes \<Rightarrow> rlp_error + (bytes \<times> bytes)" where
  "SplitList b =
     (case Split b of
        Inl err \<Rightarrow> Inl err
      | Inr (k, content, rest) \<Rightarrow> if k \<noteq> List then Inl ErrExpectedList else Inr (content, rest))"

lemma unat_ucast_uint64: "unat (ucast (b :: byte) :: uint64) = unat b"
proof -
  have "unat b < 2 ^ 64" by (rule less_le_trans [OF unat_byte_less]) simp
  then have "take_bit 64 (unat b) = unat b" by (simp add: take_bit_nat_eq_self_iff)
  then show ?thesis by (simp add: unsigned_ucast_eq)
qed

lemma map_sum_Inr [simp]: "map_sum f g x = Inr y \<longleftrightarrow> (\<exists>z. x = Inr z \<and> y = g z)"
  by (cases x) auto

lemma readKind_advances:
  assumes "readKind b = Inr (k, ts, cs)"
  shows "b \<noteq> []" "0 < unat ts + unat cs"
proof -
  show "b \<noteq> []" using assms by (auto simp: readKind_def)
  have t: "0 < unat (ucast (c - d) + 1 :: uint64)" for c d :: byte
  proof -
    have "unat (ucast (c - d) :: uint64) < 256"
      using unat_byte_less [of "c - d"] by (simp add: unat_ucast_uint64)
    then have "unat (ucast (c - d) + 1 :: uint64) = unat (ucast (c - d) :: uint64) + 1"
      by (simp add: unat_word_ariths)
    then show ?thesis by simp
  qed
  show "0 < unat ts + unat cs"
    using assms t by (auto simp: readKind_def Let_def split: list.splits if_splits sum.splits)
qed

text \<open>The loop of \<open>CountValues\<close>; its slice expression is in range since \<open>readKind\<close> checked the size.\<close>

function CountValues_loop :: "bytes \<Rightarrow> int \<Rightarrow> rlp_error + int" where
  "CountValues_loop b i =
     (if length b > 0 then
        (case readKind b of
           Inl err \<Rightarrow> Inl err
         | Inr (k, tagsize, sz) \<Rightarrow> CountValues_loop (drop (unat tagsize + unat sz) b) (i + 1))
      else Inr i)"
  by pat_completeness auto
termination
  by (relation "measure (length \<circ> fst)") (auto dest: readKind_advances)

declare CountValues_loop.simps [simp del]

definition CountValues :: "bytes \<Rightarrow> rlp_error + int" where
  "CountValues b = CountValues_loop b 0"

definition ListSize :: "uint64 \<Rightarrow> uint64" where
  "ListSize contentSize = word_of_int (headsize contentSize) + contentSize"

definition AppendUint64 :: "bytes \<Rightarrow> uint64 \<Rightarrow> bytes" where
  "AppendUint64 b i =
     (let c = (\<lambda>k. ucast (drop_bit k i) :: byte)
      in if i = 0 then b @ [0x80]
         else if i < 128 then b @ [c 0]
         else if i < 2 ^ 8 then b @ [0x81, c 0]
         else if i < 2 ^ 16 then b @ [0x82, c 8, c 0]
         else if i < 2 ^ 24 then b @ [0x83, c 16, c 8, c 0]
         else if i < 2 ^ 32 then b @ [0x84, c 24, c 16, c 8, c 0]
         else if i < 2 ^ 40 then b @ [0x85, c 32, c 24, c 16, c 8, c 0]
         else if i < 2 ^ 48 then b @ [0x86, c 40, c 32, c 24, c 16, c 8, c 0]
         else if i < 2 ^ 56 then b @ [0x87, c 48, c 40, c 32, c 24, c 16, c 8, c 0]
         else b @ [0x88, c 56, c 48, c 40, c 32, c 24, c 16, c 8, c 0])"

subsection \<open>Iterator\<close>

record listIterator =
  it_data :: bytes
  it_next :: bytes
  it_err :: "rlp_error option"

definition NewListIterator :: "bytes \<Rightarrow> rlp_error + listIterator" where
  "NewListIterator data =
     (case readKind data of
        Inl err \<Rightarrow> Inl err
      | Inr (k, t, c) \<Rightarrow>
          if k \<noteq> List then Inl ErrExpectedList
          else Inr \<lparr>it_data = take (unat c) (drop (unat t) data), it_next = [], it_err = None\<rparr>)"

definition Next :: "listIterator \<Rightarrow> listIterator \<times> bool" where
  "Next it =
     (if length (it_data it) = 0 then (it, False)
      else
        let (t, c, err) = (case readKind (it_data it) of Inl e \<Rightarrow> (0, 0, Some e) | Inr (k, t, c) \<Rightarrow> (t, c, None))
        in (it\<lparr>it_next := take (unat (t + c)) (it_data it), it_data := drop (unat (t + c)) (it_data it),
               it_err := err\<rparr>, True))"

text \<open>The client loop \<open>for it.Next() { use(it.Value()) }\<close>, for at most \<open>n\<close> rounds.\<close>

primrec iterate :: "nat \<Rightarrow> listIterator \<Rightarrow> bytes list \<times> bool" where
  "iterate 0 it = ([], False)"
| "iterate (Suc n) it =
     (case Next it of
        (it', False) \<Rightarrow> ([], True)
      | (it', True) \<Rightarrow> (case iterate n it' of (vs, done) \<Rightarrow> (it_next it' # vs, done)))"

section \<open>Headers\<close>

lemma push_or_byte: "push_bit 8 s OR ucast (b :: byte) = s * 256 + (ucast b :: uint64)" for s :: uint64
proof -
  have "push_bit 8 s AND (ucast b :: uint64) = 0"
    by (rule bit_word_eqI) (auto simp: bit_simps dest: bit_imp_le_length)
  then have "push_bit 8 s + ucast b = push_bit 8 s OR (ucast b :: uint64)"
    by (rule disjunctive_add_eq_or)
  then show ?thesis by (simp add: push_bit_eq_mult)
qed

definition be_or :: "bytes \<Rightarrow> uint64" where
  "be_or bs = foldl (\<lambda>s b. push_bit 8 s OR ucast b) 0 bs"

lemma be_or_eq: "be_or bs = of_nat (be_nat bs)"
proof (induction bs rule: rev_induct)
  case (snoc b bs)
  then show ?case
    by (simp add: be_or_def push_or_byte be_nat_snoc mult.commute)
qed (simp add: be_or_def)

lemma take_map_nth: "n \<le> length xs \<Longrightarrow> take n xs = map ((!) xs) [0..<n]"
  by (rule nth_equalityI) simp_all

lemma upt_numeral: "[i..<numeral k] = (if i < numeral k then i # [Suc i..<numeral k] else [])"
  by (rule upt_rec)

lemma readSize_or:
  assumes "1 \<le> n" "n \<le> 8" "n \<le> length b"
  shows "readSize b (of_nat n) =
    (let s = be_or (take n b) in if s < 56 \<or> b ! 0 = 0 then Inl ErrCanonSize else Inr s)"
proof -
  have "n = 1 \<or> n = 2 \<or> n = 3 \<or> n = 4 \<or> n = 5 \<or> n = 6 \<or> n = 7 \<or> n = 8"
    using assms by arith
  moreover have "b \<noteq> []" using assms by auto
  ultimately show ?thesis
    using assms(3)
    by (elim disjE) (simp_all add: readSize_def be_or_def take_map_nth upt_numeral
      push_bit_or push_bit_push_bit or.assoc flip: numeral_2_eq_2)
qed

lemma readSize_eq:
  assumes "1 \<le> n" "n \<le> 8" "n \<le> length b"
  shows "readSize b (of_nat n) =
    (if be_nat (take n b) < 56 \<or> b ! 0 = 0 then Inl ErrCanonSize else Inr (of_nat (be_nat (take n b))))"
proof -
  have "be_nat (take n b) < 256 ^ n" using be_nat_less [of "take n b"] assms by simp
  also have "\<dots> \<le> 256 ^ 8" using assms by (intro power_increasing) auto
  finally have "be_nat (take n b) < 2 ^ 64" by simp
  then show ?thesis
    using assms by (simp add: readSize_or be_or_eq Let_def uint64_less_56)
qed

lemma nat_bytes_length_uint64: "n < 2 ^ 64 \<Longrightarrow> length (nat_bytes n) \<le> 8"
  by (simp add: length_nat_bytes_le)

lemma readSize_nat_bytes:
  assumes "56 \<le> n" "n < 2 ^ 64"
  shows "readSize (nat_bytes n @ rest) (of_nat (length (nat_bytes n))) = Inr (of_nat n)"
proof -
  have "nat_bytes n \<noteq> []" "hd (nat_bytes n) \<noteq> 0"
    using assms by (simp_all add: nat_bytes_eq_Nil hd_nat_bytes)
  moreover from this have "1 \<le> length (nat_bytes n)" by (simp add: Suc_le_eq)
  ultimately show ?thesis
    using assms nat_bytes_length_uint64 [OF assms(2)]
    by (simp add: readSize_eq be_nat_nat_bytes nth_append hd_conv_nth [symmetric])
qed

lemma readSize_inv:
  assumes "readSize b (of_nat n) = Inr s" "1 \<le> n" "n \<le> 8"
  shows "n \<le> length b \<and> 56 \<le> unat s \<and> nat_bytes (unat s) = take n b"
proof -
  have "unat (of_nat n :: byte) = n" using assms by (simp add: unat_of_nat take_bit_nat_eq_self)
  then have n: "n \<le> length b"
    using assms(1) by (auto simp: readSize_def split: if_splits)
  have "be_nat (take n b) < 256 ^ n" using be_nat_less [of "take n b"] n by simp
  also have "\<dots> \<le> 256 ^ 8" using assms by (intro power_increasing) auto
  finally have "unat (of_nat (be_nat (take n b)) :: uint64) = be_nat (take n b)"
    by (simp add: unat_of_nat_uint64)
  moreover have "s = of_nat (be_nat (take n b))" "56 \<le> be_nat (take n b)" "b ! 0 \<noteq> 0"
    using assms(1) readSize_eq [OF assms(2,3) n] by (auto split: if_splits)
  moreover have "hd (take n b) = b ! 0" using n assms(2) by (cases b) auto
  ultimately show ?thesis
    using n assms(2) by (simp add: nat_bytes_be_nat)
qed

lemma byte_sub: "d \<le> unat (b :: byte) \<Longrightarrow> b - of_nat d = of_nat (unat b - d)"
  by (simp add: of_nat_diff)

lemma of_nat_byte_less: "n < 256 \<Longrightarrow> unat (of_nat n :: byte) = n"
  by (simp add: unat_of_nat take_bit_nat_eq_self)

lemma byte_less_numeral: "b < numeral k \<longleftrightarrow> unat b < numeral k" if "numeral k < (256 :: nat)" for b :: byte
proof -
  have "unat (of_nat (numeral k) :: byte) = numeral k" using that by (rule of_nat_byte_less)
  then show ?thesis by (simp add: word_less_nat_alt)
qed

lemma of_nat_byte_sub:
  assumes "d \<le> n" "n < 256" shows "(of_nat n :: byte) - of_nat d = of_nat (n - d)"
  using assms by simp

lemma size_check:
  assumes "length buf < 2 ^ 64" "t \<le> length buf" "n < 2 ^ 64"
  shows "(of_nat n :: uint64) > of_nat (length buf) - of_nat t \<longleftrightarrow> length buf < t + n"
proof -
  have d: "(of_nat (length buf) :: uint64) - of_nat t = of_nat (length buf - t)" using assms by simp
  show ?thesis
    unfolding d word_less_nat_alt using assms by (auto simp: unat_of_nat_uint64 simp del: of_nat_diff)
qed

lemma ucast_of_nat_byte: "n < 256 \<Longrightarrow> (ucast (of_nat n :: byte) :: uint64) = of_nat n"
  by (simp add: word_unat_eq_iff unat_ucast_uint64 of_nat_byte_less unat_of_nat_uint64)

text \<open>The pieces of a canonical header, short and long, for the tags of strings and lists.\<close>

lemma short_head:
  assumes "n < 56" "t \<le> 0xC0"
  shows "enc_head t n = [of_nat (t + n)]" "unat (of_nat (t + n) :: byte) = t + n"
    "(of_nat (t + n) :: byte) - of_nat t = of_nat n"
proof -
  show "enc_head t n = [of_nat (t + n)]" using assms by (simp add: enc_head_def)
  show "unat (of_nat (t + n) :: byte) = t + n" using assms by (intro of_nat_byte_less) simp
  show "(of_nat (t + n) :: byte) - of_nat t = of_nat n" by simp
qed

lemma long_head:
  assumes "56 \<le> n" "n < 2 ^ 64" "t \<le> 0xC0"
  defines "m \<equiv> length (nat_bytes n)"
  shows "enc_head t n = of_nat (t + 55 + m) # nat_bytes n" "1 \<le> m" "m \<le> 8"
    "unat (of_nat (t + 55 + m) :: byte) = t + 55 + m"
    "(of_nat (t + 55 + m) :: byte) - of_nat (t + 55) = of_nat m"
    "(ucast (of_nat m :: byte) :: uint64) + 1 = of_nat (Suc m)"
proof -
  show "enc_head t n = of_nat (t + 55 + m) # nat_bytes n" using assms by (simp add: enc_head_def)
  show m: "1 \<le> m" using assms nat_bytes_eq_Nil [of n] by (cases "nat_bytes n") auto
  show m8: "m \<le> 8" using nat_bytes_length_uint64 [OF assms(2)] by (simp add: m_def)
  show "unat (of_nat (t + 55 + m) :: byte) = t + 55 + m" using assms m8 by (intro of_nat_byte_less) simp
  show "(of_nat (t + 55 + m) :: byte) - of_nat (t + 55) = of_nat m" by simp
  show "(ucast (of_nat m :: byte) :: uint64) + 1 = of_nat (Suc m)"
    using m8 by (simp add: ucast_of_nat_byte)
qed

text \<open>What \<open>readKind\<close> makes of a canonical header.\<close>

lemma readKind_list:
  assumes "length (enc_head 0xC0 n @ rest) < 2 ^ 64" "n < 2 ^ 64"
  shows "readKind (enc_head 0xC0 n @ rest) =
    (if length rest < n then Inl ErrValueTooLarge
     else Inr (List, of_nat (length (enc_head 0xC0 n)), of_nat n))"
proof (cases "n < 56")
  case True
  note h = short_head [OF True, of "0xC0", simplified]
  show ?thesis
    using size_check [of "enc_head 0xC0 n @ rest" 1 n] assms True unfolding h(1)
    by (simp add: readKind_def byte_less_numeral h(2) ucast_of_nat_byte del: of_nat_numeral)
next
  case False
  note h = long_head [of n "0xC0", simplified]
  show ?thesis
    using size_check [of "enc_head 0xC0 n @ rest" "Suc (length (nat_bytes n))" n] assms False 
    by (simp add: readKind_def byte_less_numeral h readSize_nat_bytes del: of_nat_numeral of_nat_add)
qed

lemma readKind_string:
  assumes "length (enc_head 0x80 n @ rest) < 2 ^ 64" "n < 2 ^ 64"
  shows "readKind (enc_head 0x80 n @ rest) =
    (if n = 1 \<and> rest \<noteq> [] \<and> hd rest < 0x80 then Inl ErrCanonSize
     else if length rest < n then Inl ErrValueTooLarge
     else Inr (String, of_nat (length (enc_head 0x80 n)), of_nat n))"
proof (cases "n < 56")
  case True
  note h = short_head [OF True, of "0x80", simplified]
  have one: "(of_nat n :: uint64) = 1 \<longleftrightarrow> n = 1"
    using True by (simp add: word_unat_eq_iff unat_of_nat_uint64)
  show ?thesis
    using size_check [of "enc_head 0x80 n @ rest" 1 n] assms True unfolding h(1)
    by (auto simp add: readKind_def byte_less_numeral h(2) ucast_of_nat_byte one hd_conv_nth simp del: of_nat_numeral)
next
  case False
  note h = long_head [of n "0x80", simplified]
  show ?thesis
    using size_check [of "enc_head 0x80 n @ rest" "Suc (length (nat_bytes n))" n] assms False
      nat_bytes_length_uint64 [OF assms(2)]
    by (simp add: less_Suc_eq_le [of _ 8, simplified] readKind_def byte_less_numeral h readSize_nat_bytes del: of_nat_numeral of_nat_add)
qed

lemma readKind_byte: "b < 0x80 \<Longrightarrow> length rest < 2 ^ 64 - 1 \<Longrightarrow> readKind (b # rest) = Inr (Byte, 0, 1)"
  using size_check [of "b # rest" 0 1] by (simp add: readKind_def)

text \<open>Only canonical headers are accepted.\<close>

lemma short_head_inv:
  assumes "t \<le> unat b" "unat b < t + 56"
  shows "[b] = enc_head t (unat b - t)"
proof -
  have "unat b - t < 56" using assms by arith
  then show ?thesis using assms by (simp add: enc_head_def)
qed

lemma long_head_inv:
  assumes "readSize rest (b - of_nat (t + 55)) = Inr s" "t + 56 \<le> unat b" "unat b < t + 64"
  shows "\<exists>n rest'. n < 2 ^ 64 \<and> b # rest = enc_head t n @ rest'"
proof -
  define m where "m = unat b - (t + 55)"
  have m: "1 \<le> m" "m \<le> 8" "b - of_nat (t + 55) = of_nat m"
    using assms(2,3) byte_sub [of "t + 55" b] by (simp_all add: m_def)
  have r: "m \<le> length rest" "56 \<le> unat s" "nat_bytes (unat s) = take m rest"
    using readSize_inv [of rest m s] assms(1) m by auto
  have "b = of_nat (t + 55 + m)" using assms(2) by (simp add: m_def)
  then have "b # rest = enc_head t (unat s) @ drop m rest"
    using r by (simp add: enc_head_def)
  then show ?thesis using unat_uint64_less [of s] by blast
qed

lemma readKind_inv:
  assumes "readKind buf = Inr (k, ts, cs)"
  shows "(k = Byte \<and> (\<exists>b rest. buf = b # rest \<and> b < 0x80)) \<or>
    (k = String \<and> (\<exists>n rest. n < 2 ^ 64 \<and> buf = enc_head 0x80 n @ rest)) \<or>
    (k = List \<and> (\<exists>n rest. n < 2 ^ 64 \<and> buf = enc_head 0xC0 n @ rest))"
proof -
  obtain b rest where buf: "buf = b # rest" using readKind_advances(1) [OF assms] by (cases buf) auto
  have short: "\<exists>n rest'. n < 2 ^ 64 \<and> buf = enc_head t n @ rest'" if "t \<le> unat b" "unat b < t + 56" for t
  proof (intro exI conjI)
    show "buf = enc_head t (unat b - t) @ rest" using short_head_inv [OF that] by (simp add: buf)
  qed (use that in simp)
  consider "unat b < 0x80" | "0x80 \<le> unat b" "unat b < 0xB8" | "0xB8 \<le> unat b" "unat b < 0xC0"
    | "0xC0 \<le> unat b" "unat b < 0xF8" | "0xF8 \<le> unat b" by linarith
  then show ?thesis
  proof cases
    case 1
    with assms show ?thesis
      by (auto simp: readKind_def buf byte_less_numeral split: if_splits)
  next
    case 2
    with assms short [of "0x80"] show ?thesis
      by (auto simp: readKind_def buf byte_less_numeral Let_def split: if_splits)
  next
    case 3
    with assms long_head_inv [of rest b "0x80"] show ?thesis
      by (auto simp: readKind_def buf byte_less_numeral Let_def split: sum.splits if_splits)
  next
    case 4
    with assms short [of "0xC0"] show ?thesis
      by (auto simp: readKind_def buf byte_less_numeral Let_def split: if_splits)
  next
    case 5
    with assms long_head_inv [of rest b "0xC0"] unat_byte_less [of b] show ?thesis
      by (auto simp: readKind_def buf byte_less_numeral Let_def split: sum.splits if_splits)
  qed
qed

section \<open>Splitting\<close>

fun kind_enc :: "Kind \<Rightarrow> bytes \<Rightarrow> bytes" where
  "kind_enc Byte c = c"
| "kind_enc String c = enc_head 0x80 (length c) @ c"
| "kind_enc List c = enc_head 0xC0 (length c) @ c"

fun kind_ok :: "Kind \<Rightarrow> bytes \<Rightarrow> bool" where
  "kind_ok Byte c \<longleftrightarrow> length c = 1 \<and> hd c < 0x80"
| "kind_ok String c \<longleftrightarrow> \<not> (length c = 1 \<and> hd c < 0x80)"
| "kind_ok List c \<longleftrightarrow> True"

fun kind_tag :: "Kind \<Rightarrow> bytes \<Rightarrow> bytes" where
  "kind_tag Byte c = []"
| "kind_tag String c = enc_head 0x80 (length c)"
| "kind_tag List c = enc_head 0xC0 (length c)"

lemma kind_enc_tag: "kind_enc k c = kind_tag k c @ c"
  by (cases k) simp_all

lemma readKind_kind_enc:
  assumes "kind_ok k c" "length (kind_enc k c @ r) < 2 ^ 64"
  shows "readKind (kind_enc k c @ r) = Inr (k, of_nat (length (kind_tag k c)), of_nat (length c))"
proof (cases k)
  case Byte
  with assms obtain b where "c = [b]" "b < 0x80" by (cases c) auto
  with Byte assms show ?thesis by (simp add: readKind_byte)
next
  case String
  with assms show ?thesis using readKind_string [of "length c" "c @ r"] by (cases c) auto
next
  case List
  with assms show ?thesis using readKind_list [of "length c" "c @ r"] by simp
qed

lemma readKind_iff:
  assumes "length b < 2 ^ 64"
  shows "readKind b = Inr (k, ts, cs) \<longleftrightarrow>
    (\<exists>c r. kind_ok k c \<and> b = kind_enc k c @ r \<and> ts = of_nat (length (kind_tag k c)) \<and> cs = of_nat (length c))"
    (is "?L = ?R")
proof
  assume ?L
  have "\<exists>c r. kind_ok k c \<and> b = kind_enc k c @ r"
    using readKind_inv [OF \<open>?L\<close>]
  proof (elim disjE conjE exE)
    fix x rest assume "k = Byte" "b = x # rest" "x < 0x80"
    then show ?thesis by (intro exI [of _ "[x]"] exI [of _ rest]) simp
  next
    fix n rest assume k: "k = String" and n: "n < 2 ^ 64" and b: "b = enc_head 0x80 n @ rest"
    have "\<not> (n = 1 \<and> rest \<noteq> [] \<and> hd rest < 0x80) \<and> \<not> length rest < n"
      using \<open>?L\<close> readKind_string [of n rest] assms n b by (auto split: if_splits)
    then show ?thesis
      using k b by (intro exI [of _ "take n rest"] exI [of _ "drop n rest"]) (auto simp: min_def)
  next
    fix n rest assume k: "k = List" and n: "n < 2 ^ 64" and b: "b = enc_head 0xC0 n @ rest"
    have "\<not> length rest < n"
      using \<open>?L\<close> readKind_list [of n rest] assms n b by (auto split: if_splits)
    then show ?thesis
      using k b by (intro exI [of _ "take n rest"] exI [of _ "drop n rest"]) (auto simp: min_def)
  qed
  then show ?R using \<open>?L\<close> readKind_kind_enc assms by fastforce
next
  assume ?R
  then show ?L using readKind_kind_enc assms by auto
qed

lemma Split_iff:
  assumes "length b < 2 ^ 64"
  shows "Split b = Inr (k, c, r) \<longleftrightarrow> kind_ok k c \<and> b = kind_enc k c @ r"
proof -
  have split: "Split (kind_enc k c @ r) = Inr (k, c, r)"
    if "kind_ok k c" "length (kind_enc k c @ r) < 2 ^ 64" for k c r
  proof -
    have "unat (of_nat (length (kind_tag k c)) + of_nat (length c) :: uint64) = length (kind_tag k c) + length c"
      using that(2) unfolding kind_enc_tag of_nat_add [symmetric] by (intro unat_of_nat_uint64) simp
    then show ?thesis
      using that by (simp add: Split_def readKind_kind_enc) (simp add: kind_enc_tag unat_of_nat_uint64)
  qed
  show ?thesis
  proof
    assume L: "Split b = Inr (k, c, r)"
    then obtain ts cs where "readKind b = Inr (k, ts, cs)"
      by (auto simp: Split_def split: sum.splits)
    then obtain c' r' where "kind_ok k c'" "b = kind_enc k c' @ r'"
      using readKind_iff [OF assms] by blast
    with L split [of k c' r'] assms show "kind_ok k c \<and> b = kind_enc k c @ r" by auto
  qed (use assms split in auto)
qed

lemma enc_str_iff: "b = enc_str c @ r \<longleftrightarrow> (\<exists>k. k \<noteq> List \<and> kind_ok k c \<and> b = kind_enc k c @ r)"
proof
  assume "b = enc_str c @ r"
  then show "\<exists>k. k \<noteq> List \<and> kind_ok k c \<and> b = kind_enc k c @ r"
    by (intro exI [of _ "if length c = 1 \<and> hd c < 0x80 then Byte else String"]) (auto simp: enc_str_def)
next
  assume "\<exists>k. k \<noteq> List \<and> kind_ok k c \<and> b = kind_enc k c @ r"
  then obtain k where "k \<noteq> List" "kind_ok k c" "b = kind_enc k c @ r" by blast
  then show "b = enc_str c @ r" by (cases k) (auto simp: enc_str_def)
qed

section \<open>Prefix codecs\<close>

text \<open>
  The contract of a function that takes one value off the front of its input, for inputs whose length a
  64-bit integer can hold: it succeeds with \<open>x\<close> and \<open>r\<close> exactly when the input is the encoding of \<open>x\<close>
  followed by \<open>r\<close>.
\<close>

locale prefix_codec =
  fixes enc :: "'a \<Rightarrow> bytes" and dec :: "bytes \<Rightarrow> rlp_error + ('a \<times> bytes)"
  assumes dec_iff: "length b < 2 ^ 64 \<Longrightarrow> dec b = Inr (x, r) \<longleftrightarrow> b = enc x @ r"
    and enc_neq_Nil: "enc x \<noteq> []"
begin

lemma dec_enc: "length (enc x @ r) < 2 ^ 64 \<Longrightarrow> dec (enc x @ r) = Inr (x, r)"
  by (simp only: dec_iff)

lemma enc_unique:
  assumes "enc x @ r = enc y @ s" "length (enc x @ r) < 2 ^ 64"
  shows "x = y \<and> r = s"
  using dec_enc [OF assms(2)] dec_enc [of y s] assms by (metis Pair_inject sum.inject(2))

lemma sequence_unique:
  "concat (map enc xs) = concat (map enc ys) \<Longrightarrow> length (concat (map enc xs)) < 2 ^ 64 \<Longrightarrow> xs = ys"
proof (induction xs arbitrary: ys)
  case Nil
  then show ?case using enc_neq_Nil by (cases ys) auto
next
  case (Cons x xs)
  then obtain y ys' where ys: "ys = y # ys'" using enc_neq_Nil [of x] by (cases ys) auto
  with Cons(2,3) have "x = y \<and> concat (map enc xs) = concat (map enc ys')"
    by (intro enc_unique) simp_all
  with Cons ys show ?case by simp
qed

end

lemma enc_head_neq_Nil [simp]: "enc_head t n \<noteq> []"
  by (simp add: enc_head_def)

lemma enc_str_neq_Nil [simp]: "enc_str b \<noteq> []"
  by (auto simp: enc_str_def)

interpretation string_codec: prefix_codec enc_str SplitString
proof unfold_locales
  fix b :: bytes and x r assume "length b < 2 ^ 64"
  note s = Split_iff [OF this]
  have "SplitString b = Inr (x, r) \<longleftrightarrow> (\<exists>k. k \<noteq> List \<and> Split b = Inr (k, x, r))"
    by (auto simp: SplitString_def split: sum.splits)
  then show "SplitString b = Inr (x, r) \<longleftrightarrow> b = enc_str x @ r"
    by (simp add: s enc_str_iff)
qed simp

interpretation list_codec: prefix_codec "kind_enc List" SplitList
proof unfold_locales
  fix b :: bytes and x r assume "length b < 2 ^ 64"
  note s = Split_iff [OF this]
  have "SplitList b = Inr (x, r) \<longleftrightarrow> Split b = Inr (List, x, r)"
    by (auto simp: SplitList_def split: sum.splits)
  then show "SplitList b = Inr (x, r) \<longleftrightarrow> b = kind_enc List x @ r"
    by (simp add: s)
qed simp

section \<open>Integers\<close>

text \<open>The part of \<open>SplitUint64\<close> that reads the content.\<close>

lemma nat_bytes_single: "b \<noteq> 0 \<Longrightarrow> nat_bytes (unat b) = [b]"
  using nat_bytes_be_nat [of "[b]"] by (simp add: be_nat_Cons)

lemma uint_content_iff:
  assumes "2 \<le> length c" "length c \<le> 8"
  shows "readSize c (of_nat (length c)) = Inr x \<longleftrightarrow> c = nat_bytes (unat x)"
proof
  assume "readSize c (of_nat (length c)) = Inr x"
  from readSize_inv [OF this] assms show "c = nat_bytes (unat x)" by simp
next
  assume c: "c = nat_bytes (unat x)"
  then have "\<not> unat x < 256" using assms(1) length_nat_bytes_le [of "unat x" 1] by auto
  then show "readSize c (of_nat (length c)) = Inr x"
    using readSize_nat_bytes [of "unat x" "[]"] unat_uint64_less [of x] c by simp
qed

lemma single_nat_bytes: "[a] = nat_bytes (unat x) \<longleftrightarrow> a \<noteq> 0 \<and> x = ucast a" for x :: uint64
proof
  assume a: "[a] = nat_bytes (unat x)"
  have "unat x \<noteq> 0" using a by (cases "unat x = 0") simp_all
  then have "a \<noteq> 0" using hd_nat_bytes [of "unat x"] by (simp flip: a)
  moreover have "unat x = unat a"
    using arg_cong [OF a, of be_nat] by (simp add: be_nat_Cons)
  ultimately show "a \<noteq> 0 \<and> x = ucast a" by (simp add: word_unat_eq_iff unat_ucast_uint64)
qed (simp add: unat_ucast_uint64 nat_bytes_single)

lemma SplitUint64_iff:
  assumes "length b < 2 ^ 64"
  shows "SplitUint64 b = Inr (x, r) \<longleftrightarrow> b = enc_str (nat_bytes (unat x)) @ r"
proof -
  have x8: "length (nat_bytes (unat x)) \<le> 8"
    using nat_bytes_length_uint64 [OF unat_uint64_less] .
  have "SplitUint64 b = Inr (x, r) \<longleftrightarrow> SplitString b = Inr (nat_bytes (unat x), r)"
  proof (cases "SplitString b")
    case (Inr p)
    obtain c r' where p: "p = (c, r')" by (cases p)
    consider "length c = 0" | "length c = Suc 0" | "2 \<le> length c" "length c \<le> 8" | "8 < length c"
      by linarith
    then show ?thesis
    proof cases
      case 1
      have "[] = nat_bytes (unat x) \<longleftrightarrow> x = 0"
        unfolding eq_commute [of "[]"] by (simp add: unat_eq_0)
      then show ?thesis using 1 by (auto simp: SplitUint64_def Inr p)
    next
      case 2
      then obtain a where "c = [a]" by (auto simp: length_Suc_conv)
      then show ?thesis
        by (auto simp: SplitUint64_def Inr p single_nat_bytes)
    next
      case 3
      then have "SplitUint64 b = Inr (x, r) \<longleftrightarrow> readSize c (of_nat (length c)) = Inr x \<and> r' = r"
        by (auto simp: SplitUint64_def Inr p split: sum.splits)
      then show ?thesis using 3 by (simp add: uint_content_iff Inr p)
    next
      case 4
      then show ?thesis using x8 by (auto simp: SplitUint64_def Inr p)
    qed
  qed (simp add: SplitUint64_def)
  then show ?thesis by (simp add: string_codec.dec_iff [OF assms])
qed

lemma AppendUint64_eq: "AppendUint64 b i = b @ enc_str (nat_bytes (unat i))"
proof -
  have "AppendUint64 b i = eb_str (encodeUint \<lparr>eb_str = b, eb_lheads = [], eb_lhsize = 0\<rparr> i)"
    unfolding AppendUint64_def encodeUint_def putint_def Let_def by simp
  then show ?thesis by (simp add: encodeUint_eq)
qed

interpretation uint64_codec: prefix_codec "AppendUint64 []" SplitUint64
  by unfold_locales (simp_all add: AppendUint64_eq SplitUint64_iff)

section \<open>Sequences\<close>

fun item_kind :: "item \<Rightarrow> Kind" where
  "item_kind (Str b) = (if length b = 1 \<and> hd b < 0x80 then Byte else String)"
| "item_kind (Lst xs) = List"

fun item_content :: "item \<Rightarrow> bytes" where
  "item_content (Str b) = b"
| "item_content (Lst xs) = concat (map rlp_enc xs)"

lemma rlp_enc_kind: "rlp_enc x = kind_enc (item_kind x) (item_content x)" "kind_ok (item_kind x) (item_content x)"
  by (cases x; simp add: enc_str_def Let_def)+

lemma kind_enc_neq_Nil: "kind_ok k c \<Longrightarrow> kind_enc k c \<noteq> []"
  by (cases k) auto

lemma readKind_size:
  assumes "kind_ok k c" "length (kind_enc k c @ r) < 2 ^ 64"
  shows "\<exists>ts cs. readKind (kind_enc k c @ r) = Inr (k, ts, cs) \<and> unat ts + unat cs = length (kind_enc k c)
    \<and> unat (ts + cs) = length (kind_enc k c)"
proof -
  have "unat (of_nat (length (kind_tag k c)) + of_nat (length c) :: uint64) = length (kind_enc k c)"
    using assms(2) unfolding kind_enc_tag of_nat_add [symmetric] by (subst unat_of_nat_uint64) simp_all
  with assms show ?thesis
    by (simp add: readKind_kind_enc) (simp add: kind_enc_tag unat_of_nat_uint64)
qed

abbreviation values_enc :: "(Kind \<times> bytes) list \<Rightarrow> bytes" where
  "values_enc vs \<equiv> concat (map (\<lambda>v. kind_enc (fst v) (snd v)) vs)"

abbreviation values_ok :: "(Kind \<times> bytes) list \<Rightarrow> bool" where
  "values_ok vs \<equiv> list_all (\<lambda>v. kind_ok (fst v) (snd v)) vs"

lemma CountValues_loop_values:
  "values_ok vs \<Longrightarrow> length (values_enc vs) < 2 ^ 64 \<Longrightarrow>
     CountValues_loop (values_enc vs) i = Inr (i + int (length vs))"
proof (induction vs arbitrary: i)
  case (Cons v vs)
  then have "kind_ok (fst v) (snd v)" "kind_enc (fst v) (snd v) \<noteq> []"
    by (simp_all add: kind_enc_neq_Nil)
  moreover obtain ts cs where "readKind (kind_enc (fst v) (snd v) @ values_enc vs) = Inr (fst v, ts, cs)"
      "unat ts + unat cs = length (kind_enc (fst v) (snd v))"
    using readKind_size [OF calculation(1), of "values_enc vs"] Cons(3) by auto
  ultimately have "CountValues_loop (values_enc (v # vs)) i = CountValues_loop (values_enc vs) (i + 1)"
    by (simp add: CountValues_loop.simps [of "kind_enc (fst v) (snd v) @ values_enc vs"])
  with Cons show ?case by simp
qed (simp add: CountValues_loop.simps)

lemma CountValues_loop_inv:
  "CountValues_loop b i = Inr n \<Longrightarrow> length b < 2 ^ 64 \<Longrightarrow> \<exists>vs. values_ok vs \<and> b = values_enc vs"
proof (induction b i rule: CountValues_loop.induct)
  case (1 b i)
  show ?case
  proof (cases "b = []")
    case True
    then show ?thesis by (intro exI [of _ "[]"]) simp
  next
    case False
    then obtain k ts cs where t: "readKind b = Inr (k, ts, cs)"
      using "1.prems" by (auto simp: CountValues_loop.simps [of b] split: sum.splits)
    then obtain c r where b: "kind_ok k c" "b = kind_enc k c @ r"
      using readKind_iff "1.prems" by blast
    have r: "drop (unat ts + unat cs) b = r"
      using readKind_size [OF b(1), of r] t "1.prems" b(2) by auto
    have "CountValues_loop r (i + 1) = Inr n"
      using False t r "1.prems" by (simp add: CountValues_loop.simps [of b])
    then obtain vs where "values_ok vs" "r = values_enc vs"
      using "1.IH" [OF _ t refl refl, unfolded r] False "1.prems"(2) unfolding b(2) by fastforce
    then show ?thesis using b by (intro exI [of _ "(k, c) # vs"]) simp
  qed
qed

lemma items_values:
  "values_enc (map (\<lambda>x. (item_kind x, item_content x)) xs) = concat (map rlp_enc xs)"
  "values_ok (map (\<lambda>x. (item_kind x, item_content x)) xs)"
  by (simp_all add: comp_def list_all_iff rlp_enc_kind(2) flip: rlp_enc_kind(1))

lemma Next_item:
  assumes "length (rlp_enc x @ r) < 2 ^ 64"
  shows "Next \<lparr>it_data = rlp_enc x @ r, it_next = n, it_err = e\<rparr> =
    (\<lparr>it_data = r, it_next = rlp_enc x, it_err = None\<rparr>, True)"
  using readKind_size [OF rlp_enc_kind(2), of x r] assms kind_enc_neq_Nil [OF rlp_enc_kind(2), of x]
  by (auto simp: Next_def rlp_enc_kind(1) [symmetric])

lemma iterate_items:
  "length (concat (map rlp_enc xs)) < 2 ^ 64 \<Longrightarrow> length xs < n \<Longrightarrow>
     iterate n \<lparr>it_data = concat (map rlp_enc xs), it_next = nx, it_err = e\<rparr> = (map rlp_enc xs, True)"
proof (induction xs arbitrary: n nx e)
  case Nil
  then show ?case by (cases n) (simp_all add: Next_def)
next
  case (Cons x xs)
  then obtain m where "n = Suc m" "length xs < m" by (cases n) auto
  with Cons show ?case by (simp add: Next_item)
qed

section \<open>Properties\<close>

text \<open>C27: \<open>Split\<close> accepts an input exactly when it begins with a canonically encoded value, and then
  returns the kind and content of that value and the bytes after it. So every value has one encoding,
  and headers in a longer form, sizes with leading zeros, single bytes wrapped in a string header and
  values larger than the input are all refused.\<close>

theorem Split_canonical:
  assumes "length b < 2 ^ 64"
  shows "Split b = Inr (k, c, r) \<longleftrightarrow> kind_ok k c \<and> b = kind_enc k c @ r"
  by (rule Split_iff) (rule assms)

theorem Split_canonical_witness:
  "Split [0x82, 1, 2, 0xC0] = Inr (String, [1, 2], [0xC0]) \<and> Split [0x81, 5] \<noteq> Inr (String, [5], [])"
  using Split_canonical [of "[0x82, 1, 2, 0xC0]" String "[1, 2]" "[0xC0]"]
    Split_canonical [of "[0x81, 5]" String "[5]" "[]"]
  by (simp add: enc_head_def)

text \<open>C29: \<open>SplitUint64\<close> reads back what \<open>AppendUint64\<close> writes, whatever follows it, and accepts nothing
  else: the encoding of a 64-bit integer is unique, leading zeros and longer integers are refused.\<close>

theorem SplitUint64_AppendUint64:
  assumes "length b < 2 ^ 64"
  shows "SplitUint64 b = Inr (x, r) \<longleftrightarrow> b = AppendUint64 [] x @ r"
  by (rule uint64_codec.dec_iff) (rule assms)

theorem SplitUint64_AppendUint64_witness:
  "SplitUint64 [0x82, 4, 0, 7] = Inr (1024, [7]) \<and> SplitUint64 [0x82, 0, 4] \<noteq> Inr (4, [])"
  using SplitUint64_AppendUint64 [of "[0x82, 4, 0, 7]" 1024 "[7]"] SplitUint64_AppendUint64 [of "[0x82, 0, 4]" 4 "[]"]
  by (simp add: AppendUint64_def Let_def)

text \<open>C30: \<open>CountValues\<close> succeeds exactly on the concatenations of canonically encoded values, and returns
  their number.\<close>

theorem CountValues_exact:
  assumes "length b < 2 ^ 64"
  shows "CountValues b = Inr n \<longleftrightarrow> (\<exists>vs. values_ok vs \<and> b = values_enc vs \<and> n = int (length vs))"
proof
  assume n: "CountValues b = Inr n"
  then obtain vs where "values_ok vs" "b = values_enc vs"
    using CountValues_loop_inv [OF _ assms] unfolding CountValues_def by blast
  then show "\<exists>vs. values_ok vs \<and> b = values_enc vs \<and> n = int (length vs)"
    using CountValues_loop_values [of vs 0] n assms by (intro exI [of _ vs]) (simp add: CountValues_def)
next
  assume "\<exists>vs. values_ok vs \<and> b = values_enc vs \<and> n = int (length vs)"
  then show "CountValues b = Inr n"
    using CountValues_loop_values [of _ 0] assms by (auto simp: CountValues_def)
qed

theorem CountValues_exact_witness:
  "CountValues [5, 0xC1, 0x80, 0x81, 0x90] = Inr 3"
proof -
  have "\<exists>vs. values_ok vs \<and> [5, 0xC1, 0x80, 0x81, 0x90] = values_enc vs \<and> 3 = int (length vs)"
    by (intro exI [of _ "[(Byte, [5]), (List, [0x80]), (String, [0x90])]"]) (simp add: enc_head_def)
  then show ?thesis using CountValues_exact [of "[5, 0xC1, 0x80, 0x81, 0x90]" 3] by simp
qed

text \<open>C31: Walking over the encoding of a list with \<open>listIterator\<close> visits the encodings of the elements, in
  order, and ends after the last one.\<close>

theorem iterator_visits_elements:
  assumes "length (rlp_enc (Lst xs)) < 2 ^ 64" "length xs < n"
  shows "\<exists>it. NewListIterator (rlp_enc (Lst xs)) = Inr it \<and> iterate n it = (map rlp_enc xs, True)"
proof -
  have "readKind (rlp_enc (Lst xs)) =
      Inr (List, of_nat (length (kind_tag List (concat (map rlp_enc xs)))), of_nat (length (concat (map rlp_enc xs))))"
    using readKind_kind_enc [of List "concat (map rlp_enc xs)" "[]"] assms(1) by (simp add: Let_def)
  moreover have "length (concat (map rlp_enc xs)) < 2 ^ 64"
      "length (kind_tag List (concat (map rlp_enc xs))) < 2 ^ 64"
    using assms(1) by (simp_all add: Let_def)
  ultimately have "NewListIterator (rlp_enc (Lst xs)) =
      Inr \<lparr>it_data = concat (map rlp_enc xs), it_next = [], it_err = None\<rparr>"
    by (simp add: NewListIterator_def Let_def unat_of_nat_uint64 del: length_concat)
  then show ?thesis using iterate_items assms(2) \<open>length (concat _) < _\<close> by blast
qed

theorem iterator_visits_elements_witness:
  "\<exists>it. NewListIterator [0xC3, 5, 0xC0, 7] = Inr it \<and> iterate 4 it = ([[5], [0xC0], [7]], True)"
  using iterator_visits_elements [of "[Str [5], Lst [], Str [7]]" 4]
  by (simp add: enc_str_def enc_head_def)

text \<open>C33: On malformed data \<open>Next\<close> records the error but returns true and does not advance, so a loop
  \<open>for it.Next()\<close> that does not look at \<open>Err\<close> never ends: it has not ended after any number of rounds.\<close>

theorem iterator_stuck_on_malformed:
  assumes "it_data it \<noteq> []" "readKind (it_data it) = Inl e"
  shows "Next it = (it\<lparr>it_next := [], it_err := Some e\<rparr>, True) \<and> \<not> snd (iterate n it)"
proof
  have step: "Next it = (it\<lparr>it_next := [], it_err := Some e\<rparr>, True)"
    if "it_data it \<noteq> []" "readKind (it_data it) = Inl e" for it :: listIterator
    using that by (simp add: Next_def)
  show "Next it = (it\<lparr>it_next := [], it_err := Some e\<rparr>, True)" using step assms .
  show "\<not> snd (iterate n it)" using assms
  proof (induction n arbitrary: it)
    case (Suc n)
    then have "\<not> snd (iterate n (it\<lparr>it_next := [], it_err := Some e\<rparr>))" by simp
    then show ?case using Suc.prems by (auto simp: step split: prod.splits)
  qed simp
qed

theorem iterator_stuck_on_malformed_witness:
  "Next \<lparr>it_data = [0x81, 5], it_next = [], it_err = None\<rparr> =
    (\<lparr>it_data = [0x81, 5], it_next = [], it_err = Some ErrCanonSize\<rparr>, True)"
  using iterator_stuck_on_malformed [of "\<lparr>it_data = [0x81, 5], it_next = [], it_err = None\<rparr>" ErrCanonSize 0]
  by (simp add: readKind_def)

end
