(* ===== verification/RlpStream.thy ===== *)
theory RlpStream
  imports RlpRaw
begin

text \<open>
  The RLP decoder (\<open>rlp/decode.go\<close>): \<open>Stream\<close> reads one value after the other from its input, with a
  stack of the lists it is inside of, and the decoders for the Go types are built on it.

  The main result is the round trip with the encoder of \<open>rlp/encode.go\<close> for every supported type. Loops of
  the decoders are bounded by a fuel argument (\<open>None\<close> is running out of it), since one of them need not end:
  a list of one-byte arrays with a zero byte in it is decoded forever.
\<close>

section \<open>Model of the stream\<close>

record listpos =
  lp_pos :: uint64
  lp_size :: uint64

text \<open>
  The input is a \<open>bytes.Reader\<close>, given by the bytes not read yet. \<open>s_kind\<close> is \<open>None\<close> for the value -1,
  and the innermost list is the head of \<open>s_stack\<close>. \<open>uintbuf\<close> is a scratch buffer and not part of the state.
\<close>

record Stream =
  s_r :: bytes
  s_remaining :: uint64
  s_limited :: bool
  s_kind :: "Kind option"
  s_size :: uint64
  s_byteval :: byte
  s_kinderr :: "rlp_error option"
  s_stack :: "listpos list"

type_synonym 'a stream_result = "(rlp_error + 'a) \<times> Stream"

definition Reset :: "Stream \<Rightarrow> bytes \<Rightarrow> uint64 \<Rightarrow> Stream" where
  "Reset s r inputLimit =
     s\<lparr>s_remaining := (if inputLimit > 0 then inputLimit else of_nat (length r)), s_limited := True,
       s_r := r, s_stack := [], s_size := 0, s_kind := None, s_kinderr := None, s_byteval := 0\<rparr>"

definition new_Stream :: Stream where
  "new_Stream = \<lparr>s_r = [], s_remaining = 0, s_limited = False, s_kind = Some Byte, s_size = 0, s_byteval = 0,
     s_kinderr = None, s_stack = []\<rparr>"

definition NewStream :: "bytes \<Rightarrow> uint64 \<Rightarrow> Stream" where
  "NewStream r inputLimit = Reset new_Stream r inputLimit"

definition NewListStream :: "bytes \<Rightarrow> uint64 \<Rightarrow> Stream" where
  "NewListStream r len = (Reset new_Stream r len)\<lparr>s_kind := Some List, s_size := len\<rparr>"

definition willRead :: "Stream \<Rightarrow> uint64 \<Rightarrow> unit stream_result" where
  "willRead s n =
     (let s = s\<lparr>s_kind := None\<rparr>;
          limit = (\<lambda>s. if s_limited s then
                         if n > s_remaining s then (Inl ErrValueTooLarge, s)
                         else (Inr (), s\<lparr>s_remaining := s_remaining s - n\<rparr>)
                       else (Inr (), s))
      in case s_stack s of
           [] \<Rightarrow> limit s
         | tos # stack \<Rightarrow>
             if n > lp_size tos - lp_pos tos then (Inl ErrElemTooLarge, s)
             else limit (s\<lparr>s_stack := tos\<lparr>lp_pos := lp_pos tos + n\<rparr> # stack\<rparr>))"

definition readByte :: "Stream \<Rightarrow> byte stream_result" where
  "readByte s =
     (case willRead s 1 of
        (Inl err, s) \<Rightarrow> (Inl err, s)
      | (Inr _, s) \<Rightarrow>
          (case s_r s of
             [] \<Rightarrow> (Inl UnexpectedEOF, s)
           | b # r \<Rightarrow> (Inr b, s\<lparr>s_r := r\<rparr>)))"

definition readFull :: "Stream \<Rightarrow> nat \<Rightarrow> bytes stream_result" where
  "readFull s n =
     (case willRead s (of_nat n) of
        (Inl err, s) \<Rightarrow> (Inl err, s)
      | (Inr _, s) \<Rightarrow>
          if n \<le> length (s_r s) then (Inr (take n (s_r s)), s\<lparr>s_r := drop n (s_r s)\<rparr>)
          else (Inl UnexpectedEOF, s\<lparr>s_r := []\<rparr>))"

text \<open>The callers pass sizes up to 8.\<close>

definition readUint :: "Stream \<Rightarrow> byte \<Rightarrow> uint64 stream_result" where
  "readUint s sz =
     (if sz = 0 then (Inr 0, s\<lparr>s_kind := None\<rparr>)
      else if sz = 1 then (case readByte s of (r, s) \<Rightarrow> (map_sum id ucast r, s))
      else (case readFull s (unat sz) of
              (Inl err, s) \<Rightarrow> (Inl err, s)
            | (Inr uintbuf, s) \<Rightarrow>
                if uintbuf ! 0 = 0 then (Inl ErrCanonSize, s)
                else (Inr (of_nat (be_nat uintbuf)), s)))"

text \<open>Like the code, \<open>readKind\<close> of the stream gives a kind and a size also together with an error.\<close>

definition Stream_readKind :: "Stream \<Rightarrow> (Kind \<times> uint64 \<times> rlp_error option) \<times> Stream" where
  "Stream_readKind s =
     (case readByte s of
        (Inl err, s) \<Rightarrow>
          ((Byte, 0, Some (if s_stack s = [] \<and> (err = UnexpectedEOF \<or> err = ErrValueTooLarge) then EOF else err)), s)
      | (Inr b, s) \<Rightarrow>
          let s = s\<lparr>s_byteval := 0\<rparr>;
              long = (\<lambda>k s sizesize. case readUint s sizesize of
                        (Inl err, s) \<Rightarrow> ((k, 0, Some err), s)
                      | (Inr sz, s) \<Rightarrow> ((k, sz, if sz < 56 then Some ErrCanonSize else None), s))
          in if b < 0x80 then ((Byte, 0, None), s\<lparr>s_byteval := b\<rparr>)
             else if b < 0xB8 then ((String, ucast (b - 0x80), None), s)
             else if b < 0xC0 then long String s (b - 0xB7)
             else if b < 0xF8 then ((List, ucast (b - 0xC0), None), s)
             else long List s (b - 0xF7))"

text \<open>The two tests of \<open>Kind\<close>: for the end of the innermost list, and of the size against the space there is.\<close>

definition at_eol :: "Stream \<Rightarrow> bool" where
  "at_eol s = (case s_stack s of [] \<Rightarrow> False | tos # _ \<Rightarrow> lp_pos tos = lp_size tos)"

definition Kind_check :: "Stream \<Rightarrow> uint64 \<Rightarrow> rlp_error option" where
  "Kind_check s sz =
     (case s_stack s of
        [] \<Rightarrow> if s_limited s \<and> sz > s_remaining s then Some ErrValueTooLarge else None
      | tos # _ \<Rightarrow> if sz > lp_size tos - lp_pos tos then Some ErrElemTooLarge else None)"

definition Stream_Kind :: "Stream \<Rightarrow> (Kind \<times> uint64) stream_result" where
  "Stream_Kind s =
     (case s_kind s of
        Some kind \<Rightarrow> ((case s_kinderr s of None \<Rightarrow> Inr (kind, s_size s) | Some err \<Rightarrow> Inl err), s)
      | None \<Rightarrow>
          if at_eol s then (Inl EOL, s\<lparr>s_kinderr := None\<rparr>)
          else (case Stream_readKind (s\<lparr>s_kinderr := None\<rparr>) of
                  ((kind, sz, Some err), s) \<Rightarrow> (Inl err, s\<lparr>s_kind := Some kind, s_size := sz, s_kinderr := Some err\<rparr>)
                | ((kind, sz, None), s) \<Rightarrow>
                    ((case Kind_check s sz of None \<Rightarrow> Inr (kind, sz) | Some err \<Rightarrow> Inl err),
                     s\<lparr>s_kind := Some kind, s_size := sz, s_kinderr := Kind_check s sz\<rparr>)))"

definition Stream_Bytes :: "Stream \<Rightarrow> bytes stream_result" where
  "Stream_Bytes s =
     (case Stream_Kind s of
        (Inl err, s) \<Rightarrow> (Inl err, s)
      | (Inr (kind, sz), s) \<Rightarrow>
          (case kind of
             Byte \<Rightarrow> (Inr [s_byteval s], s\<lparr>s_kind := None\<rparr>)
           | String \<Rightarrow>
               (case readFull s (unat sz) of
                  (Inl err, s) \<Rightarrow> (Inl err, s)
                | (Inr b, s) \<Rightarrow> if sz = 1 \<and> b ! 0 < 128 then (Inl ErrCanonSize, s) else (Inr b, s))
           | List \<Rightarrow> (Inl ErrExpectedString, s)))"

definition Stream_Raw :: "Stream \<Rightarrow> bytes stream_result" where
  "Stream_Raw s =
     (case Stream_Kind s of
        (Inl err, s) \<Rightarrow> (Inl err, s)
      | (Inr (kind, sz), s) \<Rightarrow>
          if kind = Byte then (Inr [s_byteval s], s\<lparr>s_kind := None\<rparr>)
          else (case readFull s (unat sz) of
                  (Inl err, s) \<Rightarrow> (Inl err, s)
                | (Inr content, s) \<Rightarrow>
                    (Inr ((if kind = String then puthead 0x80 0xB7 sz else puthead 0xC0 0xF7 sz) @ content), s)))"

definition Stream_uint :: "Stream \<Rightarrow> nat \<Rightarrow> uint64 stream_result" where
  "Stream_uint s maxbits =
     (case Stream_Kind s of
        (Inl err, s) \<Rightarrow> (Inl err, s)
      | (Inr (kind, sz), s) \<Rightarrow>
          (case kind of
             Byte \<Rightarrow> if s_byteval s = 0 then (Inl ErrCanonInt, s) else (Inr (ucast (s_byteval s)), s\<lparr>s_kind := None\<rparr>)
           | String \<Rightarrow>
               if sz > of_nat (maxbits div 8) then (Inl ErrUintOverflow, s)
               else (case readUint s (ucast sz) of
                       (Inl err, s) \<Rightarrow> (Inl (if err = ErrCanonSize then ErrCanonInt else err), s)
                     | (Inr v, s) \<Rightarrow> if sz > 0 \<and> v < 128 then (Inl ErrCanonSize, s) else (Inr v, s))
           | List \<Rightarrow> (Inl ErrExpectedString, s)))"

definition Stream_Uint :: "Stream \<Rightarrow> uint64 stream_result" where
  "Stream_Uint s = Stream_uint s 64"

definition Stream_Bool :: "Stream \<Rightarrow> bool stream_result" where
  "Stream_Bool s =
     (case Stream_uint s 8 of
        (Inl err, s) \<Rightarrow> (Inl err, s)
      | (Inr num, s) \<Rightarrow>
          if num = 0 then (Inr False, s) else if num = 1 then (Inr True, s) else (Inl (ErrInvalidBool num), s))"

definition Stream_List :: "Stream \<Rightarrow> uint64 stream_result" where
  "Stream_List s =
     (case Stream_Kind s of
        (Inl err, s) \<Rightarrow> (Inl err, s)
      | (Inr (kind, sz), s) \<Rightarrow>
          if kind \<noteq> List then (Inl ErrExpectedList, s)
          else (Inr sz, s\<lparr>s_stack := \<lparr>lp_pos = 0, lp_size = sz\<rparr> # s_stack s, s_kind := None, s_size := 0\<rparr>))"

definition Stream_ListEnd :: "Stream \<Rightarrow> unit stream_result" where
  "Stream_ListEnd s =
     (case s_stack s of
        [] \<Rightarrow> (Inl ErrNotInList, s)
      | tos # stack \<Rightarrow>
          if lp_pos tos \<noteq> lp_size tos then (Inl ErrNotAtEOL, s)
          else (Inr (), s\<lparr>s_stack := (case stack of
                                   [] \<Rightarrow> []
                                 | outer # rest \<Rightarrow> outer\<lparr>lp_pos := lp_pos outer + lp_size tos\<rparr> # rest),
                         s_kind := None, s_size := 0\<rparr>))"

section \<open>Model of the decoders\<close>

text \<open>
  The Go types by the decoder \<open>makeDecoder\<close> picks for them. A pointer without the tag \<open>nil\<close> decodes as what it
  points to. The destination is a zero value, and the type and path a \<open>decodeError\<close> carries for its message
  are left out.
\<close>

datatype dectype =
    TRaw | TUint nat | TBool | TBigInt | TBytes | TArray nat
  | TSlice dectype | TListArray nat dectype | TStruct "dectype list" | TInterface | TNilPtr Kind dectype

definition wrapStreamError :: "rlp_error \<Rightarrow> rlp_error" where
  "wrapStreamError err =
     (if err \<in> {ErrCanonInt, ErrCanonSize, ErrExpectedList, ErrExpectedString, ErrUintOverflow, ErrNotAtEOL}
      then DecodeError err else err)"

definition wrapped :: "('a \<Rightarrow> 'b) \<Rightarrow> 'a stream_result \<Rightarrow> 'b stream_result" where
  "wrapped f r = (case r of (Inl err, s) \<Rightarrow> (Inl (wrapStreamError err), s) | (Inr x, s) \<Rightarrow> (Inr (f x), s))"

definition decodeBigInt :: "Stream \<Rightarrow> rlp_value stream_result" where
  "decodeBigInt s =
     (case Stream_Bytes s of
        (Inl err, s) \<Rightarrow> (Inl (wrapStreamError err), s)
      | (Inr b, s) \<Rightarrow>
          if length b > 0 \<and> b ! 0 = 0 then (Inl (wrapStreamError ErrCanonInt), s)
          else (Inr (VBigInt (int (be_nat b))), s))"

definition decodeByteArray :: "nat \<Rightarrow> Stream \<Rightarrow> rlp_value stream_result" where
  "decodeByteArray vlen s =
     (case Stream_Kind s of
        (Inl err, s) \<Rightarrow> (Inl err, s)
      | (Inr (kind, sz), s) \<Rightarrow>
          (case kind of
             Byte \<Rightarrow>
               if vlen = 0 then (Inl (DecodeError ErrInputTooLong), s)
               else if vlen > 1 then (Inl (DecodeError ErrInputTooShort), s)
               else (case Stream_Uint s of
                       (Inl _, s) \<Rightarrow> (Inr (VArray [0]), s)
                     | (Inr bv, s) \<Rightarrow> (Inr (VArray [ucast bv]), s))
           | String \<Rightarrow>
               if of_nat vlen < sz then (Inl (DecodeError ErrInputTooLong), s)
               else if of_nat vlen > sz then (Inl (DecodeError ErrInputTooShort), s)
               else (case readFull s vlen of
                       (Inl err, s) \<Rightarrow> (Inl err, s)
                     | (Inr b, s) \<Rightarrow>
                         if sz = 1 \<and> b ! 0 < 128 then (Inl (wrapStreamError ErrCanonSize), s)
                         else (Inr (VArray b), s))
           | List \<Rightarrow> (Inl (wrapStreamError ErrExpectedString), s)))"

text \<open>The decoders that call others, which are passed as an argument; \<open>None\<close> is running out of fuel.\<close>

definition decodeListSlice :: "(Stream \<Rightarrow> rlp_value list stream_result option) \<Rightarrow> Stream \<Rightarrow> rlp_value stream_result option" where
  "decodeListSlice elems s =
     (case Stream_List s of
        (Inl err, s) \<Rightarrow> Some (Inl (wrapStreamError err), s)
      | (Inr sz, s) \<Rightarrow>
          if sz = 0 then
            Some (case Stream_ListEnd s of (Inl err, s) \<Rightarrow> (Inl err, s) | (Inr _, s) \<Rightarrow> (Inr (VList []), s))
          else (case elems s of
                  None \<Rightarrow> None
                | Some (Inl err, s) \<Rightarrow> Some (Inl err, s)
                | Some (Inr vs, s) \<Rightarrow>
                    Some (case Stream_ListEnd s of (Inl err, s) \<Rightarrow> (Inl err, s) | (Inr _, s) \<Rightarrow> (Inr (VList vs), s))))"

definition decodeListArray :: "nat \<Rightarrow> (Stream \<Rightarrow> rlp_value list stream_result option) \<Rightarrow> Stream \<Rightarrow> rlp_value stream_result option" where
  "decodeListArray vlen elems s =
     (case Stream_List s of
        (Inl err, s) \<Rightarrow> Some (Inl (wrapStreamError err), s)
      | (Inr sz, s) \<Rightarrow>
          (case elems s of
             None \<Rightarrow> None
           | Some (Inl err, s) \<Rightarrow> Some (Inl err, s)
           | Some (Inr vs, s) \<Rightarrow>
               if length vs < vlen then Some (Inl (DecodeError ErrTooFewElements), s)
               else Some (wrapped (\<lambda>_. VList vs) (Stream_ListEnd s))))"

definition decodeStruct :: "(Stream \<Rightarrow> rlp_value list stream_result option) \<Rightarrow> Stream \<Rightarrow> rlp_value stream_result option" where
  "decodeStruct elems s =
     (case Stream_List s of
        (Inl err, s) \<Rightarrow> Some (Inl (wrapStreamError err), s)
      | (Inr sz, s) \<Rightarrow>
          (case elems s of
             None \<Rightarrow> None
           | Some (Inl err, s) \<Rightarrow> Some (Inl err, s)
           | Some (Inr vs, s) \<Rightarrow> Some (wrapped (\<lambda>_. VList vs) (Stream_ListEnd s))))"

definition decodeInterface :: "(Stream \<Rightarrow> rlp_value stream_result option) \<Rightarrow> Stream \<Rightarrow> rlp_value stream_result option" where
  "decodeInterface elem s =
     (case Stream_Kind s of
        (Inl err, s) \<Rightarrow> Some (Inl err, s)
      | (Inr (kind, sz), s) \<Rightarrow>
          if kind = List then elem s
          else Some (case Stream_Bytes s of (Inl err, s) \<Rightarrow> (Inl err, s) | (Inr b, s) \<Rightarrow> (Inr (VBytes b), s)))"

definition decodeNilPtr :: "Kind \<Rightarrow> (Stream \<Rightarrow> rlp_value stream_result option) \<Rightarrow> Stream \<Rightarrow> rlp_value stream_result option" where
  "decodeNilPtr nilKind elem s =
     (case Stream_Kind s of
        (Inl err, s) \<Rightarrow> Some (Inl (wrapStreamError err), s)
      | (Inr (kind, sz), s) \<Rightarrow>
          if kind \<noteq> Byte \<and> sz = 0 then
            if kind \<noteq> nilKind then Some (Inl (DecodeError ErrWrongEmptyKind), s)
            else Some (Inr (VNil kind), s\<lparr>s_kind := None\<rparr>)
          else elem s)"

text \<open>
  Every recursive call and every round of a loop takes one unit of fuel. \<open>decodeArrayElems\<close> is the loop of
  \<open>decodeListArray\<close>, with \<open>k\<close> elements to go, and \<open>decodeFields\<close> the loop of the struct decoder.
\<close>

fun decode :: "nat \<Rightarrow> dectype \<Rightarrow> Stream \<Rightarrow> rlp_value stream_result option"
  and decodeSliceElems :: "nat \<Rightarrow> dectype \<Rightarrow> Stream \<Rightarrow> rlp_value list stream_result option"
  and decodeArrayElems :: "nat \<Rightarrow> nat \<Rightarrow> dectype \<Rightarrow> Stream \<Rightarrow> rlp_value list stream_result option"
  and decodeFields :: "nat \<Rightarrow> dectype list \<Rightarrow> Stream \<Rightarrow> rlp_value list stream_result option" where
  "decode 0 t s = None"
| "decode (Suc n) TRaw s =
     Some (case Stream_Raw s of (Inl err, s) \<Rightarrow> (Inl err, s) | (Inr r, s) \<Rightarrow> (Inr (VRaw r), s))"
| "decode (Suc n) (TUint bits) s = Some (wrapped VUint (Stream_uint s bits))"
| "decode (Suc n) TBool s = Some (wrapped VBool (Stream_Bool s))"
| "decode (Suc n) TBigInt s = Some (decodeBigInt s)"
| "decode (Suc n) TBytes s = Some (wrapped VBytes (Stream_Bytes s))"
| "decode (Suc n) (TArray vlen) s = Some (decodeByteArray vlen s)"
| "decode (Suc n) (TSlice t) s = decodeListSlice (decodeSliceElems n t) s"
| "decode (Suc n) (TListArray vlen t) s = decodeListArray vlen (decodeArrayElems n vlen t) s"
| "decode (Suc n) (TStruct ts) s = decodeStruct (decodeFields n ts) s"
| "decode (Suc n) TInterface s = decodeInterface (decode n (TSlice TInterface)) s"
| "decode (Suc n) (TNilPtr nilKind t) s = decodeNilPtr nilKind (decode n t) s"
| "decodeSliceElems 0 t s = None"
| "decodeSliceElems (Suc n) t s =
     (case decode n t s of
        None \<Rightarrow> None
      | Some (Inl err, s) \<Rightarrow> if err = EOL then Some (Inr [], s) else Some (Inl err, s)
      | Some (Inr v, s) \<Rightarrow>
          (case decodeSliceElems n t s of
             None \<Rightarrow> None
           | Some (Inl err, s) \<Rightarrow> Some (Inl err, s)
           | Some (Inr vs, s) \<Rightarrow> Some (Inr (v # vs), s)))"
| "decodeArrayElems 0 k t s = None"
| "decodeArrayElems (Suc n) k t s =
     (if k = 0 then Some (Inr [], s)
      else (case decode n t s of
        None \<Rightarrow> None
      | Some (Inl err, s) \<Rightarrow> if err = EOL then Some (Inr [], s) else Some (Inl err, s)
      | Some (Inr v, s) \<Rightarrow>
          (case decodeArrayElems n (k - 1) t s of
             None \<Rightarrow> None
           | Some (Inl err, s) \<Rightarrow> Some (Inl err, s)
           | Some (Inr vs, s) \<Rightarrow> Some (Inr (v # vs), s))))"
| "decodeFields 0 ts s = None"
| "decodeFields (Suc n) [] s = Some (Inr [], s)"
| "decodeFields (Suc n) (t # ts) s =
     (case decode n t s of
        None \<Rightarrow> None
      | Some (Inl err, s) \<Rightarrow> Some (Inl (if err = EOL then DecodeError ErrTooFewElements else err), s)
      | Some (Inr v, s) \<Rightarrow>
          (case decodeFields n ts s of
             None \<Rightarrow> None
           | Some (Inl err, s) \<Rightarrow> Some (Inl err, s)
           | Some (Inr vs, s) \<Rightarrow> Some (Inr (v # vs), s)))"

text \<open>The stream comes from a pool, so it may hold anything.\<close>

definition DecodeBytes :: "Stream \<Rightarrow> nat \<Rightarrow> dectype \<Rightarrow> bytes \<Rightarrow> (rlp_error + rlp_value) option" where
  "DecodeBytes stream n t b =
     (case decode n t (Reset stream b (of_nat (length b))) of
        None \<Rightarrow> None
      | Some (Inl err, s) \<Rightarrow> Some (Inl err)
      | Some (Inr v, s) \<Rightarrow> if length (s_r s) > 0 then Some (Inl ErrMoreThanOneValue) else Some (Inr v))"

lemmas decoder_defs [simp] = decodeListSlice_def decodeListArray_def decodeStruct_def decodeInterface_def decodeNilPtr_def

section \<open>Reading\<close>

text \<open>
  \<open>skip s k\<close> is the state after \<open>k\<close> bytes have been read, and \<open>norm\<close> forgets the fields that the next call
  of \<open>Kind\<close> overwrites.
\<close>

definition bump :: "nat \<Rightarrow> listpos list \<Rightarrow> listpos list" where
  "bump k st = (case st of [] \<Rightarrow> [] | tos # rest \<Rightarrow> tos\<lparr>lp_pos := lp_pos tos + of_nat k\<rparr> # rest)"

definition skip :: "Stream \<Rightarrow> nat \<Rightarrow> Stream" where
  "skip s k = s\<lparr>s_kind := None, s_r := drop k (s_r s), s_stack := bump k (s_stack s),
     s_remaining := (if s_limited s then s_remaining s - of_nat k else s_remaining s)\<rparr>"

definition norm :: "Stream \<Rightarrow> Stream" where
  "norm s = s\<lparr>s_size := 0, s_byteval := 0, s_kinderr := None\<rparr>"

definition room :: "Stream \<Rightarrow> nat \<Rightarrow> bool" where
  "room s k \<longleftrightarrow> k < 2 ^ 64 \<and> k \<le> length (s_r s) \<and> (s_limited s \<longrightarrow> k \<le> unat (s_remaining s)) \<and>
     (case s_stack s of [] \<Rightarrow> True | tos # _ \<Rightarrow> unat (lp_pos tos) + k \<le> unat (lp_size tos))"

lemma room_le: "room s k \<Longrightarrow> j \<le> k \<Longrightarrow> room s j"
  by (auto simp: room_def split: list.splits)

lemma word_room:
  fixes a b :: uint64
  assumes "unat a + k \<le> unat b" "k < 2 ^ 64"
  shows "\<not> of_nat k > b - a" "unat (a + of_nat k) = unat a + k"
proof -
  have "a \<le> b" using assms by (simp add: word_le_nat_alt)
  then have "unat (b - a) = unat b - unat a" by (rule unat_sub)
  then show "\<not> of_nat k > b - a" using assms by (simp add: word_less_nat_alt unat_of_nat_uint64)
  have "unat a + unat (of_nat k :: uint64) < 2 ^ 64"
    using assms unat_uint64_less [of b] by (simp add: unat_of_nat_uint64)
  then show "unat (a + of_nat k) = unat a + k"
    using assms by (simp add: unat_word_ariths unat_of_nat_uint64)
qed

lemma word_room_minus:
  fixes a :: uint64
  assumes "k \<le> unat a"
  shows "\<not> of_nat k > a" "unat (a - of_nat k) = unat a - k"
proof -
  have k: "unat (of_nat k :: uint64) = k" using assms unat_uint64_less [of a] by (simp add: unat_of_nat_uint64)
  then show le: "\<not> of_nat k > a" using assms by (simp add: word_less_nat_alt)
  then have "(of_nat k :: uint64) \<le> a" by simp
  then show "unat (a - of_nat k) = unat a - k" by (simp add: unat_sub k)
qed

lemma room_skip: "room s (j + k) \<Longrightarrow> room (skip s j) k"
proof (cases "s_stack s")
  case Nil
  then show "room s (j + k) \<Longrightarrow> room (skip s j) k"
    by (auto simp: room_def skip_def bump_def word_room_minus)
next
  case (Cons tos st)
  assume r: "room s (j + k)"
  with Cons word_room(2) [of "lp_pos tos" j "lp_size tos"] show "room (skip s j) k"
    by (auto simp: room_def skip_def bump_def word_room_minus)
qed

lemma skip_skip: "skip (skip s j) k = skip s (j + k)"
  by (simp add: skip_def bump_def add.commute algebra_simps split: list.splits)

lemma norm_skip: "norm (skip s k) = skip (norm s) k"
  by (simp add: skip_def norm_def)

lemma norm_room: "norm s = norm s' \<Longrightarrow> room s k = room s' k"
  by (cases s; cases s') (simp add: norm_def room_def)

lemma willRead_eq:
  assumes "room s k"
  shows "willRead s (of_nat k) = (Inr (), (skip s k)\<lparr>s_r := s_r s\<rparr>)"
proof (cases "s_stack s")
  case Nil
  with assms show ?thesis
    by (simp add: willRead_def room_def skip_def bump_def word_room_minus Let_def)
next
  case (Cons tos rest)
  with assms have "\<not> of_nat k > lp_size tos - lp_pos tos" by (simp add: room_def word_room)
  with assms Cons show ?thesis
    by (simp add: willRead_def room_def skip_def bump_def word_room_minus Let_def)
qed

lemma readByte_eq:
  assumes "room s 1" "s_r s = b # r"
  shows "readByte s = (Inr b, skip s 1)"
  using willRead_eq [OF assms(1)] assms(2) by (simp add: readByte_def) (simp add: skip_def)

lemma readFull_eq:
  assumes "room s (length w)" "s_r s = w @ r"
  shows "readFull s (length w) = (Inr w, skip s (length w))"
  using willRead_eq [OF assms(1)] assms(2) by (simp add: readFull_def) (simp add: skip_def)

lemma readUint_eq:
  assumes "length w \<le> 8" "w \<noteq> []" "room s (length w)" "s_r s = w @ r" "hd w \<noteq> 0"
  shows "readUint s (of_nat (length w)) = (Inr (of_nat (be_nat w)), skip s (length w))"
proof (cases "length w = 1")
  case True
  then obtain b where "w = [b]" by (cases w) auto
  then show ?thesis
    using assms readByte_eq [of s b r] by (simp add: readUint_def be_nat_Cons)
next
  case False
  have n: "unat (of_nat (length w) :: byte) = length w"
    using assms(1) by (intro of_nat_byte_less) simp
  then have "(of_nat (length w) :: byte) \<noteq> 0" "(of_nat (length w) :: byte) \<noteq> 1"
    using False assms(2) by (metis length_0_conv unat_0, metis unat_1)
  then show ?thesis
    using readFull_eq [OF assms(3,4)] assms(2,5) n by (simp add: readUint_def hd_conv_nth)
qed

section \<open>Kinds\<close>

definition head_len :: "Kind \<Rightarrow> bytes \<Rightarrow> nat" where
  "head_len k c = (if k = Byte then 1 else length (kind_tag k c))"

definition body :: "Kind \<Rightarrow> bytes \<Rightarrow> bytes" where
  "body k c = (if k = Byte then [] else c)"

text \<open>The state in which the header of a value has been read and not yet used.\<close>

definition after_head :: "Stream \<Rightarrow> Kind \<Rightarrow> bytes \<Rightarrow> Stream" where
  "after_head s k c = (skip s (head_len k c))\<lparr>s_kind := Some k, s_size := of_nat (length (body k c)),
     s_byteval := (if k = Byte then hd c else 0), s_kinderr := None\<rparr>"

definition ready :: "Stream \<Rightarrow> bytes \<Rightarrow> bool" where
  "ready s w \<longleftrightarrow> s_kind s = None \<and> room s (length w) \<and> take (length w) (s_r s) = w"

lemma length_kind_enc: "kind_ok k c \<Longrightarrow> length (kind_enc k c) = head_len k c + length (body k c)"
  by (cases k) (auto simp: head_len_def body_def)

lemma head_len_pos: "kind_ok k c \<Longrightarrow> 0 < head_len k c"
  by (cases k) (auto simp: head_len_def)

lemma Stream_readKind_byte:
  assumes "room s 1" "s_r s = b # r" "b < 0x80"
  shows "Stream_readKind s = ((Byte, 0, None), (skip s 1)\<lparr>s_byteval := b\<rparr>)"
  using assms by (simp add: Stream_readKind_def readByte_eq Let_def)

lemma s_byteval_room [simp]: "room (s\<lparr>s_byteval := b\<rparr>) k = room s k"
  by (simp add: room_def)

lemma skip_byteval [simp]: "skip (s\<lparr>s_byteval := b\<rparr>) k = (skip s k)\<lparr>s_byteval := b\<rparr>"
  by (simp add: skip_def)

lemma Stream_readKind_head:
  assumes "k = String \<or> k = List" "n < 2 ^ 64" "t = (if k = String then 0x80 else 0xC0)"
    and "room s (length (enc_head t n))" "s_r s = enc_head t n @ r"
  shows "Stream_readKind s = ((k, of_nat n, None), (skip s (length (enc_head t n)))\<lparr>s_byteval := 0\<rparr>)"
proof (cases "n < 56")
  case True
  have t: "t \<le> 0xC0" "t = 0x80 \<or> t = 0xC0" using assms(1,3) by auto
  note h = short_head [OF True t(1)]
  have "readByte s = (Inr (of_nat (t + n)), skip s 1)"
    using readByte_eq [of s "of_nat (t + n)" r] assms(4,5) h(1) by simp
  then show ?thesis
    using assms(1,3) h True
    by (auto simp: Stream_readKind_def Let_def byte_less_numeral ucast_of_nat_byte simp del: of_nat_add)
next
  case False
  have t: "t \<le> 0xC0" "t = 0x80 \<or> t = 0xC0" using assms(1,3) by auto
  define m where "m = length (nat_bytes n)"
  have n: "56 \<le> n" using False by simp
  note h = long_head [OF n assms(2) t(1), folded m_def]
  have len: "length (enc_head t n) = Suc m" using h(1) by (simp add: m_def)
  have rb: "readByte s = (Inr (of_nat (t + 55 + m)), skip s 1)"
    using readByte_eq [of s "of_nat (t + 55 + m)" "nat_bytes n @ r"] room_le [OF assms(4), of 1] assms(5) h(1) len by simp
  have "room (skip s 1) m" using assms(4) len room_skip [of s 1 m] by simp
  moreover have "s_r (skip s 1) = nat_bytes n @ r" using assms(5) h(1) by (simp add: skip_def)
  ultimately have ru: "readUint ((skip s 1)\<lparr>s_byteval := 0\<rparr>) (of_nat m) =
      (Inr (of_nat n), (skip s (Suc m))\<lparr>s_byteval := 0\<rparr>)"
    using readUint_eq [of "nat_bytes n" "(skip s 1)\<lparr>s_byteval := 0\<rparr>" r] h(2,3) hd_nat_bytes [of n] n
      skip_skip [of s 1 m]
    by (simp add: m_def [symmetric])
  have "\<not> (of_nat n :: uint64) < 56" using uint64_less_56 [OF assms(2)] False by simp
  then show ?thesis
    unfolding len using assms(1,3) h(2-5) rb ru
    by (auto simp: Stream_readKind_def Let_def byte_less_numeral simp del: of_nat_add)
qed

lemma ready_take:
  assumes "ready s (v @ w)"
  obtains r where "s_r s = v @ r" "room s (length v)"
proof
  have "take (length v + length w) (s_r s) = v @ w" using assms by (simp add: ready_def)
  from arg_cong [OF this, of "take (length v)"] have "take (length v) (s_r s) = v" by simp
  then show "s_r s = v @ drop (length v) (s_r s)" using append_take_drop_id [of "length v" "s_r s"] by simp
  show "room s (length v)" using assms by (auto simp: ready_def intro: room_le)
qed

lemma Stream_readKind_eq:
  assumes "kind_ok k c" "ready s (kind_enc k c)"
  shows "Stream_readKind s = ((k, of_nat (length (body k c)), None),
    (skip s (head_len k c))\<lparr>s_byteval := (if k = Byte then hd c else 0)\<rparr>)"
proof (cases "k = Byte")
  case True
  with assms(1) obtain b where c: "c = [b]" "b < 0x80" by (cases c) auto
  with assms(2) True obtain r where "s_r s = b # r" "room s 1"
    using ready_take [of s "[b]" "[]"] by auto
  with True c show ?thesis by (simp add: Stream_readKind_byte body_def head_len_def)
next
  case False
  define t where "t = (if k = String then 0x80 else 0xC0 :: nat)"
  have tag: "kind_tag k c = enc_head t (length c)" "kind_enc k c = enc_head t (length c) @ c"
    using False by (cases k; simp add: t_def)+
  have "length c < 2 ^ 64" using assms(2) by (simp add: ready_def room_def tag)
  moreover obtain r where "s_r s = enc_head t (length c) @ r" "room s (length (enc_head t (length c)))"
    using ready_take assms(2) unfolding tag by blast
  ultimately show ?thesis
    using False Stream_readKind_head [of k "length c" t s r] by (cases k) (auto simp: tag t_def body_def head_len_def)
qed

lemma Stream_Kind_eq:
  assumes "kind_ok k c" "ready s (kind_enc k c)"
  shows "Stream_Kind s = (Inr (k, of_nat (length (body k c))), after_head s k c)"
proof -
  define s1 where "s1 = (skip s (head_len k c))\<lparr>s_kinderr := None, s_byteval := (if k = Byte then hd c else 0)\<rparr>"
  have "room (skip s (head_len k c)) (length (body k c))"
    using assms room_skip [of s "head_len k c" "length (body k c)"]
    by (simp add: ready_def length_kind_enc)
  then have r: "room s1 (length (body k c))" by (simp add: s1_def room_def)
  have k: "s_kind s = None" using assms by (simp add: ready_def)
  have eol: "\<not> at_eol s"
    using assms(2) length_kind_enc [OF assms(1)] head_len_pos [OF assms(1)]
    by (auto simp: ready_def room_def at_eol_def split: list.splits)
  have "ready (s\<lparr>s_kinderr := None\<rparr>) (kind_enc k c)" using assms(2) by (simp add: ready_def room_def)
  note rk = Stream_readKind_eq [OF assms(1) this]
  have "skip (s\<lparr>s_kinderr := None\<rparr>) n = (skip s n)\<lparr>s_kinderr := None\<rparr>" for n by (simp add: skip_def)
  then have rk: "Stream_readKind (s\<lparr>s_kinderr := None\<rparr>) = ((k, of_nat (length (body k c)), None), s1)"
    unfolding rk s1_def by simp
  have "Kind_check s1 (of_nat (length (body k c))) = None"
    using r word_room(1) by (auto simp: Kind_check_def room_def word_room_minus split: list.splits)
  then show ?thesis
    unfolding Stream_Kind_def k option.case rk prod.case using eol by (simp add: s1_def after_head_def)
qed

lemma Kind_idem: "Stream_Kind s = (Inr x, s') \<Longrightarrow> Stream_Kind s' = (Inr x, s')"
  by (auto simp: Stream_Kind_def split: option.splits if_splits prod.splits)

section \<open>Operations of the stream\<close>

definition consumed :: "Stream \<Rightarrow> bytes \<Rightarrow> Stream \<Rightarrow> bool" where
  "consumed s w s' \<longleftrightarrow> norm s' = norm (skip s (length w))"

lemma norm_sel:
  assumes "norm s = norm s'"
  shows "s_r s = s_r s'" "s_kind s = s_kind s'" "s_stack s = s_stack s'" "s_limited s = s_limited s'"
    "s_remaining s = s_remaining s'"
  using assms by (cases s; cases s'; simp add: norm_def)+

lemma norm_skip_cong: "norm s = norm s' \<Longrightarrow> norm (skip s k) = norm (skip s' k)"
  by (simp add: norm_skip)

lemma ready_prefix: "ready s (v @ w) \<Longrightarrow> ready s v"
  using ready_take [of s v w] by (metis append_eq_conv_conj ready_def)

lemma ready_consumed:
  assumes "ready s (v @ w)" "consumed s v s'"
  shows "ready s' w" "consumed s' w s'' \<Longrightarrow> consumed s (v @ w) s''"
proof -
  have n: "norm s' = norm (skip s (length v))" using assms(2) by (simp add: consumed_def)
  note sel = norm_sel [OF n]
  have "room s' (length w)"
    using norm_room [OF n] room_skip [of s "length v" "length w"] assms(1) by (simp add: ready_def)
  moreover have "take (length w) (s_r s') = w"
  proof -
    have "take (length v + length w) (s_r s) = v @ w" using assms(1) by (simp add: ready_def)
    from arg_cong [OF this, of "drop (length v)"] show ?thesis
      by (simp add: sel(1) skip_def drop_take)
  qed
  ultimately show "ready s' w" by (simp add: ready_def sel(2)) (simp add: skip_def)
  show "consumed s (v @ w) s''" if "consumed s' w s''"
    using that norm_skip_cong [OF n, of "length w"] by (simp add: consumed_def skip_skip)
qed

lemma consumed_Nil: "s_kind s = None \<Longrightarrow> consumed s [] s"
  by (cases s; cases "s_stack s") (simp_all add: consumed_def skip_def bump_def norm_def)

lemma after_head_body:
  assumes "kind_ok k c" "ready s (kind_enc k c)"
  shows "room (after_head s k c) (length (body k c))"
    "\<exists>r. s_r (after_head s k c) = body k c @ r"
    "consumed s (kind_enc k c) (skip (after_head s k c) (length (body k c)))"
    "Stream_Kind (after_head s k c) = (Inr (k, of_nat (length (body k c))), after_head s k c)"
proof -
  have "room (skip s (head_len k c)) (length (body k c))"
    using assms room_skip [of s "head_len k c" "length (body k c)"]
    by (simp add: ready_def length_kind_enc)
  then show "room (after_head s k c) (length (body k c))" by (simp add: after_head_def room_def)
  obtain r where "s_r s = kind_enc k c @ r" using ready_take [of s "kind_enc k c" "[]"] assms(2) by auto
  then show "\<exists>r. s_r (after_head s k c) = body k c @ r"
    using assms(1) by (cases k) (auto simp: after_head_def skip_def head_len_def body_def)
  have "norm (skip (after_head s k c) n) = norm (skip (skip s (head_len k c)) n)" for n
    by (simp add: norm_def skip_def after_head_def)
  then show "consumed s (kind_enc k c) (skip (after_head s k c) (length (body k c)))"
    using assms(1) by (simp add: consumed_def skip_skip length_kind_enc)
  show "Stream_Kind (after_head s k c) = (Inr (k, of_nat (length (body k c))), after_head s k c)"
    by (simp add: Stream_Kind_def) (simp add: after_head_def)
qed

lemma byte_consumed:
  assumes "ready s (kind_enc Byte c)" "kind_ok Byte c"
  shows "consumed s c ((after_head s Byte c)\<lparr>s_kind := None\<rparr>)" "[s_byteval (after_head s Byte c)] = c"
  using assms by (cases c; auto simp: consumed_def after_head_def norm_def skip_def head_len_def)+

lemma single_word: "n < 2 ^ 64 \<Longrightarrow> (of_nat n :: uint64) = 1 \<longleftrightarrow> n = 1"
  by (simp add: word_unat_eq_iff unat_of_nat_uint64)

lemma Stream_Bytes_eq:
  assumes "kind_ok k c" "k \<noteq> List" "ready s (kind_enc k c)"
  shows "\<exists>s'. Stream_Bytes s = (Inr c, s') \<and> consumed s (kind_enc k c) s'"
proof (cases "k = Byte")
  case True
  with assms byte_consumed [of s c] Stream_Kind_eq [OF assms(1,3)] show ?thesis
    by (simp add: Stream_Bytes_def)
next
  case False
  then have k: "k = String" "body k c = c" using assms(2) by (cases k; simp add: body_def)+
  have len: "length c < 2 ^ 64" using assms(3) k by (simp add: ready_def room_def)
  obtain r where r: "s_r (after_head s k c) = c @ r" using after_head_body(2) [OF assms(1,3)] k by auto
  have "readFull (after_head s k c) (length c) = (Inr c, skip (after_head s k c) (length c))"
    using readFull_eq [OF _ r] after_head_body(1) [OF assms(1,3)] k by simp
  moreover have "\<not> (length c = 1 \<and> c ! 0 < 128)" using assms(1) k by (cases c) auto
  ultimately show ?thesis
    using after_head_body(3) [OF assms(1,3)] Stream_Kind_eq [OF assms(1,3)] k len
    by (simp add: Stream_Bytes_def unat_of_nat_uint64 single_word)
qed

lemma Stream_Raw_eq:
  assumes "kind_ok k c" "ready s (kind_enc k c)"
  shows "\<exists>s'. Stream_Raw s = (Inr (kind_enc k c), s') \<and> consumed s (kind_enc k c) s'"
proof (cases "k = Byte")
  case True
  with assms byte_consumed [of s c] Stream_Kind_eq [OF assms] show ?thesis
    by (simp add: Stream_Raw_def)
next
  case False
  then have b: "body k c = c" by (simp add: body_def)
  have len: "length c < 2 ^ 64" using assms(2) False by (cases k) (simp_all add: ready_def room_def)
  obtain r where r: "s_r (after_head s k c) = c @ r" using after_head_body(2) [OF assms] b by auto
  have "readFull (after_head s k c) (length c) = (Inr c, skip (after_head s k c) (length c))"
    using readFull_eq [OF _ r] after_head_body(1) [OF assms] b by simp
  moreover have "(if k = String then puthead 0x80 0xB7 (of_nat (length c)) else puthead 0xC0 0xF7 (of_nat (length c))) @ c =
      kind_enc k c"
    using puthead_eq [OF len, of "0x80"] puthead_eq [OF len, of "0xC0"] False by (cases k) simp_all
  ultimately show ?thesis
    using after_head_body(3) [OF assms] Stream_Kind_eq [OF assms] b len False
    by (simp add: Stream_Raw_def unat_of_nat_uint64)
qed

text \<open>Unsigned integers: the content is the minimal big-endian form.\<close>

lemma uint_kind:
  assumes "kind_ok k (nat_bytes n)" "k \<noteq> List"
  shows "k = (if 0 < n \<and> n < 128 then Byte else String)"
proof -
  have "length (nat_bytes n) = 1 \<and> hd (nat_bytes n) < 0x80 \<longleftrightarrow> 0 < n \<and> n < 128"
  proof
    assume a: "length (nat_bytes n) = 1 \<and> hd (nat_bytes n) < 0x80"
    then obtain b where b: "nat_bytes n = [b]" by (auto simp: length_Suc_conv)
    then have "n = unat b" using be_nat_nat_bytes [of n] by (simp add: be_nat_Cons)
    then show "0 < n \<and> n < 128" using a b by (cases "n = 0") (auto simp: byte_less_numeral)
  next
    assume a: "0 < n \<and> n < 128"
    then have "nat_bytes n = [of_nat n]" by (simp add: nat_bytes_pos [of n])
    then show "length (nat_bytes n) = 1 \<and> hd (nat_bytes n) < 0x80"
      using a by (simp add: byte_less_numeral of_nat_byte_less)
  qed
  with assms show ?thesis by (cases k) auto
qed

lemma skip_0: "skip s 0 = s\<lparr>s_kind := None\<rparr>"
  by (cases s; cases "s_stack s") (simp_all add: skip_def bump_def)

lemma Stream_uint_eq:
  fixes i :: uint64
  defines "c \<equiv> nat_bytes (unat i)"
  assumes "kind_ok k c" "k \<noteq> List" "ready s (kind_enc k c)" "unat i < 256 ^ m" "m \<le> 8"
  shows "\<exists>s'. Stream_uint s (8 * m) = (Inr i, s') \<and> consumed s (kind_enc k c) s'"
proof (cases "k = Byte")
  case True
  then have "0 < unat i" using uint_kind [of k "unat i"] assms by (simp split: if_splits)
  then have "hd c \<noteq> 0" using hd_nat_bytes by (simp add: c_def)
  moreover have "i = ucast (hd c)"
    using single_nat_bytes [of "hd c" i] True assms(2) by (cases c) (auto simp: c_def)
  ultimately show ?thesis
    using True byte_consumed [of s c] assms(2,4) Stream_Kind_eq [OF assms(2,4)]
    by (cases c) (auto simp: Stream_uint_def body_def)
next
  case False
  then have k: "k = String" "body k c = c" using assms(3) by (cases k; simp add: body_def)+
  have i: "i = 0 \<or> 128 \<le> unat i" using uint_kind [of k "unat i"] assms(2,3) k
    by (auto simp: c_def unat_eq_0 split: if_splits)
  have len: "length c \<le> m" using assms(5) by (simp add: c_def length_nat_bytes_le)
  then have n: "\<not> (of_nat (length c) :: uint64) > of_nat (8 * m div 8)"
    using assms(6) by (simp add: word_less_nat_alt unat_of_nat_uint64)
  obtain r where r: "s_r (after_head s k c) = c @ r" using after_head_body(2) [OF assms(2,4)] k by auto
  have u: "ucast (of_nat (length c) :: uint64) = (of_nat (length c) :: byte)"
    using len assms(6) by (simp add: word_unat_eq_iff unsigned_ucast_eq unat_of_nat take_bit_nat_eq_self)
  have "readUint (after_head s k c) (of_nat (length c)) = (Inr i, (if c = [] then (after_head s k c)\<lparr>s_kind := None\<rparr>
      else skip (after_head s k c) (length c)))"
  proof (cases "c = []")
    case True
    then show ?thesis by (simp add: readUint_def c_def unat_eq_0)
  next
    case False
    then show ?thesis
      using readUint_eq [OF _ False _ r] after_head_body(1) [OF assms(2,4)] k len assms(6) hd_nat_bytes [of "unat i"]
      by (simp add: c_def)
  qed
  moreover have "consumed s (kind_enc k c) ((after_head s k c)\<lparr>s_kind := None\<rparr>)" if "c = []"
    using after_head_body(3) [OF assms(2,4)] that k by (simp add: skip_0)
  moreover have "(of_nat (length c) :: uint64) > 0 \<longleftrightarrow> i \<noteq> 0"
    using len assms(6) by (simp add: word_less_nat_alt unat_of_nat_uint64 c_def unat_eq_0)
  ultimately show ?thesis
    using after_head_body(3) [OF assms(2,4)] Stream_Kind_eq [OF assms(2,4)] k n u i
    by (auto simp: Stream_uint_def word_less_nat_alt)
qed

definition enter_list :: "Stream \<Rightarrow> bytes \<Rightarrow> Stream" where
  "enter_list s c = (after_head s List c)\<lparr>s_stack := \<lparr>lp_pos = 0, lp_size = of_nat (length c)\<rparr> # s_stack (after_head s List c),
     s_kind := None, s_size := 0\<rparr>"

lemma Stream_List_eq:
  assumes "ready s (kind_enc List c)"
  shows "Stream_List s = (Inr (of_nat (length c)), enter_list s c)" "ready (enter_list s c) c"
proof -
  have ok: "kind_ok List c" and b: "body List c = c" by (simp_all add: body_def)
  show "Stream_List s = (Inr (of_nat (length c)), enter_list s c)"
    using Stream_Kind_eq [OF ok assms] by (simp add: Stream_List_def enter_list_def b)
  have "unat (of_nat (length c) :: uint64) = length c"
    using after_head_body(1) [OF ok assms] by (simp add: room_def b unat_of_nat_uint64)
  then show "ready (enter_list s c) c"
    using after_head_body(1,2) [OF ok assms] by (auto simp: ready_def room_def enter_list_def b)
qed

lemma Stream_ListEnd_eq:
  assumes "ready s (kind_enc List c)" "consumed (enter_list s c) c s2"
  shows "\<exists>s3. Stream_ListEnd s2 = (Inr (), s3) \<and> consumed s (kind_enc List c) s3" "at_eol s2" "s_kind s2 = None"
proof -
  have ok: "kind_ok List c" and b: "body List c = c" by (simp_all add: body_def)
  note h = after_head_body [OF ok assms(1), unfolded b]
  define a where "a = after_head s List c"
  have n: "norm s2 = norm (skip (enter_list s c) (length c))" using assms(2) by (simp add: consumed_def)
  have st: "s_stack s2 = \<lparr>lp_pos = of_nat (length c), lp_size = of_nat (length c)\<rparr> # s_stack a"
    unfolding norm_sel(3) [OF n] by (simp add: skip_def enter_list_def bump_def a_def)
  show "s_kind s2 = None" unfolding norm_sel(2) [OF n] by (simp add: skip_def)
  show "at_eol s2" using st by (simp add: at_eol_def)
  have "norm (s2\<lparr>s_stack := bump (length c) (s_stack a), s_kind := None\<rparr>) = norm (skip a (length c))"
    using norm_sel [OF n] by (cases s2) (simp add: norm_def skip_def enter_list_def a_def [symmetric])
  then have "consumed s (kind_enc List c) (s2\<lparr>s_stack := bump (length c) (s_stack a), s_kind := None, s_size := 0\<rparr>)"
    using h(3) by (simp add: consumed_def a_def [symmetric] norm_def)
  then show "\<exists>s3. Stream_ListEnd s2 = (Inr (), s3) \<and> consumed s (kind_enc List c) s3"
    using st by (cases "s_stack a") (simp_all add: Stream_ListEnd_def bump_def)
qed

lemma Stream_Kind_eol: "at_eol s \<Longrightarrow> s_kind s = None \<Longrightarrow> Stream_Kind s = (Inl EOL, s\<lparr>s_kinderr := None\<rparr>)"
  by (simp add: Stream_Kind_def)

lemmas stream_ops = Stream_Raw_def Stream_uint_def Stream_Bool_def Stream_Bytes_def Stream_List_def decodeBigInt_def
  decodeByteArray_def

lemma decode_eol:
  assumes "at_eol s" "s_kind s = None"
  shows "decode (Suc n) t s = Some (Inl EOL, s\<lparr>s_kinderr := None\<rparr>)"
  using Stream_Kind_eol [OF assms]
  by (cases t) (simp_all add: stream_ops wrapped_def wrapStreamError_def)

lemma decode_Kind:
  assumes "Stream_Kind s = (Inr x, s')"
  shows "decode n t s = decode n t s'"
proof (cases n)
  case (Suc m)
  then show ?thesis
    using assms Kind_idem [OF assms] by (cases t) (simp_all add: stream_ops)
qed simp

section \<open>Round trip\<close>

text \<open>
  The values of a type that decoding gives back. A raw value is the encoding of one value; an array of
  length one with a zero byte is left out; under a pointer with the tag \<open>nil\<close> an empty value becomes nil.
\<close>

lemma size_elem: "x \<in> set vs \<Longrightarrow> size (x :: rlp_value) < size (VList vs)"
  by (induction vs) auto

function has_type :: "rlp_value \<Rightarrow> dectype \<Rightarrow> bool" where
  "has_type v TRaw \<longleftrightarrow> (case v of VRaw b \<Rightarrow> (case Split b of Inr (k, c, r) \<Rightarrow> r = [] | _ \<Rightarrow> False) | _ \<Rightarrow> False)"
| "has_type v (TUint bits) \<longleftrightarrow>
     (case v of VUint i \<Rightarrow> bits \<in> {8, 16, 32, 64} \<and> unat i < 2 ^ bits | _ \<Rightarrow> False)"
| "has_type v TBool \<longleftrightarrow> (case v of VBool b \<Rightarrow> True | _ \<Rightarrow> False)"
| "has_type v TBigInt \<longleftrightarrow> (case v of VBigInt i \<Rightarrow> 0 \<le> i | _ \<Rightarrow> False)"
| "has_type v TBytes \<longleftrightarrow> (case v of VBytes b \<Rightarrow> True | _ \<Rightarrow> False)"
| "has_type v (TArray n) \<longleftrightarrow> (case v of VArray b \<Rightarrow> length b = n \<and> b \<noteq> [0] | _ \<Rightarrow> False)"
| "has_type v (TSlice t) \<longleftrightarrow> (case v of VList vs \<Rightarrow> \<forall>x \<in> set vs. has_type x t | _ \<Rightarrow> False)"
| "has_type v (TListArray n t) \<longleftrightarrow>
     (case v of VList vs \<Rightarrow> length vs = n \<and> (\<forall>x \<in> set vs. has_type x t) | _ \<Rightarrow> False)"
| "has_type v (TStruct ts) \<longleftrightarrow>
     (case v of
        VList vs \<Rightarrow> length vs = length ts \<and> (\<forall>(x, t) \<in> set (zip vs ts). has_type x t)
      | _ \<Rightarrow> False)"
| "has_type v TInterface \<longleftrightarrow>
     (case v of VBytes b \<Rightarrow> True | VList vs \<Rightarrow> \<forall>x \<in> set vs. has_type x TInterface | _ \<Rightarrow> False)"
| "has_type v (TNilPtr k t) \<longleftrightarrow>
     k \<noteq> Byte \<and> (case t of TNilPtr _ _ \<Rightarrow> False | _ \<Rightarrow> True) \<and>
     (v = VNil k \<or> has_type v t \<and> value_enc v \<noteq> [0x80] \<and> value_enc v \<noteq> [0xC0])"
  by pat_completeness auto
termination
  by (relation "measures [\<lambda>(v, t). size v, \<lambda>(v, t). size t]") 
    (auto simp del: rlp_value.size intro: size_elem dest: set_zip_leftD)

declare has_type.simps [simp del]

lemma readKind_none_empty:
  assumes "kind_ok k c" "k \<noteq> Byte" "k = String \<Longrightarrow> kind_enc k c \<noteq> [0x80]" "k = List \<Longrightarrow> kind_enc k c \<noteq> [0xC0]"
  shows "c \<noteq> []"
  using assms by (cases k) (auto simp: enc_head_def)

lemma value_enc_kind:
  assumes "has_type v t" "length (value_enc v) < 2 ^ 64"
  obtains k c where "kind_ok k c" "value_enc v = kind_enc k c"
proof -
  let ?P = "\<lambda>b. \<exists>k c. kind_ok k c \<and> b = kind_enc k c"
  have str: "?P (enc_str c)" for c
    using enc_str_iff [of "enc_str c" c "[]"] by auto
  have lst: "?P (enc_head 0xC0 (length c) @ c)" for c
    by (intro exI [of _ List] exI [of _ c]) simp
  have "?P (value_enc v)"
  proof (cases v)
    case (VRaw b)
    have "t = TRaw \<or> (\<exists>k t'. t = TNilPtr k t' \<and> t' = TRaw)"
      using assms(1) VRaw by (cases t) (auto simp: has_type.simps split: dectype.splits)
    then obtain k c where "Split b = Inr (k, c, [])"
      using assms(1) VRaw by (auto simp: has_type.simps split: sum.splits prod.splits)
    then show ?thesis using Split_iff [of b k c "[]"] assms(2) VRaw by auto
  next
    case (VNil k)
    then show ?thesis using str [of "[]"] lst [of "[]"] by (simp add: enc_str_def enc_head_def)
  next
    case (VBool b)
    then show ?thesis using str [of "if b then [1] else []"] by (simp split del: if_split)
  next
    case (VList vs)
    then show ?thesis using lst [of "concat (map value_enc vs)"] by (simp add: Let_def)
  next
    case (VUint i)
    then show ?thesis using str [of "nat_bytes (unat i)"] by simp
  next
    case (VBigInt i)
    then show ?thesis using str [of "nat_bytes (nat i)"] by simp
  next
    case (VBytes b)
    then show ?thesis using str [of b] by simp
  next
    case (VArray b)
    then show ?thesis using str [of b] by simp
  qed
  then show ?thesis using that by blast
qed

definition decodes :: "nat \<Rightarrow> dectype \<Rightarrow> Stream \<Rightarrow> rlp_value \<Rightarrow> bool" where
  "decodes n t s v \<longleftrightarrow> (\<exists>s'. decode n t s = Some (Inr v, s') \<and> consumed s (value_enc v) s')"

lemma enc_str_kind:
  obtains k where "kind_ok k c" "k \<noteq> List" "enc_str c = kind_enc k c"
  using enc_str_iff [of "enc_str c" c "[]"] by auto

lemma decodes_bytes:
  assumes "ready s (enc_str c)"
  shows "\<exists>s'. Stream_Bytes s = (Inr c, s') \<and> consumed s (enc_str c) s'"
  using assms enc_str_kind [of c] Stream_Bytes_eq by metis

lemma decodes_uint:
  assumes "ready s (enc_str (nat_bytes (unat i)))" "unat i < 2 ^ bits" "bits \<in> {8, 16, 32, 64}"
  shows "\<exists>s'. Stream_uint s bits = (Inr i, s') \<and> consumed s (enc_str (nat_bytes (unat i))) s'"
proof -
  define m where "m = bits div 8"
  have "bits = 8 * m" "m \<le> 8" "unat i < 256 ^ m"
    using assms(2,3) by (auto simp: m_def)
  then show ?thesis using assms(1) enc_str_kind Stream_uint_eq by metis
qed

lemma decodes_bool:
  assumes "ready s (value_enc (VBool b))"
  shows "\<exists>s'. Stream_Bool s = (Inr b, s') \<and> consumed s (value_enc (VBool b)) s'"
proof -
  define i :: uint64 where "i = (if b then 1 else 0)"
  have e: "value_enc (VBool b) = enc_str (nat_bytes (unat i))"
    by (simp add: i_def nat_bytes_pos [of "Suc 0"])
  obtain s' where "Stream_uint s 8 = (Inr i, s')" "consumed s (value_enc (VBool b)) s'"
    using decodes_uint [of s i 8] assms unfolding e by (auto simp: i_def split: if_splits)
  then show ?thesis by (auto simp: Stream_Bool_def i_def split: if_splits)
qed

lemma decodes_array:
  assumes "ready s (enc_str c)" "c \<noteq> [0]"
  shows "\<exists>s'. decodeByteArray (length c) s = (Inr (VArray c), s') \<and> consumed s (enc_str c) s'"
proof -
  obtain k where k: "kind_ok k c" "k \<noteq> List" "enc_str c = kind_enc k c" by (rule enc_str_kind)
  have r: "ready s (kind_enc k c)" using assms(1) k(3) by simp
  note kd = Stream_Kind_eq [OF k(1) r] after_head_body(4) [OF k(1) r]
  show ?thesis
  proof (cases "k = Byte")
    case True
    then obtain b where b: "c = [b]" "b \<noteq> 0" using k(1) assms(2) by (cases c) auto
    have "consumed s (kind_enc k c) ((after_head s k c)\<lparr>s_kind := None\<rparr>)" "s_byteval (after_head s k c) = b"
      using byte_consumed [of s c] r k(1) True b by simp_all
    moreover have "(ucast (ucast b :: uint64) :: byte) = b"
      by (rule bit_word_eqI) (simp add: bit_simps)
    ultimately show ?thesis
      unfolding decodeByteArray_def kd(1)
      using True b k(3) kd(2) by (simp add: Stream_Uint_def Stream_uint_def)
  next
    case False
    then have s: "k = String" "body k c = c" using k(2) by (cases k; simp add: body_def)+
    obtain x where x: "s_r (after_head s k c) = c @ x" using after_head_body(2) [OF k(1) r] s by auto
    have "readFull (after_head s k c) (length c) = (Inr c, skip (after_head s k c) (length c))"
      using readFull_eq [OF _ x] after_head_body(1) [OF k(1) r] s by simp
    moreover have "\<not> (length c = 1 \<and> c ! 0 < 128)" using k(1) s by (cases c) auto
    moreover have "length c < 2 ^ 64" using r s by (simp add: ready_def room_def)
    ultimately show ?thesis
      using after_head_body(3) [OF k(1) r] kd s k(3)
      by (simp add: decodeByteArray_def single_word)
  qed
qed

lemma decodes_bigint:
  assumes "ready s (enc_str (nat_bytes (nat i)))" "0 \<le> i"
  shows "\<exists>s'. decodeBigInt s = (Inr (VBigInt i), s') \<and> consumed s (enc_str (nat_bytes (nat i))) s'"
proof -
  have "\<not> (0 < nat i \<and> nat_bytes (nat i) ! 0 = 0)"
    using hd_nat_bytes [of "nat i"] by (cases "nat_bytes (nat i)") auto
  then show ?thesis using decodes_bytes [OF assms(1)] assms(2) by (auto simp: decodeBigInt_def)
qed

lemma decodes_raw:
  assumes "has_type (VRaw b) TRaw" "ready s b"
  shows "\<exists>s'. Stream_Raw s = (Inr b, s') \<and> consumed s b s'"
proof -
  have "length b < 2 ^ 64" using assms(2) by (simp add: ready_def room_def)
  then obtain k c where "kind_ok k c" "b = kind_enc k c"
    using value_enc_kind [OF assms(1)] by auto
  then show ?thesis using Stream_Raw_eq assms(2) by blast
qed

text \<open>Values that are not lists.\<close>

lemma decodes_plain:
  assumes "has_type v t" "\<nexists>k t'. t = TNilPtr k t'" "\<nexists>vs. v = VList vs" "ready s (value_enc v)"
  shows "decodes (Suc n) t s v"
proof (cases t)
  case TInterface
  then obtain b where v: "v = VBytes b" using assms(1,3) by (cases v) (auto simp: has_type.simps)
  obtain k where k: "kind_ok k b" "k \<noteq> List" "enc_str b = kind_enc k b" by (rule enc_str_kind)
  have kd: "Stream_Kind s = (Inr (k, of_nat (length (body k b))), after_head s k b)"
    using Stream_Kind_eq [OF k(1)] assms(4) k(3) v by simp
  have "Stream_Bytes (after_head s k b) = Stream_Bytes s"
    using kd Kind_idem [OF kd] by (simp add: Stream_Bytes_def)
  then show ?thesis
    using TInterface v kd k(2) decodes_bytes [of s b] assms(4) by (auto simp: decodes_def)
next
  case TRaw
  then obtain b where "v = VRaw b" using assms(1) by (cases v) (auto simp: has_type.simps)
  with TRaw assms decodes_raw [of b s] show ?thesis by (auto simp: decodes_def)
next
  case (TUint bits)
  then obtain i where "v = VUint i" "unat i < 2 ^ bits" "bits \<in> {8, 16, 32, 64}"
    using assms(1) by (cases v) (auto simp: has_type.simps)
  with TUint assms decodes_uint [of s i bits] show ?thesis by (auto simp: decodes_def wrapped_def)
next
  case TBool
  then obtain b where "v = VBool b" using assms(1) by (cases v) (auto simp: has_type.simps)
  with TBool assms decodes_bool [of s b] show ?thesis by (auto simp: decodes_def wrapped_def)
next
  case TBigInt
  then obtain i where "v = VBigInt i" "0 \<le> i" using assms(1) by (cases v) (auto simp: has_type.simps)
  with TBigInt assms decodes_bigint [of s i] show ?thesis by (auto simp: decodes_def)
next
  case TBytes
  then obtain b where "v = VBytes b" using assms(1) by (cases v) (auto simp: has_type.simps)
  with TBytes assms decodes_bytes [of s b] show ?thesis by (auto simp: decodes_def wrapped_def)
next
  case (TArray m)
  then obtain b where "v = VArray b" "m = length b" "b \<noteq> [0]"
    using assms(1) by (cases v) (auto simp: has_type.simps)
  with TArray assms decodes_array [of s b] show ?thesis by (auto simp: decodes_def)
qed (use assms in \<open>auto simp: has_type.simps split: rlp_value.splits\<close>)

text \<open>The loops over elements, given that the elements decode with fuel four times their length and four.\<close>

definition elem_ok :: "dectype \<Rightarrow> rlp_value \<Rightarrow> bool" where
  "elem_ok t v \<longleftrightarrow> value_enc v \<noteq> [] \<and>
     (\<forall>s n. ready s (value_enc v) \<longrightarrow> 4 * length (value_enc v) + 4 \<le> n \<longrightarrow> decodes n t s v)"

lemma elem_step:
  assumes "elem_ok t v" "ready s (value_enc v @ w)" "4 * length (value_enc v @ w) + 5 \<le> n"
  obtains m s' where "n = Suc m" "decode m t s = Some (Inr v, s')" "ready s' w"
    "4 * length w + 5 \<le> m" "\<And>s''. consumed s' w s'' \<Longrightarrow> consumed s (value_enc v @ w) s''"
proof -
  obtain m where n: "n = Suc m" using assms(3) by (cases n) auto
  have "1 \<le> length (value_enc v)" using assms(1) by (cases "value_enc v") (auto simp: elem_ok_def)
  then have m: "4 * length (value_enc v) + 4 \<le> m" "4 * length w + 5 \<le> m" using assms(3) n by auto
  obtain s' where s': "decode m t s = Some (Inr v, s')" "consumed s (value_enc v) s'"
    using assms(1) ready_prefix [OF assms(2)] m(1) by (auto simp: elem_ok_def decodes_def)
  show ?thesis using that n s'(1) m(2) ready_consumed [OF assms(2) s'(2)] by blast
qed

lemma decodeSliceElems_eq:
  assumes "\<forall>v \<in> set vs. elem_ok t v" "ready s (concat (map value_enc vs))"
    and "4 * length (concat (map value_enc vs)) + 5 \<le> n"
    and "\<And>s'. consumed s (concat (map value_enc vs)) s' \<Longrightarrow> at_eol s'"
  shows "\<exists>s'. decodeSliceElems n t s = Some (Inr vs, s') \<and> consumed s (concat (map value_enc vs)) s'"
  using assms
proof (induction vs arbitrary: s n)
  case Nil
  then obtain m where n: "n = Suc (Suc m)" by (cases n; cases "n - 1") auto
  have s: "s_kind s = None" using Nil by (simp add: ready_def)
  then have "at_eol s" using Nil(4) [of s] consumed_Nil by simp
  moreover have "consumed s [] (s\<lparr>s_kinderr := None\<rparr>)"
    using consumed_Nil [OF s] by (simp add: consumed_def norm_def)
  ultimately show ?case using n s by (simp add: decode_eol del: decode.simps)
next
  case (Cons v vs)
  have v: "elem_ok t v" "ready s (value_enc v @ concat (map value_enc vs))"
      "4 * length (value_enc v @ concat (map value_enc vs)) + 5 \<le> n"
    using Cons.prems by simp_all
  obtain m s1 where n: "n = Suc m" and d: "decode m t s = Some (Inr v, s1)" and r: "ready s1 (concat (map value_enc vs))"
    and m: "4 * length (concat (map value_enc vs)) + 5 \<le> m"
    and c: "\<And>s''. consumed s1 (concat (map value_enc vs)) s'' \<Longrightarrow> consumed s (value_enc v @ concat (map value_enc vs)) s''"
    using elem_step [OF v] by blast
  obtain s2 where "decodeSliceElems m t s1 = Some (Inr vs, s2)" "consumed s1 (concat (map value_enc vs)) s2"
    using Cons.IH [OF _ r m] Cons.prems(1,4) c by auto
  then show ?case using n d c by auto
qed

lemma decodeArrayElems_eq:
  assumes "\<forall>v \<in> set vs. elem_ok t v" "ready s (concat (map value_enc vs))"
    and "4 * length (concat (map value_enc vs)) + 5 \<le> n"
  shows "\<exists>s'. decodeArrayElems n (length vs) t s = Some (Inr vs, s') \<and> consumed s (concat (map value_enc vs)) s'"
  using assms
proof (induction vs arbitrary: s n)
  case Nil
  then obtain m where "n = Suc m" by (cases n) auto
  then show ?case using Nil consumed_Nil by (simp add: ready_def)
next
  case (Cons v vs)
  have v: "elem_ok t v" "ready s (value_enc v @ concat (map value_enc vs))"
      "4 * length (value_enc v @ concat (map value_enc vs)) + 5 \<le> n"
    using Cons.prems by simp_all
  obtain m s1 where n: "n = Suc m" and d: "decode m t s = Some (Inr v, s1)" and r: "ready s1 (concat (map value_enc vs))"
    and m: "4 * length (concat (map value_enc vs)) + 5 \<le> m"
    and c: "\<And>s''. consumed s1 (concat (map value_enc vs)) s'' \<Longrightarrow> consumed s (value_enc v @ concat (map value_enc vs)) s''"
    using elem_step [OF v] by blast
  obtain s2 where "decodeArrayElems m (length vs) t s1 = Some (Inr vs, s2)" "consumed s1 (concat (map value_enc vs)) s2"
    using Cons.IH [OF _ r m] Cons.prems(1) by auto
  then show ?case using n d c by auto
qed

lemma decodeFields_eq:
  assumes "list_all2 elem_ok ts vs" "ready s (concat (map value_enc vs))"
    and "4 * length (concat (map value_enc vs)) + 5 \<le> n"
  shows "\<exists>s'. decodeFields n ts s = Some (Inr vs, s') \<and> consumed s (concat (map value_enc vs)) s'"
  using assms
proof (induction arbitrary: s n rule: list_all2_induct)
  case Nil
  then obtain m where "n = Suc m" by (cases n) auto
  then show ?case using Nil consumed_Nil by (simp add: ready_def)
next
  case (Cons t ts v vs)
  have v: "elem_ok t v" "ready s (value_enc v @ concat (map value_enc vs))"
      "4 * length (value_enc v @ concat (map value_enc vs)) + 5 \<le> n"
    using Cons.prems Cons.hyps by simp_all
  obtain m s1 where n: "n = Suc m" and d: "decode m t s = Some (Inr v, s1)" and r: "ready s1 (concat (map value_enc vs))"
    and m: "4 * length (concat (map value_enc vs)) + 5 \<le> m"
    and c: "\<And>s''. consumed s1 (concat (map value_enc vs)) s'' \<Longrightarrow> consumed s (value_enc v @ concat (map value_enc vs)) s''"
    using elem_step [OF v] by blast
  obtain s2 where "decodeFields m ts s1 = Some (Inr vs, s2)" "consumed s1 (concat (map value_enc vs)) s2"
    using Cons.IH [OF r m] by auto
  then show ?case using n d c by auto
qed

lemma decodes_list:
  assumes "has_type (VList vs) t" "\<And>v t'. v \<in> set vs \<Longrightarrow> has_type v t' \<Longrightarrow> elem_ok t' v"
    and "ready s (value_enc (VList vs))" "4 * length (concat (map value_enc vs)) + 5 \<le> n"
    and "\<exists>t'. t = TSlice t' \<or> (\<exists>m. t = TListArray m t') \<or> (\<exists>ts. t = TStruct ts)"
  shows "decodes (Suc n) t s (VList vs)"
proof -
  define c where "c = concat (map value_enc vs)"
  have e: "value_enc (VList vs) = kind_enc List c" by (simp add: c_def Let_def)
  have r: "ready s (kind_enc List c)" using assms(3) e by simp
  define s1 where "s1 = enter_list s c"
  have l: "Stream_List s = (Inr (of_nat (length c)), s1)" "ready s1 c"
    using Stream_List_eq [OF r] by (simp_all add: s1_def)
  note fin = Stream_ListEnd_eq [OF r, folded s1_def]
  have len: "length c < 2 ^ 64" using r by (simp add: ready_def room_def)
  from assms(5) consider t' where "t = TSlice t'" | m t' where "t = TListArray m t'" | ts where "t = TStruct ts"
    by blast
  then show ?thesis
  proof cases
    case 1
    then have ok: "\<forall>v \<in> set vs. elem_ok t' v" using assms(1,2) by (auto simp: has_type.simps)
    show ?thesis
    proof (cases "c = []")
      case True
      then have "vs = []" using ok by (cases vs) (auto simp: c_def elem_ok_def)
      moreover have "consumed s1 c s1" using True l(2) consumed_Nil by (simp add: ready_def)
      then obtain s3 where "Stream_ListEnd s1 = (Inr (), s3)" "consumed s (kind_enc List c) s3"
        using fin(1) by blast
      ultimately show ?thesis
        unfolding decodes_def e using 1 l(1) True by (simp del: kind_enc.simps)
    next
      case False
      then have "(of_nat (length c) :: uint64) \<noteq> 0"
        using len by (simp add: word_unat_eq_iff unat_of_nat_uint64)
      moreover obtain s2 where "decodeSliceElems n t' s1 = Some (Inr vs, s2)" "consumed s1 c s2"
        using decodeSliceElems_eq [OF ok, of s1 n] l(2) assms(4) fin(2) by (auto simp: c_def [symmetric])
      moreover from this(2) obtain s3 where "Stream_ListEnd s2 = (Inr (), s3)" "consumed s (kind_enc List c) s3"
        using fin(1) by blast
      ultimately show ?thesis
        unfolding decodes_def e using 1 l(1) by (simp del: kind_enc.simps)
    qed
  next
    case 2
    then have ok: "\<forall>v \<in> set vs. elem_ok t' v" "m = length vs" using assms(1,2) by (auto simp: has_type.simps)
    obtain s2 where "decodeArrayElems n m t' s1 = Some (Inr vs, s2)" "consumed s1 c s2"
      using decodeArrayElems_eq [OF ok(1), of s1 n] l(2) assms(4) ok(2) by (auto simp: c_def [symmetric])
    moreover from this(2) obtain s3 where "Stream_ListEnd s2 = (Inr (), s3)" "consumed s (kind_enc List c) s3"
      using fin(1) by blast
    ultimately show ?thesis
      unfolding decodes_def e using 2 ok(2) l(1) by (simp add: wrapped_def del: kind_enc.simps)
  next
    case 3
    then have "length vs = length ts" "\<forall>(x, t) \<in> set (zip vs ts). has_type x t"
      using assms(1) by (simp_all add: has_type.simps)
    then have "has_type (vs ! i) (ts ! i)" "vs ! i \<in> set vs" if "i < length ts" for i
      using that by (auto simp: set_zip)
    then have "list_all2 elem_ok ts vs"
      using assms(2) \<open>length vs = length ts\<close> by (intro list_all2_all_nthI) simp_all
    then obtain s2 where "decodeFields n ts s1 = Some (Inr vs, s2)" "consumed s1 c s2"
      using decodeFields_eq [of ts vs s1 n] l(2) assms(4) by (auto simp: c_def [symmetric])
    moreover from this(2) obtain s3 where "Stream_ListEnd s2 = (Inr (), s3)" "consumed s (kind_enc List c) s3"
      using fin(1) by blast
    ultimately show ?thesis
      unfolding decodes_def e using 3 l(1) by (simp add: wrapped_def del: kind_enc.simps)
  qed
qed

lemma decodes_interface_list:
  assumes "has_type (VList vs) TInterface" "\<And>v t'. v \<in> set vs \<Longrightarrow> has_type v t' \<Longrightarrow> elem_ok t' v"
    and "ready s (value_enc (VList vs))" "4 * length (concat (map value_enc vs)) + 5 \<le> n"
  shows "decodes (Suc (Suc n)) TInterface s (VList vs)"
proof -
  have e: "value_enc (VList vs) = kind_enc List (concat (map value_enc vs))" by (simp add: Let_def)
  have kd: "Stream_Kind s = (Inr (List, of_nat (length (concat (map value_enc vs)))),
      after_head s List (concat (map value_enc vs)))"
    using Stream_Kind_eq [of List "concat (map value_enc vs)" s] assms(3) unfolding e by (simp add: body_def)
  have "has_type (VList vs) (TSlice TInterface)" using assms(1) by (simp add: has_type.simps)
  from decodes_list [OF this assms(2-4)] show ?thesis
    using kd decode_Kind [OF kd, of "Suc n" "TSlice TInterface"] by (simp add: decodes_def)
qed

lemma decodes_no_nil:
  assumes "has_type v t" "\<nexists>k t'. t = TNilPtr k t'"
    and "\<And>vs x t'. v = VList vs \<Longrightarrow> x \<in> set vs \<Longrightarrow> has_type x t' \<Longrightarrow> elem_ok t' x"
    and "ready s (value_enc v)" "4 * length (value_enc v) + 3 \<le> n"
  shows "decodes n t s v"
proof (cases "\<exists>vs. v = VList vs")
  case False
  then show ?thesis using decodes_plain assms by (cases n) auto
next
  case True
  then obtain vs where v: "v = VList vs" by blast
  have "1 \<le> length (enc_head 0xC0 (length (concat (map value_enc vs))))"
    by (cases "enc_head 0xC0 (length (concat (map value_enc vs)))") auto
  then obtain m where n: "n = Suc (Suc m)" "4 * length (concat (map value_enc vs)) + 5 \<le> m"
    using assms(5) v by (cases n; cases "n - 1") (auto simp: Let_def)
  show ?thesis
  proof (cases "t = TInterface")
    case True
    then show ?thesis using decodes_interface_list [of vs s m] assms n v by auto
  next
    case False
    then have "\<exists>t'. t = TSlice t' \<or> (\<exists>m. t = TListArray m t') \<or> (\<exists>ts. t = TStruct ts)"
      using assms(1,2) v by (cases t) (auto simp: has_type.simps)
    then show ?thesis using decodes_list [of vs t s "Suc m"] assms n v by auto
  qed
qed

lemma decodes_nil_ptr:
  assumes "has_type v (TNilPtr k t)"
    and "\<And>vs x t'. v = VList vs \<Longrightarrow> x \<in> set vs \<Longrightarrow> has_type x t' \<Longrightarrow> elem_ok t' x"
    and "ready s (value_enc v)" "4 * length (value_enc v) + 3 \<le> n"
  shows "decodes (Suc n) (TNilPtr k t) s v"
proof -
  have len: "length (value_enc v) < 2 ^ 64" using assms(3) by (simp add: ready_def room_def)
  obtain k' c where kc: "kind_ok k' c" "value_enc v = kind_enc k' c"
    using value_enc_kind [OF assms(1) len] .
  have r: "ready s (kind_enc k' c)" using assms(3) kc by simp
  note kd = Stream_Kind_eq [OF kc(1) r]
  show ?thesis
  proof (cases "v = VNil k")
    case True
    have "k \<noteq> Byte" using assms(1) by (simp add: has_type.simps)
    then have "kind_ok k [] \<and> value_enc v = kind_enc k []" using True by (cases k) (simp_all add: enc_head_def)
    then have kd: "Stream_Kind s = (Inr (k, 0), after_head s k [])" and r: "ready s (kind_enc k [])"
      using Stream_Kind_eq [of k "[]" s] assms(3) by (simp_all add: body_def)
    have "consumed s (value_enc v) ((after_head s k [])\<lparr>s_kind := None\<rparr>)"
      using after_head_body(3) [OF _ r] \<open>kind_ok k [] \<and> _\<close> by (simp add: body_def skip_0)
    then show ?thesis using True \<open>k \<noteq> Byte\<close> kd by (simp add: decodes_def)
  next
    case False
    then have v: "has_type v t" "value_enc v \<noteq> [0x80]" "value_enc v \<noteq> [0xC0]" "\<nexists>k t'. t = TNilPtr k t'"
      using assms(1) by (auto simp: has_type.simps split: dectype.splits)
    have c: "k' \<noteq> Byte \<Longrightarrow> (of_nat (length (body k' c)) :: uint64) \<noteq> 0"
    proof -
      assume b: "k' \<noteq> Byte"
      then have "c \<noteq> []" using readKind_none_empty [OF kc(1) b] v(2,3) kc(2) by metis
      moreover have "length c < 2 ^ 64" using len kc(2) kind_enc_tag [of k' c] by simp
      ultimately show ?thesis using b by (simp add: body_def word_unat_eq_iff unat_of_nat_uint64)
    qed
    have "decodes n t s v" using decodes_no_nil [OF v(1,4) assms(2-4)] .
    then show ?thesis using kd c decode_Kind [OF kd, of n t] by (auto simp: decodes_def)
  qed
qed

lemma decodes_value:
  "has_type v t \<Longrightarrow> ready s (value_enc v) \<Longrightarrow> 4 * length (value_enc v) + 4 \<le> n \<Longrightarrow> decodes n t s v"
proof (induction v arbitrary: t s n rule: measure_induct_rule [of size])
  case (less v)
  have ok: "elem_ok t' x" if "v = VList vs" "x \<in> set vs" "has_type x t'" for vs x t'
  proof -
    have "length (value_enc x) \<le> length (concat (map value_enc vs))" using that(2) by (rule concat_map_length_le)
    then have "length (value_enc x) < 2 ^ 64" using less(3) that(1) by (auto simp: ready_def room_def Let_def)
    then have "value_enc x \<noteq> []" using value_enc_kind [OF that(3)] kind_enc_neq_Nil by metis
    then show ?thesis using less(1) [of x] size_elem [OF that(2)] that by (auto simp: elem_ok_def)
  qed
  show ?case
  proof (cases "\<exists>k t'. t = TNilPtr k t'")
    case True
    then obtain k t' where t: "t = TNilPtr k t'" by blast
    obtain m where "n = Suc m" "4 * length (value_enc v) + 3 \<le> m" using less(4) by (cases n) auto
    then show ?thesis using decodes_nil_ptr [of v k t' s m] less t ok by blast
  next
    case False
    then show ?thesis using decodes_no_nil [OF less(2) False ok less(3)] less(4) by simp
  qed
qed

lemma has_type_value_ok: "has_type v t \<Longrightarrow> value_ok v"
proof (induction v t rule: has_type.induct)
  case (9 v ts)
  then obtain vs where v: "v = VList vs" "length vs = length ts" "\<forall>(x, t) \<in> set (zip vs ts). has_type x t"
    by (cases v) (auto simp: has_type.simps)
  have "value_ok x" if x: "x \<in> set vs" for x
  proof -
    obtain t where "(x, t) \<in> set (zip vs ts)"
      using x v(2) by (metis in_set_impl_in_set_zip1)
    then show ?thesis using "9.IH" v by auto
  qed
  then show ?case using v(1) by simp
next
  case (11 v k t)
  then show ?case by (auto simp: has_type.simps)
qed (auto simp: has_type.simps split: rlp_value.splits)

lemma ready_Reset: "length b < 2 ^ 64 \<Longrightarrow> ready (Reset s b (of_nat (length b))) b"
  by (cases "b = []") (auto simp: ready_def room_def Reset_def unat_of_nat_uint64 word_less_nat_alt)

text \<open>The byte 0 in front of the decoder of one-byte arrays.\<close>

definition stuck :: "Stream \<Rightarrow> bool" where
  "stuck s \<longleftrightarrow> s_kind s = Some Byte \<and> s_byteval s = 0 \<and> s_kinderr s = None"

lemma decode_stuck: "stuck s \<Longrightarrow> decode (Suc n) (TArray (Suc 0)) s = Some (Inr (VArray [0]), s)"
  by (simp add: stuck_def decodeByteArray_def Stream_Kind_def Stream_Uint_def Stream_uint_def)

lemma decode_zero:
  assumes "ready s [0]"
  shows "\<exists>s'. stuck s' \<and> decode (Suc n) (TArray (Suc 0)) s = Some (Inr (VArray [0]), s') \<and> s_stack s' = bump 1 (s_stack s)"
proof -
  have kd: "Stream_Kind s = (Inr (Byte, 0), after_head s Byte [0])"
    using Stream_Kind_eq [of Byte "[0]" s] assms by (simp add: body_def)
  have "stuck (after_head s Byte [0])" "s_stack (after_head s Byte [0]) = bump 1 (s_stack s)"
    by (simp_all add: stuck_def after_head_def skip_def head_len_def)
  then show ?thesis using decode_Kind [OF kd] decode_stuck by metis
qed

lemma decodeSliceElems_stuck: "stuck s \<Longrightarrow> decodeSliceElems n (TArray (Suc 0)) s = None"
proof (induction n)
  case (Suc n)
  then show ?case by (cases n) (simp_all add: decode_stuck del: decode.simps(2-))
qed simp

lemma decodeSliceElems_zero: "ready s [0] \<Longrightarrow> decodeSliceElems n (TArray (Suc 0)) s = None"
proof (cases n)
  case (Suc m)
  assume r: "ready s [0]"
  show ?thesis
  proof (cases m)
    case (Suc l)
    obtain s' where "stuck s'" "decode m (TArray (Suc 0)) s = Some (Inr (VArray [0]), s')"
      using decode_zero [OF r] Suc by blast
    then show ?thesis using decodeSliceElems_stuck [of s' m] \<open>n = Suc m\<close> by simp
  qed (use Suc in simp)
qed simp

lemma EncodeToBytes_arrays:
  assumes "length (value_enc (VList (map (\<lambda>b. VArray [b]) bs))) < 2 ^ 64"
  shows "EncodeToBytes (VList (map (\<lambda>b. VArray [b]) bs)) = Inr (Some (value_enc (VList (map (\<lambda>b. VArray [b]) bs))))"
proof -
  have "value_ok (VList (map (\<lambda>b. VArray [b]) bs))" by simp
  then show ?thesis using assms by (simp add: EncodeToBytes_def value_simps del: value_ok.simps value_enc.simps writeValue.simps)
qed

lemma decodeSliceElems_zeros:
  assumes "0 \<in> set bs" "ready s (concat (map value_enc (map (\<lambda>b. VArray [b]) bs)))"
  shows "decodeSliceElems n (TArray (Suc 0)) s = None"
  using assms
proof (induction bs arbitrary: s n)
  case (Cons b bs)
  show ?case
  proof (cases "b = 0")
    case True
    then have "ready s [0]" using Cons(3) ready_prefix [of s "[0]"] by (simp add: enc_str_def)
    then show ?thesis by (rule decodeSliceElems_zero)
  next
    case False
    note r = Cons(3) [unfolded list.map concat.simps]
    have "has_type (VArray [b]) (TArray (Suc 0))" using False by (simp add: has_type.simps)
    then have d: "decodes (Suc m) (TArray (Suc 0)) s (VArray [b])" for m
      using decodes_plain ready_prefix [OF r] by auto
    have stop: "decodeSliceElems m (TArray (Suc 0)) s' = None" if "consumed s (value_enc (VArray [b])) s'" for m s'
      using Cons(1,2) ready_consumed(1) [OF r that] False by simp
    show ?thesis
    proof (cases n)
      case (Suc m)
      show ?thesis
      proof (cases m)
        case (Suc l)
        obtain s' where "decode m (TArray (Suc 0)) s = Some (Inr (VArray [b]), s')" "consumed s (value_enc (VArray [b])) s'"
          using d [of l] Suc by (auto simp: decodes_def)
        then show ?thesis using \<open>n = Suc m\<close> stop by (simp del: decode.simps value_enc.simps)
      qed (use Suc in simp)
    qed simp
  qed
qed simp

section \<open>Properties\<close>

text \<open>C25: Decoding gives back what was encoded, for every type built from raw values, unsigned integers,
  booleans, big integers, byte slices and arrays, slices, arrays, structs, interfaces and nil-tagged
  pointers: the encoder produces some bytes, and decoding exactly these bytes, with whatever stream the pool
  returns, ends with the value. The fuel that is enough is linear in the length of the input. The values are those
  \<open>has_type\<close> accepts: a raw value is one canonical item, a big integer is not negative, an integer fits its width,
  what a nil-tagged pointer points to does not encode to an empty string or list (which decodes to nil), and no one-byte
  array holds the byte 0, which the decoder gets wrong.\<close>

theorem decode_encode_roundtrip:
  assumes "has_type v t" "length (value_enc v) < 2 ^ 64" "4 * length (value_enc v) + 4 \<le> n"
  shows "\<exists>b. EncodeToBytes v = Inr (Some b) \<and> DecodeBytes stream n t b = Some (Inr v)"
proof -
  have "EncodeToBytes v = Inr (Some (value_enc v))"
    using assms has_type_value_ok by (simp add: EncodeToBytes_def value_simps)
  moreover have "decodes n t (Reset stream (value_enc v) (of_nat (length (value_enc v)))) v"
    using decodes_value assms ready_Reset by blast
  then obtain s' where s': "decode n t (Reset stream (value_enc v) (of_nat (length (value_enc v)))) = Some (Inr v, s')"
      "consumed (Reset stream (value_enc v) (of_nat (length (value_enc v)))) (value_enc v) s'"
    by (auto simp: decodes_def)
  then have "s_r s' = []"
    using norm_sel(1) [of s'] by (simp add: consumed_def skip_def Reset_def)
  then have "DecodeBytes stream n t (value_enc v) = Some (Inr v)"
    using s'(1) by (simp add: DecodeBytes_def)
  ultimately show ?thesis by simp
qed

theorem decode_encode_roundtrip_witness:
  "\<exists>b. EncodeToBytes (VList [VUint 300, VList [VBytes [1, 2]], VNil String]) = Inr (Some b) \<and>
     DecodeBytes new_Stream 48 (TStruct [TUint 64, TSlice TBytes, TNilPtr String TBigInt]) b =
       Some (Inr (VList [VUint 300, VList [VBytes [1, 2]], VNil String]))"
  using decode_encode_roundtrip [of "VList [VUint 300, VList [VBytes [1, 2]], VNil String]"
      "TStruct [TUint 64, TSlice TBytes, TNilPtr String TBigInt]" 48 new_Stream]
  by (simp add: has_type.simps enc_str_def enc_head_def nat_bytes_pos [of 300] nat_bytes_pos [of "Suc 0"])

text \<open>C32: Decoding a list of one-byte arrays never ends when the list holds a zero byte, whatever the other bytes are:
  the encoder accepts the list, but of its encoding no amount of fuel decodes a slice of one-byte arrays.
  \<open>decodeByteArray\<close> drops the error with which \<open>Uint\<close> refuses the byte 0 as an integer, the byte stays unread, and the
  element loop of \<open>decodeSliceElems\<close> decodes it again and again.\<close>

theorem decode_zero_arrays_diverges:
  assumes "0 \<in> set bs" "length (value_enc (VList (map (\<lambda>b. VArray [b]) bs))) < 2 ^ 64"
  shows "\<exists>b. EncodeToBytes (VList (map (\<lambda>b. VArray [b]) bs)) = Inr (Some b) \<and>
    (\<forall>n. DecodeBytes stream n (TSlice (TArray 1)) b = None)"
proof -
  define c where "c = concat (map value_enc (map (\<lambda>b. VArray [b]) bs))"
  have e: "value_enc (VList (map (\<lambda>b. VArray [b]) bs)) = kind_enc List c" by (simp add: c_def Let_def)
  define s where "s = Reset stream (kind_enc List c) (of_nat (length (kind_enc List c)))"
  have r: "ready s (kind_enc List c)" using ready_Reset assms(2) unfolding e s_def by blast
  note l = Stream_List_eq [OF r]
  have "c \<noteq> []" using assms(1) by (cases bs) (simp_all add: c_def enc_str_def)
  moreover have "length c < 2 ^ 64" using assms(2) unfolding e by simp
  ultimately have c: "(of_nat (length c) :: uint64) \<noteq> 0" by (simp add: word_unat_eq_iff unat_of_nat_uint64)
  have "decode n (TSlice (TArray 1)) s = None" for n
  proof (cases n)
    case (Suc m)
    then show ?thesis using c l(1) decodeSliceElems_zeros [OF assms(1) l(2) [unfolded c_def], folded c_def] by simp
  qed simp
  then have "DecodeBytes stream n (TSlice (TArray 1)) (kind_enc List c) = None" for n
    by (simp add: DecodeBytes_def s_def)
  moreover have "EncodeToBytes (VList (map (\<lambda>b. VArray [b]) bs)) = Inr (Some (kind_enc List c))"
    using EncodeToBytes_arrays [OF assms(2)] unfolding e .
  ultimately show ?thesis by blast
qed

theorem decode_zero_arrays_diverges_witness:
  "EncodeToBytes (VList [VArray [5], VArray [0], VArray [200]]) = Inr (Some [0xC4, 0x05, 0x00, 0x81, 0xC8]) \<and>
   DecodeBytes new_Stream 1000 (TSlice (TArray 1)) [0xC4, 0x05, 0x00, 0x81, 0xC8] = None"
proof -
  let ?v = "VList (map (\<lambda>b. VArray [b]) [5, 0, 200])"
  have v: "value_enc ?v = [0xC4, 0x05, 0x00, 0x81, 0xC8]" by (simp add: enc_str_def enc_head_def)
  then have "EncodeToBytes ?v = Inr (Some [0xC4, 0x05, 0x00, 0x81, 0xC8])"
    using EncodeToBytes_arrays [of "[5, 0, 200]"] by (simp del: value_enc.simps)
  then show ?thesis using decode_zero_arrays_diverges [of "[5, 0, 200]" new_Stream] unfolding v by simp
qed

text \<open>For the same reason a struct of two one-byte arrays does not survive the round trip: two zero bytes
  encode to a list of two bytes, and decoding these fails with an error about a list that is too long.\<close>

theorem decode_zero_fields_fails:
  "EncodeToBytes (VList [VArray [0], VArray [0]]) = Inr (Some [0xC2, 0x00, 0x00]) \<and>
   DecodeBytes stream (n + 5) (TStruct [TArray 1, TArray 1]) [0xC2, 0x00, 0x00] =
     Some (Inl (DecodeError ErrNotAtEOL))"
proof
  have "value_enc (VList [VArray [0], VArray [0]]) = [0xC2, 0x00, 0x00]"
    by (simp add: enc_str_def enc_head_def)
  then show "EncodeToBytes (VList [VArray [0], VArray [0]]) = Inr (Some [0xC2, 0x00, 0x00])"
    using writeValue_reset [of "VList [VArray [0], VArray [0]]"] toBytes_value [of "VList [VArray [0], VArray [0]]"]
    by (simp add: EncodeToBytes_def del: value_enc.simps writeValue.simps)
  define s where "s = Reset stream [0xC2, 0x00, 0x00] 3"
  define s1 where "s1 = enter_list s [0, 0]"
  have r: "ready s (kind_enc List [0, 0])"
    using ready_Reset [of "[0xC2, 0x00, 0x00]" stream] by (simp add: s_def enc_head_def)
  have l: "Stream_List s = (Inr 2, s1)" "ready s1 [0, 0]" using Stream_List_eq [OF r] by (simp_all add: s1_def)
  have "ready s1 [0]" using ready_prefix [of s1 "[0]" "[0]"] l(2) by simp
  then obtain s2 where s2: "stuck s2" "decode (Suc (Suc (Suc n))) (TArray (Suc 0)) s1 = Some (Inr (VArray [0]), s2)"
      "s_stack s2 = bump 1 (s_stack s1)"
    using decode_zero by blast
  have "Stream_ListEnd s2 = (Inl ErrNotAtEOL, s2)"
    using s2(3) by (simp add: Stream_ListEnd_def s1_def enter_list_def bump_def)
  moreover have "decodeFields (Suc (Suc (Suc (Suc n)))) [TArray 1, TArray 1] s1 = Some (Inr [VArray [0], VArray [0]], s2)"
    using s2(2) decode_stuck [OF s2(1), of "Suc n"] by (simp del: decode.simps)
  ultimately have "decode (n + 5) (TStruct [TArray 1, TArray 1]) s = Some (Inl (DecodeError ErrNotAtEOL), s2)"
    using l(1) by (simp add: numeral_eq_Suc wrapped_def wrapStreamError_def del: decodeFields.simps)
  then show "DecodeBytes stream (n + 5) (TStruct [TArray 1, TArray 1]) [0xC2, 0x00, 0x00] =
      Some (Inl (DecodeError ErrNotAtEOL))"
    by (simp add: DecodeBytes_def s_def)
qed

end
