(* ===== verification/StateObject.thy ===== *)
theory StateObject
  imports AccessList RlpStream
begin

text \<open>
  Accounts under modification (\<open>core/state/state_object.go\<close>) and the interfaces they read from.

  The database, the tries and the snapshot layer are Go interfaces; a \<open>backend\<close> holds their operations as
  functions on an arbitrary type of tries and of snapshots, together with Keccak-256, which is not part of
  this repository. Addresses and hashes are words of their width. A method that changes its receiver returns
  the changed object first.
\<close>

section \<open>Bytes of addresses and hashes\<close>

definition addr_Bytes :: "address \<Rightarrow> bytes" where
  "addr_Bytes a = be_fixed 20 (unat a)"

definition hash_Bytes :: "hash \<Rightarrow> bytes" where
  "hash_Bytes h = be_fixed 32 (unat h)"

definition BytesToHash :: "bytes \<Rightarrow> hash" where
  "BytesToHash b = of_nat (be_nat (if length b > 32 then drop (length b - 32) b else b))"

section \<open>Interfaces\<close>

type_synonym db_error = string

record snapAccount =
  sa_Nonce :: uint64
  sa_Balance :: int
  sa_Root :: bytes
  sa_CodeHash :: bytes

text \<open>
  \<open>OpenStorageTrie\<close> returns a trie also with an error; \<open>getTrie\<close> then opens the empty trie, which does not
  fail. A nil code is \<open>None\<close>.
\<close>

record ('t, 's) backend =
  be_Keccak256 :: "bytes \<Rightarrow> hash"
  be_OpenTrie :: "hash \<Rightarrow> db_error + 't"
  be_OpenStorageTrie :: "hash \<Rightarrow> hash \<Rightarrow> 't \<times> db_error option"
  be_TryGet :: "'t \<Rightarrow> bytes \<Rightarrow> db_error + bytes"
  be_ContractCode :: "hash \<Rightarrow> hash \<Rightarrow> bytes option \<times> db_error option"
  be_ContractCodeSize :: "hash \<Rightarrow> hash \<Rightarrow> int \<times> db_error option"
  be_Account :: "'s \<Rightarrow> hash \<Rightarrow> db_error + snapAccount option"
  be_Storage :: "'s \<Rightarrow> hash \<Rightarrow> hash \<Rightarrow> db_error + bytes"
  be_Snapshot :: "hash \<Rightarrow> 's option"

definition emptyCodeHash :: "('t, 's) backend \<Rightarrow> bytes" where
  "emptyCodeHash env = hash_Bytes (be_Keccak256 env [])"

definition emptyRoot :: hash where
  "emptyRoot = 0x56e81f171bcc55a6ff8345e692c0f86e5b48e01b996cadc001622fb5e363b421"

section \<open>State objects\<close>

datatype state_error =
    TrieError db_error | StorageError db_error | SplitError rlp_error | CodeError db_error | CodeSizeError db_error
  | AccountError db_error

type_synonym Storage = "hash \<rightharpoonup> hash"

text \<open>A nil \<open>CodeHash\<close> is \<open>None\<close>; \<open>newObject\<close> replaces it. A nil \<open>Balance\<close> is replaced there as well and is 0 here.\<close>

record Account =
  Nonce :: uint64
  Balance :: int
  Root :: hash
  CodeHash :: "bytes option"

record 't stateObject =
  so_address :: address
  so_addrHash :: hash
  so_data :: Account
  so_dbErr :: "state_error option"
  so_trie :: "'t option"
  so_code :: "bytes option"
  so_originStorage :: Storage
  so_pendingStorage :: Storage
  so_dirtyStorage :: Storage
  so_fakeStorage :: "Storage option"
  so_dirtyCode :: bool
  so_suicided :: bool
  so_deleted :: bool

definition so_empty :: "('t, 's) backend \<Rightarrow> 't stateObject \<Rightarrow> bool" where
  "so_empty env s \<longleftrightarrow> Nonce (so_data s) = 0 \<and> Balance (so_data s) = 0 \<and>
     CodeHash (so_data s) = Some (emptyCodeHash env)"

definition newObject :: "('t, 's) backend \<Rightarrow> address \<Rightarrow> Account \<Rightarrow> 't stateObject" where
  "newObject env address data =
     (let data = (if CodeHash data = None then data\<lparr>CodeHash := Some (emptyCodeHash env)\<rparr> else data);
          data = (if Root data = 0 then data\<lparr>Root := emptyRoot\<rparr> else data)
      in \<lparr>so_address = address, so_addrHash = be_Keccak256 env (addr_Bytes address), so_data = data, so_dbErr = None,
          so_trie = None, so_code = None, so_originStorage = Map.empty, so_pendingStorage = Map.empty,
          so_dirtyStorage = Map.empty, so_fakeStorage = None, so_dirtyCode = False, so_suicided = False,
          so_deleted = False\<rparr>)"

definition so_setError :: "'t stateObject \<Rightarrow> state_error option \<Rightarrow> 't stateObject" where
  "so_setError s err = (if so_dbErr s = None then s\<lparr>so_dbErr := err\<rparr> else s)"

definition getTrie :: "('t, 's) backend \<Rightarrow> 't stateObject \<Rightarrow> 't stateObject \<times> 't" where
  "getTrie env s =
     (case so_trie s of
        Some tr \<Rightarrow> (s, tr)
      | None \<Rightarrow>
          (case be_OpenStorageTrie env (so_addrHash s) (Root (so_data s)) of
             (tr, None) \<Rightarrow> (s\<lparr>so_trie := Some tr\<rparr>, tr)
           | (_, Some err) \<Rightarrow>
               let tr = fst (be_OpenStorageTrie env (so_addrHash s) 0)
               in (so_setError (s\<lparr>so_trie := Some tr\<rparr>) (Some (TrieError err)), tr)))"

text \<open>
  The part of \<open>GetCommittedState\<close> from the encoded value on: decode it, remember it as the original value and
  return it.
\<close>

definition committed_value :: "bytes \<Rightarrow> hash \<times> state_error option" where
  "committed_value enc =
     (if length enc > 0 then
        (case Split enc of
           Inl err \<Rightarrow> (BytesToHash [], Some (SplitError err))
         | Inr (_, content, _) \<Rightarrow> (BytesToHash content, None))
      else (0, None))"

definition cache_committed :: "'t stateObject \<Rightarrow> hash \<Rightarrow> bytes \<Rightarrow> 't stateObject \<times> hash" where
  "cache_committed s key enc =
     (let (value, err) = committed_value enc;
          s = so_setError s err
      in (s\<lparr>so_originStorage := (so_originStorage s)(key \<mapsto> value)\<rparr>, value))"

definition load_committed :: "('t, 's) backend \<Rightarrow> 't stateObject \<Rightarrow> hash \<Rightarrow> 't stateObject \<times> hash" where
  "load_committed env s key =
     (case getTrie env s of (s, tr) \<Rightarrow>
        (case be_TryGet env tr (hash_Bytes key) of
           Inl err \<Rightarrow> (so_setError s (Some (StorageError err)), 0)
         | Inr enc \<Rightarrow> cache_committed s key enc))"

text \<open>\<open>snap\<close> and \<open>destructed\<close> are what the code reads of the \<open>StateDB\<close> the object belongs to.\<close>

definition so_GetCommittedState ::
  "('t, 's) backend \<Rightarrow> 's option \<Rightarrow> bool \<Rightarrow> 't stateObject \<Rightarrow> hash \<Rightarrow> 't stateObject \<times> hash" where
  "so_GetCommittedState env snap destructed s key =
     (case so_fakeStorage s of
        Some fake \<Rightarrow> (s, case fake key of None \<Rightarrow> 0 | Some v \<Rightarrow> v)
      | None \<Rightarrow>
     (case so_pendingStorage s key of
        Some value \<Rightarrow> (s, value)
      | None \<Rightarrow>
     (case so_originStorage s key of
        Some value \<Rightarrow> (s, value)
      | None \<Rightarrow>
     (case snap of
        None \<Rightarrow> load_committed env s key
      | Some sn \<Rightarrow>
          if destructed then (s, 0)
          else (case be_Storage env sn (so_addrHash s) (be_Keccak256 env (hash_Bytes key)) of
                  Inl _ \<Rightarrow> load_committed env s key
                | Inr enc \<Rightarrow> cache_committed s key enc)))))"

definition so_GetState ::
  "('t, 's) backend \<Rightarrow> 's option \<Rightarrow> bool \<Rightarrow> 't stateObject \<Rightarrow> hash \<Rightarrow> 't stateObject \<times> hash" where
  "so_GetState env snap destructed s key =
     (case so_fakeStorage s of
        Some fake \<Rightarrow> (s, case fake key of None \<Rightarrow> 0 | Some v \<Rightarrow> v)
      | None \<Rightarrow>
          (case so_dirtyStorage s key of
             Some value \<Rightarrow> (s, value)
           | None \<Rightarrow> so_GetCommittedState env snap destructed s key))"

definition so_setState :: "'t stateObject \<Rightarrow> hash \<Rightarrow> hash \<Rightarrow> 't stateObject" where
  "so_setState s key value = s\<lparr>so_dirtyStorage := (so_dirtyStorage s)(key \<mapsto> value)\<rparr>"

definition so_SetStorage :: "'t stateObject \<Rightarrow> Storage \<Rightarrow> 't stateObject" where
  "so_SetStorage s storage =
     s\<lparr>so_fakeStorage := Some ((case so_fakeStorage s of None \<Rightarrow> Map.empty | Some f \<Rightarrow> f) ++ storage)\<rparr>"

definition so_finalise :: "'t stateObject \<Rightarrow> 't stateObject" where
  "so_finalise s = s\<lparr>so_pendingStorage := so_pendingStorage s ++ so_dirtyStorage s, so_dirtyStorage := Map.empty\<rparr>"

definition so_setBalance :: "'t stateObject \<Rightarrow> int \<Rightarrow> 't stateObject" where
  "so_setBalance s amount = s\<lparr>so_data := (so_data s)\<lparr>Balance := amount\<rparr>\<rparr>"

definition so_setNonce :: "'t stateObject \<Rightarrow> uint64 \<Rightarrow> 't stateObject" where
  "so_setNonce s nonce = s\<lparr>so_data := (so_data s)\<lparr>Nonce := nonce\<rparr>\<rparr>"

definition so_CodeHash :: "'t stateObject \<Rightarrow> bytes" where
  "so_CodeHash s = (case CodeHash (so_data s) of None \<Rightarrow> [] | Some h \<Rightarrow> h)"

definition so_setCode :: "'t stateObject \<Rightarrow> hash \<Rightarrow> bytes option \<Rightarrow> 't stateObject" where
  "so_setCode s codeHash code =
     s\<lparr>so_code := code, so_data := (so_data s)\<lparr>CodeHash := Some (hash_Bytes codeHash)\<rparr>, so_dirtyCode := True\<rparr>"

definition so_Code :: "('t, 's) backend \<Rightarrow> 't stateObject \<Rightarrow> 't stateObject \<times> bytes option" where
  "so_Code env s =
     (case so_code s of
        Some code \<Rightarrow> (s, Some code)
      | None \<Rightarrow>
          if so_CodeHash s = emptyCodeHash env then (s, None)
          else (case be_ContractCode env (so_addrHash s) (BytesToHash (so_CodeHash s)) of (code, err) \<Rightarrow>
                  let s = (case err of None \<Rightarrow> s | Some e \<Rightarrow> so_setError s (Some (CodeError e)))
                  in (s\<lparr>so_code := code\<rparr>, code)))"

definition so_CodeSize :: "('t, 's) backend \<Rightarrow> 't stateObject \<Rightarrow> 't stateObject \<times> int" where
  "so_CodeSize env s =
     (case so_code s of
        Some code \<Rightarrow> (s, int (length code))
      | None \<Rightarrow>
          if so_CodeHash s = emptyCodeHash env then (s, 0)
          else (case be_ContractCodeSize env (so_addrHash s) (BytesToHash (so_CodeHash s)) of (sz, err) \<Rightarrow>
                  ((case err of None \<Rightarrow> s | Some e \<Rightarrow> so_setError s (Some (CodeSizeError e))), sz)))"

definition deepCopy :: "('t, 's) backend \<Rightarrow> 't stateObject \<Rightarrow> 't stateObject" where
  "deepCopy env s = (newObject env (so_address s) (so_data s))
     \<lparr>so_trie := so_trie s, so_code := so_code s, so_dirtyStorage := so_dirtyStorage s,
      so_originStorage := so_originStorage s, so_pendingStorage := so_pendingStorage s,
      so_suicided := so_suicided s, so_dirtyCode := so_dirtyCode s, so_deleted := so_deleted s\<rparr>"

end
