(* ===== verification/StateDB.thy ===== *)
theory StateDB
  imports StateObject
begin

text \<open>
  The state database (\<open>core/state/statedb.go\<close>) and its journal (\<open>core/state/journal.go\<close>).

  Live objects are mutated through pointers in the code; here the changed object is stored back under its
  address. Reads return the database as well, since they fill caches. A run-time panic (a nil pointer, a
  slice out of range, an explicit panic) is \<open>None\<close>. The measurements of elapsed time are left out.
\<close>

section \<open>State\<close>

record Log =
  lg_Address :: address
  lg_Topics :: "hash list"
  lg_Data :: bytes
  lg_BlockNumber :: uint64
  lg_TxHash :: hash
  lg_TxIndex :: uint64
  lg_BlockHash :: hash
  lg_Index :: uint64
  lg_Removed :: bool

datatype 't journalEntry =
    createObjectChange address
  | resetObjectChange "'t stateObject" bool
  | suicideChange address bool int
  | balanceChange address int
  | nonceChange address uint64
  | storageChange address hash hash
  | codeChange address "bytes option" bytes
  | refundChange uint64
  | addLogChange hash
  | addPreimageChange hash
  | touchChange address
  | accessListAddAccountChange address
  | accessListAddSlotChange address hash

record 't journal =
  j_entries :: "'t journalEntry list"
  j_dirties :: "address \<rightharpoonup> int"

record revision =
  rv_id :: int
  rv_journalIndex :: nat

record ('t, 's) StateDB =
  sd_trie :: 't
  sd_snap :: "'s option"
  sd_snapDestructs :: "hash set"
  sd_snapAccounts :: "hash \<rightharpoonup> bytes"
  sd_snapStorage :: "hash \<rightharpoonup> (hash \<rightharpoonup> bytes)"
  sd_stateObjects :: "address \<rightharpoonup> 't stateObject"
  sd_stateObjectsPending :: "address set"
  sd_stateObjectsDirty :: "address set"
  sd_dbErr :: "state_error option"
  sd_refund :: uint64
  sd_thash :: hash
  sd_bhash :: hash
  sd_txIndex :: int
  sd_logs :: "hash \<rightharpoonup> Log list"
  sd_logSize :: uint64
  sd_preimages :: "hash \<rightharpoonup> bytes"
  sd_accessList :: accessList
  sd_journal :: "'t journal"
  sd_validRevisions :: "revision list"
  sd_nextRevisionId :: int

section \<open>Journal\<close>

definition newJournal :: "'t journal" where
  "newJournal = \<lparr>j_entries = [], j_dirties = Map.empty\<rparr>"

fun dirtied :: "'t journalEntry \<Rightarrow> address option" where
  "dirtied (createObjectChange account) = Some account"
| "dirtied (resetObjectChange prev prevdestruct) = None"
| "dirtied (suicideChange account prev prevbalance) = Some account"
| "dirtied (balanceChange account prev) = Some account"
| "dirtied (nonceChange account prev) = Some account"
| "dirtied (storageChange account key prevalue) = Some account"
| "dirtied (codeChange account prevcode prevhash) = Some account"
| "dirtied (refundChange prev) = None"
| "dirtied (addLogChange txhash) = None"
| "dirtied (addPreimageChange hash) = None"
| "dirtied (touchChange account) = Some account"
| "dirtied (accessListAddAccountChange address) = None"
| "dirtied (accessListAddSlotChange address slot) = None"

definition dirties_inc :: "(address \<rightharpoonup> int) \<Rightarrow> address \<Rightarrow> (address \<rightharpoonup> int)" where
  "dirties_inc d a = d(a \<mapsto> (case d a of None \<Rightarrow> 0 | Some n \<Rightarrow> n) + 1)"

definition dirties_dec :: "(address \<rightharpoonup> int) \<Rightarrow> address \<Rightarrow> (address \<rightharpoonup> int)" where
  "dirties_dec d a =
     (let n = (case d a of None \<Rightarrow> 0 | Some n \<Rightarrow> n) - 1 in if n = 0 then d(a := None) else d(a \<mapsto> n))"

definition journal_append :: "'t journal \<Rightarrow> 't journalEntry \<Rightarrow> 't journal" where
  "journal_append j entry =
     j\<lparr>j_entries := j_entries j @ [entry],
       j_dirties := (case dirtied entry of None \<Rightarrow> j_dirties j | Some addr \<Rightarrow> dirties_inc (j_dirties j) addr)\<rparr>"

definition journal_dirty :: "'t journal \<Rightarrow> address \<Rightarrow> 't journal" where
  "journal_dirty j addr = j\<lparr>j_dirties := dirties_inc (j_dirties j) addr\<rparr>"

definition jappend :: "'t journalEntry \<Rightarrow> ('t, 's) StateDB \<Rightarrow> ('t, 's) StateDB" where
  "jappend entry s = s\<lparr>sd_journal := journal_append (sd_journal s) entry\<rparr>"

section \<open>Objects\<close>

definition sd_setError :: "('t, 's) StateDB \<Rightarrow> state_error \<Rightarrow> ('t, 's) StateDB" where
  "sd_setError s err = (if sd_dbErr s = None then s\<lparr>sd_dbErr := Some err\<rparr> else s)"

definition setStateObject :: "('t, 's) StateDB \<Rightarrow> 't stateObject \<Rightarrow> ('t, 's) StateDB" where
  "setStateObject s obj = s\<lparr>sd_stateObjects := (sd_stateObjects s)(so_address obj \<mapsto> obj)\<rparr>"

text \<open>\<open>rlp.DecodeBytes\<close> into an \<open>Account\<close>, whose fields are a uint64, a big integer, a 32-byte array and bytes.\<close>

definition decode_Account :: "bytes \<Rightarrow> Account option" where
  "decode_Account enc =
     (case DecodeBytes new_Stream (4 * length enc + 4) (TStruct [TUint 64, TBigInt, TArray 32, TBytes]) enc of
        Some (Inr (VList [VUint nonce, VBigInt balance, VArray root, VBytes codeHash])) \<Rightarrow>
          Some \<lparr>Nonce = nonce, Balance = balance, Root = BytesToHash root, CodeHash = Some codeHash\<rparr>
      | _ \<Rightarrow> None)"

definition slim_Account :: "('t, 's) backend \<Rightarrow> snapAccount \<Rightarrow> Account" where
  "slim_Account env acc =
     \<lparr>Nonce = sa_Nonce acc, Balance = sa_Balance acc,
      Root = (if BytesToHash (sa_Root acc) = 0 then emptyRoot else BytesToHash (sa_Root acc)),
      CodeHash = Some (if length (sa_CodeHash acc) = 0 then emptyCodeHash env else sa_CodeHash acc)\<rparr>"

text \<open>The account of an address as the snapshot or the trie has it, with the error to remember.\<close>

definition load_Account :: "('t, 's) backend \<Rightarrow> 's option \<Rightarrow> 't \<Rightarrow> address \<Rightarrow> Account option \<times> state_error option" where
  "load_Account env snap tr addr =
     (let from_trie =
            (case be_TryGet env tr (addr_Bytes addr) of
               Inl err \<Rightarrow> (None, Some (AccountError err))
             | Inr enc \<Rightarrow> if length enc = 0 then (None, None) else (decode_Account enc, None))
      in case snap of
           None \<Rightarrow> from_trie
         | Some sn \<Rightarrow>
             (case be_Account env sn (be_Keccak256 env (addr_Bytes addr)) of
                Inl _ \<Rightarrow> from_trie
              | Inr None \<Rightarrow> (None, None)
              | Inr (Some acc) \<Rightarrow> (Some (slim_Account env acc), None)))"

definition getDeletedStateObject ::
  "('t, 's) backend \<Rightarrow> ('t, 's) StateDB \<Rightarrow> address \<Rightarrow> ('t, 's) StateDB \<times> 't stateObject option" where
  "getDeletedStateObject env s addr =
     (case sd_stateObjects s addr of
        Some obj \<Rightarrow> (s, Some obj)
      | None \<Rightarrow>
          (case load_Account env (sd_snap s) (sd_trie s) addr of
             (None, None) \<Rightarrow> (s, None)
           | (None, Some err) \<Rightarrow> (sd_setError s err, None)
           | (Some data, _) \<Rightarrow>
               let obj = newObject env addr data in (setStateObject s obj, Some obj)))"

definition getStateObject ::
  "('t, 's) backend \<Rightarrow> ('t, 's) StateDB \<Rightarrow> address \<Rightarrow> ('t, 's) StateDB \<times> 't stateObject option" where
  "getStateObject env s addr =
     (case getDeletedStateObject env s addr of
        (s, Some obj) \<Rightarrow> (s, if \<not> so_deleted obj then Some obj else None)
      | (s, None) \<Rightarrow> (s, None))"

text \<open>\<open>createObject\<close> returns the database, the new object and the previous one unless that was deleted.\<close>

definition createObject ::
  "('t, 's) backend \<Rightarrow> ('t, 's) StateDB \<Rightarrow> address \<Rightarrow> ('t, 's) StateDB \<times> 't stateObject \<times> 't stateObject option" where
  "createObject env s addr =
     (case getDeletedStateObject env s addr of (s, prev) \<Rightarrow>
        let newobj = so_setNonce (newObject env addr \<lparr>Nonce = 0, Balance = 0, Root = 0, CodeHash = None\<rparr>) 0
        in (case prev of
              None \<Rightarrow> (setStateObject (jappend (createObjectChange addr) s) newobj, newobj, None)
            | Some p \<Rightarrow>
                let prevdestruct = (sd_snap s \<noteq> None \<and> so_addrHash p \<in> sd_snapDestructs s);
                    s = (if sd_snap s \<noteq> None \<and> \<not> prevdestruct
                         then s\<lparr>sd_snapDestructs := insert (so_addrHash p) (sd_snapDestructs s)\<rparr> else s)
                in (setStateObject (jappend (resetObjectChange p prevdestruct) s) newobj, newobj,
                    if \<not> so_deleted p then Some p else None)))"

definition GetOrNewStateObject ::
  "('t, 's) backend \<Rightarrow> ('t, 's) StateDB \<Rightarrow> address \<Rightarrow> ('t, 's) StateDB \<times> 't stateObject" where
  "GetOrNewStateObject env s addr =
     (case getStateObject env s addr of
        (s, Some obj) \<Rightarrow> (s, obj)
      | (s, None) \<Rightarrow> (case createObject env s addr of (s, obj, _) \<Rightarrow> (s, obj)))"

definition CreateAccount :: "('t, 's) backend \<Rightarrow> ('t, 's) StateDB \<Rightarrow> address \<Rightarrow> ('t, 's) StateDB" where
  "CreateAccount env s addr =
     (case createObject env s addr of
        (s, newObj, Some prev) \<Rightarrow> setStateObject s (so_setBalance newObj (Balance (so_data prev)))
      | (s, newObj, None) \<Rightarrow> s)"

section \<open>Reading\<close>

definition destructed :: "('t, 's) StateDB \<Rightarrow> 't stateObject \<Rightarrow> bool" where
  "destructed s obj \<longleftrightarrow> so_addrHash obj \<in> sd_snapDestructs s"

text \<open>A method of the object at an address that may fill its caches.\<close>

definition read_object ::
  "('t, 's) backend \<Rightarrow> ('t, 's) StateDB \<Rightarrow> address \<Rightarrow> 'a \<Rightarrow> (('t, 's) StateDB \<Rightarrow> 't stateObject \<Rightarrow> 't stateObject \<times> 'a)
     \<Rightarrow> ('t, 's) StateDB \<times> 'a" where
  "read_object env s addr dflt f =
     (case getStateObject env s addr of
        (s, Some obj) \<Rightarrow> (case f s obj of (obj, x) \<Rightarrow> (setStateObject s obj, x))
      | (s, None) \<Rightarrow> (s, dflt))"

definition Exist :: "('t, 's) backend \<Rightarrow> ('t, 's) StateDB \<Rightarrow> address \<Rightarrow> ('t, 's) StateDB \<times> bool" where
  "Exist env s addr = (case getStateObject env s addr of (s, obj) \<Rightarrow> (s, obj \<noteq> None))"

definition Empty :: "('t, 's) backend \<Rightarrow> ('t, 's) StateDB \<Rightarrow> address \<Rightarrow> ('t, 's) StateDB \<times> bool" where
  "Empty env s addr =
     (case getStateObject env s addr of (s, None) \<Rightarrow> (s, True) | (s, Some so) \<Rightarrow> (s, so_empty env so))"

definition GetBalance :: "('t, 's) backend \<Rightarrow> ('t, 's) StateDB \<Rightarrow> address \<Rightarrow> ('t, 's) StateDB \<times> int" where
  "GetBalance env s addr =
     (case getStateObject env s addr of (s, Some obj) \<Rightarrow> (s, Balance (so_data obj)) | (s, None) \<Rightarrow> (s, 0))"

definition GetNonce :: "('t, 's) backend \<Rightarrow> ('t, 's) StateDB \<Rightarrow> address \<Rightarrow> ('t, 's) StateDB \<times> uint64" where
  "GetNonce env s addr =
     (case getStateObject env s addr of (s, Some obj) \<Rightarrow> (s, Nonce (so_data obj)) | (s, None) \<Rightarrow> (s, 0))"

definition GetCode :: "('t, 's) backend \<Rightarrow> ('t, 's) StateDB \<Rightarrow> address \<Rightarrow> ('t, 's) StateDB \<times> bytes option" where
  "GetCode env s addr = read_object env s addr None (\<lambda>s. so_Code env)"

definition GetCodeSize :: "('t, 's) backend \<Rightarrow> ('t, 's) StateDB \<Rightarrow> address \<Rightarrow> ('t, 's) StateDB \<times> int" where
  "GetCodeSize env s addr = read_object env s addr 0 (\<lambda>s. so_CodeSize env)"

definition GetCodeHash :: "('t, 's) backend \<Rightarrow> ('t, 's) StateDB \<Rightarrow> address \<Rightarrow> ('t, 's) StateDB \<times> hash" where
  "GetCodeHash env s addr =
     (case getStateObject env s addr of (s, None) \<Rightarrow> (s, 0) | (s, Some obj) \<Rightarrow> (s, BytesToHash (so_CodeHash obj)))"

definition GetState :: "('t, 's) backend \<Rightarrow> ('t, 's) StateDB \<Rightarrow> address \<Rightarrow> hash \<Rightarrow> ('t, 's) StateDB \<times> hash" where
  "GetState env s addr key =
     read_object env s addr 0 (\<lambda>s obj. so_GetState env (sd_snap s) (destructed s obj) obj key)"

definition GetCommittedState :: "('t, 's) backend \<Rightarrow> ('t, 's) StateDB \<Rightarrow> address \<Rightarrow> hash \<Rightarrow> ('t, 's) StateDB \<times> hash" where
  "GetCommittedState env s addr key =
     read_object env s addr 0 (\<lambda>s obj. so_GetCommittedState env (sd_snap s) (destructed s obj) obj key)"

definition HasSuicided :: "('t, 's) backend \<Rightarrow> ('t, 's) StateDB \<Rightarrow> address \<Rightarrow> ('t, 's) StateDB \<times> bool" where
  "HasSuicided env s addr =
     (case getStateObject env s addr of (s, Some obj) \<Rightarrow> (s, so_suicided obj) | (s, None) \<Rightarrow> (s, False))"

definition GetRefund :: "('t, 's) StateDB \<Rightarrow> uint64" where
  "GetRefund s = sd_refund s"

definition GetLogs :: "('t, 's) StateDB \<Rightarrow> hash \<Rightarrow> Log list" where
  "GetLogs s h = (case sd_logs s h of None \<Rightarrow> [] | Some l \<Rightarrow> l)"

definition AddressInAccessList :: "('t, 's) StateDB \<Rightarrow> address \<Rightarrow> bool" where
  "AddressInAccessList s addr = ContainsAddress (sd_accessList s) addr"

definition SlotInAccessList :: "('t, 's) StateDB \<Rightarrow> address \<Rightarrow> hash \<Rightarrow> (bool \<times> bool) option" where
  "SlotInAccessList s addr slot = Contains (sd_accessList s) addr slot"

section \<open>Writing\<close>

definition ripemd :: address where
  "ripemd = 3"

definition touch :: "('t, 's) StateDB \<Rightarrow> 't stateObject \<Rightarrow> ('t, 's) StateDB" where
  "touch s obj =
     (let s = jappend (touchChange (so_address obj)) s
      in if so_address obj = ripemd then s\<lparr>sd_journal := journal_dirty (sd_journal s) (so_address obj)\<rparr> else s)"

definition so_SetBalance :: "('t, 's) StateDB \<Rightarrow> 't stateObject \<Rightarrow> int \<Rightarrow> ('t, 's) StateDB" where
  "so_SetBalance s obj amount =
     setStateObject (jappend (balanceChange (so_address obj) (Balance (so_data obj))) s) (so_setBalance obj amount)"

definition so_AddBalance :: "('t, 's) backend \<Rightarrow> ('t, 's) StateDB \<Rightarrow> 't stateObject \<Rightarrow> int \<Rightarrow> ('t, 's) StateDB" where
  "so_AddBalance env s obj amount =
     (if amount = 0 then (if so_empty env obj then touch s obj else s)
      else so_SetBalance s obj (Balance (so_data obj) + amount))"

definition so_SubBalance :: "('t, 's) StateDB \<Rightarrow> 't stateObject \<Rightarrow> int \<Rightarrow> ('t, 's) StateDB" where
  "so_SubBalance s obj amount =
     (if amount = 0 then s else so_SetBalance s obj (Balance (so_data obj) - amount))"

definition so_SetNonce :: "('t, 's) StateDB \<Rightarrow> 't stateObject \<Rightarrow> uint64 \<Rightarrow> ('t, 's) StateDB" where
  "so_SetNonce s obj nonce =
     setStateObject (jappend (nonceChange (so_address obj) (Nonce (so_data obj))) s) (so_setNonce obj nonce)"

definition so_SetCode ::
  "('t, 's) backend \<Rightarrow> ('t, 's) StateDB \<Rightarrow> 't stateObject \<Rightarrow> hash \<Rightarrow> bytes option \<Rightarrow> ('t, 's) StateDB" where
  "so_SetCode env s obj codeHash code =
     (case so_Code env obj of (obj, prevcode) \<Rightarrow>
        setStateObject (jappend (codeChange (so_address obj) prevcode (so_CodeHash obj)) s) (so_setCode obj codeHash code))"

definition so_SetState ::
  "('t, 's) backend \<Rightarrow> ('t, 's) StateDB \<Rightarrow> 't stateObject \<Rightarrow> hash \<Rightarrow> hash \<Rightarrow> ('t, 's) StateDB" where
  "so_SetState env s obj key value =
     (case so_fakeStorage obj of
        Some fake \<Rightarrow> setStateObject s (obj\<lparr>so_fakeStorage := Some (fake(key \<mapsto> value))\<rparr>)
      | None \<Rightarrow>
          (case so_GetState env (sd_snap s) (destructed s obj) obj key of (obj, prev) \<Rightarrow>
             if prev = value then setStateObject s obj
             else setStateObject (jappend (storageChange (so_address obj) key prev) s) (so_setState obj key value)))"

definition AddBalance :: "('t, 's) backend \<Rightarrow> ('t, 's) StateDB \<Rightarrow> address \<Rightarrow> int \<Rightarrow> ('t, 's) StateDB" where
  "AddBalance env s addr amount =
     (case GetOrNewStateObject env s addr of (s, obj) \<Rightarrow> so_AddBalance env s obj amount)"

definition SubBalance :: "('t, 's) backend \<Rightarrow> ('t, 's) StateDB \<Rightarrow> address \<Rightarrow> int \<Rightarrow> ('t, 's) StateDB" where
  "SubBalance env s addr amount =
     (case GetOrNewStateObject env s addr of (s, obj) \<Rightarrow> so_SubBalance s obj amount)"

definition SetBalance :: "('t, 's) backend \<Rightarrow> ('t, 's) StateDB \<Rightarrow> address \<Rightarrow> int \<Rightarrow> ('t, 's) StateDB" where
  "SetBalance env s addr amount =
     (case GetOrNewStateObject env s addr of (s, obj) \<Rightarrow> so_SetBalance s obj amount)"

definition SetNonce :: "('t, 's) backend \<Rightarrow> ('t, 's) StateDB \<Rightarrow> address \<Rightarrow> uint64 \<Rightarrow> ('t, 's) StateDB" where
  "SetNonce env s addr nonce =
     (case GetOrNewStateObject env s addr of (s, obj) \<Rightarrow> so_SetNonce s obj nonce)"

text \<open>Code is a list of bytes here: \<open>nil\<close> code is stored as empty code. Readers of code use its bytes and its length only.\<close>

definition SetCode :: "('t, 's) backend \<Rightarrow> ('t, 's) StateDB \<Rightarrow> address \<Rightarrow> bytes \<Rightarrow> ('t, 's) StateDB" where
  "SetCode env s addr code =
     (case GetOrNewStateObject env s addr of (s, obj) \<Rightarrow> so_SetCode env s obj (be_Keccak256 env code) (Some code))"

definition SetState :: "('t, 's) backend \<Rightarrow> ('t, 's) StateDB \<Rightarrow> address \<Rightarrow> hash \<Rightarrow> hash \<Rightarrow> ('t, 's) StateDB" where
  "SetState env s addr key value =
     (case GetOrNewStateObject env s addr of (s, obj) \<Rightarrow> so_SetState env s obj key value)"

definition SetStorage :: "('t, 's) backend \<Rightarrow> ('t, 's) StateDB \<Rightarrow> address \<Rightarrow> Storage \<Rightarrow> ('t, 's) StateDB" where
  "SetStorage env s addr storage =
     (case GetOrNewStateObject env s addr of (s, obj) \<Rightarrow> setStateObject s (so_SetStorage obj storage))"

definition Suicide :: "('t, 's) backend \<Rightarrow> ('t, 's) StateDB \<Rightarrow> address \<Rightarrow> ('t, 's) StateDB \<times> bool" where
  "Suicide env s addr =
     (case getStateObject env s addr of
        (s, None) \<Rightarrow> (s, False)
      | (s, Some obj) \<Rightarrow>
          (setStateObject (jappend (suicideChange addr (so_suicided obj) (Balance (so_data obj))) s)
             (so_setBalance (obj\<lparr>so_suicided := True\<rparr>) 0), True))"

definition AddLog :: "('t, 's) StateDB \<Rightarrow> Log \<Rightarrow> ('t, 's) StateDB" where
  "AddLog s log =
     (let s = jappend (addLogChange (sd_thash s)) s;
          log = log\<lparr>lg_TxHash := sd_thash s, lg_BlockHash := sd_bhash s, lg_TxIndex := of_int (sd_txIndex s),
                    lg_Index := sd_logSize s\<rparr>
      in s\<lparr>sd_logs := (sd_logs s)(sd_thash s \<mapsto> GetLogs s (sd_thash s) @ [log]), sd_logSize := sd_logSize s + 1\<rparr>)"

definition AddPreimage :: "('t, 's) StateDB \<Rightarrow> hash \<Rightarrow> bytes \<Rightarrow> ('t, 's) StateDB" where
  "AddPreimage s h preimage =
     (if sd_preimages s h = None
      then (jappend (addPreimageChange h) s)\<lparr>sd_preimages := (sd_preimages s)(h \<mapsto> preimage)\<rparr> else s)"

definition AddRefund :: "('t, 's) StateDB \<Rightarrow> uint64 \<Rightarrow> ('t, 's) StateDB" where
  "AddRefund s gas = (jappend (refundChange (sd_refund s)) s)\<lparr>sd_refund := sd_refund s + gas\<rparr>"

definition SubRefund :: "('t, 's) StateDB \<Rightarrow> uint64 \<Rightarrow> ('t, 's) StateDB option" where
  "SubRefund s gas =
     (if gas > sd_refund s then None
      else Some ((jappend (refundChange (sd_refund s)) s)\<lparr>sd_refund := sd_refund s - gas\<rparr>))"

definition AddAddressToAccessList :: "('t, 's) StateDB \<Rightarrow> address \<Rightarrow> ('t, 's) StateDB" where
  "AddAddressToAccessList s addr =
     (case AddAddress (sd_accessList s) addr of (al, added) \<Rightarrow>
        let s = s\<lparr>sd_accessList := al\<rparr> in if added then jappend (accessListAddAccountChange addr) s else s)"

definition AddSlotToAccessList :: "('t, 's) StateDB \<Rightarrow> address \<Rightarrow> hash \<Rightarrow> ('t, 's) StateDB option" where
  "AddSlotToAccessList s addr slot =
     (case AddSlot (sd_accessList s) addr slot of
        None \<Rightarrow> None
      | Some (al, addrMod, slotMod) \<Rightarrow>
          let s = s\<lparr>sd_accessList := al\<rparr>;
              s = (if addrMod then jappend (accessListAddAccountChange addr) s else s)
          in Some (if slotMod then jappend (accessListAddSlotChange addr slot) s else s))"

section \<open>Snapshots\<close>

text \<open>\<open>revert\<close> of each journal entry; a nil object is dereferenced in four of them.\<close>

definition with_object ::
  "('t, 's) backend \<Rightarrow> ('t, 's) StateDB \<Rightarrow> address \<Rightarrow> ('t stateObject \<Rightarrow> 't stateObject) \<Rightarrow> ('t, 's) StateDB option" where
  "with_object env s addr f =
     (case getStateObject env s addr of
        (s, None) \<Rightarrow> None
      | (s, Some obj) \<Rightarrow> Some (setStateObject s (f obj)))"

fun revert_entry :: "('t, 's) backend \<Rightarrow> 't journalEntry \<Rightarrow> ('t, 's) StateDB \<Rightarrow> ('t, 's) StateDB option" where
  "revert_entry env (createObjectChange account) s =
     Some (s\<lparr>sd_stateObjects := (sd_stateObjects s)(account := None),
             sd_stateObjectsDirty := sd_stateObjectsDirty s - {account}\<rparr>)"
| "revert_entry env (resetObjectChange prev prevdestruct) s =
     (let s = setStateObject s prev
      in Some (if \<not> prevdestruct \<and> sd_snap s \<noteq> None
               then s\<lparr>sd_snapDestructs := sd_snapDestructs s - {so_addrHash prev}\<rparr> else s))"
| "revert_entry env (suicideChange account prev prevbalance) s =
     (case getStateObject env s account of
        (s, None) \<Rightarrow> Some s
      | (s, Some obj) \<Rightarrow> Some (setStateObject s (so_setBalance (obj\<lparr>so_suicided := prev\<rparr>) prevbalance)))"
| "revert_entry env (touchChange account) s = Some s"
| "revert_entry env (balanceChange account prev) s = with_object env s account (\<lambda>obj. so_setBalance obj prev)"
| "revert_entry env (nonceChange account prev) s = with_object env s account (\<lambda>obj. so_setNonce obj prev)"
| "revert_entry env (codeChange account prevcode prevhash) s =
     with_object env s account (\<lambda>obj. so_setCode obj (BytesToHash prevhash) prevcode)"
| "revert_entry env (storageChange account key prevalue) s =
     with_object env s account (\<lambda>obj. so_setState obj key prevalue)"
| "revert_entry env (refundChange prev) s = Some (s\<lparr>sd_refund := prev\<rparr>)"
| "revert_entry env (addLogChange txhash) s =
     (let logs = GetLogs s txhash
      in if length logs = 0 then None
         else Some (s\<lparr>sd_logs := (if length logs = 1 then (sd_logs s)(txhash := None)
                                  else (sd_logs s)(txhash \<mapsto> butlast logs)),
                       sd_logSize := sd_logSize s - 1\<rparr>))"
| "revert_entry env (addPreimageChange h) s = Some (s\<lparr>sd_preimages := (sd_preimages s)(h := None)\<rparr>)"
| "revert_entry env (accessListAddAccountChange address) s =
     Some (s\<lparr>sd_accessList := DeleteAddress (sd_accessList s) address\<rparr>)"
| "revert_entry env (accessListAddSlotChange address slot) s =
     map_option (\<lambda>al. s\<lparr>sd_accessList := al\<rparr>) (DeleteSlot (sd_accessList s) address slot)"

definition drop_dirty :: "'t journalEntry \<Rightarrow> ('t, 's) StateDB \<Rightarrow> ('t, 's) StateDB" where
  "drop_dirty entry s =
     (case dirtied entry of
        None \<Rightarrow> s
      | Some addr \<Rightarrow> s\<lparr>sd_journal := (sd_journal s)\<lparr>j_dirties := dirties_dec (j_dirties (sd_journal s)) addr\<rparr>\<rparr>)"

text \<open>The loop of \<open>journal.revert\<close> over the entries to undo, newest first.\<close>

primrec revert_entries :: "('t, 's) backend \<Rightarrow> 't journalEntry list \<Rightarrow> ('t, 's) StateDB \<Rightarrow> ('t, 's) StateDB option" where
  "revert_entries env [] s = Some s"
| "revert_entries env (e # es) s =
     (case revert_entry env e s of None \<Rightarrow> None | Some s \<Rightarrow> revert_entries env es (drop_dirty e s))"

definition journal_revert :: "('t, 's) backend \<Rightarrow> ('t, 's) StateDB \<Rightarrow> nat \<Rightarrow> ('t, 's) StateDB option" where
  "journal_revert env s snapshot =
     map_option (\<lambda>s. s\<lparr>sd_journal := (sd_journal s)\<lparr>j_entries := take snapshot (j_entries (sd_journal s))\<rparr>\<rparr>)
       (revert_entries env (rev (drop snapshot (j_entries (sd_journal s)))) s)"

definition Snapshot :: "('t, 's) StateDB \<Rightarrow> ('t, 's) StateDB \<times> int" where
  "Snapshot s =
     (let id = sd_nextRevisionId s
      in (s\<lparr>sd_nextRevisionId := id + 1,
            sd_validRevisions := sd_validRevisions s @ [\<lparr>rv_id = id, rv_journalIndex = length (j_entries (sd_journal s))\<rparr>]\<rparr>,
          id))"

text \<open>\<open>sort.Search\<close>: binary search for the first index where the predicate holds.\<close>

function sort_Search_loop :: "(nat \<Rightarrow> bool) \<Rightarrow> nat \<Rightarrow> nat \<Rightarrow> nat" where
  "sort_Search_loop f i j =
     (if i < j then
        let h = (i + j) div 2 in if \<not> f h then sort_Search_loop f (h + 1) j else sort_Search_loop f i h
      else i)"
  by pat_completeness auto
termination
  by (relation "measure (\<lambda>(f, i, j). j - i)") auto

declare sort_Search_loop.simps [simp del]

definition sort_Search :: "nat \<Rightarrow> (nat \<Rightarrow> bool) \<Rightarrow> nat" where
  "sort_Search n f = sort_Search_loop f 0 n"

definition RevertToSnapshot :: "('t, 's) backend \<Rightarrow> ('t, 's) StateDB \<Rightarrow> int \<Rightarrow> ('t, 's) StateDB option" where
  "RevertToSnapshot env s revid =
     (let revs = sd_validRevisions s;
          idx = sort_Search (length revs) (\<lambda>i. rv_id (revs ! i) \<ge> revid)
      in if idx = length revs \<or> rv_id (revs ! idx) \<noteq> revid then None
         else map_option (\<lambda>s. s\<lparr>sd_validRevisions := take idx revs\<rparr>)
                (journal_revert env s (rv_journalIndex (revs ! idx))))"

section \<open>Transactions and blocks\<close>

definition clearJournalAndRefund :: "('t, 's) StateDB \<Rightarrow> ('t, 's) StateDB" where
  "clearJournalAndRefund s =
     (let s = (if length (j_entries (sd_journal s)) > 0 then s\<lparr>sd_journal := newJournal, sd_refund := 0\<rparr> else s)
      in s\<lparr>sd_validRevisions := []\<rparr>)"

definition Prepare :: "('t, 's) StateDB \<Rightarrow> hash \<Rightarrow> hash \<Rightarrow> int \<Rightarrow> ('t, 's) StateDB" where
  "Prepare s thash bhash ti =
     s\<lparr>sd_thash := thash, sd_bhash := bhash, sd_txIndex := ti, sd_accessList := newAccessList\<rparr>"

text \<open>What \<open>Finalise\<close> does to each address in \<open>journal.dirties\<close> does not depend on the others.\<close>

definition finalise_deletes :: "('t, 's) backend \<Rightarrow> bool \<Rightarrow> 't stateObject \<Rightarrow> bool" where
  "finalise_deletes env deleteEmptyObjects obj \<longleftrightarrow> so_suicided obj \<or> deleteEmptyObjects \<and> so_empty env obj"

definition finalise_object :: "('t, 's) backend \<Rightarrow> bool \<Rightarrow> 't stateObject \<Rightarrow> 't stateObject" where
  "finalise_object env deleteEmptyObjects obj =
     (if finalise_deletes env deleteEmptyObjects obj then obj\<lparr>so_deleted := True\<rparr> else so_finalise obj)"

definition Finalise :: "('t, 's) backend \<Rightarrow> ('t, 's) StateDB \<Rightarrow> bool \<Rightarrow> ('t, 's) StateDB" where
  "Finalise env s deleteEmptyObjects =
     (let live = {addr \<in> dom (j_dirties (sd_journal s)). sd_stateObjects s addr \<noteq> None};
          gone = {so_addrHash obj | obj addr. addr \<in> live \<and> sd_stateObjects s addr = Some obj \<and>
                    finalise_deletes env deleteEmptyObjects obj};
          s = s\<lparr>sd_stateObjects := (\<lambda>addr. if addr \<in> live
                   then map_option (finalise_object env deleteEmptyObjects) (sd_stateObjects s addr)
                   else sd_stateObjects s addr),
                sd_stateObjectsPending := sd_stateObjectsPending s \<union> live,
                sd_stateObjectsDirty := sd_stateObjectsDirty s \<union> live\<rparr>;
          s = (if sd_snap s \<noteq> None
               then s\<lparr>sd_snapDestructs := sd_snapDestructs s \<union> gone,
                      sd_snapAccounts := (\<lambda>h. if h \<in> gone then None else sd_snapAccounts s h),
                      sd_snapStorage := (\<lambda>h. if h \<in> gone then None else sd_snapStorage s h)\<rparr>
               else s)
      in clearJournalAndRefund s)"

definition New :: "('t, 's) backend \<Rightarrow> hash \<Rightarrow> db_error + ('t, 's) StateDB" where
  "New env root =
     (case be_OpenTrie env root of
        Inl err \<Rightarrow> Inl err
      | Inr tr \<Rightarrow>
          Inr \<lparr>sd_trie = tr, sd_snap = be_Snapshot env root, sd_snapDestructs = {}, sd_snapAccounts = Map.empty,
               sd_snapStorage = Map.empty, sd_stateObjects = Map.empty, sd_stateObjectsPending = {},
               sd_stateObjectsDirty = {}, sd_dbErr = None, sd_refund = 0, sd_thash = 0, sd_bhash = 0, sd_txIndex = 0,
               sd_logs = Map.empty, sd_logSize = 0, sd_preimages = Map.empty, sd_accessList = newAccessList,
               sd_journal = newJournal, sd_validRevisions = [], sd_nextRevisionId = 0\<rparr>)"

definition StateDB_Reset :: "('t, 's) backend \<Rightarrow> ('t, 's) StateDB \<Rightarrow> hash \<Rightarrow> db_error + ('t, 's) StateDB" where
  "StateDB_Reset env s root =
     (case be_OpenTrie env root of
        Inl err \<Rightarrow> Inl err
      | Inr tr \<Rightarrow>
          Inr ((clearJournalAndRefund
            (s\<lparr>sd_trie := tr, sd_stateObjects := Map.empty, sd_stateObjectsPending := {}, sd_stateObjectsDirty := {},
               sd_thash := 0, sd_bhash := 0, sd_txIndex := 0, sd_logs := Map.empty, sd_logSize := 0,
               sd_preimages := Map.empty\<rparr>))
            \<lparr>sd_snap := be_Snapshot env root, sd_snapDestructs := {}, sd_snapAccounts := Map.empty,
             sd_snapStorage := Map.empty, sd_accessList := newAccessList\<rparr>))"

end
