(* ===== verification/EvmAnalysis.thy ===== *)
theory EvmAnalysis
  imports Prelude
begin

text \<open>
  Analysis of contract code (\<open>core/vm/analysis.go\<close>): the bit vector of the positions that are data of a PUSH
  instruction. It is shown to mark exactly those positions, without writing outside the vector.
\<close>

section \<open>Model\<close>

type_synonym bitvec = bytes

abbreviation PUSH1 :: byte where "PUSH1 \<equiv> 0x60"
abbreviation PUSH32 :: byte where "PUSH32 \<equiv> 0x7f"

text \<open>An index out of range is a run-time panic: \<open>None\<close>.\<close>

definition or_byte :: "bitvec \<Rightarrow> nat \<Rightarrow> byte \<Rightarrow> bitvec option" where
  "or_byte bits i b = (if i < length bits then Some (bits[i := bits ! i OR b]) else None)"

definition bits_set :: "bitvec \<Rightarrow> nat \<Rightarrow> bitvec option" where
  "bits_set bits pos = or_byte bits (pos div 8) (drop_bit (pos mod 8) 0x80)"

definition bits_set8 :: "bitvec \<Rightarrow> nat \<Rightarrow> bitvec option" where
  "bits_set8 bits pos =
     (case or_byte bits (pos div 8) (drop_bit (pos mod 8) 0xFF) of
        None \<Rightarrow> None
      | Some bits \<Rightarrow> or_byte bits (pos div 8 + 1) (NOT (drop_bit (pos mod 8) 0xFF)))"

definition codeSegment :: "bitvec \<Rightarrow> nat \<Rightarrow> bool option" where
  "codeSegment bits pos =
     (if pos div 8 < length bits then Some (bits ! (pos div 8) AND drop_bit (pos mod 8) 0x80 = 0) else None)"

text \<open>The two inner loops: eight bits at a time, then one by one.\<close>

fun mark_push :: "bitvec \<Rightarrow> nat \<Rightarrow> nat \<Rightarrow> (bitvec \<times> nat) option" where
  "mark_push bits pc numbits =
     (if numbits \<ge> 8 then
        (case bits_set8 bits pc of None \<Rightarrow> None | Some bits \<Rightarrow> mark_push bits (pc + 8) (numbits - 8))
      else if numbits > 0 then
        (case bits_set bits pc of None \<Rightarrow> None | Some bits \<Rightarrow> mark_push bits (pc + 1) (numbits - 1))
      else Some (bits, pc))"

declare mark_push.simps [simp del]

text \<open>The loop over the code. The recursion in the code ends because \<open>pc\<close> grows; the test repeats that for the model.\<close>

function codeBitmap_loop :: "bytes \<Rightarrow> bitvec \<Rightarrow> nat \<Rightarrow> bitvec option" where
  "codeBitmap_loop code bits pc =
     (if pc < length code then
        let op = code ! pc
        in if op \<ge> PUSH1 \<and> op \<le> PUSH32 then
             (case mark_push bits (pc + 1) (unat (op - PUSH1) + 1) of
                None \<Rightarrow> None
              | Some (bits, pc') \<Rightarrow> if pc < pc' then codeBitmap_loop code bits pc' else None)
           else codeBitmap_loop code bits (pc + 1)
      else Some bits)"
  by pat_completeness auto
termination
  by (relation "measure (\<lambda>(code, bits, pc). length code - pc)") auto

declare codeBitmap_loop.simps [simp del]

definition codeBitmap :: "bytes \<Rightarrow> bitvec option" where
  "codeBitmap code = codeBitmap_loop code (replicate (length code div 8 + 1 + 4) 0) 0"

section \<open>Which positions are data\<close>

text \<open>
  Reading the code from position \<open>pc\<close>, the positions that are data of a PUSH instruction. Positions past the
  end of the code are included when the last PUSH is cut off.
\<close>

definition push_len :: "byte \<Rightarrow> nat" where
  "push_len op = (if op \<ge> PUSH1 \<and> op \<le> PUSH32 then unat op - 0x5f else 0)"

function push_data :: "bytes \<Rightarrow> nat \<Rightarrow> nat set" where
  "push_data code pc =
     (if pc < length code
      then {pc + 1 ..< pc + 1 + push_len (code ! pc)} \<union> push_data code (pc + 1 + push_len (code ! pc))
      else {})"
  by pat_completeness auto
termination
  by (relation "measure (\<lambda>(code, pc). length code - pc)") auto

declare push_data.simps [simp del]

definition marked :: "bitvec \<Rightarrow> nat \<Rightarrow> bool" where
  "marked bits pos \<longleftrightarrow> pos div 8 < length bits \<and> bit (bits ! (pos div 8)) (7 - pos mod 8)"

lemma bit_0x80: "i < 8 \<Longrightarrow> bit (drop_bit i (0x80 :: byte)) j \<longleftrightarrow> j = 7 - i"
proof -
  assume i: "i < 8"
  have *: "(0x80 :: byte) = push_bit 7 1" by simp
  show ?thesis unfolding * using i by (auto simp: bit_drop_bit_eq bit_push_bit_iff simp del: push_bit_of_1)
qed

lemma bit_0xFF: "bit (drop_bit i (0xFF :: byte)) j \<longleftrightarrow> i + j < 8"
proof -
  have *: "(0xFF :: byte) = mask 8" by (simp add: mask_eq_exp_minus_1)
  show ?thesis unfolding * by (auto simp: bit_simps)
qed

lemma codeSegment_marked: "codeSegment bits pos = (if pos div 8 < length bits then Some (\<not> marked bits pos) else None)"
proof -
  have "(b AND drop_bit (pos mod 8) 0x80 = 0) = (\<not> bit b (7 - pos mod 8))" for b :: byte
  proof
    assume "b AND drop_bit (pos mod 8) 0x80 = 0"
    then have "\<not> bit (b AND drop_bit (pos mod 8) 0x80) (7 - pos mod 8)" by simp
    then show "\<not> bit b (7 - pos mod 8)" by (simp add: bit_and_iff bit_0x80)
  next
    assume "\<not> bit b (7 - pos mod 8)"
    then show "b AND drop_bit (pos mod 8) 0x80 = 0" by (intro bit_eqI) (auto simp: bit_and_iff bit_0x80)
  qed
  then show ?thesis by (simp add: codeSegment_def marked_def)
qed

lemma or_byte_marked:
  assumes "i < length bits"
  shows "\<exists>bits'. or_byte bits i b = Some bits' \<and> length bits' = length bits \<and>
    (\<forall>pos. marked bits' pos \<longleftrightarrow> marked bits pos \<or> pos div 8 = i \<and> bit b (7 - pos mod 8))"
  using assms by (auto simp: or_byte_def marked_def bit_or_iff nth_list_update)

lemma bits_set_marked:
  assumes "pos div 8 < length bits"
  shows "\<exists>bits'. bits_set bits pos = Some bits' \<and> length bits' = length bits \<and>
    (\<forall>p. marked bits' p \<longleftrightarrow> marked bits p \<or> p = pos)"
proof -
  have "(p div 8 = pos div 8 \<and> 7 - p mod 8 = 7 - pos mod 8) \<longleftrightarrow> p = pos" for p
  proof -
    have "p mod 8 < 8" "pos mod 8 < 8" by simp_all
    then have "7 - p mod 8 = 7 - pos mod 8 \<longleftrightarrow> p mod 8 = pos mod 8" by linarith
    then show ?thesis by (metis div_mult_mod_eq)
  qed
  then show ?thesis
    using or_byte_marked [OF assms, of "drop_bit (pos mod 8) 0x80"] by (simp add: bits_set_def bit_0x80)
qed

lemma eight_positions:
  "(p :: nat) \<in> {pos ..< pos + 8} \<longleftrightarrow> (p div 8 = pos div 8 \<and> pos mod 8 + (7 - p mod 8) < 8) \<or>
     (p div 8 = pos div 8 + 1 \<and> \<not> pos mod 8 + (7 - p mod 8) < 8)"
proof -
  define a r b t where d: "a = p div 8" "r = p mod 8" "b = pos div 8" "t = pos mod 8"
  have eq: "p = 8 * a + r" "pos = 8 * b + t" and "r < 8" "t < 8" by (simp_all add: d)
  then consider "a < b" | "a = b" | "a = b + 1" | "b + 1 < a" by linarith
  then have "p \<in> {pos ..< pos + 8} \<longleftrightarrow> (a = b \<and> t + (7 - r) < 8) \<or> (a = b + 1 \<and> \<not> t + (7 - r) < 8)"
    using \<open>r < 8\<close> \<open>t < 8\<close> unfolding eq atLeastLessThan_iff by cases auto
  then show ?thesis unfolding d .
qed

lemma bits_set8_marked:
  assumes "pos div 8 + 1 < length bits"
  shows "\<exists>bits'. bits_set8 bits pos = Some bits' \<and> length bits' = length bits \<and>
    (\<forall>p. marked bits' p \<longleftrightarrow> marked bits p \<or> p \<in> {pos ..< pos + 8})"
proof -
  obtain b1 where b1: "or_byte bits (pos div 8) (drop_bit (pos mod 8) 0xFF) = Some b1" "length b1 = length bits"
      "\<And>p. marked b1 p \<longleftrightarrow> marked bits p \<or> p div 8 = pos div 8 \<and> pos mod 8 + (7 - p mod 8) < 8"
    using or_byte_marked [of "pos div 8" bits "drop_bit (pos mod 8) 0xFF"] assms by (auto simp: bit_0xFF)
  obtain b2 where b2: "or_byte b1 (pos div 8 + 1) (NOT (drop_bit (pos mod 8) 0xFF)) = Some b2" "length b2 = length b1"
      "\<And>p. marked b2 p \<longleftrightarrow> marked b1 p \<or> p div 8 = pos div 8 + 1 \<and> \<not> pos mod 8 + (7 - p mod 8) < 8"
    using or_byte_marked [of "pos div 8 + 1" b1 "NOT (drop_bit (pos mod 8) 0xFF)"] assms b1(2)
    by (auto simp: bit_not_iff bit_0xFF less_imp_diff_less)
  then show ?thesis using b1 by (simp add: bits_set8_def eight_positions del: atLeastLessThan_iff)
qed

lemma mark_push_marked:
  "(pc + numbits) div 8 < length bits \<Longrightarrow>
   \<exists>bits'. mark_push bits pc numbits = Some (bits', pc + numbits) \<and> length bits' = length bits \<and>
    (\<forall>p. marked bits' p \<longleftrightarrow> marked bits p \<or> p \<in> {pc ..< pc + numbits})"
proof (induction bits pc numbits rule: mark_push.induct)
  case (1 bits pc numbits)
  consider "numbits \<ge> 8" | "\<not> numbits \<ge> 8" "numbits > 0" | "numbits = 0" by linarith
  then show ?case
  proof cases
    case 1
    then have "pc div 8 + 1 < length bits" using "1.prems" div_le_mono [of "pc + 8" "pc + numbits" 8] by simp
    then obtain b1 where b1: "bits_set8 bits pc = Some b1" "length b1 = length bits"
        "\<And>p. marked b1 p \<longleftrightarrow> marked bits p \<or> p \<in> {pc ..< pc + 8}"
      using bits_set8_marked [of pc bits] by blast
    have "(pc + 8 + (numbits - 8)) div 8 < length b1" using "1.prems" 1 b1(2) by simp
    then obtain b2 where b2: "mark_push b1 (pc + 8) (numbits - 8) = Some (b2, pc + 8 + (numbits - 8))"
        "length b2 = length b1" "\<And>p. marked b2 p \<longleftrightarrow> marked b1 p \<or> p \<in> {pc + 8 ..< pc + 8 + (numbits - 8)}"
      using "1.IH"(1) [OF 1 b1(1)] by blast
    have "marked b2 p \<longleftrightarrow> marked bits p \<or> p \<in> {pc ..< pc + numbits}" for p
      unfolding b2(3) b1(3) using 1 by auto
    then show ?thesis using 1 b1(1,2) b2(1,2) by (simp add: mark_push.simps [of bits])
  next
    case 2
    have "pc div 8 < length bits" using "1.prems" by (meson div_le_mono le_add1 le_less_trans)
    then obtain b1 where b1: "bits_set bits pc = Some b1" "length b1 = length bits"
        "\<And>p. marked b1 p \<longleftrightarrow> marked bits p \<or> p = pc"
      using bits_set_marked [of pc bits] by blast
    have "(pc + 1 + (numbits - 1)) div 8 < length b1" using "1.prems" 2 b1(2) by simp
    then obtain b2 where b2: "mark_push b1 (pc + 1) (numbits - 1) = Some (b2, pc + 1 + (numbits - 1))"
        "length b2 = length b1" "\<And>p. marked b2 p \<longleftrightarrow> marked b1 p \<or> p \<in> {pc + 1 ..< pc + 1 + (numbits - 1)}"
      using "1.IH"(2) [OF 2 b1(1)] by blast
    have "marked b2 p \<longleftrightarrow> marked bits p \<or> p \<in> {pc ..< pc + numbits}" for p
      unfolding b2(3) b1(3) using 2 by auto
    then show ?thesis using 2 b1(1,2) b2(1,2) by (simp add: mark_push.simps [of bits])
  qed (simp add: mark_push.simps [of bits])
qed

lemma push_len_PUSH: "op \<ge> PUSH1 \<Longrightarrow> op \<le> PUSH32 \<Longrightarrow> unat (op - PUSH1) + 1 = push_len op"
proof -
  assume "op \<ge> PUSH1" "op \<le> PUSH32"
  moreover then have "unat (op - PUSH1) = unat op - 0x60" "unat op \<ge> 0x60"
    by (simp_all add: unat_sub word_le_nat_alt)
  ultimately show ?thesis by (simp add: push_len_def)
qed

lemma push_len_le: "push_len op \<le> 32"
  by (auto simp: push_len_def word_le_nat_alt)

lemma codeBitmap_loop_marked:
  "length bits = length code div 8 + 1 + 4 \<Longrightarrow>
   \<exists>bits'. codeBitmap_loop code bits pc = Some bits' \<and> length bits' = length bits \<and>
     (\<forall>p. marked bits' p \<longleftrightarrow> marked bits p \<or> p \<in> push_data code pc)"
proof (induction code pc arbitrary: bits rule: push_data.induct)
  case (1 code pc)
  let ?op = "code ! pc"
  show ?case
  proof (cases "pc < length code")
    case pc: True
    show ?thesis
    proof (cases "?op \<ge> PUSH1 \<and> ?op \<le> PUSH32")
      case True
      then have len: "unat (?op - PUSH1) + 1 = push_len ?op" using push_len_PUSH by blast
      have "(pc + 1 + push_len ?op) div 8 < length bits"
        using pc push_len_le [of ?op] "1.prems" by (simp only: "1.prems")
      then obtain b1 where b1: "mark_push bits (pc + 1) (push_len ?op) = Some (b1, pc + 1 + push_len ?op)"
          "length b1 = length bits"
          "\<And>p. marked b1 p \<longleftrightarrow> marked bits p \<or> p \<in> {pc + 1 ..< pc + 1 + push_len ?op}"
        using mark_push_marked by blast
      then obtain b2 where b2: "codeBitmap_loop code b1 (pc + 1 + push_len ?op) = Some b2" "length b2 = length b1"
          "\<And>p. marked b2 p \<longleftrightarrow> marked b1 p \<or> p \<in> push_data code (pc + 1 + push_len ?op)"
        using "1.IH" [OF pc, of b1] "1.prems" by auto
      have "codeBitmap_loop code bits pc = Some b2"
        unfolding codeBitmap_loop.simps [of code bits pc] Let_def len b1(1) using pc True b2(1) by simp
      moreover have "marked b2 p \<longleftrightarrow> marked bits p \<or> p \<in> push_data code pc" for p
        unfolding b2(3) b1(3) push_data.simps [of code pc] using pc by auto
      ultimately show ?thesis using b1(2) b2(2) by simp
    next
      case False
      then have "push_len ?op = 0" by (auto simp: push_len_def)
      then have "push_data code pc = push_data code (pc + 1)" "codeBitmap_loop code bits pc = codeBitmap_loop code bits (pc + 1)"
        using pc False by (auto simp: codeBitmap_loop.simps [of code bits pc] push_data.simps [of code pc] Let_def)
      with "1.IH" [OF pc, of bits] "1.prems" \<open>push_len ?op = 0\<close> show ?thesis by simp
    qed
  qed (simp add: codeBitmap_loop.simps [of code bits] push_data.simps [of code pc])
qed

lemma not_marked_zero: "\<not> marked (replicate n 0) p"
  by (simp add: marked_def)

text \<open>C40: analysing code never writes outside the bit vector, and afterwards a position of the code is a code
  segment exactly when it is not data of a PUSH instruction met when the code is read from its start.
\<close>

theorem codeBitmap_correct:
  "\<exists>bits. codeBitmap code = Some bits \<and>
     (\<forall>pos. pos < length code \<longrightarrow> codeSegment bits pos = Some (pos \<notin> push_data code 0))"
proof -
  obtain bits where b: "codeBitmap code = Some bits" "length bits = length code div 8 + 5"
      "\<And>p. marked bits p \<longleftrightarrow> p \<in> push_data code 0"
    using codeBitmap_loop_marked [of "replicate (length code div 8 + 1 + 4) 0" code 0]
    by (auto simp: codeBitmap_def not_marked_zero)
  then have "codeSegment bits pos = Some (pos \<notin> push_data code 0)" if "pos < length code" for pos
    unfolding codeSegment_marked using that div_le_mono [of pos "length code" 8] by simp
  with b show ?thesis by blast
qed

text \<open>Three PUSH2 bytes and a JUMPDEST: only the second byte after the PUSH2 is data.\<close>

theorem codeBitmap_correct_witness:
  "\<exists>bits. codeBitmap [0x61, 0x5b, 0x5b, 0x5b] = Some bits \<and>
     codeSegment bits 1 = Some False \<and> codeSegment bits 3 = Some True"
proof -
  let ?code = "[0x61, 0x5b, 0x5b, 0x5b] :: bytes"
  have 0: "push_data ?code 0 = {1 ..< 3} \<union> push_data ?code 3"
    by (simp add: push_data.simps [of ?code 0] push_len_def numeral_3_eq_3)
  have 3: "push_data ?code 3 = push_data ?code 4"
    by (simp add: push_data.simps [of ?code 3] push_len_def)
  have 4: "push_data ?code 4 = {}"
    by (simp add: push_data.simps [of ?code 4])
  obtain bits where "codeBitmap ?code = Some bits"
      "codeSegment bits 1 = Some (1 \<notin> push_data ?code 0)" "codeSegment bits 3 = Some (3 \<notin> push_data ?code 0)"
    using codeBitmap_correct [of ?code] by auto
  then show ?thesis unfolding 0 3 4 by simp
qed

end
