(* ===== verification/EvmBase.thy ===== *)
theory EvmBase
  imports StateDB EvmAnalysis
begin

text \<open>
  The data the virtual machine works on (\<open>core/vm\<close>): the operand stack (\<open>stack.go\<close>), the byte memory
  (\<open>memory.go\<close>), contracts (\<open>contract.go\<close>), errors (\<open>errors.go\<close>), memory sizes (\<open>common.go\<close>,
  \<open>memory_table.go\<close>), and the checked arithmetic of \<open>common/math\<close>.

  The package \<open>github.com/holiman/uint256\<close> is a parameter: the record \<open>uint256\<close> holds its methods, and
  \<open>uint256_ok\<close> what its documentation says of them. An \<open>Int\<close> is its value, a 256-bit word; the constants
  set by \<open>Clear\<close>, \<open>SetOne\<close> and \<open>SetAllOne\<close> are 0, 1 and -1.
\<close>

named_theorems evm_defs \<open>definitions unfolded by the proofs about single instructions\<close>

section \<open>The uint256 library\<close>

type_synonym u256 = "256 word"

datatype uint256_op2 = M_Add | M_Sub | M_Mul | M_Div | M_SDiv | M_Mod | M_SMod | M_Exp | M_ExtendSign | M_And | M_Or | M_Xor | M_Byte
datatype uint256_op3 = M_AddMod | M_MulMod
datatype uint256_shift = M_Lsh | M_Rsh | M_SRsh
datatype uint256_cmp = M_Lt | M_Gt | M_Slt | M_Sgt | M_Eq
datatype uint256_cmp64 = M_LtUint64 | M_GtUint64

record uint256 =
  u_op2 :: "uint256_op2 \<Rightarrow> u256 \<Rightarrow> u256 \<Rightarrow> u256"
  u_op3 :: "uint256_op3 \<Rightarrow> u256 \<Rightarrow> u256 \<Rightarrow> u256 \<Rightarrow> u256"
  u_shift :: "uint256_shift \<Rightarrow> u256 \<Rightarrow> uint64 \<Rightarrow> u256"
  u_cmp :: "uint256_cmp \<Rightarrow> u256 \<Rightarrow> u256 \<Rightarrow> bool"
  u_cmp64 :: "uint256_cmp64 \<Rightarrow> u256 \<Rightarrow> uint64 \<Rightarrow> bool"
  u_Not :: "u256 \<Rightarrow> u256"
  u_IsZero :: "u256 \<Rightarrow> bool"
  u_Sign :: "u256 \<Rightarrow> int"
  u_IsUint64 :: "u256 \<Rightarrow> bool"
  u_Uint64 :: "u256 \<Rightarrow> uint64"
  u_Uint64WithOverflow :: "u256 \<Rightarrow> uint64 \<times> bool"
  u_BitLen :: "u256 \<Rightarrow> int"
  u_Bytes20 :: "u256 \<Rightarrow> address"
  u_Bytes32 :: "u256 \<Rightarrow> hash"
  u_SetBytes :: "bytes \<Rightarrow> u256"
  u_SetUint64 :: "uint64 \<Rightarrow> u256"
  u_FromBig :: "int \<Rightarrow> u256"
  u_ToBig :: "u256 \<Rightarrow> int"
  u_WriteToSlice :: "u256 \<Rightarrow> bytes \<Rightarrow> bytes"

abbreviation u_Add :: "uint256 \<Rightarrow> u256 \<Rightarrow> u256 \<Rightarrow> u256" where "u_Add U \<equiv> u_op2 U M_Add"
abbreviation u_Sub :: "uint256 \<Rightarrow> u256 \<Rightarrow> u256 \<Rightarrow> u256" where "u_Sub U \<equiv> u_op2 U M_Sub"
abbreviation u_Mul :: "uint256 \<Rightarrow> u256 \<Rightarrow> u256 \<Rightarrow> u256" where "u_Mul U \<equiv> u_op2 U M_Mul"
abbreviation u_Div :: "uint256 \<Rightarrow> u256 \<Rightarrow> u256 \<Rightarrow> u256" where "u_Div U \<equiv> u_op2 U M_Div"
abbreviation u_SDiv :: "uint256 \<Rightarrow> u256 \<Rightarrow> u256 \<Rightarrow> u256" where "u_SDiv U \<equiv> u_op2 U M_SDiv"
abbreviation u_Mod :: "uint256 \<Rightarrow> u256 \<Rightarrow> u256 \<Rightarrow> u256" where "u_Mod U \<equiv> u_op2 U M_Mod"
abbreviation u_SMod :: "uint256 \<Rightarrow> u256 \<Rightarrow> u256 \<Rightarrow> u256" where "u_SMod U \<equiv> u_op2 U M_SMod"
abbreviation u_Exp :: "uint256 \<Rightarrow> u256 \<Rightarrow> u256 \<Rightarrow> u256" where "u_Exp U \<equiv> u_op2 U M_Exp"
abbreviation u_ExtendSign :: "uint256 \<Rightarrow> u256 \<Rightarrow> u256 \<Rightarrow> u256" where "u_ExtendSign U \<equiv> u_op2 U M_ExtendSign"
abbreviation u_And :: "uint256 \<Rightarrow> u256 \<Rightarrow> u256 \<Rightarrow> u256" where "u_And U \<equiv> u_op2 U M_And"
abbreviation u_Or :: "uint256 \<Rightarrow> u256 \<Rightarrow> u256 \<Rightarrow> u256" where "u_Or U \<equiv> u_op2 U M_Or"
abbreviation u_Xor :: "uint256 \<Rightarrow> u256 \<Rightarrow> u256 \<Rightarrow> u256" where "u_Xor U \<equiv> u_op2 U M_Xor"
abbreviation u_Byte :: "uint256 \<Rightarrow> u256 \<Rightarrow> u256 \<Rightarrow> u256" where "u_Byte U \<equiv> u_op2 U M_Byte"
abbreviation u_AddMod :: "uint256 \<Rightarrow> u256 \<Rightarrow> u256 \<Rightarrow> u256 \<Rightarrow> u256" where "u_AddMod U \<equiv> u_op3 U M_AddMod"
abbreviation u_MulMod :: "uint256 \<Rightarrow> u256 \<Rightarrow> u256 \<Rightarrow> u256 \<Rightarrow> u256" where "u_MulMod U \<equiv> u_op3 U M_MulMod"
abbreviation u_Lsh :: "uint256 \<Rightarrow> u256 \<Rightarrow> uint64 \<Rightarrow> u256" where "u_Lsh U \<equiv> u_shift U M_Lsh"
abbreviation u_Rsh :: "uint256 \<Rightarrow> u256 \<Rightarrow> uint64 \<Rightarrow> u256" where "u_Rsh U \<equiv> u_shift U M_Rsh"
abbreviation u_SRsh :: "uint256 \<Rightarrow> u256 \<Rightarrow> uint64 \<Rightarrow> u256" where "u_SRsh U \<equiv> u_shift U M_SRsh"
abbreviation u_Lt :: "uint256 \<Rightarrow> u256 \<Rightarrow> u256 \<Rightarrow> bool" where "u_Lt U \<equiv> u_cmp U M_Lt"
abbreviation u_Gt :: "uint256 \<Rightarrow> u256 \<Rightarrow> u256 \<Rightarrow> bool" where "u_Gt U \<equiv> u_cmp U M_Gt"
abbreviation u_Slt :: "uint256 \<Rightarrow> u256 \<Rightarrow> u256 \<Rightarrow> bool" where "u_Slt U \<equiv> u_cmp U M_Slt"
abbreviation u_Sgt :: "uint256 \<Rightarrow> u256 \<Rightarrow> u256 \<Rightarrow> bool" where "u_Sgt U \<equiv> u_cmp U M_Sgt"
abbreviation u_Eq :: "uint256 \<Rightarrow> u256 \<Rightarrow> u256 \<Rightarrow> bool" where "u_Eq U \<equiv> u_cmp U M_Eq"
abbreviation u_LtUint64 :: "uint256 \<Rightarrow> u256 \<Rightarrow> uint64 \<Rightarrow> bool" where "u_LtUint64 U \<equiv> u_cmp64 U M_LtUint64"
abbreviation u_GtUint64 :: "uint256 \<Rightarrow> u256 \<Rightarrow> uint64 \<Rightarrow> bool" where "u_GtUint64 U \<equiv> u_cmp64 U M_GtUint64"

text \<open>
  The documented behaviour the theorems rely on: sums wrap around, the tests against zero and against the
  range of 64 bits, the low 64 bits, and \<open>WriteToSlice\<close> keeping the length of the slice it fills.
\<close>

definition uint256_ok :: "uint256 \<Rightarrow> bool" where
  "uint256_ok U \<longleftrightarrow>
     (\<forall>x y. u_Add U x y = x + y) \<and>
     (\<forall>x. u_IsZero U x \<longleftrightarrow> x = 0) \<and>
     (\<forall>x. u_Sign U x = sgn (sint x)) \<and>
     (\<forall>x. u_IsUint64 U x \<longleftrightarrow> x < 2 ^ 64) \<and>
     (\<forall>x. u_Uint64 U x = ucast x) \<and>
     (\<forall>x. u_Uint64WithOverflow U x = (ucast x, \<not> x < 2 ^ 64)) \<and>
     (\<forall>x bs. length (u_WriteToSlice U x bs) = length bs)"

text \<open>The library's functions as words compute them, the instance used in the examples.\<close>

definition word_Exp :: "u256 \<Rightarrow> u256 \<Rightarrow> u256" where
  "word_Exp x y = x ^ unat y"

fun word_op2 :: "uint256_op2 \<Rightarrow> u256 \<Rightarrow> u256 \<Rightarrow> u256" where
  "word_op2 M_Add = (+)"
| "word_op2 M_Sub = (-)"
| "word_op2 M_Mul = (*)"
| "word_op2 M_Div = (\<lambda>x y. x div y)"
| "word_op2 M_SDiv = (\<lambda>x y. if y = 0 then 0 else word_of_int (sgn (sint x) * sgn (sint y) * (\<bar>sint x\<bar> div \<bar>sint y\<bar>)))"
| "word_op2 M_Mod = (\<lambda>x y. if y = 0 then 0 else x mod y)"
| "word_op2 M_SMod = (\<lambda>x y. if y = 0 then 0 else word_of_int (sgn (sint x) * (\<bar>sint x\<bar> mod \<bar>sint y\<bar>)))"
| "word_op2 M_Exp = word_Exp"
| "word_op2 M_ExtendSign = (\<lambda>x b. if unat b < 31 then word_of_int (signed_take_bit (8 * unat b + 7) (sint x)) else x)"
| "word_op2 M_And = (AND)"
| "word_op2 M_Or = (OR)"
| "word_op2 M_Xor = (XOR)"
| "word_op2 M_Byte = (\<lambda>x n. if unat n < 32 then drop_bit (8 * (31 - unat n)) x AND 0xFF else 0)"

fun word_op3 :: "uint256_op3 \<Rightarrow> u256 \<Rightarrow> u256 \<Rightarrow> u256 \<Rightarrow> u256" where
  "word_op3 M_AddMod = (\<lambda>x y z. if z = 0 then 0 else of_nat ((unat x + unat y) mod unat z))"
| "word_op3 M_MulMod = (\<lambda>x y z. if z = 0 then 0 else of_nat ((unat x * unat y) mod unat z))"

fun word_shift :: "uint256_shift \<Rightarrow> u256 \<Rightarrow> uint64 \<Rightarrow> u256" where
  "word_shift M_Lsh = (\<lambda>x n. push_bit (unat n) x)"
| "word_shift M_Rsh = (\<lambda>x n. drop_bit (unat n) x)"
| "word_shift M_SRsh = (\<lambda>x n. word_of_int (sint x div 2 ^ unat n))"

fun word_cmp :: "uint256_cmp \<Rightarrow> u256 \<Rightarrow> u256 \<Rightarrow> bool" where
  "word_cmp M_Lt = (<)"
| "word_cmp M_Gt = (\<lambda>x y. y < x)"
| "word_cmp M_Slt = (\<lambda>x y. sint x < sint y)"
| "word_cmp M_Sgt = (\<lambda>x y. sint y < sint x)"
| "word_cmp M_Eq = (=)"

fun word_cmp64 :: "uint256_cmp64 \<Rightarrow> u256 \<Rightarrow> uint64 \<Rightarrow> bool" where
  "word_cmp64 M_LtUint64 = (\<lambda>x n. x < ucast n)"
| "word_cmp64 M_GtUint64 = (\<lambda>x n. ucast n < x)"

definition word_uint256 :: uint256 where
  "word_uint256 =
     \<lparr>u_op2 = word_op2,
      u_op3 = word_op3,
      u_shift = word_shift,
      u_cmp = word_cmp,
      u_cmp64 = word_cmp64,
      u_Not = NOT,
      u_IsZero = (\<lambda>x. x = 0),
      u_Sign = (\<lambda>x. sgn (sint x)),
      u_IsUint64 = (\<lambda>x. x < 2 ^ 64),
      u_Uint64 = ucast,
      u_Uint64WithOverflow = (\<lambda>x. (ucast x, \<not> x < 2 ^ 64)),
      u_BitLen = (\<lambda>x. int (big_bitlen (unat x))),
      u_Bytes20 = ucast,
      u_Bytes32 = (\<lambda>x. x),
      u_SetBytes = (\<lambda>bs. of_nat (be_nat bs)),
      u_SetUint64 = ucast,
      u_FromBig = word_of_int,
      u_ToBig = uint,
      u_WriteToSlice = (\<lambda>x bs. take (length bs) (hash_Bytes x) @ drop 32 bs)\<rparr>"

section \<open>Outcomes and errors\<close>

datatype panic =
    StackPanic | MemoryPanic | SlicePanic | TypePanic | RefundPanic | AccessListPanic | RevisionPanic | GasPoolPanic

datatype 'a outcome = Ret 'a | Panic panic | OutOfFuel

fun andThen :: "'a outcome \<Rightarrow> ('a \<Rightarrow> 'b outcome) \<Rightarrow> 'b outcome" where
  "andThen (Ret x) f = f x"
| "andThen (Panic p) f = Panic p"
| "andThen OutOfFuel f = OutOfFuel"

text \<open>The value of an operation of the state database that may panic.\<close>

definition must :: "panic \<Rightarrow> 'a option \<Rightarrow> 'a outcome" where
  "must p r = (case r of None \<Rightarrow> Panic p | Some x \<Rightarrow> Ret x)"

datatype vm_error =
    ErrInvalidSubroutineEntry | ErrOutOfGas | ErrCodeStoreOutOfGas | ErrDepth | ErrInsufficientBalance
  | ErrContractAddressCollision | ErrExecutionReverted | ErrMaxCodeSizeExceeded | ErrInvalidJump
  | ErrWriteProtection | ErrReturnDataOutOfBounds | ErrGasUintOverflow | ErrInvalidRetsub
  | ErrReturnStackExceeded | ErrStackUnderflow int int | ErrStackOverflow int int | ErrInvalidOpCode byte
  | ErrOther string

section \<open>Checked arithmetic\<close>

definition SafeAdd :: "uint64 \<Rightarrow> uint64 \<Rightarrow> uint64 \<times> bool" where
  "SafeAdd x y = (x + y, unat x + unat y \<ge> 2 ^ 64)"

definition SafeMul :: "uint64 \<Rightarrow> uint64 \<Rightarrow> uint64 \<times> bool" where
  "SafeMul x y = (x * y, unat x * unat y \<ge> 2 ^ 64)"

definition safe_add :: "uint64 \<Rightarrow> uint64 \<Rightarrow> vm_error + uint64" where
  "safe_add x y = (case SafeAdd x y of (r, overflow) \<Rightarrow> if overflow then Inl ErrGasUintOverflow else Inr r)"

definition safe_mul :: "uint64 \<Rightarrow> uint64 \<Rightarrow> vm_error + uint64" where
  "safe_mul x y = (case SafeMul x y of (r, overflow) \<Rightarrow> if overflow then Inl ErrGasUintOverflow else Inr r)"

section \<open>Stack\<close>

text \<open>The stack is a list with the top first; an index out of range panics.\<close>

type_synonym stack = "u256 list"

definition Back :: "stack \<Rightarrow> nat \<Rightarrow> u256 outcome" where
  "Back st n = (if n < length st then Ret (st ! n) else Panic StackPanic)"

definition stack_dup :: "stack \<Rightarrow> nat \<Rightarrow> stack outcome" where
  "stack_dup st n = (if 1 \<le> n \<and> n \<le> length st then Ret (st ! (n - 1) # st) else Panic StackPanic)"

definition stack_swap :: "stack \<Rightarrow> nat \<Rightarrow> stack outcome" where
  "stack_swap st n =
     (if 1 \<le> n \<and> n \<le> length st then Ret (st[n - 1 := st ! 0, 0 := st ! (n - 1)]) else Panic StackPanic)"

section \<open>Memory\<close>

record Memory =
  mem_store :: bytes
  mem_lastGasCost :: uint64

definition NewMemory :: Memory where
  "NewMemory = \<lparr>mem_store = [], mem_lastGasCost = 0\<rparr>"

definition mem_Len :: "Memory \<Rightarrow> nat" where
  "mem_Len m = length (mem_store m)"

text \<open>\<open>copy_at\<close> is \<open>copy(dst[off:off+sz], src)\<close> for bounds within \<open>dst\<close>.\<close>

definition copy_at :: "bytes \<Rightarrow> nat \<Rightarrow> nat \<Rightarrow> bytes \<Rightarrow> bytes" where
  "copy_at dst off sz src =
     (let src = take sz src in take off dst @ src @ drop (off + length src) dst)"

text \<open>
  The guard is on the wrapped sum, as in the code; the slice expression then panics when its bounds are out
  of order.
\<close>

definition mem_Set :: "Memory \<Rightarrow> uint64 \<Rightarrow> uint64 \<Rightarrow> bytes \<Rightarrow> Memory outcome" where
  "mem_Set m offset sz val =
     (if sz > 0 then
        if unat (offset + sz) > mem_Len m then Panic MemoryPanic
        else if offset + sz < offset then Panic SlicePanic
        else Ret (m\<lparr>mem_store := copy_at (mem_store m) (unat offset) (unat sz) val\<rparr>)
      else Ret m)"

definition mem_Set32 :: "uint256 \<Rightarrow> Memory \<Rightarrow> uint64 \<Rightarrow> u256 \<Rightarrow> Memory outcome" where
  "mem_Set32 U m offset val =
     (if unat (offset + 32) > mem_Len m then Panic MemoryPanic
      else if offset + 32 < offset then Panic SlicePanic
      else
        let store = copy_at (mem_store m) (unat offset) 32 (replicate 32 0)
        in Ret (m\<lparr>mem_store := take (unat offset) store @ u_WriteToSlice U val (drop (unat offset) store)\<rparr>))"

definition mem_Resize :: "Memory \<Rightarrow> uint64 \<Rightarrow> Memory" where
  "mem_Resize m sz =
     (if of_nat (mem_Len m) < sz
      then m\<lparr>mem_store := mem_store m @ replicate (unat (sz - of_nat (mem_Len m))) 0\<rparr> else m)"

text \<open>
  \<open>GetPtr\<close> and \<open>GetCopy\<close> give the same bytes; the slice of \<open>GetPtr\<close> shares the memory. Slicing past the
  length panics here; the capacity of the slice is not modelled.
\<close>

definition mem_GetPtr :: "Memory \<Rightarrow> int \<Rightarrow> int \<Rightarrow> bytes outcome" where
  "mem_GetPtr m offset sz =
     (if sz = 0 then Ret []
      else if int (mem_Len m) > offset then
        if 0 \<le> offset \<and> 0 \<le> sz \<and> offset + sz \<le> int (mem_Len m)
        then Ret (take (nat sz) (drop (nat offset) (mem_store m))) else Panic SlicePanic
      else Ret [])"

definition mem_GetCopy :: "Memory \<Rightarrow> int \<Rightarrow> int \<Rightarrow> bytes outcome" where
  "mem_GetCopy m offset sz =
     (if sz = 0 then Ret []
      else if int (mem_Len m) > offset then
        if 0 \<le> offset \<and> 0 \<le> sz \<and> offset + sz \<le> int (mem_Len m)
        then Ret (take (nat sz) (drop (nat offset) (mem_store m))) else Panic SlicePanic
      else Ret [])"

section \<open>Memory sizes\<close>

definition calcMemSize64WithUint :: "uint256 \<Rightarrow> u256 \<Rightarrow> uint64 \<Rightarrow> uint64 \<times> bool" where
  "calcMemSize64WithUint U off length64 =
     (if length64 = 0 then (0, False)
      else case u_Uint64WithOverflow U off of (offset64, overflow) \<Rightarrow>
        if overflow then (0, True) else let val = offset64 + length64 in (val, val < offset64))"

definition calcMemSize64 :: "uint256 \<Rightarrow> u256 \<Rightarrow> u256 \<Rightarrow> uint64 \<times> bool" where
  "calcMemSize64 U off l =
     (if \<not> u_IsUint64 U l then (0, True) else calcMemSize64WithUint U off (u_Uint64 U l))"

definition RightPadBytes :: "bytes \<Rightarrow> int \<Rightarrow> bytes" where
  "RightPadBytes bs l = (if l \<le> int (length bs) then bs else bs @ replicate (nat l - length bs) 0)"

definition getData :: "bytes \<Rightarrow> uint64 \<Rightarrow> uint64 \<Rightarrow> bytes outcome" where
  "getData bs start sz =
     (let len = of_nat (length bs);
          start = (if start > len then len else start);
          end' = start + sz;
          end' = (if end' > len then len else end')
      in if start \<le> end' then Ret (RightPadBytes (take (unat end' - unat start) (drop (unat start) bs)) (sint sz))
         else Panic SlicePanic)"

definition toWordSize :: "uint64 \<Rightarrow> uint64" where
  "toWordSize sz = (if sz > -1 - 31 then -1 div 32 + 1 else (sz + 31) div 32)"

type_synonym memorySizeFunc = "uint256 \<Rightarrow> stack \<Rightarrow> (uint64 \<times> bool) outcome"

definition mem_range :: "nat \<Rightarrow> nat \<Rightarrow> memorySizeFunc" where
  "mem_range i j U st =
     andThen (Back st i) (\<lambda>off. andThen (Back st j) (\<lambda>l. Ret (calcMemSize64 U off l)))"

definition mem_range_fixed :: "nat \<Rightarrow> uint64 \<Rightarrow> memorySizeFunc" where
  "mem_range_fixed i n U st = andThen (Back st i) (\<lambda>off. Ret (calcMemSize64WithUint U off n))"

definition mem_range_max :: "nat \<Rightarrow> nat \<Rightarrow> nat \<Rightarrow> nat \<Rightarrow> memorySizeFunc" where
  "mem_range_max i j k l U st =
     andThen (mem_range i j U st) (\<lambda>(x, overflow).
       if overflow then Ret (0, True)
       else andThen (mem_range k l U st) (\<lambda>(y, overflow).
         if overflow then Ret (0, True) else if x > y then Ret (x, False) else Ret (y, False)))"

definition memorySha3 :: memorySizeFunc where "memorySha3 = mem_range 0 1"
definition memoryCallDataCopy :: memorySizeFunc where "memoryCallDataCopy = mem_range 0 2"
definition memoryReturnDataCopy :: memorySizeFunc where "memoryReturnDataCopy = mem_range 0 2"
definition memoryCodeCopy :: memorySizeFunc where "memoryCodeCopy = mem_range 0 2"
definition memoryExtCodeCopy :: memorySizeFunc where "memoryExtCodeCopy = mem_range 1 3"
definition memoryMLoad :: memorySizeFunc where "memoryMLoad = mem_range_fixed 0 32"
definition memoryMStore8 :: memorySizeFunc where "memoryMStore8 = mem_range_fixed 0 1"
definition memoryMStore :: memorySizeFunc where "memoryMStore = mem_range_fixed 0 32"
definition memoryCreate :: memorySizeFunc where "memoryCreate = mem_range 1 2"
definition memoryCreate2 :: memorySizeFunc where "memoryCreate2 = mem_range 1 2"
definition memoryCall :: memorySizeFunc where "memoryCall = mem_range_max 5 6 3 4"
definition memoryDelegateCall :: memorySizeFunc where "memoryDelegateCall = mem_range_max 4 5 2 3"
definition memoryStaticCall :: memorySizeFunc where "memoryStaticCall = mem_range_max 4 5 2 3"
definition memoryReturn :: memorySizeFunc where "memoryReturn = mem_range 0 1"
definition memoryRevert :: memorySizeFunc where "memoryRevert = mem_range 0 1"
definition memoryLog :: memorySizeFunc where "memoryLog = mem_range 0 1"

section \<open>Contracts\<close>

text \<open>
  A caller is an account or a contract; of a calling contract the callee reads its address, its own caller and
  its value (\<open>AsDelegate\<close>). The map of jump destination analyses is shared by the contracts of one call tree;
  it is passed along beside them.
\<close>

datatype ContractRef = AccountRef address | CallerContract address address int

fun ref_Address :: "ContractRef \<Rightarrow> address" where
  "ref_Address (AccountRef a) = a"
| "ref_Address (CallerContract a _ _) = a"

record Contract =
  c_CallerAddress :: address
  c_caller :: ContractRef
  c_self :: address
  c_analysis :: "bitvec option"
  c_Code :: bytes
  c_CodeHash :: hash
  c_CodeAddr :: "address option"
  c_Input :: bytes
  c_Gas :: uint64
  c_value :: int

type_synonym jumpdests = "hash \<rightharpoonup> bitvec"

definition contract_ref :: "Contract \<Rightarrow> ContractRef" where
  "contract_ref c = CallerContract (c_self c) (c_CallerAddress c) (c_value c)"

definition NewContract :: "ContractRef \<Rightarrow> address \<Rightarrow> int \<Rightarrow> uint64 \<Rightarrow> jumpdests \<Rightarrow> Contract \<times> jumpdests" where
  "NewContract caller object val gas parent =
     (\<lparr>c_CallerAddress = ref_Address caller, c_caller = caller, c_self = object, c_analysis = None, c_Code = [],
       c_CodeHash = 0, c_CodeAddr = None, c_Input = [], c_Gas = gas, c_value = val\<rparr>,
      case caller of CallerContract _ _ _ \<Rightarrow> parent | AccountRef _ \<Rightarrow> Map.empty)"

definition AsDelegate :: "Contract \<Rightarrow> Contract outcome" where
  "AsDelegate c =
     (case c_caller c of
        CallerContract _ callerAddress val \<Rightarrow> Ret (c\<lparr>c_CallerAddress := callerAddress, c_value := val\<rparr>)
      | AccountRef _ \<Rightarrow> Panic TypePanic)"

definition SetCallCode :: "Contract \<Rightarrow> address \<Rightarrow> hash \<Rightarrow> bytes \<Rightarrow> Contract" where
  "SetCallCode c addr h code = c\<lparr>c_Code := code, c_CodeHash := h, c_CodeAddr := Some addr\<rparr>"

abbreviation JUMPDEST :: byte where "JUMPDEST \<equiv> 0x5b"
abbreviation BEGINSUB :: byte where "BEGINSUB \<equiv> 0x5c"

definition isCode_by :: "Contract \<Rightarrow> jumpdests \<Rightarrow> bitvec \<Rightarrow> uint64 \<Rightarrow> (Contract \<times> jumpdests \<times> bool) outcome" where
  "isCode_by c jd analysis udest =
     andThen (must SlicePanic (codeSegment analysis (unat udest))) (\<lambda>r. Ret (c\<lparr>c_analysis := Some analysis\<rparr>, jd, r))"

definition isCode :: "Contract \<Rightarrow> jumpdests \<Rightarrow> uint64 \<Rightarrow> (Contract \<times> jumpdests \<times> bool) outcome" where
  "isCode c jd udest =
     (case c_analysis c of
        Some analysis \<Rightarrow> isCode_by c jd analysis udest
      | None \<Rightarrow>
          if c_CodeHash c \<noteq> 0 then
            (case jd (c_CodeHash c) of
               Some analysis \<Rightarrow> isCode_by c jd analysis udest
             | None \<Rightarrow>
                 andThen (must SlicePanic (codeBitmap (c_Code c))) (\<lambda>analysis.
                   isCode_by c (jd(c_CodeHash c \<mapsto> analysis)) analysis udest))
          else andThen (must SlicePanic (codeBitmap (c_Code c))) (\<lambda>analysis. isCode_by c jd analysis udest))"

definition validJumpdest :: "uint256 \<Rightarrow> Contract \<Rightarrow> jumpdests \<Rightarrow> u256 \<Rightarrow> (Contract \<times> jumpdests \<times> bool) outcome" where
  "validJumpdest U c jd dest =
     (case u_Uint64WithOverflow U dest of (udest, overflow) \<Rightarrow>
        if overflow \<or> unat udest \<ge> length (c_Code c) then Ret (c, jd, False)
        else if c_Code c ! unat udest \<noteq> JUMPDEST then Ret (c, jd, False)
        else isCode c jd udest)"

definition validJumpSubdest :: "Contract \<Rightarrow> jumpdests \<Rightarrow> uint64 \<Rightarrow> (Contract \<times> jumpdests \<times> bool) outcome" where
  "validJumpSubdest c jd udest =
     (if sint udest < 0 \<or> unat udest \<ge> length (c_Code c) then Ret (c, jd, False)
      else if c_Code c ! unat udest \<noteq> BEGINSUB then Ret (c, jd, False)
      else isCode c jd udest)"

definition GetOp :: "Contract \<Rightarrow> uint64 \<Rightarrow> byte" where
  "GetOp c n = (if unat n < length (c_Code c) then c_Code c ! unat n else 0)"

definition UseGas :: "Contract \<Rightarrow> uint64 \<Rightarrow> Contract \<times> bool" where
  "UseGas c gas = (if c_Gas c < gas then (c, False) else (c\<lparr>c_Gas := c_Gas c - gas\<rparr>, True))"

end
