(* ===== verification/EvmGas.thy ===== *)
theory EvmGas
  imports EvmBase
begin

text \<open>
  The state of the virtual machine and the gas of its operations (\<open>core/vm/gas.go\<close>, \<open>gas_table.go\<close>,
  \<open>operations_acl.go\<close>, prices from \<open>params/protocol_params.go\<close>). Gas functions see and change the state
  database (refunds, access lists), the contract's gas and the memory's last fee.
\<close>

section \<open>State\<close>

record Rules =
  rules_ChainID :: int
  IsHomestead :: bool
  IsEIP150 :: bool
  IsEIP155 :: bool
  IsEIP158 :: bool
  IsByzantium :: bool
  IsConstantinople :: bool
  IsPetersburg :: bool
  IsIstanbul :: bool
  IsYoloV2 :: bool

text \<open>Native contracts, by the type that implements them.\<close>

datatype precompile =
    ecrecover | sha256hash | ripemd160hash | dataCopy | bigModExp bool
  | bn256AddByzantium | bn256AddIstanbul | bn256ScalarMulByzantium | bn256ScalarMulIstanbul
  | bn256PairingByzantium | bn256PairingIstanbul | blake2F
  | bls12381G1Add | bls12381G1Mul | bls12381G1MultiExp | bls12381G2Add | bls12381G2Mul | bls12381G2MultiExp
  | bls12381Pairing | bls12381MapG1 | bls12381MapG2

text \<open>
  What an EVM is given and does not change: the state backend, the uint256 library, the native contracts other
  than the identity, the block and transaction contexts, the chain's rules and the configuration. The block
  context's \<open>CanTransfer\<close> and \<open>Transfer\<close> are the functions of \<open>core/evm.go\<close>.
\<close>

record ('t, 's) evm_env =
  ee_backend :: "('t, 's) backend"
  ee_uint256 :: uint256
  ee_native :: "precompile \<Rightarrow> bytes \<Rightarrow> bytes \<times> string option"
  ee_GetHash :: "uint64 \<Rightarrow> hash"
  ee_Coinbase :: address
  ee_GasLimit :: uint64
  ee_BlockNumber :: int
  ee_Time :: int
  ee_Difficulty :: int
  ee_Origin :: address
  ee_GasPrice :: int
  ee_ChainID :: int
  ee_chainRules :: Rules
  ee_NoRecursion :: bool
  ee_EnablePreimageRecording :: bool

text \<open>The EVM and its interpreter: what changes while code runs.\<close>

record ('t, 's) EVM =
  ev_StateDB :: "('t, 's) StateDB"
  ev_depth :: int
  ev_callGasTemp :: uint64
  ev_jumpdests :: jumpdests
  in_readOnly :: bool
  in_returnData :: bytes

text \<open>One call frame: \<open>callCtx\<close> with the program counter.\<close>

record ('t, 's) machine =
  mc_evm :: "('t, 's) EVM"
  mc_pc :: uint64
  mc_stack :: stack
  mc_rstack :: "uint32 list"
  mc_memory :: Memory
  mc_contract :: Contract

definition mc_StateDB :: "('t, 's) machine \<Rightarrow> ('t, 's) StateDB" where
  "mc_StateDB m = ev_StateDB (mc_evm m)"

definition set_StateDB :: "('t, 's) StateDB \<Rightarrow> ('t, 's) machine \<Rightarrow> ('t, 's) machine" where
  "set_StateDB s m = m\<lparr>mc_evm := (mc_evm m)\<lparr>ev_StateDB := s\<rparr>\<rparr>"

definition mc_address :: "('t, 's) machine \<Rightarrow> address" where
  "mc_address m = c_self (mc_contract m)"

section \<open>Prices\<close>

abbreviation GasQuickStep :: uint64 where "GasQuickStep \<equiv> 2"
abbreviation GasFastestStep :: uint64 where "GasFastestStep \<equiv> 3"
abbreviation GasFastStep :: uint64 where "GasFastStep \<equiv> 5"
abbreviation GasMidStep :: uint64 where "GasMidStep \<equiv> 8"
abbreviation GasSlowStep :: uint64 where "GasSlowStep \<equiv> 10"
abbreviation GasExtStep :: uint64 where "GasExtStep \<equiv> 20"
abbreviation CallValueTransferGas :: uint64 where "CallValueTransferGas \<equiv> 9000"
abbreviation CallNewAccountGas :: uint64 where "CallNewAccountGas \<equiv> 25000"
abbreviation QuadCoeffDiv :: uint64 where "QuadCoeffDiv \<equiv> 512"
abbreviation LogDataGas :: uint64 where "LogDataGas \<equiv> 8"
abbreviation CallStipend :: uint64 where "CallStipend \<equiv> 2300"
abbreviation Sha3Gas :: uint64 where "Sha3Gas \<equiv> 30"
abbreviation Sha3WordGas :: uint64 where "Sha3WordGas \<equiv> 6"
abbreviation SstoreSetGas :: uint64 where "SstoreSetGas \<equiv> 20000"
abbreviation SstoreResetGas :: uint64 where "SstoreResetGas \<equiv> 5000"
abbreviation SstoreClearGas :: uint64 where "SstoreClearGas \<equiv> 5000"
abbreviation SstoreRefundGas :: uint64 where "SstoreRefundGas \<equiv> 15000"
abbreviation NetSstoreNoopGas :: uint64 where "NetSstoreNoopGas \<equiv> 200"
abbreviation NetSstoreInitGas :: uint64 where "NetSstoreInitGas \<equiv> 20000"
abbreviation NetSstoreCleanGas :: uint64 where "NetSstoreCleanGas \<equiv> 5000"
abbreviation NetSstoreDirtyGas :: uint64 where "NetSstoreDirtyGas \<equiv> 200"
abbreviation NetSstoreClearRefund :: uint64 where "NetSstoreClearRefund \<equiv> 15000"
abbreviation NetSstoreResetRefund :: uint64 where "NetSstoreResetRefund \<equiv> 4800"
abbreviation NetSstoreResetClearRefund :: uint64 where "NetSstoreResetClearRefund \<equiv> 19800"
abbreviation SstoreSentryGasEIP2200 :: uint64 where "SstoreSentryGasEIP2200 \<equiv> 2300"
abbreviation SstoreSetGasEIP2200 :: uint64 where "SstoreSetGasEIP2200 \<equiv> 20000"
abbreviation SstoreResetGasEIP2200 :: uint64 where "SstoreResetGasEIP2200 \<equiv> 5000"
abbreviation SstoreClearsScheduleRefundEIP2200 :: uint64 where "SstoreClearsScheduleRefundEIP2200 \<equiv> 15000"
abbreviation JumpdestGas :: uint64 where "JumpdestGas \<equiv> 1"
abbreviation CreateDataGas :: uint64 where "CreateDataGas \<equiv> 200"
abbreviation CallCreateDepth :: int where "CallCreateDepth \<equiv> 1024"
abbreviation ExpGas :: uint64 where "ExpGas \<equiv> 10"
abbreviation LogGas :: uint64 where "LogGas \<equiv> 375"
abbreviation CopyGas :: uint64 where "CopyGas \<equiv> 3"
abbreviation StackLimit :: int where "StackLimit \<equiv> 1024"
abbreviation LogTopicGas :: uint64 where "LogTopicGas \<equiv> 375"
abbreviation CreateGas :: uint64 where "CreateGas \<equiv> 32000"
abbreviation Create2Gas :: uint64 where "Create2Gas \<equiv> 32000"
abbreviation SelfdestructRefundGas :: uint64 where "SelfdestructRefundGas \<equiv> 24000"
abbreviation MemoryGas :: uint64 where "MemoryGas \<equiv> 3"
abbreviation CallGasFrontier :: uint64 where "CallGasFrontier \<equiv> 40"
abbreviation CallGasEIP150 :: uint64 where "CallGasEIP150 \<equiv> 700"
abbreviation BalanceGasFrontier :: uint64 where "BalanceGasFrontier \<equiv> 20"
abbreviation BalanceGasEIP150 :: uint64 where "BalanceGasEIP150 \<equiv> 400"
abbreviation BalanceGasEIP1884 :: uint64 where "BalanceGasEIP1884 \<equiv> 700"
abbreviation ExtcodeSizeGasFrontier :: uint64 where "ExtcodeSizeGasFrontier \<equiv> 20"
abbreviation ExtcodeSizeGasEIP150 :: uint64 where "ExtcodeSizeGasEIP150 \<equiv> 700"
abbreviation SloadGasFrontier :: uint64 where "SloadGasFrontier \<equiv> 50"
abbreviation SloadGasEIP150 :: uint64 where "SloadGasEIP150 \<equiv> 200"
abbreviation SloadGasEIP1884 :: uint64 where "SloadGasEIP1884 \<equiv> 800"
abbreviation SloadGasEIP2200 :: uint64 where "SloadGasEIP2200 \<equiv> 800"
abbreviation ExtcodeHashGasConstantinople :: uint64 where "ExtcodeHashGasConstantinople \<equiv> 400"
abbreviation ExtcodeHashGasEIP1884 :: uint64 where "ExtcodeHashGasEIP1884 \<equiv> 700"
abbreviation SelfdestructGasEIP150 :: uint64 where "SelfdestructGasEIP150 \<equiv> 5000"
abbreviation ExpByteFrontier :: uint64 where "ExpByteFrontier \<equiv> 10"
abbreviation ExpByteEIP158 :: uint64 where "ExpByteEIP158 \<equiv> 50"
abbreviation ExtcodeCopyBaseFrontier :: uint64 where "ExtcodeCopyBaseFrontier \<equiv> 20"
abbreviation ExtcodeCopyBaseEIP150 :: uint64 where "ExtcodeCopyBaseEIP150 \<equiv> 700"
abbreviation CreateBySelfdestructGas :: uint64 where "CreateBySelfdestructGas \<equiv> 25000"
abbreviation MaxCodeSize :: nat where "MaxCodeSize \<equiv> 24576"
abbreviation ColdAccountAccessCostEIP2929 :: uint64 where "ColdAccountAccessCostEIP2929 \<equiv> 2600"
abbreviation ColdSloadCostEIP2929 :: uint64 where "ColdSloadCostEIP2929 \<equiv> 2100"
abbreviation WarmStorageReadCostEIP2929 :: uint64 where "WarmStorageReadCostEIP2929 \<equiv> 100"

section \<open>Memory, copying, logs, hashing, exponentiation\<close>

definition callGas :: "uint256 \<Rightarrow> bool \<Rightarrow> uint64 \<Rightarrow> uint64 \<Rightarrow> u256 \<Rightarrow> vm_error + uint64" where
  "callGas U isEip150 availableGas base callCost =
     (let avail = availableGas - base; gas = avail - avail div 64
      in if isEip150 \<and> (\<not> u_IsUint64 U callCost \<or> gas < u_Uint64 U callCost) then Inr gas
         else if \<not> u_IsUint64 U callCost then Inl ErrGasUintOverflow
         else Inr (u_Uint64 U callCost))"

definition memoryGasCost :: "Memory \<Rightarrow> uint64 \<Rightarrow> Memory \<times> (vm_error + uint64)" where
  "memoryGasCost mem newMemSize =
     (if newMemSize = 0 then (mem, Inr 0)
      else if newMemSize > 0x1FFFFFFFE0 then (mem, Inl ErrGasUintOverflow)
      else
        let newMemSizeWords = toWordSize newMemSize; newMemSize = newMemSizeWords * 32
        in if newMemSize > of_nat (mem_Len mem) then
             let square = newMemSizeWords * newMemSizeWords;
                 linCoef = newMemSizeWords * MemoryGas;
                 quadCoef = square div QuadCoeffDiv;
                 newTotalFee = linCoef + quadCoef;
                 fee = newTotalFee - mem_lastGasCost mem
             in (mem\<lparr>mem_lastGasCost := newTotalFee\<rparr>, Inr fee)
           else (mem, Inr 0))"

type_synonym ('t, 's) gasFunc =
  "('t, 's) evm_env \<Rightarrow> ('t, 's) machine \<Rightarrow> uint64 \<Rightarrow> (('t, 's) machine \<times> (vm_error + uint64)) outcome"

text \<open>
  \<open>gas_bind\<close> continues a gas function after a step that may return an error; \<open>gas_step\<close> does so for a step
  that leaves the machine alone; \<open>gas_memory\<close> charges the memory first.
\<close>

definition gas_bind ::
  "(('t, 's) machine \<times> (vm_error + uint64)) outcome \<Rightarrow>
   (('t, 's) machine \<Rightarrow> uint64 \<Rightarrow> (('t, 's) machine \<times> (vm_error + uint64)) outcome) \<Rightarrow>
   (('t, 's) machine \<times> (vm_error + uint64)) outcome" where
  "gas_bind r f = andThen r (\<lambda>(m, x). case x of Inl e \<Rightarrow> Ret (m, Inl e) | Inr gas \<Rightarrow> f m gas)"

definition gas_step :: "('t, 's) machine \<Rightarrow> vm_error + uint64 \<Rightarrow> (('t, 's) machine \<times> (vm_error + uint64)) outcome" where
  "gas_step m x = Ret (m, x)"

definition gas_memory :: "('t, 's) machine \<Rightarrow> uint64 \<Rightarrow> (('t, 's) machine \<times> (vm_error + uint64)) outcome" where
  "gas_memory m memorySize =
     (case memoryGasCost (mc_memory m) memorySize of (mem, x) \<Rightarrow> Ret (m\<lparr>mc_memory := mem\<rparr>, x))"

text \<open>The operand at a stack position as a 64-bit number, or the overflow error.\<close>

definition operand64 ::
  "('t, 's) evm_env \<Rightarrow> ('t, 's) machine \<Rightarrow> nat \<Rightarrow> (('t, 's) machine \<times> (vm_error + uint64)) outcome" where
  "operand64 env m n =
     andThen (Back (mc_stack m) n) (\<lambda>v.
       case u_Uint64WithOverflow (ee_uint256 env) v of (w, overflow) \<Rightarrow>
         Ret (m, if overflow then Inl ErrGasUintOverflow else Inr w))"

text \<open>Gas per word of an operand, added to what is due already.\<close>

definition gas_words ::
  "('t, 's) evm_env \<Rightarrow> nat \<Rightarrow> uint64 \<Rightarrow> ('t, 's) machine \<Rightarrow> uint64 \<Rightarrow> (('t, 's) machine \<times> (vm_error + uint64)) outcome" where
  "gas_words env stackpos price m gas =
     gas_bind (operand64 env m stackpos) (\<lambda>m words.
     gas_bind (gas_step m (safe_mul (toWordSize words) price)) (\<lambda>m words.
     gas_step m (safe_add gas words)))"

definition memoryCopierGas :: "nat \<Rightarrow> ('t, 's) gasFunc" where
  "memoryCopierGas stackpos env m memorySize =
     gas_bind (gas_memory m memorySize) (gas_words env stackpos CopyGas)"

definition gasCallDataCopy :: "('t, 's) gasFunc" where "gasCallDataCopy = memoryCopierGas 2"
definition gasCodeCopy :: "('t, 's) gasFunc" where "gasCodeCopy = memoryCopierGas 2"
definition gasExtCodeCopy :: "('t, 's) gasFunc" where "gasExtCodeCopy = memoryCopierGas 3"
definition gasReturnDataCopy :: "('t, 's) gasFunc" where "gasReturnDataCopy = memoryCopierGas 2"

definition makeGasLog :: "uint64 \<Rightarrow> ('t, 's) gasFunc" where
  "makeGasLog n env m memorySize =
     gas_bind (operand64 env m 1) (\<lambda>m requestedSize.
     gas_bind (gas_memory m memorySize) (\<lambda>m gas.
     gas_bind (gas_step m (safe_add gas LogGas)) (\<lambda>m gas.
     gas_bind (gas_step m (safe_add gas (n * LogTopicGas))) (\<lambda>m gas.
     gas_bind (gas_step m (safe_mul requestedSize LogDataGas)) (\<lambda>m memorySizeGas.
     gas_step m (safe_add gas memorySizeGas))))))"

definition gasSha3 :: "('t, 's) gasFunc" where
  "gasSha3 env m memorySize = gas_bind (gas_memory m memorySize) (gas_words env 1 Sha3WordGas)"

definition pureMemoryGascost :: "('t, 's) gasFunc" where
  "pureMemoryGascost env m memorySize = gas_memory m memorySize"

definition gasReturn :: "('t, 's) gasFunc" where "gasReturn = pureMemoryGascost"
definition gasRevert :: "('t, 's) gasFunc" where "gasRevert = pureMemoryGascost"
definition gasMLoad :: "('t, 's) gasFunc" where "gasMLoad = pureMemoryGascost"
definition gasMStore8 :: "('t, 's) gasFunc" where "gasMStore8 = pureMemoryGascost"
definition gasMStore :: "('t, 's) gasFunc" where "gasMStore = pureMemoryGascost"
definition gasCreate :: "('t, 's) gasFunc" where "gasCreate = pureMemoryGascost"

definition gasCreate2 :: "('t, 's) gasFunc" where
  "gasCreate2 env m memorySize = gas_bind (gas_memory m memorySize) (gas_words env 2 Sha3WordGas)"

definition gas_exp :: "uint64 \<Rightarrow> ('t, 's) gasFunc" where
  "gas_exp price env m memorySize =
     andThen (Back (mc_stack m) 1) (\<lambda>exponent.
       let expByteLen = of_int ((u_BitLen (ee_uint256 env) exponent + 7) div 8)
       in gas_step m (safe_add (expByteLen * price) ExpGas))"

definition gasExpFrontier :: "('t, 's) gasFunc" where "gasExpFrontier = gas_exp ExpByteFrontier"
definition gasExpEIP158 :: "('t, 's) gasFunc" where "gasExpEIP158 = gas_exp ExpByteEIP158"

section \<open>Storage\<close>

definition mc_GetState :: "('t, 's) evm_env \<Rightarrow> ('t, 's) machine \<Rightarrow> hash \<Rightarrow> ('t, 's) machine \<times> hash" where
  "mc_GetState env m key =
     (case GetState (ee_backend env) (mc_StateDB m) (mc_address m) key of (s, v) \<Rightarrow> (set_StateDB s m, v))"

definition mc_GetCommittedState :: "('t, 's) evm_env \<Rightarrow> ('t, 's) machine \<Rightarrow> hash \<Rightarrow> ('t, 's) machine \<times> hash" where
  "mc_GetCommittedState env m key =
     (case GetCommittedState (ee_backend env) (mc_StateDB m) (mc_address m) key of (s, v) \<Rightarrow> (set_StateDB s m, v))"

definition mc_AddRefund :: "('t, 's) machine \<Rightarrow> uint64 \<Rightarrow> ('t, 's) machine" where
  "mc_AddRefund m gas = set_StateDB (AddRefund (mc_StateDB m) gas) m"

definition mc_SubRefund :: "('t, 's) machine \<Rightarrow> uint64 \<Rightarrow> ('t, 's) machine outcome" where
  "mc_SubRefund m gas = andThen (must RefundPanic (SubRefund (mc_StateDB m) gas)) (\<lambda>s. Ret (set_StateDB s m))"

text \<open>
  The clauses for a slot that has changed in this transaction (2.2), with the refunds for clearing it and for
  resetting it to an original zero and to an original non-zero value.
\<close>

definition sstore_dirty ::
  "uint64 \<Rightarrow> uint64 \<Rightarrow> uint64 \<Rightarrow> hash \<Rightarrow> hash \<Rightarrow> hash \<Rightarrow> ('t, 's) machine \<Rightarrow> ('t, 's) machine outcome" where
  "sstore_dirty clearRefund resetClear resetRefund original current val m =
     andThen
       (if original \<noteq> 0 then
          if current = 0 then mc_SubRefund m clearRefund
          else if val = 0 then Ret (mc_AddRefund m clearRefund) else Ret m
        else Ret m)
       (\<lambda>m. if original = val then
              if original = 0 then Ret (mc_AddRefund m resetClear) else Ret (mc_AddRefund m resetRefund)
            else Ret m)"

definition gasSStore :: "('t, 's) gasFunc" where
  "gasSStore env m memorySize =
     andThen (Back (mc_stack m) 1) (\<lambda>y. andThen (Back (mc_stack m) 0) (\<lambda>x.
       let U = ee_uint256 env; rules = ee_chainRules env
       in case mc_GetState env m (u_Bytes32 U x) of (m, current) \<Rightarrow>
         if IsPetersburg rules \<or> \<not> IsConstantinople rules then
           if current = 0 \<and> u_Sign U y \<noteq> 0 then Ret (m, Inr SstoreSetGas)
           else if current \<noteq> 0 \<and> u_Sign U y = 0 then Ret (mc_AddRefund m SstoreRefundGas, Inr SstoreClearGas)
           else Ret (m, Inr SstoreResetGas)
         else
           let val = u_Bytes32 U y
           in if current = val then Ret (m, Inr NetSstoreNoopGas)
              else case mc_GetCommittedState env m (u_Bytes32 U x) of (m, original) \<Rightarrow>
                if original = current then
                  if original = 0 then Ret (m, Inr NetSstoreInitGas)
                  else Ret (if val = 0 then mc_AddRefund m NetSstoreClearRefund else m, Inr NetSstoreCleanGas)
                else andThen
                  (sstore_dirty NetSstoreClearRefund NetSstoreResetClearRefund NetSstoreResetRefund original current val m)
                  (\<lambda>m. Ret (m, Inr NetSstoreDirtyGas))))"

definition gasSStoreEIP2200 :: "('t, 's) gasFunc" where
  "gasSStoreEIP2200 env m memorySize =
     (if c_Gas (mc_contract m) \<le> SstoreSentryGasEIP2200
      then Ret (m, Inl (ErrOther ''not enough gas for reentrancy sentry''))
      else andThen (Back (mc_stack m) 1) (\<lambda>y. andThen (Back (mc_stack m) 0) (\<lambda>x.
        let U = ee_uint256 env
        in case mc_GetState env m (u_Bytes32 U x) of (m, current) \<Rightarrow>
          let val = u_Bytes32 U y
          in if current = val then Ret (m, Inr SloadGasEIP2200)
             else case mc_GetCommittedState env m (u_Bytes32 U x) of (m, original) \<Rightarrow>
               if original = current then
                 if original = 0 then Ret (m, Inr SstoreSetGasEIP2200)
                 else Ret (if val = 0 then mc_AddRefund m SstoreClearsScheduleRefundEIP2200 else m, Inr SstoreResetGasEIP2200)
               else andThen
                 (sstore_dirty SstoreClearsScheduleRefundEIP2200 (SstoreSetGasEIP2200 - SloadGasEIP2200)
                    (SstoreResetGasEIP2200 - SloadGasEIP2200) original current val m)
                 (\<lambda>m. Ret (m, Inr SloadGasEIP2200)))))"

text \<open>\<open>Contains\<close> and \<open>AddSlot\<close> panic when the access list is malformed.\<close>

definition mc_SlotInAccessList :: "('t, 's) machine \<Rightarrow> hash \<Rightarrow> (bool \<times> bool) outcome" where
  "mc_SlotInAccessList m slot = must AccessListPanic (SlotInAccessList (mc_StateDB m) (mc_address m) slot)"

definition mc_AddSlotToAccessList :: "('t, 's) machine \<Rightarrow> hash \<Rightarrow> ('t, 's) machine outcome" where
  "mc_AddSlotToAccessList m slot =
     andThen (must AccessListPanic (AddSlotToAccessList (mc_StateDB m) (mc_address m) slot)) (\<lambda>s. Ret (set_StateDB s m))"

definition mc_AddAddressToAccessList :: "('t, 's) machine \<Rightarrow> address \<Rightarrow> ('t, 's) machine" where
  "mc_AddAddressToAccessList m addr = set_StateDB (AddAddressToAccessList (mc_StateDB m) addr) m"

text \<open>The first part of the EIP 2929 price of a write: a cold slot costs more and becomes warm.\<close>

definition cold_slot :: "('t, 's) machine \<Rightarrow> hash \<Rightarrow> (('t, 's) machine \<times> uint64) outcome" where
  "cold_slot m slot =
     andThen (mc_SlotInAccessList m slot) (\<lambda>(addrPresent, slotPresent).
       if \<not> slotPresent then
         andThen (mc_AddSlotToAccessList m slot) (\<lambda>m.
           if \<not> addrPresent then Panic AccessListPanic else Ret (m, ColdSloadCostEIP2929))
       else Ret (m, 0))"

definition gasSStoreEIP2929 :: "('t, 's) gasFunc" where
  "gasSStoreEIP2929 env m memorySize =
     (if c_Gas (mc_contract m) \<le> SstoreSentryGasEIP2200
      then Ret (m, Inl (ErrOther ''not enough gas for reentrancy sentry''))
      else andThen (Back (mc_stack m) 1) (\<lambda>y. andThen (Back (mc_stack m) 0) (\<lambda>x.
        let U = ee_uint256 env; slot = u_Bytes32 U x
        in case mc_GetState env m slot of (m, current) \<Rightarrow>
          andThen (cold_slot m slot) (\<lambda>(m, cost).
            let val = u_Bytes32 U y
            in if current = val then Ret (m, Inr (cost + WarmStorageReadCostEIP2929))
               else case mc_GetCommittedState env m (u_Bytes32 U x) of (m, original) \<Rightarrow>
                 if original = current then
                   if original = 0 then Ret (m, Inr (cost + SstoreSetGasEIP2200))
                   else Ret (if val = 0 then mc_AddRefund m SstoreClearsScheduleRefundEIP2200 else m,
                             Inr (cost + (SstoreResetGasEIP2200 - ColdSloadCostEIP2929)))
                 else andThen
                   (sstore_dirty SstoreClearsScheduleRefundEIP2200 (SstoreSetGasEIP2200 - WarmStorageReadCostEIP2929)
                      ((SstoreResetGasEIP2200 - ColdSloadCostEIP2929) - WarmStorageReadCostEIP2929) original current val m)
                   (\<lambda>m. Ret (m, Inr (cost + WarmStorageReadCostEIP2929)))))))"

definition gasSLoadEIP2929 :: "('t, 's) gasFunc" where
  "gasSLoadEIP2929 env m memorySize =
     andThen (Back (mc_stack m) 0) (\<lambda>loc.
       let slot = u_Bytes32 (ee_uint256 env) loc
       in andThen (mc_SlotInAccessList m slot) (\<lambda>(_, slotPresent).
         if \<not> slotPresent then andThen (mc_AddSlotToAccessList m slot) (\<lambda>m. Ret (m, Inr ColdSloadCostEIP2929))
         else Ret (m, Inr WarmStorageReadCostEIP2929)))"

section \<open>Accounts and calls\<close>

definition gasExtCodeCopyEIP2929 :: "('t, 's) gasFunc" where
  "gasExtCodeCopyEIP2929 env m memorySize =
     gas_bind (gasExtCodeCopy env m memorySize) (\<lambda>m gas.
       andThen (Back (mc_stack m) 0) (\<lambda>a.
         let addr = u_Bytes20 (ee_uint256 env) a
         in if \<not> AddressInAccessList (mc_StateDB m) addr then
              gas_step (mc_AddAddressToAccessList m addr)
                (safe_add gas (ColdAccountAccessCostEIP2929 - WarmStorageReadCostEIP2929))
            else gas_step m (Inr gas)))"

definition gasEip2929AccountCheck :: "('t, 's) gasFunc" where
  "gasEip2929AccountCheck env m memorySize =
     andThen (Back (mc_stack m) 0) (\<lambda>a.
       let addr = u_Bytes20 (ee_uint256 env) a
       in if \<not> AddressInAccessList (mc_StateDB m) addr then
            Ret (mc_AddAddressToAccessList m addr, Inr (ColdAccountAccessCostEIP2929 - WarmStorageReadCostEIP2929))
          else Ret (m, Inr 0))"

definition mc_Exist :: "('t, 's) evm_env \<Rightarrow> ('t, 's) machine \<Rightarrow> address \<Rightarrow> ('t, 's) machine \<times> bool" where
  "mc_Exist env m a = (case Exist (ee_backend env) (mc_StateDB m) a of (s, b) \<Rightarrow> (set_StateDB s m, b))"

definition mc_Empty :: "('t, 's) evm_env \<Rightarrow> ('t, 's) machine \<Rightarrow> address \<Rightarrow> ('t, 's) machine \<times> bool" where
  "mc_Empty env m a = (case Empty (ee_backend env) (mc_StateDB m) a of (s, b) \<Rightarrow> (set_StateDB s m, b))"

definition mc_GetBalance :: "('t, 's) evm_env \<Rightarrow> ('t, 's) machine \<Rightarrow> address \<Rightarrow> ('t, 's) machine \<times> int" where
  "mc_GetBalance env m a = (case GetBalance (ee_backend env) (mc_StateDB m) a of (s, b) \<Rightarrow> (set_StateDB s m, b))"

definition mc_HasSuicided :: "('t, 's) evm_env \<Rightarrow> ('t, 's) machine \<Rightarrow> address \<Rightarrow> ('t, 's) machine \<times> bool" where
  "mc_HasSuicided env m a = (case HasSuicided (ee_backend env) (mc_StateDB m) a of (s, b) \<Rightarrow> (set_StateDB s m, b))"

text \<open>
  The end of the gas of every call: \<open>callGas\<close> decides what the callee gets, \<open>callGasTemp\<close> keeps it for the
  instruction, and it is paid for here.
\<close>

definition gas_callee :: "('t, 's) evm_env \<Rightarrow> ('t, 's) machine \<Rightarrow> uint64 \<Rightarrow> (('t, 's) machine \<times> (vm_error + uint64)) outcome" where
  "gas_callee env m gas =
     andThen (Back (mc_stack m) 0) (\<lambda>callCost.
       case callGas (ee_uint256 env) (IsEIP150 (ee_chainRules env)) (c_Gas (mc_contract m)) gas callCost of
         Inl e \<Rightarrow> Ret (m\<lparr>mc_evm := (mc_evm m)\<lparr>ev_callGasTemp := 0\<rparr>\<rparr>, Inl e)
       | Inr temp \<Rightarrow> gas_step (m\<lparr>mc_evm := (mc_evm m)\<lparr>ev_callGasTemp := temp\<rparr>\<rparr>) (safe_add gas temp))"

definition gasCall_account ::
  "('t, 's) evm_env \<Rightarrow> ('t, 's) machine \<Rightarrow> bool \<Rightarrow> address \<Rightarrow> ('t, 's) machine \<times> uint64" where
  "gasCall_account env m transfersValue addr =
     (if IsEIP158 (ee_chainRules env) then
        if transfersValue then case mc_Empty env m addr of (m, b) \<Rightarrow> (m, if b then CallNewAccountGas else 0)
        else (m, 0)
      else case mc_Exist env m addr of (m, b) \<Rightarrow> (m, if \<not> b then CallNewAccountGas else 0))"

definition gasCall :: "('t, 's) gasFunc" where
  "gasCall env m memorySize =
     andThen (Back (mc_stack m) 2) (\<lambda>v. andThen (Back (mc_stack m) 1) (\<lambda>a.
       let transfersValue = (\<not> u_IsZero (ee_uint256 env) v); addr = u_Bytes20 (ee_uint256 env) a
       in case gasCall_account env m transfersValue addr of (m, gas) \<Rightarrow>
         let gas = (if transfersValue then gas + CallValueTransferGas else gas)
         in gas_bind (gas_memory m memorySize) (\<lambda>m memoryGas.
            gas_bind (gas_step m (safe_add gas memoryGas)) (gas_callee env))))"

definition gasCallCode :: "('t, 's) gasFunc" where
  "gasCallCode env m memorySize =
     gas_bind (gas_memory m memorySize) (\<lambda>m memoryGas.
       andThen (Back (mc_stack m) 2) (\<lambda>v.
         let gas = (if u_Sign (ee_uint256 env) v \<noteq> 0 then CallValueTransferGas else 0)
         in gas_bind (gas_step m (safe_add gas memoryGas)) (gas_callee env)))"

definition gasDelegateCall :: "('t, 's) gasFunc" where
  "gasDelegateCall env m memorySize = gas_bind (gas_memory m memorySize) (gas_callee env)"

definition gasStaticCall :: "('t, 's) gasFunc" where
  "gasStaticCall env m memorySize = gas_bind (gas_memory m memorySize) (gas_callee env)"

definition makeCallVariantGasCallEIP2929 :: "('t, 's) gasFunc \<Rightarrow> ('t, 's) gasFunc" where
  "makeCallVariantGasCallEIP2929 oldCalculator env m memorySize =
     andThen (Back (mc_stack m) 1) (\<lambda>a.
       let addr = u_Bytes20 (ee_uint256 env) a
       in if \<not> AddressInAccessList (mc_StateDB m) addr then
            let m = mc_AddAddressToAccessList m addr
            in case UseGas (mc_contract m) (ColdAccountAccessCostEIP2929 - WarmStorageReadCostEIP2929) of (c, ok) \<Rightarrow>
                 if \<not> ok then Ret (m, Inl ErrOutOfGas)
                 else oldCalculator env (m\<lparr>mc_contract := c\<rparr>) memorySize
          else oldCalculator env m memorySize)"

definition gasCallEIP2929 :: "('t, 's) gasFunc" where "gasCallEIP2929 = makeCallVariantGasCallEIP2929 gasCall"
definition gasDelegateCallEIP2929 :: "('t, 's) gasFunc" where
  "gasDelegateCallEIP2929 = makeCallVariantGasCallEIP2929 gasDelegateCall"
definition gasStaticCallEIP2929 :: "('t, 's) gasFunc" where
  "gasStaticCallEIP2929 = makeCallVariantGasCallEIP2929 gasStaticCall"
definition gasCallCodeEIP2929 :: "('t, 's) gasFunc" where
  "gasCallCodeEIP2929 = makeCallVariantGasCallEIP2929 gasCallCode"

text \<open>The account that self-destructs is refunded once.\<close>

definition suicide_refund :: "('t, 's) evm_env \<Rightarrow> ('t, 's) machine \<Rightarrow> ('t, 's) machine" where
  "suicide_refund env m =
     (case mc_HasSuicided env m (mc_address m) of (m, b) \<Rightarrow> if \<not> b then mc_AddRefund m SelfdestructRefundGas else m)"

text \<open>Whether the beneficiary is empty and would receive something; the balance is read only then.\<close>

definition empty_and_paid :: "('t, 's) evm_env \<Rightarrow> ('t, 's) machine \<Rightarrow> address \<Rightarrow> ('t, 's) machine \<times> bool" where
  "empty_and_paid env m addr =
     (case mc_Empty env m addr of (m, e) \<Rightarrow>
        if e then case mc_GetBalance env m (mc_address m) of (m, b) \<Rightarrow> (m, b \<noteq> 0) else (m, False))"

definition gasSelfdestruct :: "('t, 's) gasFunc" where
  "gasSelfdestruct env m memorySize =
     (if IsEIP150 (ee_chainRules env) then
        andThen (Back (mc_stack m) 0) (\<lambda>a.
          let addr = u_Bytes20 (ee_uint256 env) a
          in if IsEIP158 (ee_chainRules env) then
               case empty_and_paid env m addr of (m, b) \<Rightarrow>
                 Ret (suicide_refund env m,
                      Inr (if b then SelfdestructGasEIP150 + CreateBySelfdestructGas else SelfdestructGasEIP150))
             else
               case mc_Exist env m addr of (m, b) \<Rightarrow>
                 Ret (suicide_refund env m,
                      Inr (if \<not> b then SelfdestructGasEIP150 + CreateBySelfdestructGas else SelfdestructGasEIP150)))
      else Ret (suicide_refund env m, Inr 0))"

definition gasSelfdestructEIP2929 :: "('t, 's) gasFunc" where
  "gasSelfdestructEIP2929 env m memorySize =
     andThen (Back (mc_stack m) 0) (\<lambda>a.
       let addr = u_Bytes20 (ee_uint256 env) a;
           (m, gas) = (if \<not> AddressInAccessList (mc_StateDB m) addr
                       then (mc_AddAddressToAccessList m addr, ColdAccountAccessCostEIP2929) else (m, 0))
       in case empty_and_paid env m addr of (m, b) \<Rightarrow>
            Ret (suicide_refund env m, Inr (if b then gas + CreateBySelfdestructGas else gas)))"

end
