(* ===== verification/EvmCall.thy ===== *)
theory EvmCall
  imports EvmGas
begin

text \<open>
  Native contracts and calls (\<open>core/vm/contracts.go\<close>, \<open>core/vm/evm.go\<close>, \<open>core/evm.go\<close>,
  \<open>crypto.CreateAddress\<close>). The calls take the interpreter as a parameter (\<open>runner\<close>), so that instructions,
  calls and the interpreter's loop can refer to each other; the loop closes the knot.
\<close>

section \<open>Native contracts\<close>

definition PrecompiledContractsHomestead :: "address \<rightharpoonup> precompile" where
  "PrecompiledContractsHomestead = map_of [(1, ecrecover), (2, sha256hash), (3, ripemd160hash), (4, dataCopy)]"

definition PrecompiledContractsByzantium :: "address \<rightharpoonup> precompile" where
  "PrecompiledContractsByzantium = map_of
     [(1, ecrecover), (2, sha256hash), (3, ripemd160hash), (4, dataCopy), (5, bigModExp False),
      (6, bn256AddByzantium), (7, bn256ScalarMulByzantium), (8, bn256PairingByzantium)]"

definition PrecompiledContractsIstanbul :: "address \<rightharpoonup> precompile" where
  "PrecompiledContractsIstanbul = map_of
     [(1, ecrecover), (2, sha256hash), (3, ripemd160hash), (4, dataCopy), (5, bigModExp False),
      (6, bn256AddIstanbul), (7, bn256ScalarMulIstanbul), (8, bn256PairingIstanbul), (9, blake2F)]"

definition PrecompiledContractsYoloV2 :: "address \<rightharpoonup> precompile" where
  "PrecompiledContractsYoloV2 = map_of
     [(1, ecrecover), (2, sha256hash), (3, ripemd160hash), (4, dataCopy), (5, bigModExp False),
      (6, bn256AddIstanbul), (7, bn256ScalarMulIstanbul), (8, bn256PairingIstanbul), (9, blake2F),
      (10, bls12381G1Add), (11, bls12381G1Mul), (12, bls12381G1MultiExp), (13, bls12381G2Add),
      (14, bls12381G2Mul), (15, bls12381G2MultiExp), (16, bls12381Pairing), (17, bls12381MapG1), (18, bls12381MapG2)]"

definition evm_precompile :: "Rules \<Rightarrow> address \<Rightarrow> precompile option" where
  "evm_precompile rules addr =
     (if IsYoloV2 rules then PrecompiledContractsYoloV2
      else if IsIstanbul rules then PrecompiledContractsIstanbul
      else if IsByzantium rules then PrecompiledContractsByzantium
      else PrecompiledContractsHomestead) addr"

text \<open>
  The lists of addresses that \<open>init\<close> fills. A loop over a map visits its keys in an order of its own, the
  argument; the assignment of the second loop is the one of the code.
\<close>

record precompiled_addresses =
  PrecompiledAddressesYoloV2 :: "address list"
  PrecompiledAddressesIstanbul :: "address list"
  PrecompiledAddressesByzantium :: "address list"
  PrecompiledAddressesHomestead :: "address list"

definition contracts_init :: "address list \<Rightarrow> address list \<Rightarrow> address list \<Rightarrow> address list \<Rightarrow> precompiled_addresses" where
  "contracts_init homestead byzantium istanbul yolo =
     (let l = \<lparr>PrecompiledAddressesYoloV2 = [], PrecompiledAddressesIstanbul = [],
               PrecompiledAddressesByzantium = [], PrecompiledAddressesHomestead = []\<rparr>;
          l = foldl (\<lambda>l k. l\<lparr>PrecompiledAddressesHomestead := PrecompiledAddressesHomestead l @ [k]\<rparr>) l homestead;
          l = foldl (\<lambda>l k. l\<lparr>PrecompiledAddressesHomestead := PrecompiledAddressesByzantium l @ [k]\<rparr>) l byzantium;
          l = foldl (\<lambda>l k. l\<lparr>PrecompiledAddressesIstanbul := PrecompiledAddressesIstanbul l @ [k]\<rparr>) l istanbul
      in foldl (\<lambda>l k. l\<lparr>PrecompiledAddressesYoloV2 := PrecompiledAddressesYoloV2 l @ [k]\<rparr>) l yolo)"

definition ActivePrecompiles :: "precompiled_addresses \<Rightarrow> Rules \<Rightarrow> address list" where
  "ActivePrecompiles l rules =
     (if IsYoloV2 rules then PrecompiledAddressesYoloV2 l
      else if IsIstanbul rules then PrecompiledAddressesIstanbul l
      else if IsByzantium rules then PrecompiledAddressesByzantium l
      else PrecompiledAddressesHomestead l)"

definition Bls12381MultiExpDiscountTable :: "nat list" where
  "Bls12381MultiExpDiscountTable =
     [1200, 888, 764, 641, 594, 547, 500, 453, 438, 423, 408, 394, 379, 364, 349, 334, 330, 326, 322, 318, 314, 310,
      306, 302, 298, 294, 289, 285, 281, 277, 273, 269, 268, 266, 265, 263, 262, 260, 259, 257, 256, 254, 253, 251,
      250, 248, 247, 245, 244, 242, 241, 239, 238, 236, 235, 233, 232, 231, 229, 228, 226, 225, 223, 222, 221, 220,
      219, 219, 218, 217, 216, 216, 215, 214, 213, 213, 212, 211, 211, 210, 209, 208, 208, 207, 206, 205, 205, 204,
      203, 202, 202, 201, 200, 199, 199, 198, 197, 196, 196, 195, 194, 193, 193, 192, 191, 191, 190, 189, 188, 188,
      187, 186, 185, 185, 184, 183, 182, 182, 181, 180, 179, 179, 178, 177, 176, 176, 175, 174]"

definition multiexp_gas :: "nat \<Rightarrow> uint64 \<Rightarrow> bytes \<Rightarrow> uint64" where
  "multiexp_gas len mulGas input =
     (let k = length input div len; dLen = length Bls12381MultiExpDiscountTable
      in if k = 0 then 0
         else (of_nat k * mulGas *
               of_nat (Bls12381MultiExpDiscountTable ! (if k < dLen then k - 1 else dLen - 1))) div 1000)"

definition modexpMultComplexity :: "int \<Rightarrow> int" where
  "modexpMultComplexity x =
     (if x \<le> 64 then x * x
      else if x \<le> 1024 then (x * x) div 4 + (96 * x - 3072)
      else (x * x) div 16 + (480 * x - 199680))"

definition modexp_expHead :: "bytes \<Rightarrow> int \<Rightarrow> int \<Rightarrow> int outcome" where
  "modexp_expHead input baseLen expLen =
     (if int (length input) \<le> baseLen then Ret 0
      else andThen (getData input (of_int baseLen) (if expLen > 32 then 32 else of_int expLen)) (\<lambda>d. Ret (int (be_nat d))))"

definition modexp_gas :: "bool \<Rightarrow> bytes \<Rightarrow> uint64 outcome" where
  "modexp_gas eip2565 input =
     andThen (getData input 0 32) (\<lambda>d0. andThen (getData input 32 32) (\<lambda>d1. andThen (getData input 64 32) (\<lambda>d2.
       let baseLen = int (be_nat d0); expLen = int (be_nat d1); modLen = int (be_nat d2);
           input = (if length input > 96 then drop 96 input else [])
       in andThen (modexp_expHead input baseLen expLen) (\<lambda>expHead.
         let bitlen = big_bitlen (nat expHead);
             msb = (if bitlen > 0 then int bitlen - 1 else 0);
             adjExpLen = (if expLen > 32 then 8 * (expLen - 32) else 0) + msb;
             gas = max modLen baseLen
         in if eip2565 then
              let gas = (gas + 7) div 8; gas = gas * gas * max adjExpLen 1 div 3
              in Ret (if big_bitlen (nat gas) > 64 then -1 else if of_int gas < (200 :: uint64) then 200 else of_int gas)
            else
              let gas = modexpMultComplexity gas * max adjExpLen 1 div 20
              in Ret (if big_bitlen (nat gas) > 64 then -1 else of_int gas)))))"

definition per_word :: "bytes \<Rightarrow> uint64 \<Rightarrow> uint64 \<Rightarrow> uint64" where
  "per_word input wordGas base = of_nat (length input + 31) div 32 * wordGas + base"

fun RequiredGas :: "precompile \<Rightarrow> bytes \<Rightarrow> uint64 outcome" where
  "RequiredGas ecrecover input = Ret 3000"
| "RequiredGas sha256hash input = Ret (per_word input 12 60)"
| "RequiredGas ripemd160hash input = Ret (per_word input 120 600)"
| "RequiredGas dataCopy input = Ret (per_word input 3 15)"
| "RequiredGas (bigModExp eip2565) input = modexp_gas eip2565 input"
| "RequiredGas bn256AddByzantium input = Ret 500"
| "RequiredGas bn256AddIstanbul input = Ret 150"
| "RequiredGas bn256ScalarMulByzantium input = Ret 40000"
| "RequiredGas bn256ScalarMulIstanbul input = Ret 6000"
| "RequiredGas bn256PairingByzantium input = Ret (100000 + of_nat (length input div 192) * 80000)"
| "RequiredGas bn256PairingIstanbul input = Ret (45000 + of_nat (length input div 192) * 34000)"
| "RequiredGas blake2F input = Ret (if length input \<noteq> 213 then 0 else of_nat (be_nat (take 4 input)))"
| "RequiredGas bls12381G1Add input = Ret 600"
| "RequiredGas bls12381G1Mul input = Ret 12000"
| "RequiredGas bls12381G1MultiExp input = Ret (multiexp_gas 160 12000 input)"
| "RequiredGas bls12381G2Add input = Ret 4500"
| "RequiredGas bls12381G2Mul input = Ret 55000"
| "RequiredGas bls12381G2MultiExp input = Ret (multiexp_gas 288 55000 input)"
| "RequiredGas bls12381Pairing input = Ret (115000 + of_nat (length input div 384) * 23000)"
| "RequiredGas bls12381MapG1 input = Ret 5500"
| "RequiredGas bls12381MapG2 input = Ret 110000"

text \<open>
  The slice a call returns: bytes of its own, or, from \<open>dataCopy.Run\<close>, the very slice it was given.
\<close>

datatype retdata = Fresh bytes | Input_slice

definition ret_bytes :: "bytes \<Rightarrow> retdata \<Rightarrow> bytes" where
  "ret_bytes input r = (case r of Fresh bs \<Rightarrow> bs | Input_slice \<Rightarrow> input)"

definition precompile_Run :: "('t, 's) evm_env \<Rightarrow> precompile \<Rightarrow> bytes \<Rightarrow> retdata \<times> vm_error option" where
  "precompile_Run env p input =
     (if p = dataCopy then (Input_slice, None)
      else case ee_native env p input of (output, err) \<Rightarrow> (Fresh output, map_option ErrOther err))"

definition RunPrecompiledContract ::
  "('t, 's) evm_env \<Rightarrow> precompile \<Rightarrow> bytes \<Rightarrow> uint64 \<Rightarrow> (retdata \<times> uint64 \<times> vm_error option) outcome" where
  "RunPrecompiledContract env p input suppliedGas =
     andThen (RequiredGas p input) (\<lambda>gasCost.
       if suppliedGas < gasCost then Ret (Fresh [], 0, Some ErrOutOfGas)
       else case precompile_Run env p input of (output, err) \<Rightarrow> Ret (output, suppliedGas - gasCost, err))"

section \<open>Transfers and addresses\<close>

definition CanTransfer :: "('t, 's) backend \<Rightarrow> ('t, 's) StateDB \<Rightarrow> address \<Rightarrow> int \<Rightarrow> ('t, 's) StateDB \<times> bool" where
  "CanTransfer env db addr amount = (case GetBalance env db addr of (db, b) \<Rightarrow> (db, b \<ge> amount))"

definition Transfer :: "('t, 's) backend \<Rightarrow> ('t, 's) StateDB \<Rightarrow> address \<Rightarrow> address \<Rightarrow> int \<Rightarrow> ('t, 's) StateDB" where
  "Transfer env db sender recipient amount = AddBalance env (SubBalance env db sender amount) recipient amount"

text \<open>The error of the encoder is dropped; the value below always encodes.\<close>

definition CreateAddress :: "('t, 's) backend \<Rightarrow> address \<Rightarrow> uint64 \<Rightarrow> address" where
  "CreateAddress env b nonce =
     (case EncodeToBytes (VList [VArray (addr_Bytes b), VUint nonce]) of
        Inr (Some bs) \<Rightarrow> ucast (be_Keccak256 env bs)
      | _ \<Rightarrow> ucast (be_Keccak256 env []))"

definition CreateAddress2 :: "('t, 's) backend \<Rightarrow> address \<Rightarrow> hash \<Rightarrow> hash \<Rightarrow> address" where
  "CreateAddress2 env b salt inithash =
     ucast (be_Keccak256 env ([0xff] @ addr_Bytes b @ hash_Bytes salt @ hash_Bytes inithash))"

section \<open>Calls\<close>

type_synonym ('t, 's) runner =
  "('t, 's) EVM \<Rightarrow> Contract \<Rightarrow> bytes \<Rightarrow> bool \<Rightarrow> (('t, 's) EVM \<times> Contract \<times> bytes \<times> vm_error option) outcome"

type_synonym ('t, 's) call_result = "('t, 's) EVM \<times> retdata \<times> uint64 \<times> vm_error option"

text \<open>The end of every call: on an error the state goes back to the snapshot and, unless reverted, the gas is lost.\<close>

definition end_call :: "('t, 's) evm_env \<Rightarrow> int \<Rightarrow> ('t, 's) call_result \<Rightarrow> ('t, 's) call_result outcome" where
  "end_call env snapshot r =
     (case r of
        (evm, ret, gas, None) \<Rightarrow> Ret (evm, ret, gas, None)
      | (evm, ret, gas, Some err) \<Rightarrow>
          andThen (must RevisionPanic (RevertToSnapshot (ee_backend env) (ev_StateDB evm) snapshot)) (\<lambda>s.
            Ret (evm\<lparr>ev_StateDB := s\<rparr>, ret, if err \<noteq> ErrExecutionReverted then 0 else gas, Some err)))"

text \<open>Running a native contract, and running the code of a fresh contract.\<close>

definition call_native :: "('t, 's) evm_env \<Rightarrow> ('t, 's) EVM \<Rightarrow> precompile \<Rightarrow> bytes \<Rightarrow> uint64 \<Rightarrow> ('t, 's) call_result outcome" where
  "call_native env evm p input gas =
     andThen (RunPrecompiledContract env p input gas) (\<lambda>(ret, gas, err). Ret (evm, ret, gas, err))"

definition run_contract ::
  "('t, 's) runner \<Rightarrow> ('t, 's) EVM \<Rightarrow> Contract \<Rightarrow> bytes \<Rightarrow> bool \<Rightarrow> ('t, 's) call_result outcome" where
  "run_contract run evm contract input readOnly =
     andThen (run evm contract input readOnly) (\<lambda>(evm, contract, ret, err). Ret (evm, Fresh ret, c_Gas contract, err))"

definition evm_GetCode :: "('t, 's) evm_env \<Rightarrow> ('t, 's) EVM \<Rightarrow> address \<Rightarrow> ('t, 's) EVM \<times> bytes" where
  "evm_GetCode env evm addr =
     (case GetCode (ee_backend env) (ev_StateDB evm) addr of (s, code) \<Rightarrow>
        (evm\<lparr>ev_StateDB := s\<rparr>, case code of None \<Rightarrow> [] | Some bs \<Rightarrow> bs))"

definition evm_GetCodeHash :: "('t, 's) evm_env \<Rightarrow> ('t, 's) EVM \<Rightarrow> address \<Rightarrow> ('t, 's) EVM \<times> hash" where
  "evm_GetCodeHash env evm addr =
     (case GetCodeHash (ee_backend env) (ev_StateDB evm) addr of (s, h) \<Rightarrow> (evm\<lparr>ev_StateDB := s\<rparr>, h))"

definition evm_CanTransfer :: "('t, 's) evm_env \<Rightarrow> ('t, 's) EVM \<Rightarrow> address \<Rightarrow> int \<Rightarrow> ('t, 's) EVM \<times> bool" where
  "evm_CanTransfer env evm addr amount =
     (case CanTransfer (ee_backend env) (ev_StateDB evm) addr amount of (s, b) \<Rightarrow> (evm\<lparr>ev_StateDB := s\<rparr>, b))"

definition evm_Exist :: "('t, 's) evm_env \<Rightarrow> ('t, 's) EVM \<Rightarrow> address \<Rightarrow> ('t, 's) EVM \<times> bool" where
  "evm_Exist env evm addr =
     (case Exist (ee_backend env) (ev_StateDB evm) addr of (s, b) \<Rightarrow> (evm\<lparr>ev_StateDB := s\<rparr>, b))"

definition evm_Snapshot :: "('t, 's) EVM \<Rightarrow> ('t, 's) EVM \<times> int" where
  "evm_Snapshot evm = (case Snapshot (ev_StateDB evm) of (s, i) \<Rightarrow> (evm\<lparr>ev_StateDB := s\<rparr>, i))"

definition evm_NewContract ::
  "('t, 's) EVM \<Rightarrow> ContractRef \<Rightarrow> address \<Rightarrow> int \<Rightarrow> uint64 \<Rightarrow> ('t, 's) EVM \<times> Contract" where
  "evm_NewContract evm caller object val gas =
     (case NewContract caller object val gas (ev_jumpdests evm) of (c, jd) \<Rightarrow> (evm\<lparr>ev_jumpdests := jd\<rparr>, c))"

text \<open>The transfer of \<open>Call\<close>, after the account has been created if it must be.\<close>

definition call_transfer ::
  "('t, 's) evm_env \<Rightarrow> ('t, 's) EVM \<Rightarrow> bool \<Rightarrow> ContractRef \<Rightarrow> address \<Rightarrow> int \<Rightarrow> ('t, 's) EVM" where
  "call_transfer env evm exists caller addr val =
     (let s = ev_StateDB evm; s = (if exists then s else CreateAccount (ee_backend env) s addr)
      in evm\<lparr>ev_StateDB := Transfer (ee_backend env) s (ref_Address caller) addr val\<rparr>)"

text \<open>What \<open>Call\<close> runs: a native contract, nothing for an account without code, or the account's code.\<close>

definition call_code ::
  "('t, 's) evm_env \<Rightarrow> ('t, 's) runner \<Rightarrow> ('t, 's) EVM \<Rightarrow> ContractRef \<Rightarrow> address \<Rightarrow> bytes \<Rightarrow> uint64 \<Rightarrow> int \<Rightarrow>
   ('t, 's) call_result outcome" where
  "call_code env run evm caller addr input gas val =
     (case evm_precompile (ee_chainRules env) addr of
        Some p \<Rightarrow> call_native env evm p input gas
      | None \<Rightarrow>
          (case evm_GetCode env evm addr of (evm, code) \<Rightarrow>
             if code = [] then Ret (evm, Fresh [], gas, None)
             else case evm_NewContract evm caller addr val gas of (evm, contract) \<Rightarrow>
               case evm_GetCodeHash env evm addr of (evm, h) \<Rightarrow>
                 run_contract run evm (SetCallCode contract addr h code) input False))"

definition Call ::
  "('t, 's) evm_env \<Rightarrow> ('t, 's) runner \<Rightarrow> ('t, 's) EVM \<Rightarrow> ContractRef \<Rightarrow> address \<Rightarrow> bytes \<Rightarrow> uint64 \<Rightarrow> int \<Rightarrow>
   ('t, 's) call_result outcome" where
  "Call env run evm caller addr input gas val =
     (if ee_NoRecursion env \<and> ev_depth evm > 0 then Ret (evm, Fresh [], gas, None)
      else if ev_depth evm > CallCreateDepth then Ret (evm, Fresh [], gas, Some ErrDepth)
      else case (if val \<noteq> 0 then evm_CanTransfer env evm (ref_Address caller) val else (evm, True)) of (evm, ok) \<Rightarrow>
        if \<not> ok then Ret (evm, Fresh [], gas, Some ErrInsufficientBalance)
        else case evm_Snapshot evm of (evm, snapshot) \<Rightarrow>
          case evm_Exist env evm addr of (evm, exists) \<Rightarrow>
            if \<not> exists \<and> evm_precompile (ee_chainRules env) addr = None \<and> IsEIP158 (ee_chainRules env) \<and> val = 0
            then Ret (evm, Fresh [], gas, None)
            else andThen (call_code env run (call_transfer env evm exists caller addr val) caller addr input gas val)
                   (end_call env snapshot))"

text \<open>The code of another account, as \<open>CallCode\<close>, \<open>DelegateCall\<close> and \<open>StaticCall\<close> run it.\<close>

definition foreign_code ::
  "('t, 's) evm_env \<Rightarrow> ('t, 's) runner \<Rightarrow> ('t, 's) EVM \<Rightarrow> Contract \<Rightarrow> address \<Rightarrow> bytes \<Rightarrow> bool \<Rightarrow>
   ('t, 's) call_result outcome" where
  "foreign_code env run evm contract addr input readOnly =
     (case evm_GetCodeHash env evm addr of (evm, h) \<Rightarrow>
        case evm_GetCode env evm addr of (evm, code) \<Rightarrow>
          run_contract run evm (SetCallCode contract addr h code) input readOnly)"

definition CallCode ::
  "('t, 's) evm_env \<Rightarrow> ('t, 's) runner \<Rightarrow> ('t, 's) EVM \<Rightarrow> ContractRef \<Rightarrow> address \<Rightarrow> bytes \<Rightarrow> uint64 \<Rightarrow> int \<Rightarrow>
   ('t, 's) call_result outcome" where
  "CallCode env run evm caller addr input gas val =
     (if ee_NoRecursion env \<and> ev_depth evm > 0 then Ret (evm, Fresh [], gas, None)
      else if ev_depth evm > CallCreateDepth then Ret (evm, Fresh [], gas, Some ErrDepth)
      else case evm_CanTransfer env evm (ref_Address caller) val of (evm, ok) \<Rightarrow>
        if \<not> ok then Ret (evm, Fresh [], gas, Some ErrInsufficientBalance)
        else case evm_Snapshot evm of (evm, snapshot) \<Rightarrow>
          andThen
            (case evm_precompile (ee_chainRules env) addr of
               Some p \<Rightarrow> call_native env evm p input gas
             | None \<Rightarrow>
                 (case evm_NewContract evm caller (ref_Address caller) val gas of (evm, contract) \<Rightarrow>
                    foreign_code env run evm contract addr input False))
            (end_call env snapshot))"

definition DelegateCall ::
  "('t, 's) evm_env \<Rightarrow> ('t, 's) runner \<Rightarrow> ('t, 's) EVM \<Rightarrow> ContractRef \<Rightarrow> address \<Rightarrow> bytes \<Rightarrow> uint64 \<Rightarrow>
   ('t, 's) call_result outcome" where
  "DelegateCall env run evm caller addr input gas =
     (if ee_NoRecursion env \<and> ev_depth evm > 0 then Ret (evm, Fresh [], gas, None)
      else if ev_depth evm > CallCreateDepth then Ret (evm, Fresh [], gas, Some ErrDepth)
      else case evm_Snapshot evm of (evm, snapshot) \<Rightarrow>
        andThen
          (case evm_precompile (ee_chainRules env) addr of
             Some p \<Rightarrow> call_native env evm p input gas
           | None \<Rightarrow>
               (case evm_NewContract evm caller (ref_Address caller) 0 gas of (evm, contract) \<Rightarrow>
                  andThen (AsDelegate contract) (\<lambda>contract. foreign_code env run evm contract addr input False)))
          (end_call env snapshot))"

definition StaticCall ::
  "('t, 's) evm_env \<Rightarrow> ('t, 's) runner \<Rightarrow> ('t, 's) EVM \<Rightarrow> ContractRef \<Rightarrow> address \<Rightarrow> bytes \<Rightarrow> uint64 \<Rightarrow>
   ('t, 's) call_result outcome" where
  "StaticCall env run evm caller addr input gas =
     (if ee_NoRecursion env \<and> ev_depth evm > 0 then Ret (evm, Fresh [], gas, None)
      else if ev_depth evm > CallCreateDepth then Ret (evm, Fresh [], gas, Some ErrDepth)
      else case evm_Snapshot evm of (evm, snapshot) \<Rightarrow>
        let evm = evm\<lparr>ev_StateDB := AddBalance (ee_backend env) (ev_StateDB evm) addr 0\<rparr>
        in andThen
             (case evm_precompile (ee_chainRules env) addr of
                Some p \<Rightarrow> call_native env evm p input gas
              | None \<Rightarrow>
                  (case evm_NewContract evm caller addr 0 gas of (evm, contract) \<Rightarrow>
                     foreign_code env run evm contract addr input True))
             (end_call env snapshot))"

section \<open>Creating contracts\<close>

type_synonym ('t, 's) create_result = "('t, 's) EVM \<times> bytes \<times> address \<times> uint64 \<times> vm_error option"

text \<open>\<open>codeAndHash\<close> with its hash, zero when it has not been computed.\<close>

record codeAndHash =
  ch_code :: bytes
  ch_hash :: hash

text \<open>
  After the initialisation code has run: the code is stored if it is short enough and paid for; a failure
  reverts the state, except that running out of gas for the code did not before Homestead.
\<close>

definition end_create ::
  "('t, 's) evm_env \<Rightarrow> int \<Rightarrow> address \<Rightarrow> ('t, 's) EVM \<times> Contract \<times> bytes \<times> vm_error option \<Rightarrow>
   ('t, 's) create_result outcome" where
  "end_create env snapshot addr r =
     (case r of (evm, contract, ret, err) \<Rightarrow>
        let rules = ee_chainRules env;
            maxCodeSizeExceeded = (IsEIP158 rules \<and> length ret > MaxCodeSize);
            (evm, contract, err) =
              (if err = None \<and> \<not> maxCodeSizeExceeded then
                 case UseGas contract (of_nat (length ret) * CreateDataGas) of (contract, ok) \<Rightarrow>
                   if ok then (evm\<lparr>ev_StateDB := SetCode (ee_backend env) (ev_StateDB evm) addr ret\<rparr>, contract, err)
                   else (evm, contract, Some ErrCodeStoreOutOfGas)
               else (evm, contract, err))
        in andThen
             (if maxCodeSizeExceeded \<or> (err \<noteq> None \<and> (IsHomestead rules \<or> err \<noteq> Some ErrCodeStoreOutOfGas)) then
                andThen (must RevisionPanic (RevertToSnapshot (ee_backend env) (ev_StateDB evm) snapshot)) (\<lambda>s.
                  Ret (evm\<lparr>ev_StateDB := s\<rparr>,
                       if err \<noteq> Some ErrExecutionReverted then fst (UseGas contract (c_Gas contract)) else contract))
              else Ret (evm, contract))
             (\<lambda>(evm, contract).
                Ret (evm, ret, addr, c_Gas contract,
                     if maxCodeSizeExceeded \<and> err = None then Some ErrMaxCodeSizeExceeded else err)))"

definition create_collides :: "('t, 's) evm_env \<Rightarrow> ('t, 's) EVM \<Rightarrow> address \<Rightarrow> ('t, 's) EVM \<times> bool" where
  "create_collides env evm addr =
     (case evm_GetCodeHash env evm addr of (evm, contractHash) \<Rightarrow>
        case GetNonce (ee_backend env) (ev_StateDB evm) addr of (s, nonce) \<Rightarrow>
          (evm\<lparr>ev_StateDB := s\<rparr>,
           nonce \<noteq> 0 \<or> (contractHash \<noteq> 0 \<and> contractHash \<noteq> be_Keccak256 (ee_backend env) [])))"

text \<open>The caller's nonce goes up and, with access lists, the new address becomes warm, whatever happens next.\<close>

definition create_prepare :: "('t, 's) evm_env \<Rightarrow> ('t, 's) EVM \<Rightarrow> address \<Rightarrow> address \<Rightarrow> ('t, 's) EVM" where
  "create_prepare env evm caller addr =
     (case GetNonce (ee_backend env) (ev_StateDB evm) caller of (s, nonce) \<Rightarrow>
        let s = SetNonce (ee_backend env) s caller (nonce + 1);
            s = (if IsYoloV2 (ee_chainRules env) then AddAddressToAccessList s addr else s)
        in evm\<lparr>ev_StateDB := s\<rparr>)"

definition create_account :: "('t, 's) evm_env \<Rightarrow> ('t, 's) EVM \<Rightarrow> address \<Rightarrow> address \<Rightarrow> int \<Rightarrow> ('t, 's) EVM" where
  "create_account env evm caller addr val =
     (let s = CreateAccount (ee_backend env) (ev_StateDB evm) addr;
          s = (if IsEIP158 (ee_chainRules env) then SetNonce (ee_backend env) s addr 1 else s)
      in evm\<lparr>ev_StateDB := Transfer (ee_backend env) s caller addr val\<rparr>)"

definition evm_create ::
  "('t, 's) evm_env \<Rightarrow> ('t, 's) runner \<Rightarrow> ('t, 's) EVM \<Rightarrow> ContractRef \<Rightarrow> codeAndHash \<Rightarrow> uint64 \<Rightarrow> int \<Rightarrow> address \<Rightarrow>
   ('t, 's) create_result outcome" where
  "evm_create env run evm caller ch gas val addr =
     (if ev_depth evm > CallCreateDepth then Ret (evm, [], 0, gas, Some ErrDepth)
      else case evm_CanTransfer env evm (ref_Address caller) val of (evm, ok) \<Rightarrow>
        if \<not> ok then Ret (evm, [], 0, gas, Some ErrInsufficientBalance)
        else case create_collides env (create_prepare env evm (ref_Address caller) addr) addr of (evm, collides) \<Rightarrow>
          if collides then Ret (evm, [], 0, 0, Some ErrContractAddressCollision)
          else case evm_Snapshot evm of (evm, snapshot) \<Rightarrow>
            case evm_NewContract (create_account env evm (ref_Address caller) addr val) caller addr val gas of (evm, contract) \<Rightarrow>
              if ee_NoRecursion env \<and> ev_depth evm > 0 then Ret (evm, [], addr, gas, None)
              else andThen
                     (run evm (contract\<lparr>c_Code := ch_code ch, c_CodeHash := ch_hash ch, c_CodeAddr := Some addr\<rparr>) [] False)
                     (end_create env snapshot addr))"

definition Create ::
  "('t, 's) evm_env \<Rightarrow> ('t, 's) runner \<Rightarrow> ('t, 's) EVM \<Rightarrow> ContractRef \<Rightarrow> bytes \<Rightarrow> uint64 \<Rightarrow> int \<Rightarrow>
   ('t, 's) create_result outcome" where
  "Create env run evm caller code gas val =
     (case GetNonce (ee_backend env) (ev_StateDB evm) (ref_Address caller) of (s, nonce) \<Rightarrow>
        evm_create env run (evm\<lparr>ev_StateDB := s\<rparr>) caller \<lparr>ch_code = code, ch_hash = 0\<rparr> gas val
          (CreateAddress (ee_backend env) (ref_Address caller) nonce))"

definition Create2 ::
  "('t, 's) evm_env \<Rightarrow> ('t, 's) runner \<Rightarrow> ('t, 's) EVM \<Rightarrow> ContractRef \<Rightarrow> bytes \<Rightarrow> uint64 \<Rightarrow> int \<Rightarrow> u256 \<Rightarrow>
   ('t, 's) create_result outcome" where
  "Create2 env run evm caller code gas endowment salt =
     (let h = be_Keccak256 (ee_backend env) code
      in evm_create env run evm caller \<lparr>ch_code = code, ch_hash = h\<rparr> gas endowment
           (CreateAddress2 (ee_backend env) (ref_Address caller) (u_Bytes32 (ee_uint256 env) salt) h))"

end
