(* ===== verification/StateTransition.thy ===== *)
theory StateTransition
  imports EvmCall
begin

text \<open>
  Applying a message to the state (\<open>core/state_transition.go\<close>) and the gas of a block (\<open>core/gaspool.go\<close>).
  \<open>st.state\<close> and \<open>st.evm.StateDB\<close> are the same database, the one in \<open>st_evm\<close>. The texts that \<open>fmt.Errorf\<close> adds
  to an error are left out.
\<close>

section \<open>The gas pool\<close>

datatype core_error =
    ErrNonceTooLow | ErrNonceTooHigh | ErrGasLimitReached | ErrInsufficientFundsForTransfer | ErrInsufficientFunds
  | core_ErrGasUintOverflow | ErrIntrinsicGas

type_synonym GasPool = uint64

text \<open>\<open>AddGas\<close> panics when the pool would pass 64 bits: \<open>None\<close>.\<close>

definition AddGas :: "GasPool \<Rightarrow> uint64 \<Rightarrow> GasPool option" where
  "AddGas gp amount = (if gp > - 1 - amount then None else Some (gp + amount))"

definition SubGas :: "GasPool \<Rightarrow> uint64 \<Rightarrow> GasPool \<times> core_error option" where
  "SubGas gp amount = (if gp < amount then (gp, Some ErrGasLimitReached) else (gp - amount, None))"

definition GasPool_Gas :: "GasPool \<Rightarrow> uint64" where
  "GasPool_Gas gp = gp"

section \<open>Messages and results\<close>

record Message =
  msg_From :: address
  msg_To :: "address option"
  msg_GasPrice :: int
  msg_Gas :: uint64
  msg_Value :: int
  msg_Nonce :: uint64
  msg_CheckNonce :: bool
  msg_Data :: bytes

record ExecutionResult =
  ex_UsedGas :: uint64
  ex_Err :: "vm_error option"
  ex_ReturnData :: bytes

definition Unwrap :: "ExecutionResult \<Rightarrow> vm_error option" where
  "Unwrap result = ex_Err result"

definition Failed :: "ExecutionResult \<Rightarrow> bool" where
  "Failed result \<longleftrightarrow> ex_Err result \<noteq> None"

definition result_Return :: "ExecutionResult \<Rightarrow> bytes" where
  "result_Return result = (if ex_Err result \<noteq> None then [] else ex_ReturnData result)"

definition result_Revert :: "ExecutionResult \<Rightarrow> bytes" where
  "result_Revert result = (if ex_Err result \<noteq> Some ErrExecutionReverted then [] else ex_ReturnData result)"

section \<open>Intrinsic gas\<close>

definition TxGas :: uint64 where "TxGas = 21000"
definition TxGasContractCreation :: uint64 where "TxGasContractCreation = 53000"
definition TxDataZeroGas :: uint64 where "TxDataZeroGas = 4"
definition TxDataNonZeroGasFrontier :: uint64 where "TxDataNonZeroGasFrontier = 68"
definition TxDataNonZeroGasEIP2028 :: uint64 where "TxDataNonZeroGasEIP2028 = 16"

definition nonzero_bytes :: "bytes \<Rightarrow> uint64" where
  "nonzero_bytes data = foldl (\<lambda>nz byt. if byt \<noteq> 0 then nz + 1 else nz) 0 data"

definition IntrinsicGas :: "bytes \<Rightarrow> bool \<Rightarrow> bool \<Rightarrow> bool \<Rightarrow> core_error + uint64" where
  "IntrinsicGas data contractCreation isHomestead isEIP2028 =
     (let gas = (if contractCreation \<and> isHomestead then TxGasContractCreation else TxGas)
      in if length data > 0 then
           let nz = nonzero_bytes data;
               nonZeroGas = (if isEIP2028 then TxDataNonZeroGasEIP2028 else TxDataNonZeroGasFrontier)
           in if (- 1 - gas) div nonZeroGas < nz then Inl core_ErrGasUintOverflow
              else
                let gas = gas + nz * nonZeroGas; z = of_nat (length data) - nz
                in if (- 1 - gas) div TxDataZeroGas < z then Inl core_ErrGasUintOverflow
                   else Inr (gas + z * TxDataZeroGas)
         else Inr gas)"

section \<open>The transition\<close>

record ('t, 's) StateTransition =
  st_gp :: GasPool
  st_msg :: Message
  st_gas :: uint64
  st_gasPrice :: int
  st_initialGas :: uint64
  st_value :: int
  st_data :: bytes
  st_evm :: "('t, 's) EVM"

definition NewStateTransition :: "('t, 's) EVM \<Rightarrow> Message \<Rightarrow> GasPool \<Rightarrow> ('t, 's) StateTransition" where
  "NewStateTransition evm msg gp =
     \<lparr>st_gp = gp, st_msg = msg, st_gas = 0, st_gasPrice = msg_GasPrice msg, st_initialGas = 0, st_value = msg_Value msg,
      st_data = msg_Data msg, st_evm = evm\<rparr>"

definition st_state :: "('t, 's) StateTransition \<Rightarrow> ('t, 's) StateDB" where
  "st_state st = ev_StateDB (st_evm st)"

definition set_state :: "('t, 's) StateDB \<Rightarrow> ('t, 's) StateTransition \<Rightarrow> ('t, 's) StateTransition" where
  "set_state s st = st\<lparr>st_evm := (st_evm st)\<lparr>ev_StateDB := s\<rparr>\<rparr>"

definition st_to :: "('t, 's) StateTransition \<Rightarrow> address" where
  "st_to st = (case msg_To (st_msg st) of None \<Rightarrow> 0 | Some a \<Rightarrow> a)"

definition gasUsed :: "('t, 's) StateTransition \<Rightarrow> uint64" where
  "gasUsed st = st_initialGas st - st_gas st"

definition buyGas :: "('t, 's) backend \<Rightarrow> ('t, 's) StateTransition \<Rightarrow> ('t, 's) StateTransition \<times> core_error option" where
  "buyGas be st =
     (let msg = st_msg st; mgval = uint (msg_Gas msg) * st_gasPrice st
      in case GetBalance be (st_state st) (msg_From msg) of (s, hv) \<Rightarrow>
           let st = set_state s st
           in if hv < mgval then (st, Some ErrInsufficientFunds)
              else case SubGas (st_gp st) (msg_Gas msg) of
                     (gp, Some err) \<Rightarrow> (st\<lparr>st_gp := gp\<rparr>, Some err)
                   | (gp, None) \<Rightarrow>
                       let st = st\<lparr>st_gp := gp, st_gas := st_gas st + msg_Gas msg, st_initialGas := msg_Gas msg\<rparr>
                       in (set_state (SubBalance be (st_state st) (msg_From msg) mgval) st, None))"

definition preCheck :: "('t, 's) backend \<Rightarrow> ('t, 's) StateTransition \<Rightarrow> ('t, 's) StateTransition \<times> core_error option" where
  "preCheck be st =
     (let msg = st_msg st
      in if msg_CheckNonce msg then
           case GetNonce be (st_state st) (msg_From msg) of (s, stNonce) \<Rightarrow>
             let st = set_state s st
             in if stNonce < msg_Nonce msg then (st, Some ErrNonceTooHigh)
                else if stNonce > msg_Nonce msg then (st, Some ErrNonceTooLow)
                else buyGas be st
         else buyGas be st)"

definition refundGas :: "('t, 's) backend \<Rightarrow> ('t, 's) StateTransition \<Rightarrow> ('t, 's) StateTransition outcome" where
  "refundGas be st =
     (let refund = gasUsed st div 2;
          refund = (if refund > GetRefund (st_state st) then GetRefund (st_state st) else refund);
          st = st\<lparr>st_gas := st_gas st + refund\<rparr>;
          remaining = uint (st_gas st) * st_gasPrice st;
          st = set_state (AddBalance be (st_state st) (msg_From (st_msg st)) remaining) st
      in andThen (must GasPoolPanic (AddGas (st_gp st) (st_gas st))) (\<lambda>gp. Ret (st\<lparr>st_gp := gp\<rparr>)))"

text \<open>The message's code: a creation, or a call after the nonce of the sender has been incremented.\<close>

definition execute_message ::
  "('t, 's) evm_env \<Rightarrow> ('t, 's) runner \<Rightarrow> ('t, 's) StateTransition \<Rightarrow>
   (('t, 's) StateTransition \<times> bytes \<times> vm_error option) outcome" where
  "execute_message env run st =
     (let msg = st_msg st; sender = AccountRef (msg_From msg); be = ee_backend env
      in if msg_To msg = None then
           andThen (Create env run (st_evm st) sender (st_data st) (st_gas st) (st_value st)) (\<lambda>(evm, ret, addr, gas, vmerr).
             Ret (st\<lparr>st_evm := evm, st_gas := gas\<rparr>, ret, vmerr))
         else
           case GetNonce be (st_state st) (msg_From msg) of (s, nonce) \<Rightarrow>
             let st = set_state (SetNonce be s (msg_From msg) (nonce + 1)) st
             in andThen (Call env run (st_evm st) sender (st_to st) (st_data st) (st_gas st) (st_value st)) (\<lambda>(evm, ret, gas, vmerr).
                  Ret (st\<lparr>st_evm := evm, st_gas := gas\<rparr>, ret_bytes (st_data st) ret, vmerr)))"

definition TransitionDb ::
  "('t, 's) evm_env \<Rightarrow> ('t, 's) runner \<Rightarrow> ('t, 's) StateTransition \<Rightarrow>
   (('t, 's) StateTransition \<times> (core_error + ExecutionResult)) outcome" where
  "TransitionDb env run st =
     (let be = ee_backend env
      in case preCheck be st of
           (st, Some err) \<Rightarrow> Ret (st, Inl err)
         | (st, None) \<Rightarrow>
             let msg = st_msg st; contractCreation = (msg_To msg = None)
             in case IntrinsicGas (st_data st) contractCreation (IsHomestead (ee_chainRules env)) (IsIstanbul (ee_chainRules env)) of
                  Inl err \<Rightarrow> Ret (st, Inl err)
                | Inr gas \<Rightarrow>
                    if st_gas st < gas then Ret (st, Inl ErrIntrinsicGas)
                    else
                      let st = st\<lparr>st_gas := st_gas st - gas\<rparr>
                      in case (if msg_Value msg > 0 then CanTransfer be (st_state st) (msg_From msg) (msg_Value msg)
                               else (st_state st, True)) of (s, ok) \<Rightarrow>
                           let st = set_state s st
                           in if \<not> ok then Ret (st, Inl ErrInsufficientFundsForTransfer)
                              else
                                andThen (execute_message env run st) (\<lambda>(st, ret, vmerr).
                                andThen (refundGas be st) (\<lambda>st.
                                  let st = set_state (AddBalance be (st_state st) (ee_Coinbase env)
                                                        (uint (gasUsed st) * st_gasPrice st)) st
                                  in Ret (st, Inr \<lparr>ex_UsedGas = gasUsed st, ex_Err = vmerr, ex_ReturnData = ret\<rparr>))))"

definition ApplyMessage ::
  "('t, 's) evm_env \<Rightarrow> ('t, 's) runner \<Rightarrow> ('t, 's) EVM \<Rightarrow> Message \<Rightarrow> GasPool \<Rightarrow>
   (('t, 's) StateTransition \<times> (core_error + ExecutionResult)) outcome" where
  "ApplyMessage env run evm msg gp = TransitionDb env run (NewStateTransition evm msg gp)"

section \<open>The price of a message\<close>

text \<open>What \<open>IntrinsicGas\<close> should be, in the integers.\<close>

definition intrinsic_gas :: "bytes \<Rightarrow> bool \<Rightarrow> bool \<Rightarrow> bool \<Rightarrow> nat" where
  "intrinsic_gas data contractCreation isHomestead isEIP2028 =
     (if contractCreation \<and> isHomestead then 53000 else 21000) +
     length (filter (\<lambda>b. b \<noteq> 0) data) * (if isEIP2028 then 16 else 68) + length (filter (\<lambda>b. b = 0) data) * 4"

lemma nonzero_bytes_foldl:
  "foldl (\<lambda>nz byt. if byt \<noteq> 0 then nz + 1 else nz) (of_nat n :: uint64) data = of_nat (n + length (filter (\<lambda>b. b \<noteq> (0 :: byte)) data))"
proof (induction data arbitrary: n)
  case (Cons b data)
  show ?case using Cons [of n] Cons [of "Suc n"] by (simp add: add.commute)
qed simp

lemma nonzero_bytes_count: "nonzero_bytes data = of_nat (length (filter (\<lambda>b. b \<noteq> 0) data))"
  unfolding nonzero_bytes_def using nonzero_bytes_foldl [of 0 data] by simp

lemma unat_bound: "unat (g :: uint64) < 2 ^ 64"
  using unsigned_less [of g] by simp

lemma unat_small: "n < 2 ^ 64 \<Longrightarrow> unat (of_nat n :: uint64) = n"
  by (simp add: unat_of_nat take_bit_nat_eq_self)

lemma minus_one_unat: "unat (- 1 - g :: uint64) = 2 ^ 64 - 1 - unat g"
proof -
  have "unat (- 1 :: uint64) = 2 ^ 64 - 1" by (simp add: unsigned_minus_1_eq_mask mask_eq_exp_minus_1)
  moreover have "g \<le> - 1" by (rule word_order.extremum)
  ultimately show ?thesis by (simp only: unat_sub)
qed

text \<open>The guard of the two additions: it holds exactly when the sum does not fit.\<close>

lemma gas_guard:
  assumes "0 < unat c" "n < 2 ^ 64"
  shows "(- 1 - g :: uint64) div c < of_nat n \<longleftrightarrow> 2 ^ 64 \<le> unat g + n * unat c"
proof -
  have "(- 1 - g :: uint64) div c < of_nat n \<longleftrightarrow> (2 ^ 64 - 1 - unat g) div unat c < n"
    using assms(2) by (simp add: word_less_nat_alt unat_div minus_one_unat unat_small)
  also have "\<dots> \<longleftrightarrow> 2 ^ 64 - 1 - unat g < n * unat c" using assms(1) by (simp add: div_less_iff_less_mult)
  also have "\<dots> \<longleftrightarrow> 2 ^ 64 \<le> unat g + n * unat c" using unat_bound [of g] by auto
  finally show ?thesis .
qed

lemma gas_sum:
  assumes "n < 2 ^ 64" "\<not> 2 ^ 64 \<le> unat g + n * unat c"
  shows "unat (g + of_nat n * c :: uint64) = unat g + n * unat c"
  using assms by (simp add: unat_word_ariths unat_small)

lemma IntrinsicGas_value:
  assumes "length data < 2 ^ 64"
  shows "IntrinsicGas data cc hs eip =
    (if intrinsic_gas data cc hs eip < 2 ^ 64 then Inr (of_nat (intrinsic_gas data cc hs eip)) else Inl core_ErrGasUintOverflow)"
proof -
  define g :: uint64 where "g = (if cc \<and> hs then 53000 else 21000)"
  define c :: uint64 where "c = (if eip then 16 else 68)"
  define n where "n = length (filter (\<lambda>b. b \<noteq> 0) data)"
  define z where "z = length (filter (\<lambda>b. b = 0) data)"
  have len: "length data = n + z" using sum_length_filter_compl [of "\<lambda>b. b \<noteq> 0" data] by (simp add: n_def z_def)
  then have small: "n < 2 ^ 64" "z < 2 ^ 64" using assms by simp_all
  have total: "intrinsic_gas data cc hs eip = unat g + n * unat c + z * unat (4 :: uint64)"
    by (simp add: intrinsic_gas_def g_def c_def n_def z_def)
  have zz: "of_nat (length data) - of_nat n = (of_nat z :: uint64)" by (simp add: len)
  have first: "(- 1 - g) div c < of_nat n \<longleftrightarrow> 2 ^ 64 \<le> unat g + n * unat c"
    by (rule gas_guard) (use small in \<open>simp_all add: c_def\<close>)
  have second: "(- 1 - (g + of_nat n * c)) div 4 < of_nat z \<longleftrightarrow> 2 ^ 64 \<le> intrinsic_gas data cc hs eip"
    if "\<not> 2 ^ 64 \<le> unat g + n * unat c"
    using gas_guard [of 4 z "g + of_nat n * c"] small(2) gas_sum [OF small(1) that] by (simp add: total)
  have val: "g + of_nat n * c + of_nat z * 4 = of_nat (intrinsic_gas data cc hs eip)" by (simp add: total)
  have "IntrinsicGas data cc hs eip = (if (- 1 - g) div c < of_nat n then Inl core_ErrGasUintOverflow
      else if (- 1 - (g + of_nat n * c)) div 4 < of_nat z then Inl core_ErrGasUintOverflow else Inr (g + of_nat n * c + of_nat z * 4))"
    if "data \<noteq> []"
    using that zz by (simp add: IntrinsicGas_def Let_def nonzero_bytes_count n_def [symmetric] g_def c_def TxGas_def TxGasContractCreation_def
        TxDataZeroGas_def TxDataNonZeroGasFrontier_def TxDataNonZeroGasEIP2028_def)
  moreover have "2 ^ 64 \<le> intrinsic_gas data cc hs eip" if "2 ^ 64 \<le> unat g + n * unat c" using that by (simp add: total)
  ultimately show ?thesis
    using first second val
    by (cases "data = []") (auto simp: IntrinsicGas_def Let_def TxGas_def TxGasContractCreation_def intrinsic_gas_def not_le)
qed

section \<open>Properties\<close>

text \<open>C13: \<open>IntrinsicGas\<close> is exact: it is the price of the transaction and of its zero and non-zero bytes, in the
  integers, and reports an overflow exactly when that does not fit into 64 bits; data of less than 2^57 bytes never
  overflows.\<close>

theorem IntrinsicGas_exact:
  assumes "length data < 2 ^ 64"
  shows "IntrinsicGas data cc hs eip =
      (if intrinsic_gas data cc hs eip < 2 ^ 64 then Inr (of_nat (intrinsic_gas data cc hs eip)) else Inl core_ErrGasUintOverflow) \<and>
    (length data < 2 ^ 57 \<longrightarrow> IntrinsicGas data cc hs eip = Inr (of_nat (intrinsic_gas data cc hs eip)))"
proof -
  define n where "n = length (filter (\<lambda>b. b \<noteq> 0) data)"
  define z where "z = length (filter (\<lambda>b. b = 0) data)"
  have "n \<le> length data" "z \<le> length data" by (simp_all add: n_def z_def)
  then have "intrinsic_gas data cc hs eip \<le> 53000 + 72 * length data"
    unfolding intrinsic_gas_def n_def [symmetric] z_def [symmetric] by (simp split: if_split)
  then show ?thesis using IntrinsicGas_value [OF assms, of cc hs eip] by auto
qed

theorem IntrinsicGas_exact_witness:
  "IntrinsicGas [0, 1, 255] True True False = Inr 53140"
  using IntrinsicGas_exact [of "[0, 1, 255]" True True False] by (simp add: intrinsic_gas_def)

end
