(* ===== verification/StateView.thy ===== *)
theory StateView
  imports StateDB
begin

text \<open>
  A view of the state database that leaves out its caches: for each address what the client can read of the
  account, and the fields that are neither caches nor part of the journal. Reads keep the view.
\<close>

section \<open>Views\<close>

definition or_else :: "'a option \<Rightarrow> 'a option \<Rightarrow> 'a option" where
  "or_else x y = (case x of Some v \<Rightarrow> Some v | None \<Rightarrow> y)"

lemma or_else_simps [simp]: "or_else (Some v) y = Some v" "or_else None y = y"
  by (simp_all add: or_else_def)

definition peek :: "('t, 's) backend \<Rightarrow> ('t, 's) StateDB \<Rightarrow> address \<Rightarrow> 't stateObject option" where
  "peek env s a =
     or_else (sd_stateObjects s a) (map_option (newObject env a) (fst (load_Account env (sd_snap s) (sd_trie s) a)))"

record acct_view =
  av_data :: Account
  av_suicided :: bool
  av_deleted :: bool
  av_code :: "bytes option"
  av_state :: "hash \<Rightarrow> hash"
  av_committed :: "hash \<Rightarrow> hash"

definition oview :: "('t, 's) backend \<Rightarrow> 's option \<Rightarrow> hash set \<Rightarrow> 't stateObject \<Rightarrow> acct_view" where
  "oview env snap D obj =
     \<lparr>av_data = so_data obj, av_suicided = so_suicided obj, av_deleted = so_deleted obj,
      av_code = snd (so_Code env obj),
      av_state = (\<lambda>k. snd (so_GetState env snap (so_addrHash obj \<in> D) obj k)),
      av_committed = (\<lambda>k. snd (so_GetCommittedState env snap (so_addrHash obj \<in> D) obj k))\<rparr>"

text \<open>The fields that are neither caches nor part of the journal.\<close>

definition rest :: "('t, 's) StateDB \<Rightarrow> ('t, 's) StateDB" where
  "rest s = s\<lparr>sd_stateObjects := Map.empty, sd_dbErr := None, sd_logs := Map.empty, sd_journal := newJournal,
     sd_validRevisions := [], sd_nextRevisionId := 0\<rparr>"

definition accounts :: "('t, 's) backend \<Rightarrow> ('t, 's) StateDB \<Rightarrow> address \<Rightarrow> acct_view option" where
  "accounts env s a = map_option (oview env (sd_snap s) (sd_snapDestructs s)) (peek env s a)"

definition same :: "('t, 's) backend \<Rightarrow> ('t, 's) StateDB \<Rightarrow> ('t, 's) StateDB \<Rightarrow> bool" where
  "same env s s' \<longleftrightarrow> rest s = rest s' \<and> GetLogs s = GetLogs s' \<and> accounts env s = accounts env s'"

lemma same_refl [simp]: "same env s s"
  by (simp add: same_def)

lemma same_sym: "same env s s' \<Longrightarrow> same env s' s"
  by (simp add: same_def)

lemma same_trans: "same env s s' \<Longrightarrow> same env s' s'' \<Longrightarrow> same env s s''"
  by (simp add: same_def)

lemma rest_sel:
  assumes "rest s = rest s'"
  shows "sd_trie s = sd_trie s'" "sd_snap s = sd_snap s'" "sd_snapDestructs s = sd_snapDestructs s'"
    "sd_stateObjectsDirty s = sd_stateObjectsDirty s'" "sd_stateObjectsPending s = sd_stateObjectsPending s'"
    "sd_refund s = sd_refund s'"
    "sd_thash s = sd_thash s'" "sd_logSize s = sd_logSize s'" "sd_preimages s = sd_preimages s'"
    "sd_accessList s = sd_accessList s'"
  using assms by (cases s; cases s'; simp add: rest_def)+

section \<open>Reads of an object\<close>

lemma getTrie_snd: "snd (getTrie env (fst (getTrie env obj))) = snd (getTrie env obj)"
  by (auto simp: getTrie_def so_setError_def Let_def split: option.splits prod.splits)

text \<open>Everything about an object that its read caches do not influence.\<close>

definition so_fixed :: "'t stateObject \<Rightarrow> 't stateObject" where
  "so_fixed obj = obj\<lparr>so_dbErr := None, so_trie := None, so_code := None, so_originStorage := Map.empty\<rparr>"

definition get_or :: "'a option \<Rightarrow> 'a \<Rightarrow> 'a" where
  "get_or x d = (case x of Some v \<Rightarrow> v | None \<Rightarrow> d)"

lemma get_or_simps [simp]: "get_or (Some v) d = v" "get_or None d = d"
  by (simp_all add: get_or_def)

definition backend_value :: "('t, 's) backend \<Rightarrow> 's option \<Rightarrow> bool \<Rightarrow> hash \<Rightarrow> 't \<Rightarrow> hash \<Rightarrow> hash" where
  "backend_value env snap d addrHash tr k =
     (let from_trie = (case be_TryGet env tr (hash_Bytes k) of Inl _ \<Rightarrow> 0 | Inr enc \<Rightarrow> fst (committed_value enc))
      in case snap of
           None \<Rightarrow> from_trie
         | Some sn \<Rightarrow>
             if d then 0
             else (case be_Storage env sn addrHash (be_Keccak256 env (hash_Bytes k)) of
                     Inl _ \<Rightarrow> from_trie | Inr enc \<Rightarrow> fst (committed_value enc)))"

lemma load_committed_snd:
  "snd (load_committed env obj k) =
     (case be_TryGet env (snd (getTrie env obj)) (hash_Bytes k) of Inl _ \<Rightarrow> 0 | Inr enc \<Rightarrow> fst (committed_value enc))"
  by (auto simp: load_committed_def cache_committed_def Let_def split: sum.splits prod.splits)

lemma committed_snd:
  "so_fakeStorage obj = None \<Longrightarrow> snd (so_GetCommittedState env snap d obj k) =
     get_or (so_pendingStorage obj k)
       (get_or (so_originStorage obj k) (backend_value env snap d (so_addrHash obj) (snd (getTrie env obj)) k))"
  by (auto simp: so_GetCommittedState_def backend_value_def load_committed_snd cache_committed_def Let_def
      split: option.splits sum.splits prod.splits)

lemma state_snd:
  "so_fakeStorage obj = None \<Longrightarrow> snd (so_GetState env snap d obj k) =
     get_or (so_dirtyStorage obj k) (snd (so_GetCommittedState env snap d obj k))"
  by (auto simp: so_GetState_def split: option.splits)

lemma so_fixed_sel:
  assumes "so_fixed obj = so_fixed obj'"
  shows "so_address obj = so_address obj'" "so_addrHash obj = so_addrHash obj'" "so_data obj = so_data obj'"
    "so_pendingStorage obj = so_pendingStorage obj'" "so_dirtyStorage obj = so_dirtyStorage obj'"
    "so_fakeStorage obj = so_fakeStorage obj'" "so_suicided obj = so_suicided obj'" "so_deleted obj = so_deleted obj'"
  using assms by (cases obj; cases obj'; simp add: so_fixed_def)+

lemma oview_cong:
  assumes "so_fixed obj' = so_fixed obj" "so_fakeStorage obj = None" "snd (so_Code env obj') = snd (so_Code env obj)"
    and "\<And>k. snd (so_GetCommittedState env snap (so_addrHash obj \<in> D) obj' k) =
               snd (so_GetCommittedState env snap (so_addrHash obj \<in> D) obj k)"
  shows "oview env snap D obj' = oview env snap D obj"
  using assms so_fixed_sel [OF assms(1)] by (simp add: oview_def state_snd)

lemma Code_cong:
  "so_code obj' = so_code obj \<Longrightarrow> so_data obj' = so_data obj \<Longrightarrow> so_addrHash obj' = so_addrHash obj \<Longrightarrow>
     snd (so_Code env obj') = snd (so_Code env obj)"
  by (simp add: so_Code_def so_CodeHash_def Let_def split: option.splits prod.splits)

lemma getTrie_fst:
  "so_fixed (fst (getTrie env obj)) = so_fixed obj" "so_code (fst (getTrie env obj)) = so_code obj"
  "so_originStorage (fst (getTrie env obj)) = so_originStorage obj"
  by (cases obj; auto simp: getTrie_def so_fixed_def so_setError_def Let_def split: option.splits prod.splits)+

lemma setError_sel [simp]:
  "so_fixed (so_setError obj e) = so_fixed obj" "so_code (so_setError obj e) = so_code obj"
  "so_originStorage (so_setError obj e) = so_originStorage obj"
  "snd (getTrie env (so_setError obj e)) = snd (getTrie env obj)" "so_trie (so_setError obj e) = so_trie obj"
  by (cases obj; auto simp: so_fixed_def so_setError_def getTrie_def Let_def split: option.splits prod.splits)+

text \<open>What a read of committed storage does to the object: it only fills caches, with the value it returns.\<close>

definition warmed :: "('t, 's) backend \<Rightarrow> 't stateObject \<Rightarrow> 't stateObject \<Rightarrow> hash \<Rightarrow> hash \<Rightarrow> bool" where
  "warmed env obj obj' k v \<longleftrightarrow> so_fixed obj' = so_fixed obj \<and> so_code obj' = so_code obj \<and>
     snd (getTrie env obj') = snd (getTrie env obj) \<and>
     (so_originStorage obj' = so_originStorage obj \<or> so_originStorage obj' = (so_originStorage obj)(k \<mapsto> v))"

lemma cache_committed_warmed:
  "warmed env obj (fst (cache_committed obj k enc)) k (snd (cache_committed obj k enc))"
  by (auto simp: warmed_def cache_committed_def so_fixed_def so_setError_def getTrie_def Let_def
      split: option.splits prod.splits)

lemma load_committed_warmed:
  "warmed env obj (fst (load_committed env obj k)) k (snd (load_committed env obj k))"
proof -
  obtain obj1 tr where g: "getTrie env obj = (obj1, tr)" by force
  have eq: "so_fixed obj1 = so_fixed obj" "so_code obj1 = so_code obj" "so_originStorage obj1 = so_originStorage obj"
      "snd (getTrie env obj1) = snd (getTrie env obj)"
    using getTrie_fst [of env obj] getTrie_snd [of env obj] g by simp_all
  show ?thesis
  proof (cases "be_TryGet env tr (hash_Bytes k)")
    case (Inl e)
    then show ?thesis using eq g by (simp add: load_committed_def warmed_def)
  next
    case (Inr enc)
    then show ?thesis
      using eq g cache_committed_warmed [of env obj1 k enc] by (simp add: load_committed_def warmed_def)
  qed
qed

lemma GetCommittedState_warmed:
  "warmed env obj (fst (so_GetCommittedState env snap d obj k)) k (snd (so_GetCommittedState env snap d obj k))"
  using load_committed_warmed [of env obj k] cache_committed_warmed [of env obj k]
  by (auto simp: so_GetCommittedState_def split: option.splits sum.splits)
    (simp_all add: warmed_def)

lemma warmed_oview:
  assumes "so_fakeStorage obj = None" "warmed env obj obj' k (snd (so_GetCommittedState env snap (so_addrHash obj \<in> D) obj k))"
  shows "oview env snap D obj' = oview env snap D obj"
proof (rule oview_cong)
  note w = assms(2) [unfolded warmed_def]
  show f: "so_fixed obj' = so_fixed obj" using w by simp
  note sel = so_fixed_sel [OF f]
  show "snd (so_Code env obj') = snd (so_Code env obj)" using w sel by (intro Code_cong) simp_all
  fix j
  show "snd (so_GetCommittedState env snap (so_addrHash obj \<in> D) obj' j) =
      snd (so_GetCommittedState env snap (so_addrHash obj \<in> D) obj j)"
    using w assms(1) sel by (cases "j = k"; cases "so_pendingStorage obj k") (auto simp: committed_snd)
qed (rule assms(1))

lemma GetCommittedState_oview:
  assumes "so_fakeStorage obj = None"
  shows "oview env snap D (fst (so_GetCommittedState env snap (so_addrHash obj \<in> D) obj k)) = oview env snap D obj"
    "so_fixed (fst (so_GetCommittedState env snap (so_addrHash obj \<in> D) obj k)) = so_fixed obj"
proof -
  note w = GetCommittedState_warmed [of env obj snap "so_addrHash obj \<in> D" k]
  show "oview env snap D (fst (so_GetCommittedState env snap (so_addrHash obj \<in> D) obj k)) = oview env snap D obj"
    by (rule warmed_oview [OF assms w])
  show "so_fixed (fst (so_GetCommittedState env snap (so_addrHash obj \<in> D) obj k)) = so_fixed obj"
    using w by (simp add: warmed_def)
qed

lemma GetState_oview:
  assumes "so_fakeStorage obj = None"
  shows "oview env snap D (fst (so_GetState env snap (so_addrHash obj \<in> D) obj k)) = oview env snap D obj"
    "so_fixed (fst (so_GetState env snap (so_addrHash obj \<in> D) obj k)) = so_fixed obj"
  using GetCommittedState_oview [OF assms, of env snap D k] assms by (simp_all add: so_GetState_def split: option.splits)

lemma so_Code_fst:
  "so_fixed (fst (so_Code env obj)) = so_fixed obj" "snd (getTrie env (fst (so_Code env obj))) = snd (getTrie env obj)"
  "so_originStorage (fst (so_Code env obj)) = so_originStorage obj"
  "snd (so_Code env (fst (so_Code env obj))) = snd (so_Code env obj)"
  by (cases obj; auto simp: so_Code_def so_fixed_def so_setError_def getTrie_def so_CodeHash_def Let_def
      split: option.splits prod.splits if_splits)+

lemma so_Code_oview:
  assumes "so_fakeStorage obj = None"
  shows "oview env snap D (fst (so_Code env obj)) = oview env snap D obj"
proof (rule oview_cong)
  note sel = so_fixed_sel [OF so_Code_fst(1) [of env obj]]
  show "snd (so_GetCommittedState env snap (so_addrHash obj \<in> D) (fst (so_Code env obj)) k) =
      snd (so_GetCommittedState env snap (so_addrHash obj \<in> D) obj k)" for k
    using assms sel so_Code_fst(2,3) [of env obj] by (simp add: committed_snd)
qed (simp_all add: so_Code_fst assms)

lemma so_CodeSize_fst: "so_fixed (fst (so_CodeSize env obj)) = so_fixed obj" "so_code (fst (so_CodeSize env obj)) = so_code obj"
  "snd (getTrie env (fst (so_CodeSize env obj))) = snd (getTrie env obj)"
  "so_originStorage (fst (so_CodeSize env obj)) = so_originStorage obj"
  by (auto simp: so_CodeSize_def split: option.splits prod.splits)

lemma so_CodeSize_oview:
  assumes "so_fakeStorage obj = None"
  shows "oview env snap D (fst (so_CodeSize env obj)) = oview env snap D obj"
proof (rule oview_cong)
  note sel = so_fixed_sel [OF so_CodeSize_fst(1) [of env obj]]
  show "snd (so_Code env (fst (so_CodeSize env obj))) = snd (so_Code env obj)"
    using so_CodeSize_fst(2) sel by (intro Code_cong)
  show "snd (so_GetCommittedState env snap (so_addrHash obj \<in> D) (fst (so_CodeSize env obj)) k) =
      snd (so_GetCommittedState env snap (so_addrHash obj \<in> D) obj k)" for k
    using assms sel so_CodeSize_fst(3,4) [of env obj] by (simp add: committed_snd)
qed (simp_all add: so_CodeSize_fst assms)

section \<open>Well-formed databases\<close>

text \<open>
  What is assumed of the interfaces: Keccak-256 does not collide on addresses, the code hash of a stored
  account has 32 bytes, and the size of a contract's code is the length of the code.
\<close>

definition env_ok :: "('t, 's) backend \<Rightarrow> bool" where
  "env_ok env \<longleftrightarrow>
     (\<forall>a b. be_Keccak256 env (addr_Bytes a) = be_Keccak256 env (addr_Bytes b) \<longrightarrow> a = b) \<and>
     (\<forall>snap tr a acc. fst (load_Account env snap tr a) = Some acc \<longrightarrow> (\<exists>h. CodeHash acc = Some h \<and> length h = 32)) \<and>
     (\<forall>a h. fst (be_ContractCodeSize env a h) = (case fst (be_ContractCode env a h) of None \<Rightarrow> 0 | Some c \<Rightarrow> int (length c)))"

definition wf_obj :: "('t, 's) backend \<Rightarrow> address \<Rightarrow> 't stateObject \<Rightarrow> bool" where
  "wf_obj env a obj \<longleftrightarrow> so_address obj = a \<and> so_addrHash obj = be_Keccak256 env (addr_Bytes a) \<and>
     (\<exists>h. CodeHash (so_data obj) = Some h \<and> length h = 32) \<and> so_fakeStorage obj = None"

fun wf_entry :: "('t, 's) backend \<Rightarrow> 't journalEntry \<Rightarrow> bool" where
  "wf_entry env (resetObjectChange prev d) \<longleftrightarrow> wf_obj env (so_address prev) prev"
| "wf_entry env (codeChange a c h) \<longleftrightarrow> length h = 32"
| "wf_entry env _ \<longleftrightarrow> True"

definition wf_state :: "('t, 's) backend \<Rightarrow> ('t, 's) StateDB \<Rightarrow> bool" where
  "wf_state env s \<longleftrightarrow> (\<forall>a obj. sd_stateObjects s a = Some obj \<longrightarrow> wf_obj env a obj) \<and>
     sd_stateObjectsDirty s \<subseteq> dom (sd_stateObjects s)"

lemma wf_obj_fixed: "so_fixed obj' = so_fixed obj \<Longrightarrow> wf_obj env a obj' = wf_obj env a obj"
  using so_fixed_sel [of obj' obj] by (simp add: wf_obj_def)

lemma length_hash_Bytes [simp]: "length (hash_Bytes h) = 32"
  by (simp add: hash_Bytes_def)

lemma hash_Bytes_BytesToHash: "length b = 32 \<Longrightarrow> hash_Bytes (BytesToHash b) = b"
proof -
  assume l: "length b = 32"
  have "be_nat b < 256 ^ 32" using be_nat_less [of b] l by simp
  then have "unat (of_nat (be_nat b) :: hash) = be_nat b"
    by (simp add: unat_of_nat take_bit_nat_eq_self)
  then show ?thesis
    using l be_nat_less [of b] by (intro be_nat_inj) (simp_all add: hash_Bytes_def BytesToHash_def be_nat_be_fixed)
qed

lemma newObject_wf:
  "CodeHash data = None \<or> (\<exists>h. CodeHash data = Some h \<and> length h = 32) \<Longrightarrow> wf_obj env a (newObject env a data)"
  by (auto simp: newObject_def wf_obj_def emptyCodeHash_def Let_def)

lemma peek_wf: "env_ok env \<Longrightarrow> wf_state env s \<Longrightarrow> peek env s a = Some obj \<Longrightarrow> wf_obj env a obj"
  by (cases "sd_stateObjects s a") (auto simp: peek_def wf_state_def env_ok_def intro!: newObject_wf)

lemma wf_set: "wf_state env s \<Longrightarrow> wf_obj env (so_address obj) obj \<Longrightarrow> wf_state env (setStateObject s obj)"
  by (auto simp: wf_state_def setStateObject_def)

section \<open>Getting objects\<close>

text \<open>Two databases with the same journal and revisions and the same view.\<close>

definition silent :: "('t, 's) backend \<Rightarrow> ('t, 's) StateDB \<Rightarrow> ('t, 's) StateDB \<Rightarrow> bool" where
  "silent env s s' \<longleftrightarrow> same env s s' \<and> sd_journal s' = sd_journal s \<and> sd_validRevisions s' = sd_validRevisions s \<and>
     sd_nextRevisionId s' = sd_nextRevisionId s"

lemma silent_refl [simp]: "silent env s s"
  by (simp add: silent_def)

lemma silent_trans: "silent env s s' \<Longrightarrow> silent env s' s'' \<Longrightarrow> silent env s s''"
  by (auto simp: silent_def intro: same_trans)

lemma setStateObject_silent:
  assumes "peek env s (so_address obj') = Some obj"
    and "oview env (sd_snap s) (sd_snapDestructs s) obj' = oview env (sd_snap s) (sd_snapDestructs s) obj"
  shows "silent env s (setStateObject s obj')"
proof -
  have "accounts env (setStateObject s obj') a = accounts env s a" for a
    using assms by (cases "a = so_address obj'") (simp_all add: accounts_def peek_def setStateObject_def)
  moreover have "rest (setStateObject s obj') = rest s" "GetLogs (setStateObject s obj') = GetLogs s"
    by (simp_all add: rest_def setStateObject_def fun_eq_iff GetLogs_def)
  ultimately show ?thesis by (auto simp: silent_def same_def setStateObject_def)
qed

lemma sd_setError_sel [simp]:
  "sd_stateObjects (sd_setError s e) = sd_stateObjects s" "sd_snap (sd_setError s e) = sd_snap s"
  "sd_trie (sd_setError s e) = sd_trie s" "sd_snapDestructs (sd_setError s e) = sd_snapDestructs s"
  "sd_stateObjectsDirty (sd_setError s e) = sd_stateObjectsDirty s" "rest (sd_setError s e) = rest s"
  "sd_logs (sd_setError s e) = sd_logs s" "sd_journal (sd_setError s e) = sd_journal s"
  "sd_validRevisions (sd_setError s e) = sd_validRevisions s" "sd_nextRevisionId (sd_setError s e) = sd_nextRevisionId s"
  by (simp_all add: sd_setError_def rest_def)

lemma sd_setError_silent: "silent env s (sd_setError s e)"
  by (simp add: silent_def same_def accounts_def peek_def fun_eq_iff GetLogs_def)

lemma newObject_address [simp]: "so_address (newObject env a data) = a"
  by (simp add: newObject_def Let_def)

lemma getDeleted_eq:
  assumes "getDeletedStateObject env s a = (s', obj)"
  shows "obj = peek env s a" "silent env s s'" "sd_stateObjects s' a = obj"
    "env_ok env \<Longrightarrow> wf_state env s \<Longrightarrow> wf_state env s'"
proof -
  have *: "obj = peek env s a \<and> silent env s s' \<and> sd_stateObjects s' a = obj \<and>
      (env_ok env \<longrightarrow> wf_state env s \<longrightarrow> wf_state env s')"
  proof (cases "sd_stateObjects s a")
    case (Some o')
    with assms have "s' = s" "obj = Some o'" by (auto simp: getDeletedStateObject_def)
    with Some show ?thesis by (simp add: peek_def or_else_def)
  next
    case None
    obtain data err where l: "load_Account env (sd_snap s) (sd_trie s) a = (data, err)" by force
    show ?thesis
    proof (cases data)
      case N: None
      show ?thesis
      proof (cases err)
        case None
        with N l \<open>sd_stateObjects s a = None\<close> assms show ?thesis
          by (auto simp: getDeletedStateObject_def peek_def)
      next
        case (Some e)
        with N l \<open>sd_stateObjects s a = None\<close> assms show ?thesis
          using sd_setError_silent [of env s e]
          by (simp add: getDeletedStateObject_def peek_def wf_state_def) (auto simp: wf_state_def)
      qed
    next
      case (Some d)
      then have o: "obj = Some (newObject env a d)" "s' = setStateObject s (newObject env a d)"
        using None l assms by (auto simp: getDeletedStateObject_def Let_def)
      moreover have p: "peek env s a = Some (newObject env a d)" using None l Some by (simp add: peek_def)
      ultimately show ?thesis
        using setStateObject_silent [of env s "newObject env a d"] peek_wf [of env s a]
        by (auto intro: wf_set) (simp add: setStateObject_def)
    qed
  qed
  then show "obj = peek env s a" "silent env s s'" "sd_stateObjects s' a = obj"
    "env_ok env \<Longrightarrow> wf_state env s \<Longrightarrow> wf_state env s'" by auto
qed

definition live :: "'t stateObject option \<Rightarrow> 't stateObject option" where
  "live obj = (case obj of Some x \<Rightarrow> if so_deleted x then None else Some x | None \<Rightarrow> None)"

lemma getStateObject_eq:
  assumes "getStateObject env s a = (s', obj)"
  shows "obj = live (peek env s a)" "silent env s s'" "sd_stateObjects s' a = peek env s a"
    "env_ok env \<Longrightarrow> wf_state env s \<Longrightarrow> wf_state env s'"
proof -
  obtain o' where g: "getDeletedStateObject env s a = (s', o')" and o: "obj = live o'"
    using assms by (auto simp: getStateObject_def live_def split: prod.splits option.splits if_splits)
  note e = getDeleted_eq [OF g]
  show "obj = live (peek env s a)" "silent env s s'" "sd_stateObjects s' a = peek env s a"
    "env_ok env \<Longrightarrow> wf_state env s \<Longrightarrow> wf_state env s'"
    using o e by auto
qed

end
