(* ===== verification/StateUndo.thy ===== *)
theory StateUndo
  imports StateView
begin

text \<open>
  Undoing journal entries. What an entry undoes is a function of the view of the database (\<open>undo_view\<close>), so
  it does not depend on what the caches hold; a sequence of changes, each with an entry that undoes it
  (\<open>changes\<close>), is undone by reverting the entries from the newest to the oldest, without a panic.
\<close>

section \<open>Undoing entries on views\<close>

type_synonym ('t, 's) view = "('t, 's) StateDB \<times> (hash \<Rightarrow> Log list) \<times> (address \<Rightarrow> acct_view option)"

definition view :: "('t, 's) backend \<Rightarrow> ('t, 's) StateDB \<Rightarrow> ('t, 's) view" where
  "view env s = (rest s, GetLogs s, accounts env s)"

lemma same_view: "same env s s' \<longleftrightarrow> view env s = view env s'"
  by (simp add: same_def view_def)

lemma view_sel:
  assumes "view env s = view env s'"
  shows "rest s = rest s'" "GetLogs s = GetLogs s'" "accounts env s = accounts env s'"
  using assms by (simp_all add: view_def)

definition set_code_view :: "('t, 's) backend \<Rightarrow> address \<Rightarrow> hash \<Rightarrow> bytes option \<Rightarrow> acct_view \<Rightarrow> acct_view" where
  "set_code_view env a h code w =
     w\<lparr>av_data := (av_data w)\<lparr>CodeHash := Some (hash_Bytes h)\<rparr>,
       av_code := or_else code
         (if hash_Bytes h = emptyCodeHash env then None
          else fst (be_ContractCode env (be_Keccak256 env (addr_Bytes a)) h))\<rparr>"

definition at_live :: "('t, 's) view \<Rightarrow> address \<Rightarrow> (acct_view \<Rightarrow> acct_view) \<Rightarrow> ('t, 's) view option" where
  "at_live v a g =
     (case v of (R, L, A) \<Rightarrow>
        (case A a of Some w \<Rightarrow> if av_deleted w then None else Some (R, L, A(a \<mapsto> g w)) | None \<Rightarrow> None))"

fun undo_view :: "('t, 's) backend \<Rightarrow> 't journalEntry \<Rightarrow> ('t, 's) view \<Rightarrow> ('t, 's) view option" where
  "undo_view env (createObjectChange a) (R, L, A) =
     Some (R\<lparr>sd_stateObjectsDirty := sd_stateObjectsDirty R - {a}\<rparr>, L,
       A(a := map_option (\<lambda>d. oview env (sd_snap R) (sd_snapDestructs R) (newObject env a d))
                (fst (load_Account env (sd_snap R) (sd_trie R) a))))"
| "undo_view env (resetObjectChange prev prevdestruct) (R, L, A) =
     (let D = (if \<not> prevdestruct \<and> sd_snap R \<noteq> None then sd_snapDestructs R - {so_addrHash prev} else sd_snapDestructs R)
      in Some (R\<lparr>sd_snapDestructs := D\<rparr>, L, A(so_address prev \<mapsto> oview env (sd_snap R) D prev)))"
| "undo_view env (suicideChange a prev prevbalance) v =
     (case at_live v a (\<lambda>w. w\<lparr>av_suicided := prev, av_data := (av_data w)\<lparr>Balance := prevbalance\<rparr>\<rparr>) of
        None \<Rightarrow> Some v | Some v' \<Rightarrow> Some v')"
| "undo_view env (touchChange a) v = Some v"
| "undo_view env (balanceChange a prev) v = at_live v a (\<lambda>w. w\<lparr>av_data := (av_data w)\<lparr>Balance := prev\<rparr>\<rparr>)"
| "undo_view env (nonceChange a prev) v = at_live v a (\<lambda>w. w\<lparr>av_data := (av_data w)\<lparr>Nonce := prev\<rparr>\<rparr>)"
| "undo_view env (codeChange a prevcode prevhash) v = at_live v a (set_code_view env a (BytesToHash prevhash) prevcode)"
| "undo_view env (storageChange a key prevalue) v = at_live v a (\<lambda>w. w\<lparr>av_state := (av_state w)(key := prevalue)\<rparr>)"
| "undo_view env (refundChange prev) (R, L, A) = Some (R\<lparr>sd_refund := prev\<rparr>, L, A)"
| "undo_view env (addLogChange txhash) (R, L, A) =
     (if L txhash = [] then None
      else Some (R\<lparr>sd_logSize := sd_logSize R - 1\<rparr>, L(txhash := butlast (L txhash)), A))"
| "undo_view env (addPreimageChange h) (R, L, A) = Some (R\<lparr>sd_preimages := (sd_preimages R)(h := None)\<rparr>, L, A)"
| "undo_view env (accessListAddAccountChange a) (R, L, A) =
     Some (R\<lparr>sd_accessList := DeleteAddress (sd_accessList R) a\<rparr>, L, A)"
| "undo_view env (accessListAddSlotChange a slot) (R, L, A) =
     map_option (\<lambda>al. (R\<lparr>sd_accessList := al\<rparr>, L, A)) (DeleteSlot (sd_accessList R) a slot)"

section \<open>Views of changed objects\<close>

lemma rest_fields [simp]:
  "sd_trie (rest s) = sd_trie s" "sd_snap (rest s) = sd_snap s" "sd_snapDestructs (rest s) = sd_snapDestructs s"
  "sd_stateObjectsDirty (rest s) = sd_stateObjectsDirty s" "sd_refund (rest s) = sd_refund s"
  "sd_thash (rest s) = sd_thash s" "sd_logSize (rest s) = sd_logSize s" "sd_preimages (rest s) = sd_preimages s"
  "sd_accessList (rest s) = sd_accessList s"
  by (simp_all add: rest_def)

lemma setStateObject_fields [simp]:
  "sd_trie (setStateObject s obj) = sd_trie s" "sd_snap (setStateObject s obj) = sd_snap s"
  "sd_snapDestructs (setStateObject s obj) = sd_snapDestructs s" "sd_journal (setStateObject s obj) = sd_journal s"
  "sd_validRevisions (setStateObject s obj) = sd_validRevisions s" "sd_accessList (setStateObject s obj) = sd_accessList s"
  "sd_nextRevisionId (setStateObject s obj) = sd_nextRevisionId s" "rest (setStateObject s obj) = rest s"
  "sd_stateObjects (setStateObject s obj) = (sd_stateObjects s)(so_address obj \<mapsto> obj)"
  "sd_stateObjectsDirty (setStateObject s obj) = sd_stateObjectsDirty s" "GetLogs (setStateObject s obj) = GetLogs s"
  by (simp_all add: setStateObject_def rest_def fun_eq_iff GetLogs_def)

lemma jappend_fields [simp]:
  "sd_trie (jappend e s) = sd_trie s" "sd_snap (jappend e s) = sd_snap s"
  "sd_snapDestructs (jappend e s) = sd_snapDestructs s" "sd_stateObjects (jappend e s) = sd_stateObjects s"
  "sd_validRevisions (jappend e s) = sd_validRevisions s" "sd_accessList (jappend e s) = sd_accessList s"
  "sd_nextRevisionId (jappend e s) = sd_nextRevisionId s" "rest (jappend e s) = rest s"
  "sd_stateObjectsDirty (jappend e s) = sd_stateObjectsDirty s" "GetLogs (jappend e s) = GetLogs s"
  "sd_thash (jappend e s) = sd_thash s" "sd_logs (jappend e s) = sd_logs s" "sd_logSize (jappend e s) = sd_logSize s"
  "sd_refund (jappend e s) = sd_refund s" "sd_preimages (jappend e s) = sd_preimages s"
  "j_entries (sd_journal (jappend e s)) = j_entries (sd_journal s) @ [e]"
  by (simp_all add: jappend_def rest_def fun_eq_iff GetLogs_def journal_append_def)

lemma accounts_setStateObject [simp]:
  "accounts env (setStateObject s obj) =
     (accounts env s)(so_address obj \<mapsto> oview env (sd_snap s) (sd_snapDestructs s) obj)"
  by (auto simp: fun_eq_iff accounts_def peek_def)

lemma accounts_jappend [simp]: "accounts env (jappend e s) = accounts env s"
  by (simp add: fun_eq_iff accounts_def peek_def)

lemma getTrie_root: "so_trie obj' = so_trie obj \<Longrightarrow> so_addrHash obj' = so_addrHash obj \<Longrightarrow>
    Root (so_data obj') = Root (so_data obj) \<Longrightarrow> snd (getTrie env obj') = snd (getTrie env obj)"
  by (auto simp: getTrie_def Let_def split: option.splits prod.splits)

lemma oview_committed:
  assumes "so_trie obj' = so_trie obj" "so_addrHash obj' = so_addrHash obj" "Root (so_data obj') = Root (so_data obj)"
    and "so_pendingStorage obj' = so_pendingStorage obj" "so_originStorage obj' = so_originStorage obj"
    and "so_fakeStorage obj' = None" "so_fakeStorage obj = None"
  shows "av_committed (oview env snap D obj') = av_committed (oview env snap D obj)"
  using assms getTrie_root [OF assms(1-3), of env] by (simp add: oview_def committed_snd)

lemma oview_state: "so_fakeStorage obj = None \<Longrightarrow>
    av_state (oview env snap D obj) = (\<lambda>k. get_or (so_dirtyStorage obj k) (av_committed (oview env snap D obj) k))"
  by (simp add: oview_def state_snd)

lemma oview_sel [simp]:
  "av_data (oview env snap D obj) = so_data obj" "av_suicided (oview env snap D obj) = so_suicided obj"
  "av_deleted (oview env snap D obj) = so_deleted obj" "av_code (oview env snap D obj) = snd (so_Code env obj)"
  by (simp_all add: oview_def)

lemma set_sel [simp]:
  "so_data (so_setBalance obj b) = (so_data obj)\<lparr>Balance := b\<rparr>" "so_data (so_setNonce obj n) = (so_data obj)\<lparr>Nonce := n\<rparr>"
  "so_address (so_setBalance obj b) = so_address obj" "so_address (so_setNonce obj n) = so_address obj"
  "so_address (so_setCode obj h c) = so_address obj" "so_address (so_setState obj k v) = so_address obj"
  "so_deleted (so_setBalance obj b) = so_deleted obj" "so_deleted (so_setNonce obj n) = so_deleted obj"
  "so_deleted (so_setCode obj h c) = so_deleted obj" "so_deleted (so_setState obj k v) = so_deleted obj"
  by (simp_all add: so_setBalance_def so_setNonce_def so_setCode_def so_setState_def)

lemma set_keeps:
  "so_fakeStorage (so_setBalance obj b) = so_fakeStorage obj" "so_fakeStorage (so_setNonce obj n) = so_fakeStorage obj"
  "so_fakeStorage (so_setCode obj h c) = so_fakeStorage obj" "so_fakeStorage (so_setState obj k v) = so_fakeStorage obj"
  "so_dirtyStorage (so_setBalance obj b) = so_dirtyStorage obj" "so_dirtyStorage (so_setNonce obj n) = so_dirtyStorage obj"
  "so_dirtyStorage (so_setCode obj h c) = so_dirtyStorage obj"
  "so_dirtyStorage (so_setState obj k v) = (so_dirtyStorage obj)(k \<mapsto> v)"
  "so_suicided (so_setBalance obj b) = so_suicided obj" "so_suicided (so_setNonce obj n) = so_suicided obj"
  "so_suicided (so_setCode obj h c) = so_suicided obj" "so_suicided (so_setState obj k v) = so_suicided obj"
  "so_data (so_setState obj k v) = so_data obj" "so_data (so_setCode obj h c) = (so_data obj)\<lparr>CodeHash := Some (hash_Bytes h)\<rparr>"
  by (simp_all add: so_setBalance_def so_setNonce_def so_setCode_def so_setState_def)

lemma set_wf [simp]:
  "wf_obj env a (so_setBalance obj b) = wf_obj env a obj" "wf_obj env a (so_setNonce obj n) = wf_obj env a obj"
  "wf_obj env a (so_setState obj k v) = wf_obj env a obj" "wf_obj env a (obj\<lparr>so_suicided := b'\<rparr>) = wf_obj env a obj"
  "wf_obj env a obj \<Longrightarrow> wf_obj env a (so_setCode obj h c)"
  by (simp_all add: so_setBalance_def so_setNonce_def so_setCode_def so_setState_def wf_obj_def)

lemma acct_view_eqI:
  "av_data v = av_data w \<Longrightarrow> av_suicided v = av_suicided w \<Longrightarrow> av_deleted v = av_deleted w \<Longrightarrow> av_code v = av_code w \<Longrightarrow>
   av_state v = av_state w \<Longrightarrow> av_committed v = av_committed w \<Longrightarrow> v = (w :: acct_view)"
  by (cases v; cases w) simp

lemma Code_setBalance:
  "snd (so_Code env (so_setBalance obj b)) = snd (so_Code env obj)" "snd (so_Code env (so_setNonce obj n)) = snd (so_Code env obj)"
  "snd (so_Code env (so_setState obj k v)) = snd (so_Code env obj)"
  "snd (so_Code env (obj\<lparr>so_suicided := b'\<rparr>)) = snd (so_Code env obj)"
  by (simp_all add: so_setBalance_def so_setNonce_def so_setState_def so_Code_def so_CodeHash_def Let_def
      split: option.splits prod.splits)

lemma oview_set:
  assumes "so_fakeStorage obj = None"
  shows "oview env snap D (so_setBalance obj b) =
      (oview env snap D obj)\<lparr>av_data := (so_data obj)\<lparr>Balance := b\<rparr>\<rparr>" (is ?B)
    and "oview env snap D (so_setNonce obj n) = (oview env snap D obj)\<lparr>av_data := (so_data obj)\<lparr>Nonce := n\<rparr>\<rparr>" (is ?N)
    and "oview env snap D (obj\<lparr>so_suicided := b'\<rparr>) = (oview env snap D obj)\<lparr>av_suicided := b'\<rparr>" (is ?S)
    and "oview env snap D (so_setState obj k v) =
      (oview env snap D obj)\<lparr>av_state := (av_state (oview env snap D obj))(k := v)\<rparr>" (is ?T)
proof -
  have "av_committed (oview env snap D (so_setBalance obj b)) = av_committed (oview env snap D obj)"
    by (rule oview_committed) (simp_all add: so_setBalance_def assms)
  then show ?B
    by (intro acct_view_eqI) (simp_all add: oview_state assms Code_setBalance set_keeps)
  have "av_committed (oview env snap D (so_setNonce obj n)) = av_committed (oview env snap D obj)"
    by (rule oview_committed) (simp_all add: so_setNonce_def assms)
  then show ?N
    by (intro acct_view_eqI) (simp_all add: oview_state assms Code_setBalance set_keeps)
  have "av_committed (oview env snap D (obj\<lparr>so_suicided := b'\<rparr>)) = av_committed (oview env snap D obj)"
    by (rule oview_committed) (simp_all add: assms)
  then show ?S
    by (intro acct_view_eqI) (simp_all add: oview_state assms Code_setBalance)
  have "av_committed (oview env snap D (so_setState obj k v)) = av_committed (oview env snap D obj)"
    by (rule oview_committed) (simp_all add: so_setState_def assms)
  then show ?T
    by (intro acct_view_eqI) (simp_all add: oview_state assms Code_setBalance set_keeps fun_eq_iff)
qed

lemma BytesToHash_hash_Bytes [simp]: "BytesToHash (hash_Bytes h) = h"
proof -
  have "unat h < 2 ^ LENGTH(256)" by (rule unsigned_less)
  then have "unat h < 256 ^ 32" by simp
  then show ?thesis by (simp add: BytesToHash_def be_nat_be_fixed hash_Bytes_def)
qed

lemma Code_setCode:
  "so_addrHash obj = be_Keccak256 env (addr_Bytes a) \<Longrightarrow>
   snd (so_Code env (so_setCode obj h c)) = or_else c
     (if hash_Bytes h = emptyCodeHash env then None else fst (be_ContractCode env (be_Keccak256 env (addr_Bytes a)) h))"
  by (cases c) (simp_all add: so_setCode_def so_Code_def so_CodeHash_def Let_def BytesToHash_hash_Bytes split: prod.splits)

lemma oview_setCode:
  assumes "wf_obj env a obj"
  shows "oview env snap D (so_setCode obj h c) = set_code_view env a h c (oview env snap D obj)"
proof -
  have "av_committed (oview env snap D (so_setCode obj h c)) = av_committed (oview env snap D obj)"
    using assms by (intro oview_committed) (simp_all add: so_setCode_def wf_obj_def)
  then show ?thesis
    using assms Code_setCode [of obj env a h c]
    by (intro acct_view_eqI) (simp_all add: oview_state wf_obj_def set_code_view_def set_keeps)
qed

section \<open>Undoing an entry depends on the view only\<close>

lemma accounts_live:
  "accounts env s a = Some w \<and> \<not> av_deleted w \<longleftrightarrow>
    (\<exists>obj. live (peek env s a) = Some obj \<and> w = oview env (sd_snap s) (sd_snapDestructs s) obj)"
  by (auto simp: accounts_def live_def split: option.splits if_splits)

lemma at_live_view:
  "at_live (view env s) a g =
    (case live (peek env s a) of None \<Rightarrow> None
     | Some obj \<Rightarrow> Some (rest s, GetLogs s, (accounts env s)(a \<mapsto> g (oview env (sd_snap s) (sd_snapDestructs s) obj))))"
  by (auto simp: at_live_def view_def accounts_def live_def split: option.splits)

lemma live_wf: "env_ok env \<Longrightarrow> wf_state env s \<Longrightarrow> live (peek env s a) = Some obj \<Longrightarrow> wf_obj env a obj"
  by (auto simp: live_def split: option.splits if_splits intro: peek_wf)

lemma silent_fields:
  assumes "silent env s s'"
  shows "view env s' = view env s" "sd_snap s' = sd_snap s" "sd_snapDestructs s' = sd_snapDestructs s"
    "sd_journal s' = sd_journal s" "sd_validRevisions s' = sd_validRevisions s" "sd_nextRevisionId s' = sd_nextRevisionId s"
    "sd_stateObjectsDirty s' = sd_stateObjectsDirty s" "sd_accessList s' = sd_accessList s" "sd_trie s' = sd_trie s"
  using assms rest_sel [of s s'] by (simp_all add: silent_def same_view view_def)

text \<open>A change of the object at an address seen on the views.\<close>

lemma change_object:
  assumes "env_ok env" "wf_state env s" "getStateObject env s a = (s1, Some obj)"
    and "wf_obj env a obj \<Longrightarrow> so_address (f obj) = a"
    and "wf_obj env a obj \<Longrightarrow> oview env (sd_snap s) (sd_snapDestructs s) (f obj) = g (oview env (sd_snap s) (sd_snapDestructs s) obj)"
  shows "Some (view env (setStateObject s1 (f obj))) = at_live (view env s) a g"
proof -
  note g = getStateObject_eq [OF assms(3)]
  have wf: "wf_obj env a obj" using live_wf [OF assms(1,2)] g(1) by metis
  show ?thesis
    using silent_fields [OF g(2)] g(1) [symmetric] assms(4) [OF wf] assms(5) [OF wf]
    by (simp add: at_live_view) (simp add: view_def)
qed

lemma with_object_view:
  assumes "env_ok env" "wf_state env s"
    and "\<And>obj. wf_obj env a obj \<Longrightarrow> so_address (f obj) = a"
    and "\<And>obj. wf_obj env a obj \<Longrightarrow>
           oview env (sd_snap s) (sd_snapDestructs s) (f obj) = g (oview env (sd_snap s) (sd_snapDestructs s) obj)"
  shows "map_option (view env) (with_object env s a f) = at_live (view env s) a g"
proof -
  obtain s1 x where g: "getStateObject env s a = (s1, x)" by force
  show ?thesis
  proof (cases x)
    case None
    then show ?thesis using g getStateObject_eq(1) [OF g] by (simp add: with_object_def at_live_view)
  next
    case (Some obj)
    then show ?thesis using g change_object [OF assms(1,2), of a s1 obj f g] assms(3,4) by (simp add: with_object_def)
  qed
qed

lemma accounts_destructs:
  assumes "env_ok env" "wf_state env s" "\<And>h. h \<noteq> be_Keccak256 env (addr_Bytes a) \<Longrightarrow> h \<in> D \<longleftrightarrow> h \<in> sd_snapDestructs s"
    and "b \<noteq> a"
  shows "accounts env (s\<lparr>sd_snapDestructs := D\<rparr>) b = accounts env s b"
proof (cases "peek env s b")
  case None
  then show ?thesis by (simp add: accounts_def peek_def)
next
  case (Some obj)
  then have "wf_obj env b obj" using assms peek_wf by metis
  then have "so_addrHash obj \<in> D \<longleftrightarrow> so_addrHash obj \<in> sd_snapDestructs s"
    using assms(1,4) by (intro assms(3)) (auto simp: wf_obj_def env_ok_def)
  moreover have "peek env (s\<lparr>sd_snapDestructs := D\<rparr>) b = Some obj" using Some by (simp add: peek_def)
  ultimately show ?thesis using Some by (simp add: accounts_def oview_def)
qed

lemma revert_reset_view:
  assumes "env_ok env" "wf_state env s" "wf_obj env (so_address prev) prev"
  shows "map_option (view env) (revert_entry env (resetObjectChange prev d) s) =
    undo_view env (resetObjectChange prev d) (view env s)"
proof -
  define D where "D = (if \<not> d \<and> sd_snap s \<noteq> None then sd_snapDestructs s - {so_addrHash prev} else sd_snapDestructs s)"
  let ?t = "(setStateObject s prev)\<lparr>sd_snapDestructs := D\<rparr>"
  have r: "revert_entry env (resetObjectChange prev d) s = Some ?t"
    by (auto simp: D_def Let_def)
  have "accounts env ?t b = ((accounts env s)(so_address prev \<mapsto> oview env (sd_snap s) D prev)) b" for b
  proof (cases "b = so_address prev")
    case True
    then show ?thesis by (simp add: accounts_def peek_def)
  next
    case False
    then show ?thesis
      using accounts_destructs [of env "setStateObject s prev" "so_address prev" D b] assms wf_set [OF assms(2,3)]
      by (auto simp: D_def wf_obj_def)
  qed
  then have "accounts env ?t = (accounts env s)(so_address prev \<mapsto> oview env (sd_snap s) D prev)" by blast
  moreover have "rest ?t = (rest s)\<lparr>sd_snapDestructs := D\<rparr>" "GetLogs ?t = GetLogs s"
    by (simp_all add: rest_def setStateObject_def fun_eq_iff GetLogs_def)
  ultimately have "view env ?t = ((rest s)\<lparr>sd_snapDestructs := D\<rparr>, GetLogs s,
      (accounts env s)(so_address prev \<mapsto> oview env (sd_snap s) D prev))"
    by (simp add: view_def)
  then show ?thesis
    unfolding r view_def [of env s] by (simp only: option.map undo_view.simps rest_fields D_def [symmetric] Let_def)
qed

lemma revert_create_view:
  "map_option (view env) (revert_entry env (createObjectChange a) s) = undo_view env (createObjectChange a) (view env s)"
  by (auto simp: view_def rest_def accounts_def peek_def fun_eq_iff GetLogs_def option.map_comp comp_def)

lemma revert_suicide_view:
  assumes "env_ok env" "wf_state env s"
  shows "map_option (view env) (revert_entry env (suicideChange a p b) s) = undo_view env (suicideChange a p b) (view env s)"
proof -
  obtain s1 x where g: "getStateObject env s a = (s1, x)" by force
  show ?thesis
  proof (cases x)
    case None
    then show ?thesis
      using g getStateObject_eq(1,2) [OF g] silent_fields(1) by (auto simp: at_live_view)
  next
    case (Some obj)
    let ?f = "\<lambda>obj. so_setBalance (obj\<lparr>so_suicided := p\<rparr>) b"
    let ?g = "\<lambda>w. w\<lparr>av_suicided := p, av_data := (av_data w)\<lparr>Balance := b\<rparr>\<rparr>"
    have "Some (view env (setStateObject s1 (?f obj))) = at_live (view env s) a ?g"
      using g Some by (intro change_object [OF assms]) (auto simp: wf_obj_def oview_set)
    from this [symmetric] show ?thesis using g Some by simp
  qed
qed

lemma revert_entry_view:
  assumes "env_ok env" "wf_state env s" "wf_entry env e"
  shows "map_option (view env) (revert_entry env e s) = undo_view env e (view env s)"
proof (cases e)
  case (balanceChange a b)
  show ?thesis unfolding balanceChange revert_entry.simps undo_view.simps
    by (rule with_object_view [OF assms(1,2)]) (auto simp: wf_obj_def oview_set)
next
  case (nonceChange a n)
  show ?thesis unfolding nonceChange revert_entry.simps undo_view.simps
    by (rule with_object_view [OF assms(1,2)]) (auto simp: wf_obj_def oview_set)
next
  case (storageChange a k v)
  show ?thesis unfolding storageChange revert_entry.simps undo_view.simps
    by (rule with_object_view [OF assms(1,2)]) (auto simp: wf_obj_def oview_set)
next
  case (codeChange a c h)
  show ?thesis unfolding codeChange revert_entry.simps undo_view.simps
    by (rule with_object_view [OF assms(1,2)]) (auto simp: wf_obj_def oview_setCode [of env a])
next
  case (addLogChange h)
  then show ?thesis
    by (auto simp: view_def rest_def accounts_def peek_def fun_eq_iff GetLogs_def Let_def
        length_Suc_conv split: option.splits)
next
  case (accessListAddSlotChange a k)
  then show ?thesis
    by (cases "DeleteSlot (sd_accessList s) a k")
      (auto simp: view_def rest_def accounts_def peek_def fun_eq_iff GetLogs_def)
next
  case (resetObjectChange p d)
  show ?thesis
    unfolding resetObjectChange using assms by (intro revert_reset_view) (simp_all add: resetObjectChange)
next
  case (suicideChange a p b)
  then show ?thesis using revert_suicide_view [OF assms(1,2)] by blast
next
  case (createObjectChange a)
  then show ?thesis using revert_create_view by blast
qed (auto simp: view_def rest_def accounts_def peek_def fun_eq_iff GetLogs_def)

definition same_revs :: "('t, 's) StateDB \<Rightarrow> ('t, 's) StateDB \<Rightarrow> bool" where
  "same_revs s s' \<longleftrightarrow> sd_validRevisions s' = sd_validRevisions s \<and> sd_nextRevisionId s' = sd_nextRevisionId s"

lemma getStateObject_frame:
  assumes "getStateObject env s a = (s1, x)"
  shows "sd_journal s1 = sd_journal s" "same_revs s s1"
  using silent_fields [OF getStateObject_eq(2) [OF assms]] by (simp_all add: same_revs_def)

lemma with_object_frame:
  assumes "with_object env s a f = Some t"
  shows "sd_journal t = sd_journal s" "same_revs s t"
  using assms getStateObject_frame [of env s a]
  by (auto simp: with_object_def same_revs_def split: prod.splits option.splits)

lemma revert_entry_frame:
  assumes "revert_entry env e s = Some t"
  shows "sd_journal t = sd_journal s" "same_revs s t"
  using assms with_object_frame [of env s] getStateObject_frame [of env s]
  by (cases e; auto simp: same_revs_def Let_def split: prod.splits option.splits if_splits)+

lemma wf_state_upd:
  "wf_state env s \<Longrightarrow> sd_stateObjects s' = sd_stateObjects s \<Longrightarrow> sd_stateObjectsDirty s' = sd_stateObjectsDirty s \<Longrightarrow> wf_state env s'"
  by (simp add: wf_state_def)

lemma getStateObject_wf:
  assumes "env_ok env" "wf_state env s" "getStateObject env s a = (s1, x)"
  shows "wf_state env s1" "\<And>obj. x = Some obj \<Longrightarrow> wf_obj env a obj"
  using getStateObject_eq(4) [OF assms(3,1,2)] getStateObject_eq(1) [OF assms(3)] live_wf [OF assms(1,2), of a] by metis+

lemma wf_obj_address: "wf_obj env a obj \<Longrightarrow> so_address obj = a"
  by (simp add: wf_obj_def)

lemma with_object_wf:
  assumes "env_ok env" "wf_state env s" "with_object env s a f = Some t"
    and "\<And>obj. wf_obj env a obj \<Longrightarrow> wf_obj env a (f obj)"
  shows "wf_state env t"
proof -
  obtain s1 obj where g: "getStateObject env s a = (s1, Some obj)" and t: "t = setStateObject s1 (f obj)"
    using assms(3) by (auto simp: with_object_def split: prod.splits option.splits)
  then show ?thesis
    using getStateObject_wf [OF assms(1,2) g] assms(4) [of obj] by (auto intro!: wf_set simp: wf_obj_def)
qed

lemma revert_entry_wf:
  assumes "env_ok env" "wf_state env s" "wf_entry env e" "revert_entry env e s = Some t"
  shows "wf_state env t"
proof (cases e)
  case (createObjectChange a)
  then show ?thesis using assms by (auto simp: wf_state_def split: if_splits)
next
  case (resetObjectChange p d)
  then show ?thesis
    using assms wf_set [of env s p] by (auto simp: wf_state_def Let_def split: if_splits)
next
  case (suicideChange a p b)
  obtain s1 x where g: "getStateObject env s a = (s1, x)" by force
  show ?thesis
    using getStateObject_wf [OF assms(1,2) g] assms(4) g suicideChange
    by (cases x) (auto intro!: wf_set simp: wf_obj_address)
next
  case (codeChange a c h)
  then show ?thesis using assms by (auto intro: with_object_wf)
next
  case (addLogChange h)
  then show ?thesis using assms by (auto simp: Let_def split: if_splits intro: wf_state_upd)
qed (use assms in \<open>auto intro: with_object_wf wf_state_upd\<close>)

section \<open>Changes and the entries that undo them\<close>

definition db_ok :: "('t, 's) backend \<Rightarrow> ('t, 's) StateDB \<Rightarrow> bool" where
  "db_ok env s \<longleftrightarrow> wf_state env s \<and> al_ok (sd_accessList s)"

abbreviation entries :: "('t, 's) StateDB \<Rightarrow> 't journalEntry list" where
  "entries s \<equiv> j_entries (sd_journal s)"

inductive changes :: "('t, 's) backend \<Rightarrow> ('t, 's) StateDB \<Rightarrow> 't journalEntry list \<Rightarrow> ('t, 's) StateDB \<Rightarrow> bool"
  for env s
  where
    quiet: "view env s' = view env s \<Longrightarrow> db_ok env s' \<Longrightarrow> entries s' = entries s \<Longrightarrow> changes env s [] s'"
  | entry: "changes env s es s' \<Longrightarrow> undo_view env e (view env s'') = Some (view env s') \<Longrightarrow> wf_entry env e \<Longrightarrow>
      db_ok env s'' \<Longrightarrow> entries s'' = entries s' @ [e] \<Longrightarrow> changes env s (es @ [e]) s''"

lemma changes_ok: "changes env s es s' \<Longrightarrow> db_ok env s'"
  by (induction rule: changes.induct)

lemma changes_entries: "changes env s es s' \<Longrightarrow> entries s' = entries s @ es"
  by (induction rule: changes.induct) auto

lemma changes_quiet:
  "changes env s es s' \<Longrightarrow> view env s'' = view env s' \<Longrightarrow> db_ok env s'' \<Longrightarrow> entries s'' = entries s' \<Longrightarrow> changes env s es s''"
  by (induction rule: changes.induct) (auto intro: changes.quiet changes.entry)

lemma changes_trans: "changes env s' es' s'' \<Longrightarrow> changes env s es s' \<Longrightarrow> changes env s (es @ es') s''"
  by (induction rule: changes.induct) (auto intro: changes_quiet changes.entry simp flip: append_assoc)

lemma changes_split:
  "changes env s es s'' \<Longrightarrow> db_ok env s \<Longrightarrow> es = es1 @ es2 \<Longrightarrow> \<exists>s'. changes env s es1 s' \<and> changes env s' es2 s''"
proof (induction arbitrary: es2 rule: changes.induct)
  case (quiet s')
  then show ?case using changes.quiet [of env s s] changes.quiet [of env s' s] by auto
next
  case (entry es s' e s'')
  show ?case
  proof (cases es2 rule: rev_cases)
    case Nil
    then show ?thesis
      using entry changes.entry [OF entry.hyps(1-5)] changes.quiet [of env s'' s''] by auto
  next
    case (snoc es' e')
    then obtain r where "changes env s es1 r" "changes env r es' s'" using entry by auto
    then show ?thesis using snoc entry changes.entry [of env r es' s' e s''] by auto
  qed
qed

lemma drop_dirty_fields [simp]:
  "view env (drop_dirty e s) = view env s" "db_ok env (drop_dirty e s) = db_ok env s"
  "entries (drop_dirty e s) = entries s" "same_revs s (drop_dirty e s)"
  by (auto simp: drop_dirty_def view_def rest_def accounts_def peek_def fun_eq_iff GetLogs_def db_ok_def wf_state_def
      same_revs_def split: option.splits)

lemma revert_entry_undoes:
  assumes "env_ok env" "db_ok env u" "wf_entry env e" "undo_view env e (view env u) = Some (view env r)" "db_ok env r"
  shows "\<exists>t. revert_entry env e u = Some t \<and> view env t = view env r \<and> db_ok env t \<and> entries t = entries u \<and> same_revs u t"
proof -
  from assms have wf: "wf_state env u" by (simp add: db_ok_def)
  obtain t where t: "revert_entry env e u = Some t" "view env t = view env r"
    using revert_entry_view [OF assms(1) wf assms(3)] assms(4) by auto
  moreover have "sd_accessList t = sd_accessList r"
    using view_sel(1) [OF t(2)] rest_sel(10) by blast
  ultimately show ?thesis
    using revert_entry_wf [OF assms(1) wf assms(3) t(1)] revert_entry_frame [OF t(1)] assms(5) by (auto simp: db_ok_def)
qed

lemma same_revs_trans: "same_revs s s' \<Longrightarrow> same_revs s' s'' \<Longrightarrow> same_revs s s''"
  by (simp add: same_revs_def)

lemma changes_revert:
  assumes "env_ok env"
  shows "changes env s es s' \<Longrightarrow> db_ok env s \<Longrightarrow> view env u = view env s' \<Longrightarrow> db_ok env u \<Longrightarrow>
    \<exists>t. revert_entries env (rev es) u = Some t \<and> view env t = view env s \<and> db_ok env t \<and> entries t = entries u \<and> same_revs u t"
proof (induction arbitrary: u rule: changes.induct)
  case (quiet s')
  then show ?case by (auto simp: same_revs_def)
next
  case (entry es s' e s'')
  have "undo_view env e (view env u) = Some (view env s')" using entry by simp
  then obtain t where t: "revert_entry env e u = Some t" "view env t = view env s'" "db_ok env t"
      "entries t = entries u" "same_revs u t"
    using revert_entry_undoes [OF assms entry.prems(3) entry.hyps(3)] changes_ok [OF entry.hyps(1)] by blast
  obtain t' where "revert_entries env (rev es) (drop_dirty e t) = Some t'" "view env t' = view env s" "db_ok env t'"
      "entries t' = entries (drop_dirty e t)" "same_revs (drop_dirty e t) t'"
    using entry.IH [OF entry.prems(1), of "drop_dirty e t"] t by auto
  then show ?case
    using t by (auto intro: same_revs_trans [OF t(5)] same_revs_trans [OF drop_dirty_fields(4)])
qed

end
