(* ===== verification/StateRevert.thy ===== *)
theory StateRevert
  imports StateUndo
begin

text \<open>
  Snapshots of the state database: reverting to a snapshot gives back everything a client can read, whatever
  was done in between, other snapshots and reverts included, and never panics. Every operation appends
  journal entries that undo it (\<open>evolves\<close>).
\<close>

section \<open>Operations append the entries that undo them\<close>

text \<open>
  \<open>journal.dirties\<close> counts the entries that dirty an address. Touching \<open>ripemd\<close> counts twice, and undoing it once, so that
  its counter may be ahead by some \<open>m\<close>.
\<close>

definition appended :: "('t, 's) StateDB \<Rightarrow> 't journalEntry \<Rightarrow> ('t, 's) StateDB \<Rightarrow> bool" where
  "appended s e s' \<longleftrightarrow> entries s' = entries s @ [e] \<and>
     (\<forall>a. j_dirties (sd_journal s') a = j_dirties (journal_append (sd_journal s) e) a \<or>
        a = ripemd \<and> j_dirties (sd_journal s') a = dirties_inc (j_dirties (journal_append (sd_journal s) e)) a a)"

definition tally :: "nat \<Rightarrow> int option" where
  "tally n = (if n = 0 then None else Some (int n))"

abbreviation dirty_count :: "'t journalEntry list \<Rightarrow> address \<Rightarrow> nat" where
  "dirty_count es a \<equiv> length (filter (\<lambda>e. dirtied e = Some a) es)"

definition counts :: "address \<Rightarrow> int option \<Rightarrow> 't journalEntry list \<Rightarrow> bool" where
  "counts a d es \<longleftrightarrow> (\<exists>m. (a = ripemd \<or> m = 0) \<and> d = tally (dirty_count es a + m))"

definition counted :: "('t, 's) StateDB \<Rightarrow> bool" where
  "counted s \<longleftrightarrow> (\<forall>a. counts a (j_dirties (sd_journal s) a) (entries s))"

lemma counts_Nil [simp]: "counts a None []"
  by (simp add: counts_def tally_def)

lemma tally_inc: "d a = tally n \<Longrightarrow> dirties_inc d a a = tally (Suc n)"
  by (simp add: dirties_inc_def tally_def split: option.split)

lemma tally_dec: "d a = tally (Suc n) \<Longrightarrow> dirties_dec d a a = tally n"
  by (simp add: dirties_dec_def tally_def Let_def)

lemma counts_snoc: "counts a (d a) es \<Longrightarrow> counts a ((case dirtied e of None \<Rightarrow> d | Some x \<Rightarrow> dirties_inc d x) a) (es @ [e])"
  by (cases "dirtied e") (auto simp: counts_def tally_inc, auto simp: dirties_inc_def)

lemma counts_ahead: "counts ripemd (d ripemd) es \<Longrightarrow> counts ripemd (dirties_inc d ripemd ripemd) es"
  unfolding counts_def using tally_inc [of d ripemd] by (metis add_Suc_right)

lemma appended_counted: "appended s e s' \<Longrightarrow> counted s \<Longrightarrow> counted s'"
proof -
  assume a: "appended s e s'" and c: "counted s"
  have app: "counts x (j_dirties (journal_append (sd_journal s) e) x) (entries s @ [e])" for x
    using counts_snoc [of x "j_dirties (sd_journal s)" "entries s" e] c by (simp add: counted_def journal_append_def)
  show "counted s'"
    unfolding counted_def
  proof
    fix x
    show "counts x (j_dirties (sd_journal s') x) (entries s')"
      using a app [of x] counts_ahead [of "j_dirties (journal_append (sd_journal s) e)" "entries s @ [e]"] unfolding appended_def by metis
  qed
qed

definition evolves :: "('t, 's) backend \<Rightarrow> ('t, 's) StateDB \<Rightarrow> ('t, 's) StateDB \<Rightarrow> bool" where
  "evolves env s s' \<longleftrightarrow> (\<exists>es. changes env s es s') \<and> same_revs s s' \<and> (counted s \<longrightarrow> counted s')"

lemma evolves_ok: "evolves env s s' \<Longrightarrow> db_ok env s'"
  by (auto simp: evolves_def dest: changes_ok)

lemma evolves_trans: "evolves env s s' \<Longrightarrow> evolves env s' s'' \<Longrightarrow> evolves env s s''"
  by (auto simp: evolves_def intro: same_revs_trans changes_trans)

lemma evolves_quiet:
  "view env s' = view env s \<Longrightarrow> db_ok env s' \<Longrightarrow> sd_journal s' = sd_journal s \<Longrightarrow> same_revs s s' \<Longrightarrow> evolves env s s'"
  using changes.quiet [of env s' s] by (auto simp: evolves_def counted_def)

lemma evolves_refl: "db_ok env s \<Longrightarrow> evolves env s s"
  by (rule evolves_quiet) (simp_all add: same_revs_def)

lemma evolves_silent: "silent env s s' \<Longrightarrow> db_ok env s' \<Longrightarrow> evolves env s s'"
  by (rule evolves_quiet) (simp_all add: silent_fields same_revs_def)

lemma evolves_entry:
  assumes "db_ok env s" "undo_view env e (view env s') = Some (view env s)" "wf_entry env e" "db_ok env s'"
    and "appended s e s'" "same_revs s s'"
  shows "evolves env s s'"
  using changes.entry [OF changes.quiet [OF refl assms(1) refl] assms(2-4)] assms(5,6) appended_counted [OF assms(5)]
  by (auto simp: evolves_def appended_def)

lemma journal_jappend [simp]: "sd_journal (jappend e s) = journal_append (sd_journal s) e"
  by (simp add: jappend_def)

lemma appended_jappend [simp]: "appended s e (setStateObject (jappend e s) obj)" "appended s e (jappend e s)"
  by (simp_all add: appended_def journal_append_def)

lemma same_revs_simps [simp]:
  "same_revs s s" "same_revs s (setStateObject s' obj) = same_revs s s'" "same_revs s (jappend e s') = same_revs s s'"
  by (simp_all add: same_revs_def)

lemma db_ok_set: "db_ok env s \<Longrightarrow> wf_obj env a obj \<Longrightarrow> db_ok env (setStateObject s obj)"
  by (auto simp: db_ok_def wf_obj_address intro: wf_set)

lemma db_ok_jappend [simp]: "db_ok env (jappend e s) = db_ok env s"
  by (simp add: db_ok_def wf_state_def)

lemma view_jappend [simp]: "view env (jappend e s) = view env s"
  by (simp add: view_def)

lemma getStateObject_evolves:
  assumes "env_ok env" "db_ok env s" "getStateObject env s a = (s1, x)"
  shows "evolves env s s1" "db_ok env s1" "sd_stateObjects s1 a = peek env s a" "x = live (peek env s a)"
    "\<And>obj. x = Some obj \<Longrightarrow> wf_obj env a obj \<and> \<not> so_deleted obj \<and> sd_stateObjects s1 a = Some obj"
proof -
  note g = getStateObject_eq [OF assms(3)]
  show ok: "db_ok env s1" using assms g(4) silent_fields [OF g(2)] by (simp add: db_ok_def)
  then show "evolves env s s1" by (rule evolves_silent [OF g(2)])
  show "sd_stateObjects s1 a = peek env s a" "x = live (peek env s a)" using g by simp_all
  show "wf_obj env a obj \<and> \<not> so_deleted obj \<and> sd_stateObjects s1 a = Some obj" if "x = Some obj" for obj
    using that getStateObject_wf [OF assms(1) _ assms(3)] assms(2) g(1,3)
    by (auto simp: db_ok_def live_def split: option.splits if_splits)
qed

text \<open>A journalled change of an object that exists.\<close>

lemma object_evolves:
  assumes "db_ok env s" "sd_stateObjects s a = Some obj" "\<not> so_deleted obj"
    and "wf_obj env a obj'" "\<not> so_deleted obj'" "wf_entry env e"
    and undo: "\<And>v. undo_view env e v = at_live v a g"
    and "g (oview env (sd_snap s) (sd_snapDestructs s) obj') = oview env (sd_snap s) (sd_snapDestructs s) obj"
  shows "evolves env s (setStateObject (jappend e s) obj')"
proof (rule evolves_entry [OF assms(1) _ assms(6)])
  have a: "so_address obj' = a" using assms(4) by (rule wf_obj_address)
  have "(accounts env s)(a \<mapsto> oview env (sd_snap s) (sd_snapDestructs s) obj) = accounts env s"
    using assms(2) by (auto simp: accounts_def peek_def fun_eq_iff)
  then show "undo_view env e (view env (setStateObject (jappend e s) obj')) = Some (view env s)"
    using assms(5,8) a unfolding undo view_def at_live_def by simp
  show "db_ok env (setStateObject (jappend e s) obj')" using assms(1,4) by (auto intro: db_ok_set)
qed simp_all

lemma getDeleted_evolves:
  assumes "env_ok env" "db_ok env s" "getDeletedStateObject env s a = (s1, x)"
  shows "evolves env s s1" "db_ok env s1" "sd_stateObjects s1 a = x" "peek env s1 a = x"
    "\<And>obj. x = Some obj \<Longrightarrow> wf_obj env a obj"
proof -
  note g = getDeleted_eq [OF assms(3)]
  show ok: "db_ok env s1" using assms g(4) silent_fields [OF g(2)] by (simp add: db_ok_def)
  then show "evolves env s s1" by (rule evolves_silent [OF g(2)])
  show "sd_stateObjects s1 a = x" "\<And>obj. x = Some obj \<Longrightarrow> wf_obj env a obj"
    using g assms peek_wf [OF assms(1)] by (auto simp: db_ok_def)
  show "peek env s1 a = x"
    using g(1,3) silent_fields(2,9) [OF g(2)] by (cases "sd_stateObjects s a") (auto simp: peek_def or_else_def split: option.splits)
qed

lemma create_evolves:
  assumes "env_ok env" "db_ok env s" "peek env s a = None" "wf_obj env a obj'"
  shows "evolves env s (setStateObject (jappend (createObjectChange a) s) obj')"
proof (rule evolves_entry [OF assms(2)])
  have n: "sd_stateObjects s a = None" "fst (load_Account env (sd_snap s) (sd_trie s) a) = None"
    using assms(3) by (cases "sd_stateObjects s a"; simp add: peek_def)+
  then have "a \<notin> sd_stateObjectsDirty s" using assms(2) by (auto simp: db_ok_def wf_state_def)
  then have "(rest s)\<lparr>sd_stateObjectsDirty := sd_stateObjectsDirty s - {a}\<rparr> = rest s"
    by (cases s) (simp add: rest_def)
  moreover have "(accounts env s)(a := None) = accounts env s"
    using assms(3) by (auto simp: accounts_def fun_eq_iff)
  ultimately show "undo_view env (createObjectChange a) (view env (setStateObject (jappend (createObjectChange a) s) obj')) =
      Some (view env s)"
    using n wf_obj_address [OF assms(4)] by (simp add: view_def)
  show "db_ok env (setStateObject (jappend (createObjectChange a) s) obj')" using assms(2,4) by (auto intro: db_ok_set)
qed simp_all

lemma reset_evolves:
  assumes "env_ok env" "db_ok env s" "sd_stateObjects s a = Some p" "wf_obj env a obj'"
    and pd: "pd \<longleftrightarrow> sd_snap s \<noteq> None \<and> so_addrHash p \<in> sd_snapDestructs s"
    and s1: "s1 = (if sd_snap s \<noteq> None \<and> \<not> pd then s\<lparr>sd_snapDestructs := insert (so_addrHash p) (sd_snapDestructs s)\<rparr> else s)"
  shows "evolves env s (setStateObject (jappend (resetObjectChange p pd) s1) obj')"
proof (rule evolves_entry [OF assms(2)])
  let ?e = "resetObjectChange p pd"
  let ?t = "setStateObject (jappend ?e s1) obj'"
  have wf: "wf_obj env a p" using assms(2,3) by (auto simp: db_ok_def wf_state_def)
  then have p: "so_address p = a" "so_addrHash p = be_Keccak256 env (addr_Bytes a)" by (simp_all add: wf_obj_def)
  have a: "so_address obj' = a" using assms(4) by (rule wf_obj_address)
  show "wf_entry env ?e" using wf p by simp
  have same: "sd_snap s1 = sd_snap s" "sd_stateObjects s1 = sd_stateObjects s" "sd_journal s1 = sd_journal s"
      "sd_stateObjectsDirty s1 = sd_stateObjectsDirty s" "sd_accessList s1 = sd_accessList s" "same_revs s s1"
      "GetLogs s1 = GetLogs s"
    by (simp_all add: s1 same_revs_def GetLogs_def fun_eq_iff)
  then have ok1: "db_ok env s1" using assms(2) by (simp add: db_ok_def wf_state_def)
  then show "db_ok env ?t" using assms(4) by (auto intro: db_ok_set)
  show "appended s ?e ?t" "same_revs s ?t" using same by (simp_all add: appended_def journal_append_def)
  define D where "D = (if \<not> pd \<and> sd_snap s \<noteq> None then sd_snapDestructs s1 - {so_addrHash p} else sd_snapDestructs s1)"
  have D: "D = sd_snapDestructs s" using pd by (auto simp: D_def s1)
  have r: "(rest s1)\<lparr>sd_snapDestructs := D\<rparr> = rest s" unfolding D by (cases s) (simp add: s1 rest_def)
  have "accounts env s1 b = accounts env s b" if "b \<noteq> a" for b
  proof -
    have "accounts env (s\<lparr>sd_snapDestructs := sd_snapDestructs s1\<rparr>) b = accounts env s b"
      using assms(1,2) that p by (intro accounts_destructs [of env s a]) (auto simp: db_ok_def s1)
    moreover have "s\<lparr>sd_snapDestructs := sd_snapDestructs s1\<rparr> = s1" by (cases s) (simp add: s1)
    ultimately show ?thesis by simp
  qed
  then have "(accounts env s1)(a \<mapsto> oview env (sd_snap s) D p) = accounts env s"
    using assms(3) by (auto simp: fun_eq_iff D accounts_def peek_def)
  moreover have "undo_view env ?e (view env ?t) =
      Some ((rest s1)\<lparr>sd_snapDestructs := D\<rparr>, GetLogs s1, (accounts env s1)(a \<mapsto> oview env (sd_snap s) D p))"
    using p a unfolding view_def undo_view.simps by (simp add: Let_def same D_def)
  ultimately show "undo_view env ?e (view env ?t) = Some (view env s)"
    using r same by (simp add: view_def)
qed

lemma new_object_wf [simp]:
  "wf_obj env a (newObject env a \<lparr>Nonce = 0, Balance = 0, Root = 0, CodeHash = None\<rparr>)"
  by (rule newObject_wf) simp

lemma newObject_not_deleted [simp]: "\<not> so_deleted (newObject env a d)"
  by (simp add: newObject_def Let_def)

text \<open>\<open>createObject\<close>, followed by any further change of the new object, as \<open>CreateAccount\<close> makes it.\<close>

lemma createObject_evolves:
  assumes "env_ok env" "db_ok env s" "createObject env s a = (s1, obj, prev)"
  shows "sd_stateObjects s1 a = Some obj" "wf_obj env a obj" "\<not> so_deleted obj"
    "\<And>obj'. wf_obj env a obj' \<Longrightarrow> evolves env s (setStateObject s1 obj')"
    "setStateObject s1 obj = s1"
proof -
  obtain s0 x where g: "getDeletedStateObject env s a = (s0, x)" by force
  note e = getDeleted_evolves [OF assms(1,2) g]
  define new where "new = so_setNonce (newObject env a \<lparr>Nonce = 0, Balance = 0, Root = 0, CodeHash = None\<rparr>) 0"
  have new: "wf_obj env a new" "\<not> so_deleted new" "so_address new = a" by (simp_all add: new_def)
  obtain s' where s': "s1 = setStateObject s' new" "obj = new"
      "\<And>obj'. wf_obj env a obj' \<Longrightarrow> evolves env s0 (setStateObject s' obj')"
  proof (cases x)
    case None
    show thesis
    proof (rule that)
      show "s1 = setStateObject (jappend (createObjectChange a) s0) new" "obj = new"
        using assms(3) g None by (auto simp: createObject_def Let_def new_def)
      show "evolves env s0 (setStateObject (jappend (createObjectChange a) s0) obj')" if "wf_obj env a obj'" for obj'
        using create_evolves [OF assms(1) e(2)] e(4) None that by simp
    qed
  next
    case (Some p)
    define pd where "pd \<longleftrightarrow> sd_snap s0 \<noteq> None \<and> so_addrHash p \<in> sd_snapDestructs s0"
    define s0' where "s0' = (if sd_snap s0 \<noteq> None \<and> \<not> pd
      then s0\<lparr>sd_snapDestructs := insert (so_addrHash p) (sd_snapDestructs s0)\<rparr> else s0)"
    show thesis
    proof (rule that)
      show "s1 = setStateObject (jappend (resetObjectChange p pd) s0') new" "obj = new"
        using assms(3) g Some unfolding s0'_def pd_def new_def by (auto simp: createObject_def Let_def)
      show "evolves env s0 (setStateObject (jappend (resetObjectChange p pd) s0') obj')" if "wf_obj env a obj'" for obj'
        by (rule reset_evolves [OF assms(1) e(2) _ that pd_def s0'_def]) (simp add: e(3) Some)
    qed
  qed
  show "evolves env s (setStateObject s1 obj')" if "wf_obj env a obj'" for obj'
  proof -
    have "setStateObject s1 obj' = setStateObject s' obj'"
      using s'(1) that new(3) by (simp add: setStateObject_def wf_obj_address)
    then show ?thesis using evolves_trans [OF e(1) s'(3) [OF that]] by simp
  qed
  show "sd_stateObjects s1 a = Some obj" "wf_obj env a obj" "\<not> so_deleted obj" "setStateObject s1 obj = s1"
    using s'(1,2) new by (simp_all add: setStateObject_def)
qed

lemma GetOrNew_evolves:
  assumes "env_ok env" "db_ok env s" "GetOrNewStateObject env s a = (s1, obj)"
  shows "evolves env s s1" "db_ok env s1" "sd_stateObjects s1 a = Some obj" "wf_obj env a obj" "\<not> so_deleted obj"
proof -
  obtain s0 x where g: "getStateObject env s a = (s0, x)" by force
  note e = getStateObject_evolves [OF assms(1,2) g]
  have *: "evolves env s s1 \<and> sd_stateObjects s1 a = Some obj \<and> wf_obj env a obj \<and> \<not> so_deleted obj"
  proof (cases x)
    case (Some o')
    then show ?thesis using assms(3) g e by (auto simp: GetOrNewStateObject_def)
  next
    case None
    then obtain prev where c: "createObject env s0 a = (s1, obj, prev)"
      using assms(3) g by (auto simp: GetOrNewStateObject_def split: prod.splits)
    note c = createObject_evolves [OF assms(1) e(2) c]
    have "evolves env s s1" using evolves_trans [OF e(1) c(4) [OF c(2)]] c(5) by simp
    then show ?thesis using c by simp
  qed
  then show "evolves env s s1" "db_ok env s1" "sd_stateObjects s1 a = Some obj" "wf_obj env a obj" "\<not> so_deleted obj"
    by (auto intro: evolves_ok)
qed

lemma CreateAccount_evolves:
  assumes "env_ok env" "db_ok env s"
  shows "evolves env s (CreateAccount env s a)"
proof -
  obtain s1 obj prev where c: "createObject env s a = (s1, obj, prev)" by (metis prod_cases3)
  note e = createObject_evolves [OF assms c]
  show ?thesis
    using c e(4) [of obj] e(4) [of "so_setBalance obj b" for b] e(2,5)
    by (auto simp: CreateAccount_def split: option.splits)
qed

section \<open>Setters\<close>

lemma wf_obj_fake: "wf_obj env a obj \<Longrightarrow> so_fakeStorage obj = None"
  by (simp add: wf_obj_def)

lemma so_SetBalance_evolves:
  assumes "db_ok env s" "sd_stateObjects s a = Some obj" "wf_obj env a obj" "\<not> so_deleted obj"
  shows "evolves env s (so_SetBalance s obj amount)"
  using object_evolves [OF assms(1,2,4), where obj' = "so_setBalance obj amount" and e = "balanceChange a (Balance (so_data obj))"
      and g = "\<lambda>w. w\<lparr>av_data := (av_data w)\<lparr>Balance := Balance (so_data obj)\<rparr>\<rparr>"] assms(3,4)
  by (simp add: so_SetBalance_def wf_obj_address wf_obj_fake oview_set)

lemma so_SetNonce_evolves:
  assumes "db_ok env s" "sd_stateObjects s a = Some obj" "wf_obj env a obj" "\<not> so_deleted obj"
  shows "evolves env s (so_SetNonce s obj n)"
  using object_evolves [OF assms(1,2,4), where obj' = "so_setNonce obj n" and e = "nonceChange a (Nonce (so_data obj))"
      and g = "\<lambda>w. w\<lparr>av_data := (av_data w)\<lparr>Nonce := Nonce (so_data obj)\<rparr>\<rparr>"] assms(3,4)
  by (simp add: so_SetNonce_def wf_obj_address wf_obj_fake oview_set)

lemma touch_evolves:
  assumes "db_ok env s"
  shows "evolves env s (touch s obj)"
proof (rule evolves_entry [OF assms, of "touchChange (so_address obj)"])
  show "undo_view env (touchChange (so_address obj)) (view env (touch s obj)) = Some (view env s)"
    by (auto simp: touch_def Let_def view_def rest_def accounts_def peek_def fun_eq_iff GetLogs_def jappend_def)
  show "db_ok env (touch s obj)" using assms by (auto simp: touch_def Let_def db_ok_def wf_state_def)
  show "appended s (touchChange (so_address obj)) (touch s obj)"
    by (cases "so_address obj = ripemd") (auto simp: appended_def touch_def Let_def journal_dirty_def journal_append_def dirties_inc_def)
  show "same_revs s (touch s obj)" by (auto simp: touch_def Let_def same_revs_def)
qed simp

lemma set_silent:
  assumes "db_ok env s" "sd_stateObjects s a = Some obj" "wf_obj env a obj" "wf_obj env a obj'"
    and "oview env (sd_snap s) (sd_snapDestructs s) obj' = oview env (sd_snap s) (sd_snapDestructs s) obj"
  shows "evolves env s (setStateObject s obj')"
  using setStateObject_silent [of env s obj' obj] assms
  by (auto intro!: evolves_silent db_ok_set simp: wf_obj_address peek_def)

lemma wf_obj_hash: "wf_obj env a obj \<Longrightarrow> length (so_CodeHash obj) = 32 \<and> CodeHash (so_data obj) = Some (so_CodeHash obj)"
  by (auto simp: wf_obj_def so_CodeHash_def)

lemma so_SetCode_evolves:
  assumes "db_ok env s" "sd_stateObjects s a = Some obj" "wf_obj env a obj" "\<not> so_deleted obj"
  shows "evolves env s (so_SetCode env s obj h c)"
proof -
  obtain obj1 prev where c: "so_Code env obj = (obj1, prev)" by force
  have f: "so_fixed obj1 = so_fixed obj" using so_Code_fst(1) [of env obj] c by simp
  then have wf1: "wf_obj env a obj1" using wf_obj_fixed [of obj1 obj] assms(3) by blast
  have prev: "prev = snd (so_Code env obj)" using c by simp
  note sel = so_fixed_sel [OF f]
  have v1: "oview env snap D obj1 = oview env snap D obj" for snap D
    using so_Code_oview [OF wf_obj_fake [OF assms(3)], of env snap D] c by simp
  note h = wf_obj_hash [OF wf1]
  have code: "prev = snd (so_Code env obj1)" using so_Code_fst(4) [of env obj] c by simp
  have prevcode: "or_else prev (if so_CodeHash obj1 = emptyCodeHash env then None
      else fst (be_ContractCode env (be_Keccak256 env (addr_Bytes a)) (BytesToHash (so_CodeHash obj1)))) = prev"
    using wf1 unfolding code
    by (auto simp: so_Code_def or_else_def wf_obj_def split: option.splits prod.splits)
  have data: "(so_data obj1)\<lparr>CodeHash := Some (so_CodeHash obj1)\<rparr> = so_data obj1" using h by simp
  have undone: "set_code_view env a (BytesToHash (so_CodeHash obj1)) prev (oview env (sd_snap s) (sd_snapDestructs s) (so_setCode obj1 h c)) =
      oview env (sd_snap s) (sd_snapDestructs s) obj"
    unfolding v1 [symmetric] oview_setCode [OF wf1] set_code_view_def
    using h prevcode code data by (intro acct_view_eqI) (simp_all add: hash_Bytes_BytesToHash)
  have "evolves env s (setStateObject (jappend (codeChange a prev (so_CodeHash obj1)) s) (so_setCode obj1 h c))"
    by (rule object_evolves [OF assms(1,2,4), where g = "set_code_view env a (BytesToHash (so_CodeHash obj1)) prev"])
      (use wf1 h sel assms(4) undone in simp_all)
  then show ?thesis using c sel assms(3) by (simp add: so_SetCode_def wf_obj_address)
qed

lemma so_SetState_evolves:
  assumes "db_ok env s" "sd_stateObjects s a = Some obj" "wf_obj env a obj" "\<not> so_deleted obj"
  shows "evolves env s (so_SetState env s obj k v)"
proof -
  let ?d = "so_addrHash obj \<in> sd_snapDestructs s"
  obtain obj1 prev where c: "so_GetState env (sd_snap s) ?d obj k = (obj1, prev)" by force
  have fake: "so_fakeStorage obj = None" by (rule wf_obj_fake [OF assms(3)])
  have f: "so_fixed obj1 = so_fixed obj" and v1: "oview env (sd_snap s) (sd_snapDestructs s) obj1 = oview env (sd_snap s) (sd_snapDestructs s) obj"
    using GetState_oview [OF fake, of env "sd_snap s" "sd_snapDestructs s" k] c by simp_all
  then have wf1: "wf_obj env a obj1" using wf_obj_fixed [of obj1 obj] assms(3) by blast
  note sel = so_fixed_sel [OF f]
  show ?thesis
  proof (cases "prev = v")
    case True
    then show ?thesis
      using set_silent [OF assms(1-3) wf1 v1] c fake by (simp add: so_SetState_def destructed_def)
  next
    case False
    have prev: "av_state (oview env (sd_snap s) (sd_snapDestructs s) obj1) k = prev"
      unfolding v1 using c by (simp add: oview_def)
    have "evolves env s (setStateObject (jappend (storageChange a k prev) s) (so_setState obj1 k v))"
      by (rule object_evolves [OF assms(1,2,4), where g = "\<lambda>w. w\<lparr>av_state := (av_state w)(k := prev)\<rparr>"])
        (use wf1 prev assms(4) sel in \<open>simp_all add: oview_set wf_obj_fake v1 [symmetric] fun_upd_idem\<close>)
    then show ?thesis using c fake False sel assms(3) by (simp add: so_SetState_def destructed_def wf_obj_address)
  qed
qed

lemma oview_id:
  "(oview env snap D obj)\<lparr>av_suicided := so_suicided obj, av_data := so_data obj\<rparr> = oview env snap D obj"
  by (rule acct_view_eqI) simp_all

lemma Suicide_evolves:
  assumes "env_ok env" "db_ok env s"
  shows "evolves env s (fst (Suicide env s a))"
proof -
  obtain s1 x where g: "getStateObject env s a = (s1, x)" by force
  note e = getStateObject_evolves [OF assms g]
  show ?thesis
  proof (cases x)
    case None
    then show ?thesis using g e by (simp add: Suicide_def)
  next
    case (Some obj)
    with e(5) have obj: "wf_obj env a obj" "\<not> so_deleted obj" "sd_stateObjects s1 a = Some obj" by blast+
    let ?e = "suicideChange a (so_suicided obj) (Balance (so_data obj))"
    let ?o = "so_setBalance (obj\<lparr>so_suicided := True\<rparr>) 0"
    have "evolves env s1 (setStateObject (jappend ?e s1) ?o)"
    proof (rule evolves_entry [OF e(2), of ?e])
      have "(accounts env s1)(a \<mapsto> oview env (sd_snap s1) (sd_snapDestructs s1) obj) = accounts env s1"
        using obj(3) by (auto simp: accounts_def peek_def fun_eq_iff)
      then show "undo_view env ?e (view env (setStateObject (jappend ?e s1) ?o)) = Some (view env s1)"
        using obj by (simp add: view_def at_live_def wf_obj_address wf_obj_fake oview_set oview_id)
      show "db_ok env (setStateObject (jappend ?e s1) ?o)" using e(2) obj(1) by (auto intro!: db_ok_set)
    qed simp_all
    then show ?thesis using g Some e(1) evolves_trans by (auto simp: Suicide_def)
  qed
qed

section \<open>Logs, refunds, preimages and access lists\<close>

lemma AddLog_evolves:
  assumes "db_ok env s"
  shows "evolves env s (AddLog s log)"
proof (rule evolves_entry [OF assms, of "addLogChange (sd_thash s)"])
  show "undo_view env (addLogChange (sd_thash s)) (view env (AddLog s log)) = Some (view env s)"
    by (cases s) (auto simp: AddLog_def Let_def view_def rest_def accounts_def peek_def fun_eq_iff GetLogs_def jappend_def)
qed (use assms in \<open>auto simp: AddLog_def Let_def db_ok_def wf_state_def same_revs_def appended_def journal_append_def\<close>)

lemma AddPreimage_evolves:
  assumes "db_ok env s"
  shows "evolves env s (AddPreimage s h p)"
proof (cases "sd_preimages s h")
  case None
  have "evolves env s ((jappend (addPreimageChange h) s)\<lparr>sd_preimages := (sd_preimages s)(h \<mapsto> p)\<rparr>)" (is "evolves env s ?s")
  proof (rule evolves_entry [OF assms, of "addPreimageChange h"])
    have "(sd_preimages s)(h := None) = sd_preimages s" using None by (auto simp: fun_eq_iff)
    then show "undo_view env (addPreimageChange h) (view env ?s) = Some (view env s)"
      by (cases s) (auto simp: view_def rest_def accounts_def peek_def fun_eq_iff GetLogs_def jappend_def)
  qed (use assms in \<open>auto simp: db_ok_def wf_state_def same_revs_def appended_def journal_append_def\<close>)
  then show ?thesis using None by (simp add: AddPreimage_def)
next
  case (Some _)
  then show ?thesis using evolves_refl [OF assms] by (simp add: AddPreimage_def)
qed

lemma refund_evolves:
  assumes "db_ok env s"
  shows "evolves env s ((jappend (refundChange (sd_refund s)) s)\<lparr>sd_refund := n\<rparr>)"
proof (rule evolves_entry [OF assms, of "refundChange (sd_refund s)"])
  show "undo_view env (refundChange (sd_refund s)) (view env ((jappend (refundChange (sd_refund s)) s)\<lparr>sd_refund := n\<rparr>)) =
      Some (view env s)"
    by (cases s) (auto simp: view_def rest_def accounts_def peek_def fun_eq_iff GetLogs_def jappend_def)
qed (use assms in \<open>auto simp: db_ok_def wf_state_def same_revs_def appended_def journal_append_def\<close>)

text \<open>A change of the access list whose entry gives the old list back.\<close>

lemma accessList_evolves:
  assumes "db_ok env s" "al_ok al" "wf_entry env e"
    and "\<And>R L A. sd_accessList R = al \<Longrightarrow> undo_view env e (R, L, A) = Some (R\<lparr>sd_accessList := sd_accessList s\<rparr>, L, A)"
  shows "evolves env s (jappend e (s\<lparr>sd_accessList := al\<rparr>))"
proof (rule evolves_entry [OF assms(1) _ assms(3)])
  have "rest (s\<lparr>sd_accessList := al\<rparr>) = (rest s)\<lparr>sd_accessList := al\<rparr>" "GetLogs (s\<lparr>sd_accessList := al\<rparr>) = GetLogs s"
      "accounts env (s\<lparr>sd_accessList := al\<rparr>) = accounts env s"
    by (simp_all add: rest_def GetLogs_def accounts_def peek_def fun_eq_iff)
  moreover have "(rest s)\<lparr>sd_accessList := sd_accessList s\<rparr> = rest s" by (cases s) (simp add: rest_def)
  ultimately show "undo_view env e (view env (jappend e (s\<lparr>sd_accessList := al\<rparr>))) = Some (view env s)"
    by (simp add: view_def assms(4))
qed (use assms(1,2) in \<open>auto simp: db_ok_def wf_state_def same_revs_def appended_def journal_append_def\<close>)

lemma AddAddressToAccessList_evolves:
  assumes "db_ok env s"
  shows "evolves env s (AddAddressToAccessList s a)"
proof -
  obtain al added where a: "AddAddress (sd_accessList s) a = (al, added)" by force
  have ok: "al_ok al" using assms al_ok_AddAddress [of "sd_accessList s" a] a by (simp add: db_ok_def)
  show ?thesis
  proof (cases added)
    case True
    then show ?thesis
      using accessList_evolves [OF assms ok, of "accessListAddAccountChange a"] DeleteAddress_AddAddress [of "sd_accessList s" a al] a
      by (simp add: AddAddressToAccessList_def)
  next
    case False
    then have "al = sd_accessList s" using a by (auto simp: AddAddress_def split: if_splits)
    then show ?thesis using a False evolves_refl [OF assms] by (simp add: AddAddressToAccessList_def)
  qed
qed

lemma AddSlot_unchanged: "AddSlot al a k = Some (al', c, False) \<Longrightarrow> al' = al \<and> \<not> c"
  by (auto simp: AddSlot_def split: option.splits if_splits)

lemma jappend_accessList: "jappend e (s\<lparr>sd_accessList := al\<rparr>) = (jappend e s)\<lparr>sd_accessList := al\<rparr>"
  by (simp add: jappend_def)

lemma AddSlotToAccessList_evolves:
  assumes "db_ok env s"
  shows "\<exists>s'. AddSlotToAccessList s a k = Some s' \<and> evolves env s s'"
proof -
  let ?al = "sd_accessList s"
  have ok: "al_ok ?al" using assms by (simp add: db_ok_def)
  obtain al' c d where s: "AddSlot ?al a k = Some (al', c, d)" "al_ok al'" by (rule AddSlot_total [OF ok])
  have "evolves env s (if d then jappend (accessListAddSlotChange a k)
      (if c then jappend (accessListAddAccountChange a) (s\<lparr>sd_accessList := al'\<rparr>) else s\<lparr>sd_accessList := al'\<rparr>)
      else if c then jappend (accessListAddAccountChange a) (s\<lparr>sd_accessList := al'\<rparr>) else s\<lparr>sd_accessList := al'\<rparr>)"
  proof (cases d)
    case False
    then have "s\<lparr>sd_accessList := al'\<rparr> = s" "\<not> c" using AddSlot_unchanged [of ?al a k al' c] s(1) by simp_all
    then show ?thesis using False evolves_refl [OF assms] by simp
  next
    case d: True
    show ?thesis
    proof (cases c)
      case False
      have "DeleteSlot al' a k = Some ?al" using DeleteSlot_AddSlot [OF ok, of a k al' c] s(1) d False by simp
      then show ?thesis
        using accessList_evolves [OF assms s(2), of "accessListAddSlotChange a k"] d False by simp
    next
      case True
      let ?m = "?al\<lparr>al_addresses := (al_addresses ?al)(a \<mapsto> -1)\<rparr>"
      have new: "AddAddress ?al a = (?m, True)"
        using s(1) True by (auto simp: AddSlot_def AddAddress_def split: option.splits if_splits)
      then have ok': "al_ok ?m" using al_ok_AddAddress [OF ok, of a] by simp
      let ?s1 = "jappend (accessListAddAccountChange a) (s\<lparr>sd_accessList := ?m\<rparr>)"
      have 1: "evolves env s ?s1"
        using accessList_evolves [OF assms ok', of "accessListAddAccountChange a"] DeleteAddress_AddAddress [OF new] by simp
      have "DeleteSlot al' a k = Some ?m" using DeleteSlot_AddSlot [OF ok, of a k al' c] s(1) d True by simp
      then have "evolves env ?s1 (jappend (accessListAddSlotChange a k) (?s1\<lparr>sd_accessList := al'\<rparr>))"
        using accessList_evolves [OF evolves_ok [OF 1] s(2), of "accessListAddSlotChange a k"] by simp
      then show ?thesis using evolves_trans [OF 1] d True by (simp add: jappend_accessList)
    qed
  qed
  then show ?thesis using s(1) by (auto simp: AddSlotToAccessList_def Let_def)
qed

section \<open>Reads\<close>

lemma read_object_evolves:
  assumes "env_ok env" "db_ok env s"
    and "\<And>s obj. wf_obj env a obj \<Longrightarrow> so_fixed (fst (f s obj)) = so_fixed obj \<and>
        oview env (sd_snap s) (sd_snapDestructs s) (fst (f s obj)) = oview env (sd_snap s) (sd_snapDestructs s) obj"
  shows "evolves env s (fst (read_object env s a dflt f))"
proof -
  obtain s1 x where g: "getStateObject env s a = (s1, x)" by force
  note e = getStateObject_evolves [OF assms(1,2) g]
  show ?thesis
  proof (cases x)
    case None
    then show ?thesis using g e by (simp add: read_object_def)
  next
    case (Some obj)
    with e(5) have obj: "wf_obj env a obj" "sd_stateObjects s1 a = Some obj" by blast+
    have "evolves env s1 (setStateObject s1 (fst (f s1 obj)))"
      using set_silent [OF e(2) obj(2,1)] wf_obj_fixed [of "fst (f s1 obj)" obj] assms(3) [OF obj(1)] obj(1) by blast
    then show ?thesis using g Some e(1) evolves_trans by (auto simp: read_object_def split: prod.splits)
  qed
qed

lemma reads_evolve:
  assumes "env_ok env" "db_ok env s"
  shows "evolves env s (fst (GetCode env s a))" "evolves env s (fst (GetCodeSize env s a))"
    "evolves env s (fst (GetState env s a k))" "evolves env s (fst (GetCommittedState env s a k))"
    "evolves env s (fst (getStateObject env s a))"
  unfolding GetCode_def GetCodeSize_def GetState_def GetCommittedState_def destructed_def
  using getStateObject_evolves(1) [OF assms, of a "fst (getStateObject env s a)" "snd (getStateObject env s a)"]
  by (auto intro!: read_object_evolves [OF assms]
      simp: so_Code_fst so_Code_oview so_CodeSize_fst so_CodeSize_oview GetState_oview GetCommittedState_oview wf_obj_fake)

section \<open>Sequences of operations\<close>

text \<open>The operations of clients, all but \<open>SetStorage\<close>: what it writes is not journalled.\<close>

datatype db_op =
    op_CreateAccount address | op_AddBalance address int | op_SubBalance address int | op_SetBalance address int
  | op_SetNonce address uint64 | op_SetCode address bytes | op_SetState address hash hash | op_Suicide address
  | op_AddLog Log | op_AddPreimage hash bytes | op_AddRefund uint64 | op_SubRefund uint64
  | op_AddAddressToAccessList address | op_AddSlotToAccessList address hash
  | op_Exist address | op_Empty address | op_GetBalance address | op_GetNonce address | op_GetCodeHash address
  | op_HasSuicided address | op_GetCode address | op_GetCodeSize address | op_GetState address hash
  | op_GetCommittedState address hash
  | op_Snapshot | op_RevertToSnapshot int

fun run_op :: "('t, 's) backend \<Rightarrow> db_op \<Rightarrow> ('t, 's) StateDB \<Rightarrow> ('t, 's) StateDB option" where
  "run_op env (op_CreateAccount a) s = Some (CreateAccount env s a)"
| "run_op env (op_AddBalance a n) s = Some (AddBalance env s a n)"
| "run_op env (op_SubBalance a n) s = Some (SubBalance env s a n)"
| "run_op env (op_SetBalance a n) s = Some (SetBalance env s a n)"
| "run_op env (op_SetNonce a n) s = Some (SetNonce env s a n)"
| "run_op env (op_SetCode a c) s = Some (SetCode env s a c)"
| "run_op env (op_SetState a k v) s = Some (SetState env s a k v)"
| "run_op env (op_Suicide a) s = Some (fst (Suicide env s a))"
| "run_op env (op_AddLog log) s = Some (AddLog s log)"
| "run_op env (op_AddPreimage h p) s = Some (AddPreimage s h p)"
| "run_op env (op_AddRefund n) s = Some (AddRefund s n)"
| "run_op env (op_SubRefund n) s = SubRefund s n"
| "run_op env (op_AddAddressToAccessList a) s = Some (AddAddressToAccessList s a)"
| "run_op env (op_AddSlotToAccessList a k) s = AddSlotToAccessList s a k"
| "run_op env (op_Exist a) s = Some (fst (Exist env s a))"
| "run_op env (op_Empty a) s = Some (fst (Empty env s a))"
| "run_op env (op_GetBalance a) s = Some (fst (GetBalance env s a))"
| "run_op env (op_GetNonce a) s = Some (fst (GetNonce env s a))"
| "run_op env (op_GetCodeHash a) s = Some (fst (GetCodeHash env s a))"
| "run_op env (op_HasSuicided a) s = Some (fst (HasSuicided env s a))"
| "run_op env (op_GetCode a) s = Some (fst (GetCode env s a))"
| "run_op env (op_GetCodeSize a) s = Some (fst (GetCodeSize env s a))"
| "run_op env (op_GetState a k) s = Some (fst (GetState env s a k))"
| "run_op env (op_GetCommittedState a k) s = Some (fst (GetCommittedState env s a k))"
| "run_op env op_Snapshot s = Some (fst (Snapshot s))"
| "run_op env (op_RevertToSnapshot revid) s = RevertToSnapshot env s revid"

primrec run :: "('t, 's) backend \<Rightarrow> db_op list \<Rightarrow> ('t, 's) StateDB \<Rightarrow> ('t, 's) StateDB option" where
  "run env [] s = Some s"
| "run env (op # ops) s = (case run_op env op s of None \<Rightarrow> None | Some s' \<Rightarrow> run env ops s')"

lemma plain_reads:
  "fst (Exist env s a) = fst (getStateObject env s a)" "fst (Empty env s a) = fst (getStateObject env s a)"
  "fst (GetBalance env s a) = fst (getStateObject env s a)" "fst (GetNonce env s a) = fst (getStateObject env s a)"
  "fst (GetCodeHash env s a) = fst (getStateObject env s a)" "fst (HasSuicided env s a) = fst (getStateObject env s a)"
  by (auto simp: Exist_def Empty_def GetBalance_def GetNonce_def GetCodeHash_def HasSuicided_def
      split: prod.splits option.splits)

lemma setters_evolve:
  assumes "env_ok env" "db_ok env s"
  shows "evolves env s (AddBalance env s a n)" "evolves env s (SubBalance env s a n)" "evolves env s (SetBalance env s a n)"
    "evolves env s (SetNonce env s a m)" "evolves env s (SetCode env s a c)" "evolves env s (SetState env s a k v)"
proof -
  obtain s1 obj where g: "GetOrNewStateObject env s a = (s1, obj)" by force
  note e = GetOrNew_evolves [OF assms g]
  note t = evolves_trans [OF e(1)]
  show "evolves env s (AddBalance env s a n)" "evolves env s (SubBalance env s a n)" "evolves env s (SetBalance env s a n)"
      "evolves env s (SetNonce env s a m)" "evolves env s (SetCode env s a c)" "evolves env s (SetState env s a k v)"
    using g e(1) t so_SetBalance_evolves [OF e(2-5)] so_SetNonce_evolves [OF e(2-5)] so_SetCode_evolves [OF e(2-5)]
      so_SetState_evolves [OF e(2-5)] touch_evolves [OF e(2)]
    by (simp_all add: AddBalance_def SubBalance_def SetBalance_def SetNonce_def SetCode_def SetState_def
        so_AddBalance_def so_SubBalance_def)
qed

lemma run_op_evolves:
  assumes "env_ok env" "db_ok env s" "run_op env op s = Some s'" "op \<noteq> op_Snapshot" "\<And>revid. op \<noteq> op_RevertToSnapshot revid"
  shows "evolves env s s'"
proof -
  note evolve = setters_evolve [OF assms(1,2)] reads_evolve [OF assms(1,2)] CreateAccount_evolves [OF assms(1,2)]
      Suicide_evolves [OF assms(1,2)] AddLog_evolves [OF assms(2)] AddPreimage_evolves [OF assms(2)]
      refund_evolves [OF assms(2)] AddAddressToAccessList_evolves [OF assms(2)]
  have "pred_option (evolves env s) (run_op env op s)"
  proof (cases op)
    case (op_AddSlotToAccessList a k)
    then show ?thesis using AddSlotToAccessList_evolves [OF assms(2), of a k] by auto
  qed (use assms(4,5) in \<open>simp_all add: evolve plain_reads AddRefund_def SubRefund_def\<close>)
  then show ?thesis using assms(3) by simp
qed

section \<open>Revisions\<close>

lemma sort_Search_loop_first:
  "i \<le> m \<Longrightarrow> m \<le> j \<Longrightarrow> (\<And>h. h < j \<Longrightarrow> f h \<longleftrightarrow> m \<le> h) \<Longrightarrow> sort_Search_loop f i j = m"
proof (induction f i j rule: sort_Search_loop.induct)
  case (1 f i j)
  show ?case
  proof (cases "i < j")
    case True
    let ?h = "(i + j) div 2"
    have h: "i \<le> ?h" "?h < j" using True by auto
    show ?thesis
    proof (cases "f ?h")
      case f: True
      then have "sort_Search_loop f i ?h = m"
        using 1 h True by (intro 1(2)) auto
      then show ?thesis using True f by (simp add: sort_Search_loop.simps [of f i j] Let_def)
    next
      case f: False
      then have "sort_Search_loop f (?h + 1) j = m"
        using 1 h True by (intro 1(1)) (auto simp: not_le Suc_le_eq)
      then show ?thesis using True f by (simp add: sort_Search_loop.simps [of f i j] Let_def)
    qed
  next
    case False
    then show ?thesis using 1 by (simp add: sort_Search_loop.simps [of f i j])
  qed
qed

lemma sort_Search_le: "i \<le> j \<Longrightarrow> sort_Search_loop f i j \<le> j"
proof (induction f i j rule: sort_Search_loop.induct)
  case (1 f i j)
  let ?h = "(i + j) div 2"
  show ?case
  proof (cases "i < j")
    case True
    then have h: "i \<le> ?h" "?h + 1 \<le> j" by auto
    show ?thesis
    proof (cases "f ?h")
      case f: True
      have "sort_Search_loop f i ?h \<le> ?h" by (rule 1(2) [OF True refl _ h(1)]) (simp add: f)
      moreover have "sort_Search_loop f i j = sort_Search_loop f i ?h"
        using True f by (subst sort_Search_loop.simps) (simp add: Let_def)
      ultimately show ?thesis using h(2) by linarith
    next
      case f: False
      have "sort_Search_loop f (?h + 1) j \<le> j" by (rule 1(1) [OF True refl f h(2)])
      moreover have "sort_Search_loop f i j = sort_Search_loop f (?h + 1) j"
        using True f by (subst sort_Search_loop.simps) (simp add: Let_def)
      ultimately show ?thesis by simp
    qed
  next
    case False
    then have "sort_Search_loop f i j = i" by (subst sort_Search_loop.simps) simp
    then show ?thesis using 1(3) by simp
  qed
qed

text \<open>
  The ghost function \<open>g\<close> gives for each valid revision the database as it was when the snapshot was taken.
\<close>

definition tracked :: "('t, 's) backend \<Rightarrow> (int \<Rightarrow> ('t, 's) StateDB) \<Rightarrow> ('t, 's) StateDB \<Rightarrow> bool" where
  "tracked env g s \<longleftrightarrow> db_ok env s \<and>
     (\<forall>i < length (sd_validRevisions s).
        let r = sd_validRevisions s ! i; b = g (rv_id r)
        in db_ok env b \<and> rv_journalIndex r = length (entries b) \<and> (\<exists>es. changes env b es s) \<and>
           sd_validRevisions b = take i (sd_validRevisions s) \<and> rv_id r < sd_nextRevisionId s \<and>
           (\<forall>j < i. rv_id (sd_validRevisions s ! j) < rv_id r \<and> rv_journalIndex (sd_validRevisions s ! j) \<le> rv_journalIndex r))"

lemma trackedD:
  assumes "tracked env g s" "i < length (sd_validRevisions s)" "r = sd_validRevisions s ! i"
  shows "db_ok env (g (rv_id r))" "rv_journalIndex r = length (entries (g (rv_id r)))"
    "\<exists>es. changes env (g (rv_id r)) es s" "sd_validRevisions (g (rv_id r)) = take i (sd_validRevisions s)"
    "rv_id r < sd_nextRevisionId s" "\<And>j. j < i \<Longrightarrow> rv_id (sd_validRevisions s ! j) < rv_id r \<and> rv_journalIndex (sd_validRevisions s ! j) \<le> rv_journalIndex r"
  using assms unfolding tracked_def Let_def by blast+

lemma trackedI:
  assumes "db_ok env s"
    and "\<And>i r. i < length (sd_validRevisions s) \<Longrightarrow> r = sd_validRevisions s ! i \<Longrightarrow>
      db_ok env (g (rv_id r)) \<and> rv_journalIndex r = length (entries (g (rv_id r))) \<and>
      (\<exists>es. changes env (g (rv_id r)) es s) \<and> sd_validRevisions (g (rv_id r)) = take i (sd_validRevisions s) \<and>
      rv_id r < sd_nextRevisionId s \<and> (\<forall>j < i. rv_id (sd_validRevisions s ! j) < rv_id r \<and>
        rv_journalIndex (sd_validRevisions s ! j) \<le> rv_journalIndex r)"
  shows "tracked env g s"
  unfolding tracked_def Let_def by (rule conjI [OF assms(1)], intro allI impI, rule assms(2) [OF _ refl])

lemma tracked_ok: "tracked env g s \<Longrightarrow> db_ok env s"
  by (simp add: tracked_def)

lemma tracked_evolves:
  assumes "tracked env g s" "evolves env s s'"
  shows "tracked env g s'"
proof (rule trackedI)
  show "db_ok env s'" using assms(2) by (rule evolves_ok)
  obtain es where es: "changes env s es s'" using assms(2) by (auto simp: evolves_def)
  have eq: "sd_validRevisions s' = sd_validRevisions s" "sd_nextRevisionId s' = sd_nextRevisionId s"
    using assms(2) by (simp_all add: evolves_def same_revs_def)
  fix i r
  assume "i < length (sd_validRevisions s')" "r = sd_validRevisions s' ! i"
  then have "i < length (sd_validRevisions s)" "r = sd_validRevisions s ! i" using eq by simp_all
  note t = trackedD [OF assms(1) this]
  have "\<exists>es. changes env (g (rv_id r)) es s'" using t(3) changes_trans [OF es] by blast
  then show "db_ok env (g (rv_id r)) \<and> rv_journalIndex r = length (entries (g (rv_id r))) \<and>
      (\<exists>es. changes env (g (rv_id r)) es s') \<and> sd_validRevisions (g (rv_id r)) = take i (sd_validRevisions s') \<and>
      rv_id r < sd_nextRevisionId s' \<and> (\<forall>j < i. rv_id (sd_validRevisions s' ! j) < rv_id r \<and>
        rv_journalIndex (sd_validRevisions s' ! j) \<le> rv_journalIndex r)"
    using t eq by simp
qed

lemma tracked_Snapshot:
  assumes "tracked env g s" "Snapshot s = (s', revid)"
  shows "tracked env (g(revid := s)) s'" "revid = sd_nextRevisionId s"
    "sd_validRevisions s' = sd_validRevisions s @ [\<lparr>rv_id = revid, rv_journalIndex = length (entries s)\<rparr>]"
    "sd_nextRevisionId s' = revid + 1"
proof -
  let ?revs = "sd_validRevisions s"
  have s': "s' = s\<lparr>sd_nextRevisionId := revid + 1,
      sd_validRevisions := ?revs @ [\<lparr>rv_id = revid, rv_journalIndex = length (entries s)\<rparr>]\<rparr>"
    and id: "revid = sd_nextRevisionId s"
    using assms(2) by (auto simp: Snapshot_def Let_def)
  show "revid = sd_nextRevisionId s" by (rule id)
  show revs: "sd_validRevisions s' = ?revs @ [\<lparr>rv_id = revid, rv_journalIndex = length (entries s)\<rparr>]"
    and nx: "sd_nextRevisionId s' = revid + 1" by (simp_all add: s')
  have v: "view env s' = view env s"
    unfolding s' by (simp add: view_def rest_def accounts_def peek_def fun_eq_iff GetLogs_def)
  have okb: "db_ok env s" using assms(1) by (rule tracked_ok)
  then have ok: "db_ok env s'" unfolding s' by (simp add: db_ok_def wf_state_def)
  have ent: "entries s' = entries s" unfolding s' by simp
  show "tracked env (g(revid := s)) s'"
  proof (rule trackedI [OF ok])
    fix i r
    assume i: "i < length (sd_validRevisions s')" and r: "r = sd_validRevisions s' ! i"
    let ?b = "(g(revid := s)) (rv_id r)"
    show "db_ok env ?b \<and> rv_journalIndex r = length (entries ?b) \<and>
      (\<exists>es. changes env ?b es s') \<and> sd_validRevisions ?b = take i (sd_validRevisions s') \<and>
      rv_id r < sd_nextRevisionId s' \<and> (\<forall>j < i. rv_id (sd_validRevisions s' ! j) < rv_id r \<and>
        rv_journalIndex (sd_validRevisions s' ! j) \<le> rv_journalIndex r)"
    proof (cases "i < length ?revs")
      case True
      then have r': "r = ?revs ! i" using r revs by (simp add: nth_append)
      note t = trackedD [OF assms(1) True r']
      have "rv_id r \<noteq> revid" using t(5) id by simp
      moreover have "\<exists>es. changes env (g (rv_id r)) es s'" using t(3) changes_quiet [OF _ v ok ent] by blast
      ultimately show ?thesis using t True id revs nx by (simp add: nth_append)
    next
      case False
      then have l: "i = length ?revs" and r': "r = \<lparr>rv_id = revid, rv_journalIndex = length (entries s)\<rparr>"
        using i r revs by (simp_all add: nth_append)
      have "changes env s [] s'" by (rule changes.quiet [OF v ok ent])
      moreover have "rv_id (?revs ! j) < revid" "rv_journalIndex (?revs ! j) \<le> length (entries s)" if "j < length ?revs" for j
        using trackedD(2,3,5) [OF assms(1) that] id by (auto dest: changes_entries)
      ultimately show ?thesis using okb l r' revs nx by (auto simp: nth_append)
    qed
  qed
qed

lemma RevertToSnapshot_search:
  assumes "tracked env g s" "i < length (sd_validRevisions s)" "rv_id (sd_validRevisions s ! i) = revid"
  shows "sort_Search (length (sd_validRevisions s)) (\<lambda>i. rv_id (sd_validRevisions s ! i) \<ge> revid) = i"
  unfolding sort_Search_def
proof (rule sort_Search_loop_first)
  fix h
  assume h: "h < length (sd_validRevisions s)"
  show "revid \<le> rv_id (sd_validRevisions s ! h) \<longleftrightarrow> i \<le> h"
    using trackedD(6) [OF assms(1,2) refl, of h] trackedD(6) [OF assms(1) h refl, of i] assms(3)
    by (cases "h = i"; cases "h < i") auto
qed (use assms(2) in auto)

lemma RevertToSnapshot_tracked:
  assumes "env_ok env" "tracked env g s" "i < length (sd_validRevisions s)" "rv_id (sd_validRevisions s ! i) = revid"
  shows "\<exists>t. RevertToSnapshot env s revid = Some t \<and> view env t = view env (g revid) \<and>
     entries t = entries (g revid) \<and> sd_validRevisions t = sd_validRevisions (g revid) \<and>
     sd_validRevisions t = take i (sd_validRevisions s) \<and> sd_nextRevisionId t = sd_nextRevisionId s \<and> tracked env g t"
proof -
  let ?revs = "sd_validRevisions s"
  let ?b = "g revid"
  note t = trackedD [OF assms(2,3) refl, unfolded assms(4)]
  obtain es where es: "changes env ?b es s" using t(3) by blast
  have ent: "entries s = entries ?b @ es" by (rule changes_entries [OF es])
  obtain u where u: "revert_entries env (rev es) s = Some u" "view env u = view env ?b" "db_ok env u"
      "entries u = entries s" "same_revs s u"
    using changes_revert [OF assms(1) es t(1) refl changes_ok [OF es]] by blast
  define r where "r = u\<lparr>sd_journal := (sd_journal u)\<lparr>j_entries := entries ?b\<rparr>, sd_validRevisions := take i ?revs\<rparr>"
  have r: "RevertToSnapshot env s revid = Some r"
    using assms(3,4) u(1,4) t(2) ent
    by (simp add: RevertToSnapshot_def RevertToSnapshot_search [OF assms(2-4)] Let_def journal_revert_def r_def)
  have v: "view env r = view env ?b"
    using u(2) by (simp add: r_def view_def rest_def accounts_def peek_def fun_eq_iff GetLogs_def)
  have ok: "db_ok env r" using u(3) by (simp add: r_def db_ok_def wf_state_def)
  have sel: "entries r = entries ?b" "sd_validRevisions r = take i ?revs" "sd_nextRevisionId r = sd_nextRevisionId s"
    using u(5) by (simp_all add: r_def same_revs_def)
  have "tracked env g r"
  proof (rule trackedI [OF ok])
    fix i' q
    assume i': "i' < length (sd_validRevisions r)" and q: "q = sd_validRevisions r ! i'"
    then have "i' < length ?revs" "q = ?revs ! i'" and less: "i' < i" using sel by simp_all
    note t' = trackedD [OF assms(2) this(1,2)]
    obtain es' where es': "changes env (g (rv_id q)) es' s" using t'(3) by blast
    have "length (entries (g (rv_id q))) \<le> length (entries ?b)"
      using trackedD(6) [OF assms(2,3) refl less] t(2) t'(2) assms(4) \<open>q = ?revs ! i'\<close> by simp
    then obtain es1 where es1: "es' = es1 @ es" "entries ?b = entries (g (rv_id q)) @ es1"
      using ent changes_entries [OF es'] by (auto simp: append_eq_append_conv2)
    obtain m where m: "changes env (g (rv_id q)) es1 m" "changes env m es s"
      using changes_split [OF es' t'(1) es1(1)] by blast
    have "view env u = view env m"
      using changes_revert [OF assms(1) m(2) changes_ok [OF m(1)] refl changes_ok [OF es]] u(1) by auto
    then have "changes env (g (rv_id q)) es1 r"
      using u(2) v sel(1) es1(2) changes_entries [OF m(1)] by (intro changes_quiet [OF m(1) _ ok]) simp_all
    then show "db_ok env (g (rv_id q)) \<and> rv_journalIndex q = length (entries (g (rv_id q))) \<and>
      (\<exists>es. changes env (g (rv_id q)) es r) \<and> sd_validRevisions (g (rv_id q)) = take i' (sd_validRevisions r) \<and>
      rv_id q < sd_nextRevisionId r \<and> (\<forall>j < i'. rv_id (sd_validRevisions r ! j) < rv_id q \<and>
        rv_journalIndex (sd_validRevisions r ! j) \<le> rv_journalIndex q)"
      using t' sel less by auto
  qed
  then show ?thesis using r v sel t(4) by auto
qed

end
