(* ===== verification/StateSnapshots.thy ===== *)
theory StateSnapshots
  imports StateRevert
begin

text \<open>
  The theorems about snapshots of the state database, for every database that client calls can produce.
\<close>

section \<open>Runs keep the snapshots\<close>

definition valid_ids :: "('t, 's) StateDB \<Rightarrow> int set" where
  "valid_ids s = rv_id ` set (sd_validRevisions s)"

text \<open>
  From \<open>s\<close> to \<open>s'\<close> no snapshot taken before became valid again, and the ghost states of those still valid are the same.
\<close>

definition later :: "(int \<Rightarrow> ('t, 's) StateDB) \<Rightarrow> ('t, 's) StateDB \<Rightarrow> (int \<Rightarrow> ('t, 's) StateDB) \<Rightarrow> ('t, 's) StateDB \<Rightarrow> bool" where
  "later g s g' s' \<longleftrightarrow> sd_nextRevisionId s \<le> sd_nextRevisionId s' \<and>
     (\<forall>n < sd_nextRevisionId s. g' n = g n \<and> (n \<in> valid_ids s' \<longrightarrow> n \<in> valid_ids s))"

lemma later_trans: "later g s g' s' \<Longrightarrow> later g' s' g'' s'' \<Longrightarrow> later g s g'' s''"
  by (force simp: later_def)

lemma valid_ids_index: "n \<in> valid_ids s \<longleftrightarrow> (\<exists>i < length (sd_validRevisions s). rv_id (sd_validRevisions s ! i) = n)"
  by (auto simp: valid_ids_def set_conv_nth)

lemma RevertToSnapshot_panics: "n \<notin> valid_ids s \<Longrightarrow> RevertToSnapshot env s n = None"
  using sort_Search_le [of 0 "length (sd_validRevisions s)" "\<lambda>i. n \<le> rv_id (sd_validRevisions s ! i)"]
  by (auto simp: RevertToSnapshot_def Let_def sort_Search_def valid_ids_index le_less)

lemma run_op_tracked:
  assumes "env_ok env" "tracked env g s" "run_op env op s = Some s'"
  shows "\<exists>g'. tracked env g' s' \<and> later g s g' s'"
proof -
  consider "op = op_Snapshot" | revid where "op = op_RevertToSnapshot revid"
    | "op \<noteq> op_Snapshot" "\<And>revid. op \<noteq> op_RevertToSnapshot revid"
    by blast
  then show ?thesis
  proof cases
    case 1
    obtain t revid where "Snapshot s = (t, revid)" by force
    then have "Snapshot s = (s', revid)" using assms(3) 1 by simp
    from tracked_Snapshot [OF assms(2) this] show ?thesis
      by (intro exI [of _ "g(revid := s)"]) (auto simp: later_def valid_ids_def)
  next
    case 2
    then have "revid \<in> valid_ids s" using RevertToSnapshot_panics [of revid s env] assms(3) by auto
    then obtain i where "i < length (sd_validRevisions s)" "rv_id (sd_validRevisions s ! i) = revid"
      by (auto simp: valid_ids_index)
    from RevertToSnapshot_tracked [OF assms(1,2) this] have t: "tracked env g s'"
        "sd_validRevisions s' = take i (sd_validRevisions s)" "sd_nextRevisionId s' = sd_nextRevisionId s"
      using 2 assms(3) by auto
    then have "valid_ids s' \<subseteq> valid_ids s" by (auto simp: valid_ids_def dest: in_set_takeD)
    then show ?thesis using t by (intro exI [of _ g]) (auto simp: later_def)
  next
    case 3
    then have e: "evolves env s s'" using run_op_evolves [OF assms(1) tracked_ok [OF assms(2)] assms(3)] by simp
    then show ?thesis
      using tracked_evolves [OF assms(2) e]
      by (intro exI [of _ g]) (auto simp: later_def valid_ids_def evolves_def same_revs_def)
  qed
qed

lemma run_tracked:
  assumes "env_ok env"
  shows "tracked env g s \<Longrightarrow> run env ops s = Some s' \<Longrightarrow> \<exists>g'. tracked env g' s' \<and> later g s g' s'"
proof (induction ops arbitrary: g s)
  case Nil
  then show ?case by (intro exI [of _ g]) (auto simp: later_def)
next
  case (Cons op ops)
  then obtain s1 where s1: "run_op env op s = Some s1" "run env ops s1 = Some s'" by (auto split: option.splits)
  obtain g1 where g1: "tracked env g1 s1" "later g s g1 s1" using run_op_tracked [OF assms Cons.prems(1) s1(1)] by blast
  then show ?case using Cons.IH [OF g1(1) s1(2)] by (blast intro: later_trans)
qed

section \<open>Databases that client calls produce\<close>

text \<open>
  \<open>Prepare\<close> starts a transaction, when no snapshot is open; \<open>Finalise\<close> ends it. The one setter that is left out is
  \<open>SetStorage\<close>, which the source restricts to debugging: its writes, and those to the storage it overrides, are not
  journalled (\<open>fake_storage_not_reverted\<close> below).
\<close>

inductive reachable :: "('t, 's) backend \<Rightarrow> ('t, 's) StateDB \<Rightarrow> bool" for env where
  New: "New env root = Inr s \<Longrightarrow> reachable env s"
| Reset: "reachable env s \<Longrightarrow> StateDB_Reset env s root = Inr s' \<Longrightarrow> reachable env s'"
| Prepare: "reachable env s \<Longrightarrow> sd_validRevisions s = [] \<Longrightarrow> reachable env (Prepare s thash bhash ti)"
| op: "reachable env s \<Longrightarrow> run_op env op s = Some s' \<Longrightarrow> reachable env s'"
| Finalise: "reachable env s \<Longrightarrow> reachable env (Finalise env s b)"

lemma tracked_no_revisions: "db_ok env s \<Longrightarrow> sd_validRevisions s = [] \<Longrightarrow> tracked env g s"
  by (simp add: tracked_def)

lemma clearJournal_fields [simp]:
  "sd_validRevisions (clearJournalAndRefund s) = []" "sd_stateObjects (clearJournalAndRefund s) = sd_stateObjects s"
  "sd_stateObjectsDirty (clearJournalAndRefund s) = sd_stateObjectsDirty s"
  "sd_accessList (clearJournalAndRefund s) = sd_accessList s"
  by (simp_all add: clearJournalAndRefund_def Let_def)

lemma finalise_object_wf [simp]: "wf_obj env a (finalise_object env b obj) = wf_obj env a obj"
  by (simp add: finalise_object_def so_finalise_def wf_obj_def)

lemma Finalise_fields:
  "sd_validRevisions (Finalise env s b) = []" "sd_accessList (Finalise env s b) = sd_accessList s"
  "sd_stateObjects (Finalise env s b) = (\<lambda>a. if a \<in> dom (j_dirties (sd_journal s))
     then map_option (finalise_object env b) (sd_stateObjects s a) else sd_stateObjects s a)"
  "sd_stateObjectsDirty (Finalise env s b) =
     sd_stateObjectsDirty s \<union> (dom (j_dirties (sd_journal s)) \<inter> dom (sd_stateObjects s))"
  by (auto simp: Finalise_def Let_def fun_eq_iff)

lemma Finalise_ok:
  assumes "db_ok env s"
  shows "db_ok env (Finalise env s b)"
  using assms unfolding db_ok_def wf_state_def Finalise_fields
  by (auto split: if_splits)

lemma reachable_tracked:
  assumes "env_ok env"
  shows "reachable env s \<Longrightarrow> \<exists>g. tracked env g s"
proof (induction rule: reachable.induct)
  case (New root s)
  then have "db_ok env s" "sd_validRevisions s = []"
    by (auto simp: New_def db_ok_def wf_state_def al_ok_new split: sum.splits)
  then show ?case using tracked_no_revisions by blast
next
  case (Reset s root s')
  then have "db_ok env s'" "sd_validRevisions s' = []"
    by (auto simp: StateDB_Reset_def db_ok_def wf_state_def al_ok_new split: sum.splits)
  then show ?case using tracked_no_revisions by blast
next
  case (Prepare s thash bhash ti)
  then have "db_ok env (Prepare s thash bhash ti)" "sd_validRevisions (Prepare s thash bhash ti) = []"
    by (auto simp: tracked_def Prepare_def db_ok_def wf_state_def al_ok_new)
  then show ?case using tracked_no_revisions by blast
next
  case (op s op s')
  then show ?case using run_op_tracked [OF assms] by blast
next
  case (Finalise s b)
  then show ?case using tracked_no_revisions Finalise_ok Finalise_fields(1) tracked_ok by blast
qed

section \<open>What a client can read\<close>

text \<open>The results of the read operations.\<close>

definition observe_account where
  "observe_account env s a =
     (snd (Exist env s a), snd (Empty env s a), snd (GetBalance env s a), snd (GetNonce env s a), snd (GetCode env s a),
      snd (GetCodeSize env s a), snd (GetCodeHash env s a), snd (HasSuicided env s a),
      (\<lambda>k. snd (GetState env s a k)), (\<lambda>k. snd (GetCommittedState env s a k)))"

definition observe where
  "observe env s = (observe_account env s, GetRefund s, GetLogs s, sd_preimages s, AddressInAccessList s, SlotInAccessList s)"

definition read_view :: "acct_view option \<Rightarrow> acct_view option" where
  "read_view w = (case w of Some w \<Rightarrow> if av_deleted w then None else Some w | None \<Rightarrow> None)"

lemma read_view_live:
  "read_view (accounts env s a) = map_option (oview env (sd_snap s) (sd_snapDestructs s)) (live (peek env s a))"
  by (simp add: read_view_def accounts_def live_def split: option.splits)

lemma CodeSize_view:
  assumes "env_ok env"
  shows "snd (so_CodeSize env obj) = (case snd (so_Code env obj) of None \<Rightarrow> 0 | Some c \<Rightarrow> int (length c))"
proof -
  have "fst (be_ContractCodeSize env (so_addrHash obj) h) =
      (case fst (be_ContractCode env (so_addrHash obj) h) of None \<Rightarrow> 0 | Some c \<Rightarrow> int (length c))" for h
    using assms by (simp add: env_ok_def)
  then show ?thesis by (simp add: so_CodeSize_def so_Code_def case_prod_beta split: option.split)
qed

definition account_reads where
  "account_reads env w =
    (case read_view w of
       None \<Rightarrow> (False, True, 0, 0, None, 0, 0, False, (\<lambda>_. 0), (\<lambda>_. 0))
     | Some w \<Rightarrow> (True,
         Nonce (av_data w) = 0 \<and> Balance (av_data w) = 0 \<and> CodeHash (av_data w) = Some (emptyCodeHash env),
         Balance (av_data w), Nonce (av_data w), av_code w,
         (case av_code w of None \<Rightarrow> 0 | Some c \<Rightarrow> int (length c)),
         BytesToHash (case CodeHash (av_data w) of None \<Rightarrow> [] | Some h \<Rightarrow> h), av_suicided w, av_state w, av_committed w))"

lemma observe_account_view:
  assumes "env_ok env" "wf_state env s"
  shows "observe_account env s a = account_reads env (accounts env s a)"
proof -
  obtain s1 x where g: "getStateObject env s a = (s1, x)" by force
  have x: "live (peek env s a) = x" using getStateObject_eq(1) [OF g] by simp
  have s1: "sd_snap s1 = sd_snap s" "sd_snapDestructs s1 = sd_snapDestructs s"
    using silent_fields [OF getStateObject_eq(2) [OF g]] by simp_all
  show ?thesis
  proof (cases x)
    case None
    then show ?thesis
      using g x by (simp add: observe_account_def account_reads_def read_view_live Exist_def Empty_def GetBalance_def GetNonce_def
          GetCode_def GetCodeSize_def GetCodeHash_def HasSuicided_def GetState_def GetCommittedState_def read_object_def)
  next
    case (Some obj)
    then show ?thesis
      using g x s1 CodeSize_view [OF assms(1), of obj]
      by (simp add: observe_account_def account_reads_def read_view_live Exist_def Empty_def GetBalance_def GetNonce_def
          GetCode_def GetCodeSize_def GetCodeHash_def HasSuicided_def GetState_def GetCommittedState_def read_object_def
          so_empty_def so_CodeHash_def destructed_def oview_def case_prod_beta)
  qed
qed

lemma view_observe:
  assumes "env_ok env" "wf_state env s" "wf_state env s'" "view env s = view env s'"
  shows "observe env s = observe env s'"
  using view_sel [OF assms(4)] rest_sel [OF view_sel(1) [OF assms(4)]]
    observe_account_view [OF assms(1,2)] observe_account_view [OF assms(1,3)]
  by (simp add: observe_def GetRefund_def fun_eq_iff AddressInAccessList_def SlotInAccessList_def)

section \<open>Counts of dirty accounts\<close>

lemma drop_dirty_count:
  assumes "counts a (j_dirties (sd_journal s) a) (es @ [e])"
  shows "counts a (j_dirties (sd_journal (drop_dirty e s)) a) es"
proof (cases "dirtied e = Some a")
  case True
  then obtain m where m: "a = ripemd \<or> m = 0" "j_dirties (sd_journal s) a = tally (Suc (dirty_count es a + m))"
    using assms by (auto simp: counts_def)
  then have "j_dirties (sd_journal (drop_dirty e s)) a = tally (dirty_count es a + m)"
    using True tally_dec [of "j_dirties (sd_journal s)" a] by (simp add: drop_dirty_def)
  then show ?thesis using m(1) unfolding counts_def by blast
next
  case False
  then have "j_dirties (sd_journal (drop_dirty e s)) a = j_dirties (sd_journal s) a"
    by (cases "dirtied e") (auto simp: drop_dirty_def dirties_dec_def Let_def)
  then show ?thesis using assms False by (simp add: counts_def)
qed

lemma revert_entries_count:
  "revert_entries env (rev mid) s = Some t \<Longrightarrow> counts a (j_dirties (sd_journal s) a) (pre @ mid) \<Longrightarrow>
   counts a (j_dirties (sd_journal t) a) pre"
proof (induction mid arbitrary: s rule: rev_induct)
  case Nil
  then show ?case by simp
next
  case (snoc e mid)
  then obtain s1 where s1: "revert_entry env e s = Some s1" "revert_entries env (rev mid) (drop_dirty e s1) = Some t"
    by (auto split: option.splits)
  have "counts a (j_dirties (sd_journal (drop_dirty e s1)) a) (pre @ mid)"
    using drop_dirty_count [of a s1 "pre @ mid" e] snoc.prems(2) revert_entry_frame(1) [OF s1(1)] by simp
  then show ?case using snoc.IH [OF s1(2)] by blast
qed

lemma revert_entries_entries: "revert_entries env es s = Some t \<Longrightarrow> entries t = entries s"
  by (induction es arbitrary: s) (auto dest: revert_entry_frame(1) split: option.splits)

lemma RevertToSnapshot_counted:
  assumes "RevertToSnapshot env s n = Some t" "counted s"
  shows "counted t"
proof -
  obtain m u where u: "revert_entries env (rev (drop m (entries s))) s = Some u"
      "t = u\<lparr>sd_journal := (sd_journal u)\<lparr>j_entries := take m (entries u)\<rparr>, sd_validRevisions := sd_validRevisions t\<rparr>"
    using assms(1) by (auto simp: RevertToSnapshot_def journal_revert_def Let_def split: if_splits)
  have "counts a (j_dirties (sd_journal u) a) (take m (entries s))" for a
    using revert_entries_count [OF u(1), of a "take m (entries s)"] assms(2) by (simp add: counted_def)
  moreover have "entries t = take m (entries s)" "j_dirties (sd_journal t) = j_dirties (sd_journal u)"
    using revert_entries_entries [OF u(1)] by (subst u(2), simp)+
  ultimately show ?thesis by (simp add: counted_def)
qed

lemma counted_new [simp]: "j_dirties (sd_journal s) = Map.empty \<Longrightarrow> entries s = [] \<Longrightarrow> counted s"
  by (simp add: counted_def)

lemma clearJournal_counted: "counted s \<Longrightarrow> counted (clearJournalAndRefund s)"
  by (auto simp: clearJournalAndRefund_def Let_def counted_def newJournal_def)

lemma reachable_counted:
  assumes "env_ok env"
  shows "reachable env s \<Longrightarrow> counted s"
proof (induction rule: reachable.induct)
  case (New root s)
  then show ?case by (auto simp: New_def newJournal_def split: sum.splits)
next
  case (Reset s root s')
  then show ?case
    by (auto simp: StateDB_Reset_def clearJournalAndRefund_def Let_def counted_def newJournal_def
        split: sum.splits if_splits)
next
  case (Prepare s thash bhash ti)
  then show ?case by (simp add: Prepare_def counted_def)
next
  case (op s oper s')
  obtain g where "tracked env g s" using reachable_tracked [OF assms op(1)] by blast
  then have ok: "db_ok env s" by (rule tracked_ok)
  show ?case
  proof (cases "oper = op_Snapshot \<or> (\<exists>n. oper = op_RevertToSnapshot n)")
    case True
    then show ?thesis
      using op RevertToSnapshot_counted [of env s _ s'] by (auto simp: Snapshot_def Let_def counted_def)
  next
    case False
    then have "evolves env s s'" using run_op_evolves [OF assms ok op(2)] by auto
    then show ?thesis using op(3) by (simp add: evolves_def)
  qed
next
  case (Finalise s b)
  then show ?case by (auto simp: Finalise_def Let_def clearJournalAndRefund_def counted_def newJournal_def)
qed

section \<open>Setters on views\<close>

lemma createObject_view:
  assumes "env_ok env" "db_ok env s" "createObject env s a = (s1, obj, prev)" "b \<noteq> a"
  shows "accounts env s1 b = accounts env s b"
proof -
  obtain s0 x where g: "getDeletedStateObject env s a = (s0, x)" by force
  note e = getDeleted_evolves [OF assms(1,2) g]
  have v: "accounts env s0 = accounts env s"
    using silent_fields(1) [OF getDeleted_eq(2) [OF g]] view_sel(3) by blast
  show ?thesis
  proof (cases x)
    case None
    then show ?thesis using assms(3,4) g v by (auto simp: createObject_def Let_def)
  next
    case (Some p)
    let ?D = "if sd_snap s0 \<noteq> None \<and> so_addrHash p \<notin> sd_snapDestructs s0 then insert (so_addrHash p) (sd_snapDestructs s0)
      else sd_snapDestructs s0"
    have p: "so_addrHash p = be_Keccak256 env (addr_Bytes a)" using e(5) Some by (simp add: wf_obj_def)
    have "accounts env s1 b = accounts env (s0\<lparr>sd_snapDestructs := ?D\<rparr>) b"
      using assms(3,4) g Some by (auto simp: createObject_def Let_def split: if_splits)
    moreover have "accounts env (s0\<lparr>sd_snapDestructs := ?D\<rparr>) b = accounts env s0 b"
      using assms(1,4) e(2) p by (intro accounts_destructs [of env s0 a]) (auto simp: db_ok_def)
    ultimately show ?thesis using v by simp
  qed
qed

lemma GetOrNew_view:
  assumes "env_ok env" "db_ok env s" "GetOrNewStateObject env s a = (s1, obj)"
  shows "b \<noteq> a \<Longrightarrow> accounts env s1 b = accounts env s b"
    "read_view (accounts env s a) = Some w \<Longrightarrow> oview env (sd_snap s1) (sd_snapDestructs s1) obj = w"
    "read_view (accounts env s a) = None \<Longrightarrow> Balance (so_data obj) = 0 \<and> Nonce (so_data obj) = 0"
proof -
  obtain s0 x where g: "getStateObject env s a = (s0, x)" by force
  note e = getStateObject_evolves [OF assms(1,2) g]
  note f = silent_fields [OF getStateObject_eq(2) [OF g]]
  have "(b \<noteq> a \<longrightarrow> accounts env s1 b = accounts env s b) \<and>
    (\<forall>w. read_view (accounts env s a) = Some w \<longrightarrow> oview env (sd_snap s1) (sd_snapDestructs s1) obj = w) \<and>
    (read_view (accounts env s a) = None \<longrightarrow> Balance (so_data obj) = 0 \<and> Nonce (so_data obj) = 0)"
  proof (cases x)
    case (Some o')
    then have "s1 = s0" "obj = o'" using assms(3) g by (auto simp: GetOrNewStateObject_def)
    then show ?thesis using e(4) Some f(1-3) view_sel(3) [OF f(1)] by (auto simp: read_view_live)
  next
    case None
    then obtain prev where c: "createObject env s0 a = (s1, obj, prev)"
      using assms(3) g by (auto simp: GetOrNewStateObject_def split: prod.splits)
    have "Balance (so_data obj) = 0 \<and> Nonce (so_data obj) = 0"
      using c by (auto simp: createObject_def newObject_def Let_def split: prod.splits option.splits if_splits)
    then show ?thesis
      using createObject_view [OF assms(1) e(2) c] view_sel(3) [OF f(1)] e(4) None by (auto simp: read_view_live)
  qed
  then show "b \<noteq> a \<Longrightarrow> accounts env s1 b = accounts env s b"
    "read_view (accounts env s a) = Some w \<Longrightarrow> oview env (sd_snap s1) (sd_snapDestructs s1) obj = w"
    "read_view (accounts env s a) = None \<Longrightarrow> Balance (so_data obj) = 0 \<and> Nonce (so_data obj) = 0"
    by auto
qed

text \<open>What is read after storing a changed object.\<close>

lemma observe_set:
  assumes "env_ok env" "db_ok env s" "GetOrNewStateObject env s a = (s1, obj)" "db_ok env s'"
    and "accounts env s' = (accounts env s1)(a \<mapsto> w')"
  shows "observe_account env s' b = (if b = a then account_reads env (Some w') else observe_account env s b)"
  using assms(4,5) observe_account_view [OF assms(1), of s' b] observe_account_view [OF assms(1), of s b]
    GetOrNew_view(1) [OF assms(1-3), of b] assms(2)
  by (simp add: db_ok_def)

lemma getters_of_observe:
  "snd (GetBalance env s a) = fst (snd (snd (observe_account env s a)))"
  "snd (GetNonce env s a) = fst (snd (snd (snd (observe_account env s a))))"
  "snd (GetCode env s a) = fst (snd (snd (snd (snd (observe_account env s a)))))"
  "snd (GetCodeHash env s a) = fst (snd (snd (snd (snd (snd (snd (observe_account env s a)))))))"
  "snd (Exist env s a) = fst (observe_account env s a)"
  "snd (GetState env s a k) = fst (snd (snd (snd (snd (snd (snd (snd (snd (observe_account env s a))))))))) k"
  by (simp_all add: observe_account_def)

lemma account_reads_live:
  "\<not> av_deleted w \<Longrightarrow> account_reads env (Some w) = (True,
         Nonce (av_data w) = 0 \<and> Balance (av_data w) = 0 \<and> CodeHash (av_data w) = Some (emptyCodeHash env),
         Balance (av_data w), Nonce (av_data w), av_code w,
         (case av_code w of None \<Rightarrow> 0 | Some c \<Rightarrow> int (length c)),
         BytesToHash (case CodeHash (av_data w) of None \<Rightarrow> [] | Some h \<Rightarrow> h), av_suicided w, av_state w, av_committed w)"
  by (simp add: account_reads_def read_view_def)

text \<open>The balance and nonce that \<open>GetOrNewStateObject\<close> finds are those the getters return.\<close>

lemma GetOrNew_reads:
  assumes "env_ok env" "db_ok env s" "GetOrNewStateObject env s a = (s1, obj)"
  shows "Balance (so_data obj) = snd (GetBalance env s a)"
    "snd (Exist env s a) \<Longrightarrow> av_state (oview env (sd_snap s1) (sd_snapDestructs s1) obj) k = snd (GetState env s a k)"
proof -
  note r = observe_account_view [OF assms(1), of s a]
  have wf: "wf_state env s" using assms(2) by (simp add: db_ok_def)
  show "Balance (so_data obj) = snd (GetBalance env s a)"
    "snd (Exist env s a) \<Longrightarrow> av_state (oview env (sd_snap s1) (sd_snapDestructs s1) obj) k = snd (GetState env s a k)"
    using GetOrNew_view(2,3) [OF assms] oview_sel(1) [of env "sd_snap s1" "sd_snapDestructs s1" obj] wf
    unfolding getters_of_observe r [OF wf] account_reads_def
    by (auto split: option.splits)
qed

lemma accounts_own:
  "sd_stateObjects s a = Some obj \<Longrightarrow> (accounts env s)(a \<mapsto> oview env (sd_snap s) (sd_snapDestructs s) obj) = accounts env s"
  by (auto simp: accounts_def peek_def fun_eq_iff)

lemma balance_reads:
  assumes "env_ok env" "db_ok env s"
  shows "snd (GetBalance env (SetBalance env s a n) b) = (if b = a then n else snd (GetBalance env s b))"
    "snd (GetBalance env (AddBalance env s a n) b) = snd (GetBalance env s b) + (if b = a then n else 0)"
    "snd (GetBalance env (SubBalance env s a n) b) = snd (GetBalance env s b) - (if b = a then n else 0)"
    "b \<noteq> a \<Longrightarrow> observe_account env (SetBalance env s a n) b = observe_account env s b"
    "b \<noteq> a \<Longrightarrow> observe_account env (AddBalance env s a n) b = observe_account env s b"
    "b \<noteq> a \<Longrightarrow> observe_account env (SubBalance env s a n) b = observe_account env s b"
proof -
  obtain s1 obj where g: "GetOrNewStateObject env s a = (s1, obj)" by force
  note e = GetOrNew_evolves [OF assms g]
  note bal = GetOrNew_reads(1) [OF assms g]
  have upd: "observe_account env (so_SetBalance s1 obj m) b = (if b = a then
      account_reads env (Some (oview env (sd_snap s1) (sd_snapDestructs s1) (so_setBalance obj m))) else observe_account env s b)" for m b
    using evolves_ok [OF so_SetBalance_evolves [OF e(2-5), of m]] e(4)
    by (intro observe_set [OF assms g]) (simp_all add: so_SetBalance_def wf_obj_address)
  have id: "observe_account env s' b = (if b = a then
      account_reads env (Some (oview env (sd_snap s1) (sd_snapDestructs s1) obj)) else observe_account env s b)"
    if "db_ok env s'" "accounts env s' = accounts env s1" for s' b
    using that accounts_own [OF e(3), of env] by (intro observe_set [OF assms g]) simp_all
  have t: "db_ok env (touch s1 obj)" "accounts env (touch s1 obj) = accounts env s1"
    using evolves_ok [OF touch_evolves [OF e(2)]]
    by (auto simp: touch_def Let_def accounts_def peek_def fun_eq_iff)
  show "snd (GetBalance env (SetBalance env s a n) b) = (if b = a then n else snd (GetBalance env s b))"
    "snd (GetBalance env (AddBalance env s a n) b) = snd (GetBalance env s b) + (if b = a then n else 0)"
    "snd (GetBalance env (SubBalance env s a n) b) = snd (GetBalance env s b) - (if b = a then n else 0)"
    "b \<noteq> a \<Longrightarrow> observe_account env (SetBalance env s a n) b = observe_account env s b"
    "b \<noteq> a \<Longrightarrow> observe_account env (AddBalance env s a n) b = observe_account env s b"
    "b \<noteq> a \<Longrightarrow> observe_account env (SubBalance env s a n) b = observe_account env s b"
    using upd id [OF t] id [OF e(2) refl] g e(5) bal
    by (simp_all add: SetBalance_def AddBalance_def SubBalance_def so_AddBalance_def so_SubBalance_def
        getters_of_observe account_reads_live)
qed

lemma nonce_code_reads:
  assumes "env_ok env" "db_ok env s"
  shows "snd (GetNonce env (SetNonce env s a m) b) = (if b = a then m else snd (GetNonce env s b))"
    "snd (GetCode env (SetCode env s a c) b) = (if b = a then Some c else snd (GetCode env s b))"
    "snd (GetCodeHash env (SetCode env s a c) b) = (if b = a then be_Keccak256 env c else snd (GetCodeHash env s b))"
    "b \<noteq> a \<Longrightarrow> observe_account env (SetNonce env s a m) b = observe_account env s b"
    "b \<noteq> a \<Longrightarrow> observe_account env (SetCode env s a c) b = observe_account env s b"
proof -
  obtain s1 obj where g: "GetOrNewStateObject env s a = (s1, obj)" by force
  note e = GetOrNew_evolves [OF assms g]
  have n: "observe_account env (so_SetNonce s1 obj m) b = (if b = a then
      account_reads env (Some (oview env (sd_snap s1) (sd_snapDestructs s1) (so_setNonce obj m))) else observe_account env s b)"
    using evolves_ok [OF so_SetNonce_evolves [OF e(2-5), of m]] e(4)
    by (intro observe_set [OF assms g]) (simp_all add: so_SetNonce_def wf_obj_address)
  obtain obj1 prev where c1: "so_Code env obj = (obj1, prev)" by force
  have f: "so_fixed obj1 = so_fixed obj" using so_Code_fst(1) [of env obj] c1 by simp
  then have wf1: "wf_obj env a obj1" "\<not> so_deleted obj1" using wf_obj_fixed [of obj1 obj] e(4,5) so_fixed_sel [OF f] by auto
  have c: "observe_account env (so_SetCode env s1 obj (be_Keccak256 env c) (Some c)) b = (if b = a then
      account_reads env (Some (oview env (sd_snap s1) (sd_snapDestructs s1) (so_setCode obj1 (be_Keccak256 env c) (Some c))))
      else observe_account env s b)"
    using evolves_ok [OF so_SetCode_evolves [OF e(2-5), of "be_Keccak256 env c" "Some c"]] wf1 c1
    by (intro observe_set [OF assms g]) (simp_all add: so_SetCode_def wf_obj_address)
  have c2: "snd (so_Code env (so_setCode obj1 (be_Keccak256 env c) (Some c))) = Some c"
    by (simp add: so_setCode_def so_Code_def)
  show "snd (GetNonce env (SetNonce env s a m) b) = (if b = a then m else snd (GetNonce env s b))"
    "snd (GetCode env (SetCode env s a c) b) = (if b = a then Some c else snd (GetCode env s b))"
    "snd (GetCodeHash env (SetCode env s a c) b) = (if b = a then be_Keccak256 env c else snd (GetCodeHash env s b))"
    "b \<noteq> a \<Longrightarrow> observe_account env (SetNonce env s a m) b = observe_account env s b"
    "b \<noteq> a \<Longrightarrow> observe_account env (SetCode env s a c) b = observe_account env s b"
    using n c c2 g e(5) wf1
    by (simp_all add: SetNonce_def SetCode_def getters_of_observe account_reads_live set_keeps)
qed

lemma SetState_reads:
  assumes "env_ok env" "db_ok env s"
  shows "b \<noteq> a \<or> j = k \<or> snd (Exist env s a) \<Longrightarrow>
      snd (GetState env (SetState env s a k v) b j) = (if b = a \<and> j = k then v else snd (GetState env s b j))"
    "b \<noteq> a \<Longrightarrow> observe_account env (SetState env s a k v) b = observe_account env s b"
proof -
  obtain s1 obj where g: "GetOrNewStateObject env s a = (s1, obj)" by force
  note e = GetOrNew_evolves [OF assms g]
  have fake: "so_fakeStorage obj = None" by (rule wf_obj_fake [OF e(4)])
  let ?view = "oview env (sd_snap s1) (sd_snapDestructs s1)"
  obtain obj1 prev where c: "so_GetState env (sd_snap s1) (so_addrHash obj \<in> sd_snapDestructs s1) obj k = (obj1, prev)" by force
  have f: "so_fixed obj1 = so_fixed obj" and v1: "?view obj1 = ?view obj"
    using GetState_oview [OF fake, of env "sd_snap s1" "sd_snapDestructs s1" k] c by simp_all
  note sel = so_fixed_sel [OF f]
  have prev: "av_state (?view obj) k = prev" using c by (simp add: oview_def)
  have "accounts env (so_SetState env s1 obj k v) = (accounts env s1)(a \<mapsto> (?view obj)\<lparr>av_state := (av_state (?view obj))(k := v)\<rparr>)"
  proof (cases "prev = v")
    case True
    then have "(?view obj)\<lparr>av_state := (av_state (?view obj))(k := v)\<rparr> = ?view obj"
      using prev by (intro acct_view_eqI) auto
    then show ?thesis using True c fake sel v1 wf_obj_address [OF e(4)] by (simp add: so_SetState_def destructed_def)
  next
    case False
    then show ?thesis
      using c fake sel v1 wf_obj_address [OF e(4)] by (simp add: so_SetState_def destructed_def oview_set)
  qed
  then have o: "observe_account env (SetState env s a k v) b' = (if b' = a then
      account_reads env (Some ((?view obj)\<lparr>av_state := (av_state (?view obj))(k := v)\<rparr>)) else observe_account env s b')" for b'
    using observe_set [OF assms g evolves_ok [OF so_SetState_evolves [OF e(2-5), of k v]]] g by (simp add: SetState_def)
  show "b \<noteq> a \<or> j = k \<or> snd (Exist env s a) \<Longrightarrow>
      snd (GetState env (SetState env s a k v) b j) = (if b = a \<and> j = k then v else snd (GetState env s b j))"
    using GetOrNew_reads(2) [OF assms g, of j] e(5) by (auto simp: getters_of_observe o account_reads_live)
  show "b \<noteq> a \<Longrightarrow> observe_account env (SetState env s a k v) b = observe_account env s b" by (simp add: o)
qed

section \<open>The end of a transaction\<close>

definition finalised :: "('t, 's) StateDB \<Rightarrow> address \<Rightarrow> bool" where
  "finalised s a \<longleftrightarrow> a \<in> dom (j_dirties (sd_journal s)) \<and> a \<in> dom (sd_stateObjects s)"

lemma oview_finalise:
  assumes "so_fakeStorage obj = None"
  shows "oview env snap D (so_finalise obj) = (oview env snap D obj)\<lparr>av_committed := av_state (oview env snap D obj)\<rparr>"
proof -
  have t: "snd (getTrie env (so_finalise obj)) = snd (getTrie env obj)"
    by (rule getTrie_root) (simp_all add: so_finalise_def)
  have c: "snd (so_Code env (so_finalise obj)) = snd (so_Code env obj)"
    by (rule Code_cong) (simp_all add: so_finalise_def)
  have sel: "so_fakeStorage (so_finalise obj) = None" "so_dirtyStorage (so_finalise obj) = Map.empty"
      "so_pendingStorage (so_finalise obj) = so_pendingStorage obj ++ so_dirtyStorage obj"
      "so_originStorage (so_finalise obj) = so_originStorage obj" "so_addrHash (so_finalise obj) = so_addrHash obj"
      "so_data (so_finalise obj) = so_data obj" "so_suicided (so_finalise obj) = so_suicided obj"
      "so_deleted (so_finalise obj) = so_deleted obj"
    using assms by (simp_all add: so_finalise_def)
  have "av_committed (oview env snap D (so_finalise obj)) = av_state (oview env snap D obj)"
    using t sel assms by (simp add: oview_def committed_snd state_snd fun_eq_iff map_add_def get_or_def split: option.splits)
  moreover from this have "av_state (oview env snap D (so_finalise obj)) = av_state (oview env snap D obj)"
    using sel by (simp add: oview_state)
  ultimately show ?thesis using c sel by (intro acct_view_eqI) simp_all
qed

lemma Finalise_backend: "sd_snap (Finalise env s b) = sd_snap s" "sd_trie (Finalise env s b) = sd_trie s"
  by (simp_all add: Finalise_def Let_def clearJournalAndRefund_def)

lemma Finalise_destructs:
  assumes "env_ok env" "db_ok env s" "\<And>obj. sd_stateObjects s a = Some obj \<Longrightarrow> finalised s a \<Longrightarrow> \<not> finalise_deletes env b obj"
  shows "be_Keccak256 env (addr_Bytes a) \<in> sd_snapDestructs (Finalise env s b) \<longleftrightarrow>
    be_Keccak256 env (addr_Bytes a) \<in> sd_snapDestructs s"
proof -
  have "False" if "be_Keccak256 env (addr_Bytes a) = so_addrHash x" "sd_stateObjects s c = Some x"
      "c \<in> dom (j_dirties (sd_journal s))" "finalise_deletes env b x" for c x
  proof -
    have "wf_obj env c x" using assms(2) that(2) by (simp add: db_ok_def wf_state_def)
    then have "c = a" using assms(1) that(1) by (auto simp: env_ok_def wf_obj_def)
    then show False using assms(3) that(2-4) by (auto simp: finalised_def)
  qed
  then show ?thesis by (auto simp: Finalise_def Let_def clearJournalAndRefund_def)
qed

lemma Finalise_view:
  assumes "env_ok env" "db_ok env s"
  shows "read_view (accounts env (Finalise env s b) a) =
    (case read_view (accounts env s a) of
       None \<Rightarrow> None
     | Some w \<Rightarrow>
         if finalised s a then
           if av_suicided w \<or> b \<and> Nonce (av_data w) = 0 \<and> Balance (av_data w) = 0 \<and> CodeHash (av_data w) = Some (emptyCodeHash env)
           then None else Some (w\<lparr>av_committed := av_state w\<rparr>)
         else Some w)"
proof (cases "finalised s a")
  case True
  then obtain obj where obj: "sd_stateObjects s a = Some obj" by (auto simp: finalised_def)
  then have wf: "wf_obj env a obj" using assms(2) by (simp add: db_ok_def wf_state_def)
  have p: "peek env (Finalise env s b) a = Some (finalise_object env b obj)" "peek env s a = Some obj"
    using True obj by (auto simp: peek_def Finalise_fields finalised_def)
  show ?thesis
  proof (cases "finalise_deletes env b obj")
    case del: True
    then show ?thesis
      using p True by (simp add: accounts_def read_view_def finalise_object_def)
        (auto simp: finalise_deletes_def so_empty_def)
  next
    case del: False
    have "so_addrHash obj \<in> sd_snapDestructs (Finalise env s b) \<longleftrightarrow> so_addrHash obj \<in> sd_snapDestructs s"
      using Finalise_destructs [OF assms, of a b] del wf obj by (simp add: wf_obj_def)
    then have "oview env (sd_snap s) (sd_snapDestructs (Finalise env s b)) obj = oview env (sd_snap s) (sd_snapDestructs s) obj"
      by (simp add: oview_def)
    moreover have "so_deleted (so_finalise obj) = so_deleted obj" by (simp add: so_finalise_def)
    ultimately show ?thesis
      using p del True wf
      by (auto simp: accounts_def read_view_def finalise_object_def Finalise_backend oview_finalise wf_obj_fake
          finalise_deletes_def so_empty_def)
  qed
next
  case False
  then have p: "peek env (Finalise env s b) a = peek env s a"
    by (cases "sd_stateObjects s a") (auto simp: peek_def Finalise_fields finalised_def Finalise_backend)
  have "accounts env (Finalise env s b) a = accounts env s a"
  proof (cases "peek env s a")
    case (Some obj)
    then have "wf_obj env a obj" using assms peek_wf by (auto simp: db_ok_def)
    then have "so_addrHash obj \<in> sd_snapDestructs (Finalise env s b) \<longleftrightarrow> so_addrHash obj \<in> sd_snapDestructs s"
      using Finalise_destructs [OF assms, of a b] False by (simp add: wf_obj_def)
    then show ?thesis using p Some by (simp add: accounts_def Finalise_backend oview_def)
  qed (simp add: accounts_def p)
  then show ?thesis using False by (simp split: option.splits)
qed

section \<open>Reads\<close>

lemma evolves_no_entry:
  assumes "evolves env s s'" "sd_journal s' = sd_journal s"
  shows "view env s' = view env s"
proof -
  obtain es where es: "changes env s es s'" using assms(1) by (auto simp: evolves_def)
  then have "es = []" using changes_entries [OF es] assms(2) by simp
  then show ?thesis using es by (auto elim: changes.cases)
qed

lemma read_journal:
  "sd_journal (fst (getStateObject env s a)) = sd_journal s" "sd_journal (fst (GetCode env s a)) = sd_journal s"
  "sd_journal (fst (GetCodeSize env s a)) = sd_journal s" "sd_journal (fst (GetState env s a k)) = sd_journal s"
  "sd_journal (fst (GetCommittedState env s a k)) = sd_journal s"
  using getStateObject_frame(1) [OF prod.collapse [symmetric], of env s a]
  by (auto simp: GetCode_def GetCodeSize_def GetState_def GetCommittedState_def read_object_def split: prod.splits option.splits)

lemma read_view_kept:
  assumes "env_ok env" "db_ok env s"
  shows "view env (fst (getStateObject env s a)) = view env s" "view env (fst (GetCode env s a)) = view env s"
    "view env (fst (GetCodeSize env s a)) = view env s" "view env (fst (GetState env s a k)) = view env s"
    "view env (fst (GetCommittedState env s a k)) = view env s"
  by (rule evolves_no_entry; simp add: reads_evolve [OF assms] read_journal)+

section \<open>An example backend\<close>

text \<open>
  An empty database without snapshots, and the identity on short inputs in place of Keccak-256.
\<close>

definition empty_backend :: "(unit, unit) backend" where
  "empty_backend = \<lparr>be_Keccak256 = BytesToHash, be_OpenTrie = (\<lambda>_. Inr ()), be_OpenStorageTrie = (\<lambda>_ _. ((), None)),
     be_TryGet = (\<lambda>_ _. Inr []), be_ContractCode = (\<lambda>_ _. (None, None)), be_ContractCodeSize = (\<lambda>_ _. (0, None)),
     be_Account = (\<lambda>_ _. Inr None), be_Storage = (\<lambda>_ _ _. Inr []), be_Snapshot = (\<lambda>_. None)\<rparr>"

lemma addr_hash: "unat (BytesToHash (addr_Bytes a)) = unat a"
proof -
  have "unat a < 2 ^ LENGTH(160)" by (rule unsigned_less)
  then have u: "unat a < 256 ^ 20" by simp
  then have "be_nat (addr_Bytes a) = unat a" "length (addr_Bytes a) = 20"
    by (simp_all add: addr_Bytes_def be_nat_be_fixed)
  moreover have "unat (of_nat (unat a) :: hash) = unat a" using u by (simp add: unat_of_nat take_bit_nat_eq_self del: of_nat_unat)
  ultimately show ?thesis by (simp add: BytesToHash_def)
qed

lemma empty_backend_ok: "env_ok empty_backend"
proof -
  have "a = b" if "BytesToHash (addr_Bytes a) = BytesToHash (addr_Bytes b)" for a b
    using that addr_hash [of a] addr_hash [of b] by (simp add: word_unat_eq_iff)
  then show ?thesis
    by (auto simp: env_ok_def empty_backend_def load_Account_def Let_def split: option.splits)
qed

definition example_db :: "(unit, unit) StateDB" where
  "example_db = (case New empty_backend 0 of Inr s \<Rightarrow> s)"

lemma example_db_reachable: "reachable empty_backend example_db"
  by (rule reachable.New [of _ 0]) (simp add: example_db_def New_def empty_backend_def)

lemma example_db_reads:
  "getStateObject empty_backend example_db a = (example_db, None)" "sd_nextRevisionId example_db = 0"
  "sd_validRevisions example_db = []"
  by (simp_all add: example_db_def New_def empty_backend_def getStateObject_def getDeletedStateObject_def load_Account_def)

text \<open>The example database after a snapshot and a payment.\<close>

lemma example_payment:
  assumes "s2 = AddBalance empty_backend (fst (Snapshot example_db)) 1 5"
  shows "run empty_backend [op_AddBalance 1 5] (fst (Snapshot example_db)) = Some s2" "0 \<in> valid_ids s2"
    "snd (GetBalance empty_backend s2 1) = 5" "reachable empty_backend s2"
proof -
  let ?s1 = "fst (Snapshot example_db)"
  have r1: "reachable empty_backend ?s1" by (rule reachable.op [OF example_db_reachable, of op_Snapshot]) simp
  obtain g where "tracked empty_backend g ?s1" using reachable_tracked [OF empty_backend_ok r1] by blast
  then have ok: "db_ok empty_backend ?s1" by (rule tracked_ok)
  show "run empty_backend [op_AddBalance 1 5] ?s1 = Some s2" by (simp add: assms)
  show "reachable empty_backend s2" by (rule reachable.op [OF r1, of "op_AddBalance 1 5"]) (simp add: assms)
  have "same_revs ?s1 s2" using setters_evolve(1) [OF empty_backend_ok ok] by (simp add: assms evolves_def)
  then show "0 \<in> valid_ids s2" by (simp add: valid_ids_def same_revs_def Snapshot_def Let_def example_db_reads)
  have "snd (GetBalance empty_backend ?s1 1) = 0"
    by (simp add: GetBalance_def getStateObject_def getDeletedStateObject_def load_Account_def Snapshot_def Let_def
        example_db_def New_def empty_backend_def)
  then show "snd (GetBalance empty_backend s2 1) = 5" by (simp add: assms balance_reads [OF empty_backend_ok ok])
qed

section \<open>Overridden storage\<close>

lemma GetOrNew_live:
  "sd_stateObjects s a = Some obj \<Longrightarrow> \<not> so_deleted obj \<Longrightarrow> GetOrNewStateObject env s a = (s, obj)"
  by (simp add: GetOrNewStateObject_def getStateObject_def getDeletedStateObject_def)

lemma revert_last:
  assumes "sd_validRevisions s = revs @ [\<lparr>rv_id = revid, rv_journalIndex = length (entries s)\<rparr>]" "\<forall>r \<in> set revs. rv_id r < revid"
  shows "RevertToSnapshot env s revid = Some (s\<lparr>sd_validRevisions := revs\<rparr>)"
proof -
  have "sort_Search (length (sd_validRevisions s)) (\<lambda>i. rv_id (sd_validRevisions s ! i) \<ge> revid) = length revs"
    unfolding sort_Search_def assms(1)
    by (rule sort_Search_loop_first) (use assms(2) in \<open>auto simp: nth_append not_le less_Suc_eq\<close>)
  moreover have "revs @ [r] \<noteq> []" "(revs @ [r]) ! length revs = r" for r :: revision by simp_all
  moreover have "s\<lparr>sd_journal := (sd_journal s)\<lparr>j_entries := entries s\<rparr>\<rparr> = s" by (cases s) simp
  ultimately show ?thesis unfolding RevertToSnapshot_def Let_def by (simp add: assms(1) journal_revert_def)
qed

lemma tracked_ids:
  assumes "tracked env g s" "r \<in> set (sd_validRevisions s)"
  shows "rv_id r < sd_nextRevisionId s"
proof -
  obtain i where "i < length (sd_validRevisions s)" "r = sd_validRevisions s ! i" using assms(2) by (auto simp: in_set_conv_nth)
  then show ?thesis using trackedD(5) [OF assms(1)] by blast
qed

section \<open>Properties\<close>

text \<open>C17: Reverting to a snapshot never panics while the snapshot is valid and gives back everything a client
  can read: whatever operations run in between, reads, nested snapshots and reverts included, every getter
  returns what it returned when the snapshot was taken, and the journal and the snapshots are those of that time.
  The operations are all those of the database but the debugging override \<open>SetStorage\<close>.\<close>

theorem revert_to_snapshot:
  assumes "env_ok env" "reachable env s0" "Snapshot s0 = (s1, revid)" "run env ops s1 = Some s2" "revid \<in> valid_ids s2"
  shows "\<exists>s3. RevertToSnapshot env s2 revid = Some s3 \<and> observe env s3 = observe env s0 \<and>
    j_entries (sd_journal s3) = j_entries (sd_journal s0) \<and> sd_validRevisions s3 = sd_validRevisions s0"
proof -
  obtain g where g: "tracked env g s0" using reachable_tracked [OF assms(1,2)] by blast
  note t = tracked_Snapshot [OF g assms(3)]
  obtain g' where g': "tracked env g' s2" "later (g(revid := s0)) s1 g' s2"
    using run_tracked [OF assms(1) t(1) assms(4)] by blast
  then have same: "g' revid = s0" using t(4) by (simp add: later_def)
  obtain i where "i < length (sd_validRevisions s2)" "rv_id (sd_validRevisions s2 ! i) = revid"
    using assms(5) by (auto simp: valid_ids_index)
  from RevertToSnapshot_tracked [OF assms(1) g'(1) this] obtain s3 where
    s3: "RevertToSnapshot env s2 revid = Some s3" "view env s3 = view env s0" "entries s3 = entries s0"
      "sd_validRevisions s3 = sd_validRevisions s0" "tracked env g' s3"
    unfolding same by blast
  moreover have "observe env s3 = observe env s0"
    using tracked_ok [OF s3(5)] tracked_ok [OF g] by (intro view_observe [OF assms(1) _ _ s3(2)]) (simp_all add: db_ok_def)
  ultimately show ?thesis by blast
qed

theorem revert_to_snapshot_witness:
  "let s2 = AddBalance empty_backend (fst (Snapshot example_db)) 1 5
   in snd (GetBalance empty_backend s2 1) = 5 \<and>
      (\<exists>s3. RevertToSnapshot empty_backend s2 0 = Some s3 \<and> snd (GetBalance empty_backend s3 1) = 0)"
proof -
  define s2 where "s2 = AddBalance empty_backend (fst (Snapshot example_db)) 1 5"
  note e = example_payment [OF s2_def]
  have "Snapshot example_db = (fst (Snapshot example_db), 0)" by (simp add: Snapshot_def Let_def example_db_reads)
  from revert_to_snapshot [OF empty_backend_ok example_db_reachable this e(1,2)]
  obtain s3 where s3: "RevertToSnapshot empty_backend s2 0 = Some s3" "observe empty_backend s3 = observe empty_backend example_db"
    by blast
  then have "observe_account empty_backend s3 1 = observe_account empty_backend example_db 1" by (simp add: observe_def)
  then have "snd (GetBalance empty_backend s3 1) = snd (GetBalance empty_backend example_db 1)" by (simp add: observe_account_def)
  then show ?thesis using s3(1) e(3) by (simp add: s2_def [symmetric] GetBalance_def example_db_reads)
qed

text \<open>C22: \<open>RevertToSnapshot\<close> panics exactly when the identifier is not that of a valid snapshot; undoing the journal
  itself never panics.\<close>

theorem revert_panics_iff:
  assumes "env_ok env" "reachable env s"
  shows "RevertToSnapshot env s revid = None \<longleftrightarrow> revid \<notin> valid_ids s"
proof -
  obtain g where g: "tracked env g s" using reachable_tracked [OF assms] by blast
  show ?thesis
    using RevertToSnapshot_tracked [OF assms(1) g] RevertToSnapshot_panics [of revid s env] by (fastforce simp: valid_ids_index)
qed

theorem revert_panics_iff_witness:
  "RevertToSnapshot empty_backend (AddBalance empty_backend (fst (Snapshot example_db)) 1 5) 0 \<noteq> None \<and>
   RevertToSnapshot empty_backend example_db 0 = None"
  using revert_panics_iff [OF empty_backend_ok example_payment(4) [OF refl], of 0] example_payment(2) [OF refl]
    revert_panics_iff [OF empty_backend_ok example_db_reachable, of 0]
  by (simp add: valid_ids_def example_db_reads)

text \<open>C20: The dirty counters of the journal are exact. In every database that clients can reach, the counter of an address
  is the number of journal entries that dirty it, and is absent when there are none. The one exception is the RIPEMD
  precompile, which a touch dirties twice so that it stays dirty when the touch is undone: its counter is that number
  or more.\<close>

theorem journal_dirties_exact:
  assumes "env_ok env" "reachable env s"
  shows "\<exists>m. (a = ripemd \<or> m = 0) \<and> j_dirties (sd_journal s) a =
    (let n = length (filter (\<lambda>e. dirtied e = Some a) (j_entries (sd_journal s))) + m in if n = 0 then None else Some (int n))"
  using reachable_counted [OF assms] by (simp add: counted_def counts_def tally_def Let_def)

text \<open>A payment to a new account adds two entries, its creation and the change of its balance.\<close>

theorem journal_dirties_exact_witness:
  "j_dirties (sd_journal (AddBalance empty_backend (fst (Snapshot example_db)) 1 5)) 1 = Some 2"
proof -
  let ?s2 = "AddBalance empty_backend (fst (Snapshot example_db)) 1 5"
  have "dirty_count (j_entries (sd_journal ?s2)) 1 = 2"
    by (simp add: AddBalance_def so_AddBalance_def so_SetBalance_def GetOrNewStateObject_def getStateObject_def createObject_def
        getDeletedStateObject_def load_Account_def Snapshot_def Let_def example_db_def New_def empty_backend_def journal_append_def
        newObject_def so_setNonce_def newJournal_def)
  then show ?thesis
    using journal_dirties_exact [OF empty_backend_ok example_payment(4) [OF refl], of 1] by (simp add: ripemd_def Let_def)
qed

text \<open>C18: A getter returns what the setters stored, and a setter changes nothing that is read of other accounts.
  Adding to and subtracting from a balance is exact in the integers; other storage slots of an account are kept
  if the account existed.\<close>

theorem setters_getters:
  assumes "env_ok env" "reachable env s"
  shows "snd (GetBalance env (SetBalance env s a n) b) = (if b = a then n else snd (GetBalance env s b)) \<and>
    snd (GetBalance env (AddBalance env s a n) b) = snd (GetBalance env s b) + (if b = a then n else 0) \<and>
    snd (GetBalance env (SubBalance env s a n) b) = snd (GetBalance env s b) - (if b = a then n else 0) \<and>
    snd (GetNonce env (SetNonce env s a m) b) = (if b = a then m else snd (GetNonce env s b)) \<and>
    snd (GetCode env (SetCode env s a c) b) = (if b = a then Some c else snd (GetCode env s b)) \<and>
    snd (GetCodeHash env (SetCode env s a c) b) = (if b = a then be_Keccak256 env c else snd (GetCodeHash env s b)) \<and>
    (b \<noteq> a \<or> j = k \<or> snd (Exist env s a) \<longrightarrow>
      snd (GetState env (SetState env s a k v) b j) = (if b = a \<and> j = k then v else snd (GetState env s b j))) \<and>
    (b \<noteq> a \<longrightarrow> (\<forall>s' \<in> {SetBalance env s a n, AddBalance env s a n, SubBalance env s a n, SetNonce env s a m,
      SetCode env s a c, SetState env s a k v}. observe_account env s' b = observe_account env s b))"
proof -
  obtain g where "tracked env g s" using reachable_tracked [OF assms] by blast
  then have "db_ok env s" by (rule tracked_ok)
  with assms(1) show ?thesis by (simp add: balance_reads nonce_code_reads SetState_reads)
qed

theorem setters_getters_witness:
  "snd (GetBalance empty_backend (AddBalance empty_backend example_db 1 5) 1) = 5 \<and>
   snd (GetState empty_backend (SetState empty_backend example_db 1 2 3) 1 2) = 3 \<and>
   snd (GetState empty_backend (SetState empty_backend example_db 1 2 3) 4 2) = 0"
proof -
  have "snd (GetBalance empty_backend example_db 1) = 0" by (simp add: GetBalance_def example_db_reads)
  moreover have "snd (GetState empty_backend example_db 4 2) = 0" by (simp add: GetState_def read_object_def example_db_reads)
  ultimately show ?thesis
    using setters_getters [OF empty_backend_ok example_db_reachable, of 1 5 1 _ _ 2 2 3]
      setters_getters [OF empty_backend_ok example_db_reachable, of 1 5 4 _ _ 2 2 3]
    by auto
qed

text \<open>C19: \<open>Finalise\<close> removes exactly the changed accounts that were destructed or, when asked to, are empty. Of every
  other account it keeps all that is read, and the storage of the changed ones becomes the committed storage.\<close>

theorem Finalise_effect:
  assumes "env_ok env" "reachable env s"
  shows "let s' = Finalise env s b;
             gone = finalised s a \<and> (snd (HasSuicided env s a) \<or> b \<and> snd (Empty env s a))
         in snd (Exist env s' a) = (snd (Exist env s a) \<and> \<not> gone) \<and>
            (\<not> gone \<longrightarrow> snd (GetBalance env s' a) = snd (GetBalance env s a) \<and>
               snd (GetNonce env s' a) = snd (GetNonce env s a) \<and> snd (GetCode env s' a) = snd (GetCode env s a) \<and>
               snd (GetCodeHash env s' a) = snd (GetCodeHash env s a) \<and>
               snd (GetCodeSize env s' a) = snd (GetCodeSize env s a) \<and>
               snd (HasSuicided env s' a) = snd (HasSuicided env s a) \<and> snd (Empty env s' a) = snd (Empty env s a) \<and>
               snd (GetState env s' a k) = snd (GetState env s a k) \<and>
               snd (GetCommittedState env s' a k) =
                 (if finalised s a then snd (GetState env s a k) else snd (GetCommittedState env s a k)))"
proof -
  obtain g where "tracked env g s" using reachable_tracked [OF assms] by blast
  then have ok: "db_ok env s" by (rule tracked_ok)
  then have wf: "wf_state env s" "wf_state env (Finalise env s b)" using Finalise_ok [OF ok] by (simp_all add: db_ok_def)
  show ?thesis
    using observe_account_view [OF assms(1) wf(1), of a] observe_account_view [OF assms(1) wf(2), of a]
      Finalise_view [OF assms(1) ok, of b a]
    by (cases "read_view (accounts env s a)"; cases "finalised s a"; cases b)
      (simp_all add: observe_account_def account_reads_def Let_def fun_eq_iff split: if_splits, blast)
qed

theorem Finalise_effect_witness:
  "snd (GetBalance empty_backend (Finalise empty_backend (AddBalance empty_backend (fst (Snapshot example_db)) 1 5) True) 1) = 5"
proof -
  define s2 where "s2 = AddBalance empty_backend (fst (Snapshot example_db)) 1 5"
  note e = example_payment [OF s2_def]
  have "\<not> snd (HasSuicided empty_backend s2 1)" "\<not> snd (Empty empty_backend s2 1)"
    by (simp_all add: s2_def HasSuicided_def Empty_def so_empty_def AddBalance_def so_AddBalance_def so_SetBalance_def
        GetOrNewStateObject_def createObject_def getStateObject_def getDeletedStateObject_def setStateObject_def
        jappend_def load_Account_def Snapshot_def Let_def example_db_def New_def empty_backend_def newObject_def
        so_setNonce_def so_setBalance_def)
  then show ?thesis
    using Finalise_effect [OF empty_backend_ok e(4), of True 1] e(3) by (simp add: Let_def s2_def)
qed

text \<open>C21: Reads only fill caches: whatever is read, the answers to all later reads are the same.\<close>

theorem reads_transparent:
  assumes "env_ok env" "reachable env s"
    and "op \<in> {op_Exist a, op_Empty a, op_GetBalance a, op_GetNonce a, op_GetCodeHash a, op_HasSuicided a, op_GetCode a,
      op_GetCodeSize a, op_GetState a k, op_GetCommittedState a k}"
  shows "\<exists>s'. run_op env op s = Some s' \<and> observe env s' = observe env s \<and> sd_journal s' = sd_journal s"
proof -
  obtain g where "tracked env g s" using reachable_tracked [OF assms(1,2)] by blast
  then have ok: "db_ok env s" by (rule tracked_ok)
  obtain s' where s': "run_op env op s = Some s'" using assms(3) by auto
  then have e: "evolves env s s'" using run_op_evolves [OF assms(1) ok s'] assms(3) by auto
  have j: "sd_journal s' = sd_journal s" using s' assms(3) by (auto simp: plain_reads read_journal)
  have "view env s' = view env s" by (rule evolves_no_entry [OF e j])
  then have "observe env s' = observe env s"
    using evolves_ok [OF e] ok by (intro view_observe [OF assms(1)]) (simp_all add: db_ok_def)
  then show ?thesis using s' j by blast
qed

theorem reads_transparent_witness:
  "\<exists>s'. run_op empty_backend (op_GetState 1 2) example_db = Some s' \<and> observe empty_backend s' = observe empty_backend example_db"
  using reads_transparent [OF empty_backend_ok example_db_reachable, of "op_GetState 1 2" 1 2] by auto

text \<open>C23: Storage that \<open>SetStorage\<close> overrides is not rolled back. After an override a write to the storage of the account goes to
  the overriding map and leaves no journal entry, so that reverting to a snapshot taken before the write keeps the
  value written: code run on a state with overrides, as for the state overrides of a call over the API, sees the writes of
  calls that failed.\<close>

theorem fake_storage_not_reverted:
  assumes "env_ok env" "reachable env s" "Snapshot (SetStorage env s a storage) = (s1, revid)"
  shows "\<exists>s2. RevertToSnapshot env (SetState env s1 a k v) revid = Some s2 \<and> snd (GetState env s2 a k) = v"
proof -
  obtain g where t: "tracked env g s" using reachable_tracked [OF assms(1,2)] by blast
  obtain s0 obj where g: "GetOrNewStateObject env s a = (s0, obj)" by force
  note e = GetOrNew_evolves [OF assms(1) tracked_ok [OF t] g]
  have addr: "so_address obj = a" using e(4) by (rule wf_obj_address)
  define obj1 where "obj1 = so_SetStorage obj storage"
  obtain fake where obj1: "so_fakeStorage obj1 = Some fake" "\<not> so_deleted obj1" "so_address obj1 = a"
    using e(5) addr by (simp add: obj1_def so_SetStorage_def)
  let ?new = "\<lparr>rv_id = sd_nextRevisionId s0, rv_journalIndex = length (entries s0)\<rparr>"
  have s1: "s1 = (setStateObject s0 obj1)\<lparr>sd_nextRevisionId := sd_nextRevisionId s0 + 1, sd_validRevisions := sd_validRevisions s0 @ [?new]\<rparr>"
    and id: "revid = sd_nextRevisionId s0"
    using assms(3) by (auto simp: SetStorage_def g Snapshot_def Let_def obj1_def setStateObject_def)
  have ids: "\<forall>r \<in> set (sd_validRevisions s0). rv_id r < revid"
    using e(1) tracked_ids [OF t] unfolding id by (simp add: evolves_def same_revs_def)
  let ?obj2 = "obj1\<lparr>so_fakeStorage := Some (fake(k \<mapsto> v))\<rparr>"
  have "GetOrNewStateObject env s1 a = (s1, obj1)" by (rule GetOrNew_live) (use obj1 in \<open>simp_all add: s1 setStateObject_def\<close>)
  then have s2: "SetState env s1 a k v = setStateObject s1 ?obj2" using obj1 by (simp add: SetState_def so_SetState_def)
  have "RevertToSnapshot env (setStateObject s1 ?obj2) revid = Some ((setStateObject s1 ?obj2)\<lparr>sd_validRevisions := sd_validRevisions s0\<rparr>)"
    by (rule revert_last [OF _ ids]) (simp add: s1 setStateObject_def id)
  moreover have "snd (GetState env ((setStateObject s1 ?obj2)\<lparr>sd_validRevisions := sd_validRevisions s0\<rparr>) a k) = v"
    using obj1 by (simp add: GetState_def read_object_def getStateObject_def getDeletedStateObject_def setStateObject_def so_GetState_def)
  ultimately show ?thesis unfolding s2 by blast
qed

theorem fake_storage_not_reverted_witness:
  "\<exists>s2. RevertToSnapshot empty_backend (SetState empty_backend (fst (Snapshot (SetStorage empty_backend example_db 1 Map.empty))) 1 2 3)
      (snd (Snapshot (SetStorage empty_backend example_db 1 Map.empty))) = Some s2 \<and> snd (GetState empty_backend s2 1 2) = 3"
  by (rule fake_storage_not_reverted [OF empty_backend_ok example_db_reachable]) simp

end
