(* ===== verification/EvmInstr.thy ===== *)
theory EvmInstr
  imports EvmCall
begin

text \<open>
  The instructions (\<open>core/vm/instructions.go\<close>, \<open>core/vm/eips.go\<close>): one function each, from a call frame to
  the frame after it, the bytes it returns and its error. Popping an empty stack panics.
\<close>

section \<open>Frames\<close>

type_synonym ('t, 's) exec_result = "(('t, 's) machine \<times> bytes \<times> vm_error option) outcome"

type_synonym ('t, 's) executionFunc =
  "('t, 's) evm_env \<Rightarrow> ('t, 's) runner \<Rightarrow> ('t, 's) machine \<Rightarrow> ('t, 's) exec_result"

text \<open>\<open>return nil, nil\<close> and \<open>return nil, err\<close>.\<close>

definition ret_ok :: "('t, 's) machine \<Rightarrow> ('t, 's) exec_result" where
  "ret_ok m = Ret (m, [], None)"

definition ret_err :: "('t, 's) machine \<Rightarrow> vm_error \<Rightarrow> ('t, 's) exec_result" where
  "ret_err m e = Ret (m, [], Some e)"

definition stack_panic :: "'a outcome" where
  "stack_panic = Panic StackPanic"

definition set_stack :: "stack \<Rightarrow> ('t, 's) machine \<Rightarrow> ('t, 's) machine" where
  "set_stack st m = m\<lparr>mc_stack := st\<rparr>"

definition push :: "u256 \<Rightarrow> ('t, 's) machine \<Rightarrow> ('t, 's) machine" where
  "push v m = set_stack (v # mc_stack m) m"

text \<open>
  Instructions that pop operands and leave one result in the place of the last: the operands come from the top
  down.
\<close>

definition pop1 :: "('t, 's) machine \<Rightarrow> (u256 \<Rightarrow> stack \<Rightarrow> ('t, 's) exec_result) \<Rightarrow> ('t, 's) exec_result" where
  "pop1 m f = (case mc_stack m of x # st \<Rightarrow> f x st | _ \<Rightarrow> stack_panic)"

definition pop2 :: "('t, 's) machine \<Rightarrow> (u256 \<Rightarrow> u256 \<Rightarrow> stack \<Rightarrow> ('t, 's) exec_result) \<Rightarrow> ('t, 's) exec_result" where
  "pop2 m f = (case mc_stack m of x # y # st \<Rightarrow> f x y st | _ \<Rightarrow> stack_panic)"

definition pop3 :: "('t, 's) machine \<Rightarrow> (u256 \<Rightarrow> u256 \<Rightarrow> u256 \<Rightarrow> stack \<Rightarrow> ('t, 's) exec_result) \<Rightarrow> ('t, 's) exec_result" where
  "pop3 m f = (case mc_stack m of x # y # z # st \<Rightarrow> f x y z st | _ \<Rightarrow> stack_panic)"

definition pop4 ::
  "('t, 's) machine \<Rightarrow> (u256 \<Rightarrow> u256 \<Rightarrow> u256 \<Rightarrow> u256 \<Rightarrow> stack \<Rightarrow> ('t, 's) exec_result) \<Rightarrow> ('t, 's) exec_result" where
  "pop4 m f = (case mc_stack m of x # y # z # w # st \<Rightarrow> f x y z w st | _ \<Rightarrow> stack_panic)"

section \<open>Arithmetic, comparison and bits\<close>

definition opAdd :: "('t, 's) executionFunc" where
  "opAdd env run m =
     pop2 m (\<lambda>x y st. ret_ok (set_stack (u_Add (ee_uint256 env) x y # st) m))"

definition opSub :: "('t, 's) executionFunc" where
  "opSub env run m =
     pop2 m (\<lambda>x y st. ret_ok (set_stack (u_Sub (ee_uint256 env) x y # st) m))"

definition opMul :: "('t, 's) executionFunc" where
  "opMul env run m =
     pop2 m (\<lambda>x y st. ret_ok (set_stack (u_Mul (ee_uint256 env) x y # st) m))"

definition opDiv :: "('t, 's) executionFunc" where
  "opDiv env run m =
     pop2 m (\<lambda>x y st. ret_ok (set_stack (u_Div (ee_uint256 env) x y # st) m))"

definition opSdiv :: "('t, 's) executionFunc" where
  "opSdiv env run m =
     pop2 m (\<lambda>x y st. ret_ok (set_stack (u_SDiv (ee_uint256 env) x y # st) m))"

definition opMod :: "('t, 's) executionFunc" where
  "opMod env run m =
     pop2 m (\<lambda>x y st. ret_ok (set_stack (u_Mod (ee_uint256 env) x y # st) m))"

definition opSmod :: "('t, 's) executionFunc" where
  "opSmod env run m =
     pop2 m (\<lambda>x y st. ret_ok (set_stack (u_SMod (ee_uint256 env) x y # st) m))"

definition opExp :: "('t, 's) executionFunc" where
  "opExp env run m =
     pop2 m (\<lambda>x y st. ret_ok (set_stack (u_Exp (ee_uint256 env) x y # st) m))"

definition opSignExtend :: "('t, 's) executionFunc" where
  "opSignExtend env run m =
     pop2 m (\<lambda>x y st. ret_ok (set_stack (u_ExtendSign (ee_uint256 env) y x # st) m))"

definition opNot :: "('t, 's) executionFunc" where
  "opNot env run m =
     pop1 m (\<lambda>x st. ret_ok (set_stack (u_Not (ee_uint256 env) x # st) m))"

definition opLt :: "('t, 's) executionFunc" where
  "opLt env run m =
     pop2 m (\<lambda>x y st. ret_ok (set_stack ((if u_Lt (ee_uint256 env) x y then 1 else 0) # st) m))"

definition opGt :: "('t, 's) executionFunc" where
  "opGt env run m =
     pop2 m (\<lambda>x y st. ret_ok (set_stack ((if u_Gt (ee_uint256 env) x y then 1 else 0) # st) m))"

definition opSlt :: "('t, 's) executionFunc" where
  "opSlt env run m =
     pop2 m (\<lambda>x y st. ret_ok (set_stack ((if u_Slt (ee_uint256 env) x y then 1 else 0) # st) m))"

definition opSgt :: "('t, 's) executionFunc" where
  "opSgt env run m =
     pop2 m (\<lambda>x y st. ret_ok (set_stack ((if u_Sgt (ee_uint256 env) x y then 1 else 0) # st) m))"

definition opEq :: "('t, 's) executionFunc" where
  "opEq env run m =
     pop2 m (\<lambda>x y st. ret_ok (set_stack ((if u_Eq (ee_uint256 env) x y then 1 else 0) # st) m))"

definition opIszero :: "('t, 's) executionFunc" where
  "opIszero env run m =
     pop1 m (\<lambda>x st. ret_ok (set_stack ((if u_IsZero (ee_uint256 env) x then 1 else 0) # st) m))"

definition opAnd :: "('t, 's) executionFunc" where
  "opAnd env run m =
     pop2 m (\<lambda>x y st. ret_ok (set_stack (u_And (ee_uint256 env) x y # st) m))"

definition opOr :: "('t, 's) executionFunc" where
  "opOr env run m =
     pop2 m (\<lambda>x y st. ret_ok (set_stack (u_Or (ee_uint256 env) x y # st) m))"

definition opXor :: "('t, 's) executionFunc" where
  "opXor env run m =
     pop2 m (\<lambda>x y st. ret_ok (set_stack (u_Xor (ee_uint256 env) x y # st) m))"

definition opByte :: "('t, 's) executionFunc" where
  "opByte env run m =
     pop2 m (\<lambda>x y st. ret_ok (set_stack (u_Byte (ee_uint256 env) y x # st) m))"

definition opAddmod :: "('t, 's) executionFunc" where
  "opAddmod env run m =
     pop3 m (\<lambda>x y z st. ret_ok (set_stack ((if u_IsZero (ee_uint256 env) z then 0 else u_AddMod (ee_uint256 env) x y z) # st) m))"

definition opMulmod :: "('t, 's) executionFunc" where
  "opMulmod env run m =
     pop3 m (\<lambda>x y z st. ret_ok (set_stack (u_MulMod (ee_uint256 env) x y z # st) m))"

definition opSHL :: "('t, 's) executionFunc" where
  "opSHL env run m =
     pop2 m (\<lambda>shift val st.
       ret_ok (set_stack ((if u_LtUint64 (ee_uint256 env) shift 256 then u_Lsh (ee_uint256 env) val (u_Uint64 (ee_uint256 env) shift) else 0) # st) m))"

definition opSHR :: "('t, 's) executionFunc" where
  "opSHR env run m =
     pop2 m (\<lambda>shift val st.
       ret_ok (set_stack ((if u_LtUint64 (ee_uint256 env) shift 256 then u_Rsh (ee_uint256 env) val (u_Uint64 (ee_uint256 env) shift) else 0) # st) m))"

definition opSAR :: "('t, 's) executionFunc" where
  "opSAR env run m =
     pop2 m (\<lambda>shift val st.
       let U = ee_uint256 env
       in ret_ok (set_stack
            ((if u_GtUint64 U shift 256 then if u_Sign U val \<ge> 0 then 0 else -1 else u_SRsh U val (u_Uint64 U shift)) # st) m))"

section \<open>Environment\<close>

definition mem_ptr :: "('t, 's) evm_env \<Rightarrow> ('t, 's) machine \<Rightarrow> u256 \<Rightarrow> u256 \<Rightarrow> bytes outcome" where
  "mem_ptr env m offset sz =
     mem_GetPtr (mc_memory m) (sint (u_Uint64 (ee_uint256 env) offset)) (sint (u_Uint64 (ee_uint256 env) sz))"

definition mem_copy :: "('t, 's) evm_env \<Rightarrow> ('t, 's) machine \<Rightarrow> u256 \<Rightarrow> u256 \<Rightarrow> bytes outcome" where
  "mem_copy env m offset sz =
     mem_GetCopy (mc_memory m) (sint (u_Uint64 (ee_uint256 env) offset)) (sint (u_Uint64 (ee_uint256 env) sz))"

definition mem_write ::
  "('t, 's) evm_env \<Rightarrow> ('t, 's) machine \<Rightarrow> u256 \<Rightarrow> u256 \<Rightarrow> bytes \<Rightarrow> ('t, 's) machine outcome" where
  "mem_write env m offset sz val =
     andThen (mem_Set (mc_memory m) (u_Uint64 (ee_uint256 env) offset) (u_Uint64 (ee_uint256 env) sz) val)
       (\<lambda>mem. Ret (m\<lparr>mc_memory := mem\<rparr>))"

definition push_address :: "('t, 's) evm_env \<Rightarrow> address \<Rightarrow> ('t, 's) machine \<Rightarrow> ('t, 's) exec_result" where
  "push_address env a m = ret_ok (push (u_SetBytes (ee_uint256 env) (addr_Bytes a)) m)"

definition push_uint64 :: "('t, 's) evm_env \<Rightarrow> uint64 \<Rightarrow> ('t, 's) machine \<Rightarrow> ('t, 's) exec_result" where
  "push_uint64 env n m = ret_ok (push (u_SetUint64 (ee_uint256 env) n) m)"

definition push_big :: "('t, 's) evm_env \<Rightarrow> int \<Rightarrow> ('t, 's) machine \<Rightarrow> ('t, 's) exec_result" where
  "push_big env n m = ret_ok (push (u_FromBig (ee_uint256 env) n) m)"

definition opSha3 :: "('t, 's) executionFunc" where
  "opSha3 env run m =
     pop2 m (\<lambda>offset sz st.
       andThen (mem_ptr env m offset sz) (\<lambda>data.
         let h = be_Keccak256 (ee_backend env) data;
             m = (if ee_EnablePreimageRecording env then set_StateDB (AddPreimage (mc_StateDB m) h data) m else m)
         in ret_ok (set_stack (u_SetBytes (ee_uint256 env) (hash_Bytes h) # st) m)))"

definition opAddress :: "('t, 's) executionFunc" where
  "opAddress env run m =
     push_address env (mc_address m) m"

definition opBalance :: "('t, 's) executionFunc" where
  "opBalance env run m =
     pop1 m (\<lambda>x st.
       case mc_GetBalance env m (u_Bytes20 (ee_uint256 env) x) of (m, b) \<Rightarrow> ret_ok (set_stack (u_FromBig (ee_uint256 env) b # st) m))"

definition opOrigin :: "('t, 's) executionFunc" where
  "opOrigin env run m =
     push_address env (ee_Origin env) m"

definition opCaller :: "('t, 's) executionFunc" where
  "opCaller env run m =
     push_address env (c_CallerAddress (mc_contract m)) m"

definition opCallValue :: "('t, 's) executionFunc" where
  "opCallValue env run m =
     push_big env (c_value (mc_contract m)) m"

definition opCallDataLoad :: "('t, 's) executionFunc" where
  "opCallDataLoad env run m =
     pop1 m (\<lambda>x st.
       case u_Uint64WithOverflow (ee_uint256 env) x of (offset, overflow) \<Rightarrow>
         if \<not> overflow then
           andThen (getData (c_Input (mc_contract m)) offset 32) (\<lambda>data.
             ret_ok (set_stack (u_SetBytes (ee_uint256 env) data # st) m))
         else ret_ok (set_stack (0 # st) m))"

definition opCallDataSize :: "('t, 's) executionFunc" where
  "opCallDataSize env run m =
     push_uint64 env (of_nat (length (c_Input (mc_contract m)))) m"

text \<open>An offset into data, or the largest one when it does not fit.\<close>

definition data_offset :: "('t, 's) evm_env \<Rightarrow> u256 \<Rightarrow> uint64" where
  "data_offset env x = (case u_Uint64WithOverflow (ee_uint256 env) x of (n, overflow) \<Rightarrow> if overflow then -1 else n)"

definition opCallDataCopy :: "('t, 's) executionFunc" where
  "opCallDataCopy env run m =
     pop3 m (\<lambda>memOffset dataOffset len st.
       andThen (getData (c_Input (mc_contract m)) (data_offset env dataOffset) (u_Uint64 (ee_uint256 env) len)) (\<lambda>data.
         andThen (mem_write env (set_stack st m) memOffset len data) ret_ok))"

definition opReturnDataSize :: "('t, 's) executionFunc" where
  "opReturnDataSize env run m =
     push_uint64 env (of_nat (length (in_returnData (mc_evm m)))) m"

definition opReturnDataCopy :: "('t, 's) executionFunc" where
  "opReturnDataCopy env run m =
     pop3 m (\<lambda>memOffset dataOffset len st.
       let U = ee_uint256 env; m = set_stack st m; data = in_returnData (mc_evm m)
       in case u_Uint64WithOverflow U dataOffset of (offset64, overflow) \<Rightarrow>
         if overflow then ret_err m ErrReturnDataOutOfBounds
         else case u_Uint64WithOverflow U (u_Add U dataOffset len) of (end64, overflow) \<Rightarrow>
           if overflow \<or> length data < unat end64 then ret_err m ErrReturnDataOutOfBounds
           else if end64 < offset64 then Panic SlicePanic
           else andThen (mem_write env m memOffset len (take (unat end64 - unat offset64) (drop (unat offset64) data))) ret_ok)"

definition opExtCodeSize :: "('t, 's) executionFunc" where
  "opExtCodeSize env run m =
     pop1 m (\<lambda>x st.
       case GetCodeSize (ee_backend env) (mc_StateDB m) (u_Bytes20 (ee_uint256 env) x) of (s, n) \<Rightarrow>
         ret_ok (set_stack (u_SetUint64 (ee_uint256 env) (of_int n) # st) (set_StateDB s m)))"

definition opCodeSize :: "('t, 's) executionFunc" where
  "opCodeSize env run m =
     push_uint64 env (of_nat (length (c_Code (mc_contract m)))) m"

definition opCodeCopy :: "('t, 's) executionFunc" where
  "opCodeCopy env run m =
     pop3 m (\<lambda>memOffset dataOffset len st.
       andThen (getData (c_Code (mc_contract m)) (data_offset env dataOffset) (u_Uint64 (ee_uint256 env) len)) (\<lambda>data.
         andThen (mem_write env (set_stack st m) memOffset len data) ret_ok))"

definition opExtCodeCopy :: "('t, 's) executionFunc" where
  "opExtCodeCopy env run m =
     pop4 m (\<lambda>a memOffset codeOffset len st.
       case evm_GetCode env (mc_evm m) (u_Bytes20 (ee_uint256 env) a) of (evm, code) \<Rightarrow>
         andThen (getData code (data_offset env codeOffset) (u_Uint64 (ee_uint256 env) len)) (\<lambda>data.
           andThen (mem_write env (set_stack st (m\<lparr>mc_evm := evm\<rparr>)) memOffset len data) ret_ok))"

definition opExtCodeHash :: "('t, 's) executionFunc" where
  "opExtCodeHash env run m =
     pop1 m (\<lambda>x st.
       let addr = u_Bytes20 (ee_uint256 env) x
       in case mc_Empty env m addr of (m, b) \<Rightarrow>
         if b then ret_ok (set_stack (0 # st) m)
         else case evm_GetCodeHash env (mc_evm m) addr of (evm, h) \<Rightarrow>
           ret_ok (set_stack (u_SetBytes (ee_uint256 env) (hash_Bytes h) # st) (m\<lparr>mc_evm := evm\<rparr>)))"

definition opGasprice :: "('t, 's) executionFunc" where
  "opGasprice env run m =
     push_big env (ee_GasPrice env) m"

definition opBlockhash :: "('t, 's) executionFunc" where
  "opBlockhash env run m =
     pop1 m (\<lambda>num st.
       case u_Uint64WithOverflow (ee_uint256 env) num of (num64, overflow) \<Rightarrow>
         if overflow then ret_ok (set_stack (0 # st) m)
         else
           let upper = of_int (ee_BlockNumber env); lower = (if upper < 257 then 0 else upper - 256)
           in if num64 \<ge> lower \<and> num64 < upper
              then ret_ok (set_stack (u_SetBytes (ee_uint256 env) (hash_Bytes (ee_GetHash env num64)) # st) m)
              else ret_ok (set_stack (0 # st) m))"

definition opCoinbase :: "('t, 's) executionFunc" where
  "opCoinbase env run m =
     push_address env (ee_Coinbase env) m"

definition opTimestamp :: "('t, 's) executionFunc" where
  "opTimestamp env run m =
     push_big env (ee_Time env) m"

definition opNumber :: "('t, 's) executionFunc" where
  "opNumber env run m =
     push_big env (ee_BlockNumber env) m"

definition opDifficulty :: "('t, 's) executionFunc" where
  "opDifficulty env run m =
     push_big env (ee_Difficulty env) m"

definition opGasLimit :: "('t, 's) executionFunc" where
  "opGasLimit env run m =
     push_uint64 env (ee_GasLimit env) m"

definition opSelfBalance :: "('t, 's) executionFunc" where
  "opSelfBalance env run m =
     (case mc_GetBalance env m (mc_address m) of (m, b) \<Rightarrow> push_big env b m)"

definition opChainID :: "('t, 's) executionFunc" where
  "opChainID env run m =
     push_big env (ee_ChainID env) m"

section \<open>Stack, memory, storage and flow\<close>

definition opPop :: "('t, 's) executionFunc" where
  "opPop env run m =
     pop1 m (\<lambda>x st. ret_ok (set_stack st m))"

definition opMload :: "('t, 's) executionFunc" where
  "opMload env run m =
     pop1 m (\<lambda>v st.
       andThen (mem_GetPtr (mc_memory m) (sint (u_Uint64 (ee_uint256 env) v)) 32) (\<lambda>data.
         ret_ok (set_stack (u_SetBytes (ee_uint256 env) data # st) m)))"

definition opMstore :: "('t, 's) executionFunc" where
  "opMstore env run m =
     pop2 m (\<lambda>mStart val st.
       andThen (mem_Set32 (ee_uint256 env) (mc_memory m) (u_Uint64 (ee_uint256 env) mStart) val) (\<lambda>mem.
         ret_ok (set_stack st (m\<lparr>mc_memory := mem\<rparr>))))"

definition opMstore8 :: "('t, 's) executionFunc" where
  "opMstore8 env run m =
     pop2 m (\<lambda>off val st.
       let mem = mc_memory m; i = unat (u_Uint64 (ee_uint256 env) off)
       in if i < mem_Len mem
          then ret_ok (set_stack st (m\<lparr>mc_memory := mem\<lparr>mem_store := (mem_store mem)[i := ucast (u_Uint64 (ee_uint256 env) val)]\<rparr>\<rparr>))
          else Panic MemoryPanic)"

definition opSload :: "('t, 's) executionFunc" where
  "opSload env run m =
     pop1 m (\<lambda>loc st.
       case mc_GetState env m (u_Bytes32 (ee_uint256 env) loc) of (m, v) \<Rightarrow>
         ret_ok (set_stack (u_SetBytes (ee_uint256 env) (hash_Bytes v) # st) m))"

definition opSstore :: "('t, 's) executionFunc" where
  "opSstore env run m =
     pop2 m (\<lambda>loc val st.
       ret_ok (set_stack st (set_StateDB
         (SetState (ee_backend env) (mc_StateDB m) (mc_address m) (u_Bytes32 (ee_uint256 env) loc) (u_Bytes32 (ee_uint256 env) val)) m)))"

definition set_jumps :: "Contract \<Rightarrow> jumpdests \<Rightarrow> ('t, 's) machine \<Rightarrow> ('t, 's) machine" where
  "set_jumps c jd m = m\<lparr>mc_contract := c, mc_evm := (mc_evm m)\<lparr>ev_jumpdests := jd\<rparr>\<rparr>"

text \<open>The jump shared by JUMP and JUMPI.\<close>

definition jump_to :: "('t, 's) evm_env \<Rightarrow> u256 \<Rightarrow> ('t, 's) machine \<Rightarrow> ('t, 's) exec_result" where
  "jump_to env pos m =
     andThen (validJumpdest (ee_uint256 env) (mc_contract m) (ev_jumpdests (mc_evm m)) pos) (\<lambda>(c, jd, valid).
       let m = set_jumps c jd m
       in if \<not> valid then ret_err m ErrInvalidJump else ret_ok (m\<lparr>mc_pc := u_Uint64 (ee_uint256 env) pos\<rparr>))"

definition opJump :: "('t, 's) executionFunc" where
  "opJump env run m =
     pop1 m (\<lambda>pos st. jump_to env pos (set_stack st m))"

definition opJumpi :: "('t, 's) executionFunc" where
  "opJumpi env run m =
     pop2 m (\<lambda>pos cond st.
       if \<not> u_IsZero (ee_uint256 env) cond then jump_to env pos (set_stack st m)
       else ret_ok ((set_stack st m)\<lparr>mc_pc := mc_pc m + 1\<rparr>))"

definition opJumpdest :: "('t, 's) executionFunc" where
  "opJumpdest env run m =
     ret_ok m"

definition opBeginSub :: "('t, 's) executionFunc" where
  "opBeginSub env run m =
     ret_err m ErrInvalidSubroutineEntry"

definition opJumpSub :: "('t, 's) executionFunc" where
  "opJumpSub env run m =
     (if length (mc_rstack m) \<ge> 1023 then ret_err m ErrReturnStackExceeded
      else pop1 m (\<lambda>pos st.
        let m = set_stack st m; posU64 = u_Uint64 (ee_uint256 env) pos
        in if \<not> u_IsUint64 (ee_uint256 env) pos then ret_err m ErrInvalidJump
           else andThen (validJumpSubdest (mc_contract m) (ev_jumpdests (mc_evm m)) posU64) (\<lambda>(c, jd, valid).
             let m = set_jumps c jd m
             in if \<not> valid then ret_err m ErrInvalidJump
                else ret_ok (m\<lparr>mc_rstack := ucast (mc_pc m) # mc_rstack m, mc_pc := posU64 + 1\<rparr>))))"

definition opReturnSub :: "('t, 's) executionFunc" where
  "opReturnSub env run m =
     (case mc_rstack m of
        [] \<Rightarrow> ret_err m ErrInvalidRetsub
      | pc # rst \<Rightarrow> ret_ok (m\<lparr>mc_rstack := rst, mc_pc := ucast pc + 1\<rparr>))"

definition opPc :: "('t, 's) executionFunc" where
  "opPc env run m =
     push_uint64 env (mc_pc m) m"

definition opMsize :: "('t, 's) executionFunc" where
  "opMsize env run m =
     push_uint64 env (of_nat (mem_Len (mc_memory m))) m"

definition opGas :: "('t, 's) executionFunc" where
  "opGas env run m =
     push_uint64 env (c_Gas (mc_contract m)) m"

definition opStop :: "('t, 's) executionFunc" where
  "opStop env run m =
     ret_ok m"

definition opReturn :: "('t, 's) executionFunc" where
  "opReturn env run m =
     pop2 m (\<lambda>offset sz st. andThen (mem_ptr env m offset sz) (\<lambda>ret. Ret (set_stack st m, ret, None)))"

definition opRevert :: "('t, 's) executionFunc" where
  "opRevert env run m =
     pop2 m (\<lambda>offset sz st. andThen (mem_ptr env m offset sz) (\<lambda>ret. Ret (set_stack st m, ret, None)))"

definition opSuicide :: "('t, 's) executionFunc" where
  "opSuicide env run m =
     pop1 m (\<lambda>beneficiary st.
       case mc_GetBalance env m (mc_address m) of (m, balance) \<Rightarrow>
         let s = AddBalance (ee_backend env) (mc_StateDB m) (u_Bytes20 (ee_uint256 env) beneficiary) balance
         in case Suicide (ee_backend env) s (mc_address m) of (s, _) \<Rightarrow> ret_ok (set_stack st (set_StateDB s m)))"

definition makeLog :: "nat \<Rightarrow> ('t, 's) executionFunc" where
  "makeLog n env run m =
     pop2 m (\<lambda>mStart mSize st.
       if length st < n then stack_panic
       else andThen (mem_copy env m mStart mSize) (\<lambda>d.
         ret_ok (set_stack (drop n st) (set_StateDB
           (AddLog (mc_StateDB m)
              \<lparr>lg_Address = mc_address m, lg_Topics = map (u_Bytes32 (ee_uint256 env)) (take n st), lg_Data = d,
               lg_BlockNumber = of_int (ee_BlockNumber env), lg_TxHash = 0, lg_TxIndex = 0, lg_BlockHash = 0,
               lg_Index = 0, lg_Removed = False\<rparr>) m))))"

definition opPush1 :: "('t, 's) executionFunc" where
  "opPush1 env run m =
     (let m = m\<lparr>mc_pc := mc_pc m + 1\<rparr>; code = c_Code (mc_contract m)
      in if unat (mc_pc m) < length code then push_uint64 env (ucast (code ! unat (mc_pc m))) m
         else ret_ok (push 0 m))"

definition makePush :: "uint64 \<Rightarrow> nat \<Rightarrow> ('t, 's) executionFunc" where
  "makePush n pushByteSize env run m =
     (let code = c_Code (mc_contract m); codeLen = int (length code);
          startMin = (if sint (mc_pc m + 1) < codeLen then sint (mc_pc m + 1) else codeLen);
          endMin = (if startMin + int pushByteSize < codeLen then startMin + int pushByteSize else codeLen)
      in if startMin < 0 then Panic SlicePanic
         else ret_ok ((push (u_SetBytes (ee_uint256 env)
                    (RightPadBytes (take (nat (endMin - startMin)) (drop (nat startMin) code)) (int pushByteSize))) m)
                  \<lparr>mc_pc := mc_pc m + n\<rparr>))"

definition makeDup :: "nat \<Rightarrow> ('t, 's) executionFunc" where
  "makeDup n env run m = andThen (stack_dup (mc_stack m) n) (\<lambda>st. ret_ok (set_stack st m))"

definition makeSwap :: "nat \<Rightarrow> ('t, 's) executionFunc" where
  "makeSwap n env run m = andThen (stack_swap (mc_stack m) (n + 1)) (\<lambda>st. ret_ok (set_stack st m))"

section \<open>Calls and creation\<close>

definition add_gas :: "uint64 \<Rightarrow> ('t, 's) machine \<Rightarrow> ('t, 's) machine" where
  "add_gas g m = m\<lparr>mc_contract := (mc_contract m)\<lparr>c_Gas := c_Gas (mc_contract m) + g\<rparr>\<rparr>"

text \<open>\<open>big0\<close> or the value as a \<open>big.Int\<close>.\<close>

definition big_value :: "('t, 's) evm_env \<Rightarrow> u256 \<Rightarrow> int" where
  "big_value env v = (if u_IsZero (ee_uint256 env) v then 0 else u_ToBig (ee_uint256 env) v)"

text \<open>
  The end of a creation: the result on the stack, the unused gas back to the contract, and data only from a
  reverted creation.
\<close>

definition opCreate_end :: "('t, 's) evm_env \<Rightarrow> bool \<Rightarrow> stack \<Rightarrow> ('t, 's) machine \<Rightarrow> ('t, 's) create_result \<Rightarrow> ('t, 's) exec_result" where
  "opCreate_end env failed st m r =
     (case r of (evm, res, addr, returnGas, suberr) \<Rightarrow>
        let v = (if failed then 0 else u_SetBytes (ee_uint256 env) (addr_Bytes addr));
            m = add_gas returnGas (set_stack (v # st) (m\<lparr>mc_evm := evm\<rparr>))
        in Ret (m, if suberr = Some ErrExecutionReverted then res else [], None))"

definition opCreate :: "('t, 's) executionFunc" where
  "opCreate env run m =
     pop3 m (\<lambda>val offset sz st.
       andThen (mem_copy env m offset sz) (\<lambda>input.
         let gas = c_Gas (mc_contract m);
             gas = (if IsEIP150 (ee_chainRules env) then gas - gas div 64 else gas);
             m = m\<lparr>mc_contract := fst (UseGas (mc_contract m) gas)\<rparr>
         in andThen (Create env run (mc_evm m) (contract_ref (mc_contract m)) input gas (big_value env val)) (\<lambda>r.
              let suberr = snd (snd (snd (snd r)))
              in opCreate_end env
                   (IsHomestead (ee_chainRules env) \<and> suberr = Some ErrCodeStoreOutOfGas \<or>
                    suberr \<noteq> None \<and> suberr \<noteq> Some ErrCodeStoreOutOfGas) st m r)))"

definition opCreate2 :: "('t, 's) executionFunc" where
  "opCreate2 env run m =
     pop4 m (\<lambda>endowment offset sz salt st.
       andThen (mem_copy env m offset sz) (\<lambda>input.
         let gas = c_Gas (mc_contract m);
             gas = gas - gas div 64;
             m = m\<lparr>mc_contract := fst (UseGas (mc_contract m) gas)\<rparr>
         in andThen (Create2 env run (mc_evm m) (contract_ref (mc_contract m)) input gas (big_value env endowment) salt) (\<lambda>r.
              opCreate_end env (snd (snd (snd (snd r))) \<noteq> None) st m r)))"

text \<open>
  The end of a call: success on the stack, the output copied into memory, the unused gas back to the contract.
  The slice returned is read after that copy: if it shares the memory, it shows the copy.
\<close>

definition opCall_end ::
  "('t, 's) evm_env \<Rightarrow> u256 \<Rightarrow> u256 \<Rightarrow> u256 \<Rightarrow> u256 \<Rightarrow> bytes \<Rightarrow> stack \<Rightarrow> ('t, 's) machine \<Rightarrow> ('t, 's) call_result \<Rightarrow>
   ('t, 's) exec_result" where
  "opCall_end env inOffset inSize retOffset retSize args st m r =
     (case r of (evm, ret, returnGas, err) \<Rightarrow>
        let m = set_stack ((if err \<noteq> None then 0 else 1) # st) (m\<lparr>mc_evm := evm\<rparr>)
        in andThen
             (if err = None \<or> err = Some ErrExecutionReverted
              then mem_write env m retOffset retSize (ret_bytes args ret) else Ret m)
             (\<lambda>m. andThen (case ret of Fresh bs \<Rightarrow> Ret bs | Input_slice \<Rightarrow> mem_ptr env m inOffset inSize)
                    (\<lambda>res. Ret (add_gas returnGas m, res, None))))"

definition call_gas :: "('t, 's) evm_env \<Rightarrow> ('t, 's) machine \<Rightarrow> u256 \<Rightarrow> uint64" where
  "call_gas env m val =
     (if u_IsZero (ee_uint256 env) val then ev_callGasTemp (mc_evm m) else ev_callGasTemp (mc_evm m) + CallStipend)"

definition opCall :: "('t, 's) executionFunc" where
  "opCall env run m =
     (case mc_stack m of
        temp # addr # val # inOffset # inSize # retOffset # retSize # st \<Rightarrow>
          andThen (mem_ptr env m inOffset inSize) (\<lambda>args.
            andThen (Call env run (mc_evm m) (contract_ref (mc_contract m)) (u_Bytes20 (ee_uint256 env) addr) args
                       (call_gas env m val) (big_value env val))
              (opCall_end env inOffset inSize retOffset retSize args st m))
      | _ \<Rightarrow> stack_panic)"

definition opCallCode :: "('t, 's) executionFunc" where
  "opCallCode env run m =
     (case mc_stack m of
        temp # addr # val # inOffset # inSize # retOffset # retSize # st \<Rightarrow>
          andThen (mem_ptr env m inOffset inSize) (\<lambda>args.
            andThen (CallCode env run (mc_evm m) (contract_ref (mc_contract m)) (u_Bytes20 (ee_uint256 env) addr) args
                       (call_gas env m val) (big_value env val))
              (opCall_end env inOffset inSize retOffset retSize args st m))
      | _ \<Rightarrow> stack_panic)"

definition opDelegateCall :: "('t, 's) executionFunc" where
  "opDelegateCall env run m =
     (case mc_stack m of
        temp # addr # inOffset # inSize # retOffset # retSize # st \<Rightarrow>
          andThen (mem_ptr env m inOffset inSize) (\<lambda>args.
            andThen (DelegateCall env run (mc_evm m) (contract_ref (mc_contract m)) (u_Bytes20 (ee_uint256 env) addr) args
                       (ev_callGasTemp (mc_evm m)))
              (opCall_end env inOffset inSize retOffset retSize args st m))
      | _ \<Rightarrow> stack_panic)"

definition opStaticCall :: "('t, 's) executionFunc" where
  "opStaticCall env run m =
     (case mc_stack m of
        temp # addr # inOffset # inSize # retOffset # retSize # st \<Rightarrow>
          andThen (mem_ptr env m inOffset inSize) (\<lambda>args.
            andThen (StaticCall env run (mc_evm m) (contract_ref (mc_contract m)) (u_Bytes20 (ee_uint256 env) addr) args
                       (ev_callGasTemp (mc_evm m)))
              (opCall_end env inOffset inSize retOffset retSize args st m))
      | _ \<Rightarrow> stack_panic)"

end
