(* ===== verification/EvmTable.thy ===== *)
theory EvmTable
  imports EvmInstr
begin

text \<open>
  The jump tables (\<open>core/vm/jump_table.go\<close>, \<open>opcodes.go\<close>, \<open>stack_table.go\<close>, \<open>eips.go\<close>): for every opcode of
  a fork its instruction, gas, stack bounds, memory size and flags.
\<close>

section \<open>Opcodes\<close>

abbreviation OP_STOP :: byte where "OP_STOP \<equiv> 0x00"
abbreviation OP_ADD :: byte where "OP_ADD \<equiv> 0x01"
abbreviation OP_MUL :: byte where "OP_MUL \<equiv> 0x02"
abbreviation OP_SUB :: byte where "OP_SUB \<equiv> 0x03"
abbreviation OP_DIV :: byte where "OP_DIV \<equiv> 0x04"
abbreviation OP_SDIV :: byte where "OP_SDIV \<equiv> 0x05"
abbreviation OP_MOD :: byte where "OP_MOD \<equiv> 0x06"
abbreviation OP_SMOD :: byte where "OP_SMOD \<equiv> 0x07"
abbreviation OP_ADDMOD :: byte where "OP_ADDMOD \<equiv> 0x08"
abbreviation OP_MULMOD :: byte where "OP_MULMOD \<equiv> 0x09"
abbreviation OP_EXP :: byte where "OP_EXP \<equiv> 0x0a"
abbreviation OP_SIGNEXTEND :: byte where "OP_SIGNEXTEND \<equiv> 0x0b"
abbreviation OP_LT :: byte where "OP_LT \<equiv> 0x10"
abbreviation OP_GT :: byte where "OP_GT \<equiv> 0x11"
abbreviation OP_SLT :: byte where "OP_SLT \<equiv> 0x12"
abbreviation OP_SGT :: byte where "OP_SGT \<equiv> 0x13"
abbreviation OP_EQ :: byte where "OP_EQ \<equiv> 0x14"
abbreviation OP_ISZERO :: byte where "OP_ISZERO \<equiv> 0x15"
abbreviation OP_AND :: byte where "OP_AND \<equiv> 0x16"
abbreviation OP_OR :: byte where "OP_OR \<equiv> 0x17"
abbreviation OP_XOR :: byte where "OP_XOR \<equiv> 0x18"
abbreviation OP_NOT :: byte where "OP_NOT \<equiv> 0x19"
abbreviation OP_BYTE :: byte where "OP_BYTE \<equiv> 0x1a"
abbreviation OP_SHL :: byte where "OP_SHL \<equiv> 0x1b"
abbreviation OP_SHR :: byte where "OP_SHR \<equiv> 0x1c"
abbreviation OP_SAR :: byte where "OP_SAR \<equiv> 0x1d"
abbreviation OP_SHA3 :: byte where "OP_SHA3 \<equiv> 0x20"
abbreviation OP_ADDRESS :: byte where "OP_ADDRESS \<equiv> 0x30"
abbreviation OP_BALANCE :: byte where "OP_BALANCE \<equiv> 0x31"
abbreviation OP_ORIGIN :: byte where "OP_ORIGIN \<equiv> 0x32"
abbreviation OP_CALLER :: byte where "OP_CALLER \<equiv> 0x33"
abbreviation OP_CALLVALUE :: byte where "OP_CALLVALUE \<equiv> 0x34"
abbreviation OP_CALLDATALOAD :: byte where "OP_CALLDATALOAD \<equiv> 0x35"
abbreviation OP_CALLDATASIZE :: byte where "OP_CALLDATASIZE \<equiv> 0x36"
abbreviation OP_CALLDATACOPY :: byte where "OP_CALLDATACOPY \<equiv> 0x37"
abbreviation OP_CODESIZE :: byte where "OP_CODESIZE \<equiv> 0x38"
abbreviation OP_CODECOPY :: byte where "OP_CODECOPY \<equiv> 0x39"
abbreviation OP_GASPRICE :: byte where "OP_GASPRICE \<equiv> 0x3a"
abbreviation OP_EXTCODESIZE :: byte where "OP_EXTCODESIZE \<equiv> 0x3b"
abbreviation OP_EXTCODECOPY :: byte where "OP_EXTCODECOPY \<equiv> 0x3c"
abbreviation OP_RETURNDATASIZE :: byte where "OP_RETURNDATASIZE \<equiv> 0x3d"
abbreviation OP_RETURNDATACOPY :: byte where "OP_RETURNDATACOPY \<equiv> 0x3e"
abbreviation OP_EXTCODEHASH :: byte where "OP_EXTCODEHASH \<equiv> 0x3f"
abbreviation OP_BLOCKHASH :: byte where "OP_BLOCKHASH \<equiv> 0x40"
abbreviation OP_COINBASE :: byte where "OP_COINBASE \<equiv> 0x41"
abbreviation OP_TIMESTAMP :: byte where "OP_TIMESTAMP \<equiv> 0x42"
abbreviation OP_NUMBER :: byte where "OP_NUMBER \<equiv> 0x43"
abbreviation OP_DIFFICULTY :: byte where "OP_DIFFICULTY \<equiv> 0x44"
abbreviation OP_GASLIMIT :: byte where "OP_GASLIMIT \<equiv> 0x45"
abbreviation OP_CHAINID :: byte where "OP_CHAINID \<equiv> 0x46"
abbreviation OP_SELFBALANCE :: byte where "OP_SELFBALANCE \<equiv> 0x47"
abbreviation OP_POP :: byte where "OP_POP \<equiv> 0x50"
abbreviation OP_MLOAD :: byte where "OP_MLOAD \<equiv> 0x51"
abbreviation OP_MSTORE :: byte where "OP_MSTORE \<equiv> 0x52"
abbreviation OP_MSTORE8 :: byte where "OP_MSTORE8 \<equiv> 0x53"
abbreviation OP_SLOAD :: byte where "OP_SLOAD \<equiv> 0x54"
abbreviation OP_SSTORE :: byte where "OP_SSTORE \<equiv> 0x55"
abbreviation OP_JUMP :: byte where "OP_JUMP \<equiv> 0x56"
abbreviation OP_JUMPI :: byte where "OP_JUMPI \<equiv> 0x57"
abbreviation OP_PC :: byte where "OP_PC \<equiv> 0x58"
abbreviation OP_MSIZE :: byte where "OP_MSIZE \<equiv> 0x59"
abbreviation OP_GAS :: byte where "OP_GAS \<equiv> 0x5a"
abbreviation OP_RETURNSUB :: byte where "OP_RETURNSUB \<equiv> 0x5d"
abbreviation OP_JUMPSUB :: byte where "OP_JUMPSUB \<equiv> 0x5e"
abbreviation OP_CREATE :: byte where "OP_CREATE \<equiv> 0xf0"
abbreviation OP_CALL :: byte where "OP_CALL \<equiv> 0xf1"
abbreviation OP_CALLCODE :: byte where "OP_CALLCODE \<equiv> 0xf2"
abbreviation OP_RETURN :: byte where "OP_RETURN \<equiv> 0xf3"
abbreviation OP_DELEGATECALL :: byte where "OP_DELEGATECALL \<equiv> 0xf4"
abbreviation OP_CREATE2 :: byte where "OP_CREATE2 \<equiv> 0xf5"
abbreviation OP_STATICCALL :: byte where "OP_STATICCALL \<equiv> 0xfa"
abbreviation OP_REVERT :: byte where "OP_REVERT \<equiv> 0xfd"
abbreviation OP_SELFDESTRUCT :: byte where "OP_SELFDESTRUCT \<equiv> 0xff"

section \<open>Operations\<close>

definition minStack :: "int \<Rightarrow> int \<Rightarrow> int" where
  "minStack pops pushes = pops"

definition maxStack :: "int \<Rightarrow> int \<Rightarrow> int" where
  "maxStack pops pushes = StackLimit + pops - pushes"

definition minSwapStack :: "int \<Rightarrow> int" where "minSwapStack n = minStack n n"
definition maxSwapStack :: "int \<Rightarrow> int" where "maxSwapStack n = maxStack n n"
definition minDupStack :: "int \<Rightarrow> int" where "minDupStack n = minStack n (n + 1)"
definition maxDupStack :: "int \<Rightarrow> int" where "maxDupStack n = maxStack n (n + 1)"

record ('t, 's) operation =
  op_execute :: "('t, 's) executionFunc"
  op_constantGas :: uint64
  op_dynamicGas :: "('t, 's) gasFunc option"
  op_minStack :: int
  op_maxStack :: int
  op_memorySize :: "memorySizeFunc option"
  op_halts :: bool
  op_jumps :: bool
  op_writes :: bool
  op_reverts :: bool
  op_returns :: bool

text \<open>An operation with the fields that most leave out at their zero values.\<close>

definition operation_of :: "('t, 's) executionFunc \<Rightarrow> uint64 \<Rightarrow> int \<Rightarrow> int \<Rightarrow> ('t, 's) operation" where
  "operation_of execute constantGas lo hi =
     \<lparr>op_execute = execute, op_constantGas = constantGas, op_dynamicGas = None, op_minStack = lo,
      op_maxStack = hi, op_memorySize = None, op_halts = False, op_jumps = False, op_writes = False,
      op_reverts = False, op_returns = False\<rparr>"

type_synonym ('t, 's) JumpTable = "byte \<rightharpoonup> ('t, 's) operation"

section \<open>Frontier\<close>

definition frontier_arithmetic :: "(byte \<times> ('t, 's) operation) list" where
  "frontier_arithmetic =
     [(OP_STOP, (operation_of opStop 0 (minStack 0 0) (maxStack 0 0))
        \<lparr>op_halts := True\<rparr>),
      (OP_ADD, operation_of opAdd GasFastestStep (minStack 2 1) (maxStack 2 1)),
      (OP_MUL, operation_of opMul GasFastStep (minStack 2 1) (maxStack 2 1)),
      (OP_SUB, operation_of opSub GasFastestStep (minStack 2 1) (maxStack 2 1)),
      (OP_DIV, operation_of opDiv GasFastStep (minStack 2 1) (maxStack 2 1)),
      (OP_SDIV, operation_of opSdiv GasFastStep (minStack 2 1) (maxStack 2 1)),
      (OP_MOD, operation_of opMod GasFastStep (minStack 2 1) (maxStack 2 1)),
      (OP_SMOD, operation_of opSmod GasFastStep (minStack 2 1) (maxStack 2 1)),
      (OP_ADDMOD, operation_of opAddmod GasMidStep (minStack 3 1) (maxStack 3 1)),
      (OP_MULMOD, operation_of opMulmod GasMidStep (minStack 3 1) (maxStack 3 1)),
      (OP_EXP, (operation_of opExp 0 (minStack 2 1) (maxStack 2 1))
        \<lparr>op_dynamicGas := Some gasExpFrontier\<rparr>),
      (OP_SIGNEXTEND, operation_of opSignExtend GasFastStep (minStack 2 1) (maxStack 2 1))]"

definition frontier_bits :: "(byte \<times> ('t, 's) operation) list" where
  "frontier_bits =
     [(OP_LT, operation_of opLt GasFastestStep (minStack 2 1) (maxStack 2 1)),
      (OP_GT, operation_of opGt GasFastestStep (minStack 2 1) (maxStack 2 1)),
      (OP_SLT, operation_of opSlt GasFastestStep (minStack 2 1) (maxStack 2 1)),
      (OP_SGT, operation_of opSgt GasFastestStep (minStack 2 1) (maxStack 2 1)),
      (OP_EQ, operation_of opEq GasFastestStep (minStack 2 1) (maxStack 2 1)),
      (OP_ISZERO, operation_of opIszero GasFastestStep (minStack 1 1) (maxStack 1 1)),
      (OP_AND, operation_of opAnd GasFastestStep (minStack 2 1) (maxStack 2 1)),
      (OP_XOR, operation_of opXor GasFastestStep (minStack 2 1) (maxStack 2 1)),
      (OP_OR, operation_of opOr GasFastestStep (minStack 2 1) (maxStack 2 1)),
      (OP_NOT, operation_of opNot GasFastestStep (minStack 1 1) (maxStack 1 1)),
      (OP_BYTE, operation_of opByte GasFastestStep (minStack 2 1) (maxStack 2 1)),
      (OP_SHA3, (operation_of opSha3 Sha3Gas (minStack 2 1) (maxStack 2 1))
        \<lparr>op_dynamicGas := Some gasSha3, op_memorySize := Some memorySha3\<rparr>)]"

definition frontier_environment :: "(byte \<times> ('t, 's) operation) list" where
  "frontier_environment =
     [(OP_ADDRESS, operation_of opAddress GasQuickStep (minStack 0 1) (maxStack 0 1)),
      (OP_BALANCE, operation_of opBalance BalanceGasFrontier (minStack 1 1) (maxStack 1 1)),
      (OP_ORIGIN, operation_of opOrigin GasQuickStep (minStack 0 1) (maxStack 0 1)),
      (OP_CALLER, operation_of opCaller GasQuickStep (minStack 0 1) (maxStack 0 1)),
      (OP_CALLVALUE, operation_of opCallValue GasQuickStep (minStack 0 1) (maxStack 0 1)),
      (OP_CALLDATALOAD, operation_of opCallDataLoad GasFastestStep (minStack 1 1) (maxStack 1 1)),
      (OP_CALLDATASIZE, operation_of opCallDataSize GasQuickStep (minStack 0 1) (maxStack 0 1)),
      (OP_CALLDATACOPY, (operation_of opCallDataCopy GasFastestStep (minStack 3 0) (maxStack 3 0))
        \<lparr>op_dynamicGas := Some gasCallDataCopy, op_memorySize := Some memoryCallDataCopy\<rparr>),
      (OP_CODESIZE, operation_of opCodeSize GasQuickStep (minStack 0 1) (maxStack 0 1)),
      (OP_CODECOPY, (operation_of opCodeCopy GasFastestStep (minStack 3 0) (maxStack 3 0))
        \<lparr>op_dynamicGas := Some gasCodeCopy, op_memorySize := Some memoryCodeCopy\<rparr>),
      (OP_GASPRICE, operation_of opGasprice GasQuickStep (minStack 0 1) (maxStack 0 1)),
      (OP_EXTCODESIZE, operation_of opExtCodeSize ExtcodeSizeGasFrontier (minStack 1 1) (maxStack 1 1)),
      (OP_EXTCODECOPY, (operation_of opExtCodeCopy ExtcodeCopyBaseFrontier (minStack 4 0) (maxStack 4 0))
        \<lparr>op_dynamicGas := Some gasExtCodeCopy, op_memorySize := Some memoryExtCodeCopy\<rparr>)]"

definition frontier_block :: "(byte \<times> ('t, 's) operation) list" where
  "frontier_block =
     [(OP_BLOCKHASH, operation_of opBlockhash GasExtStep (minStack 1 1) (maxStack 1 1)),
      (OP_COINBASE, operation_of opCoinbase GasQuickStep (minStack 0 1) (maxStack 0 1)),
      (OP_TIMESTAMP, operation_of opTimestamp GasQuickStep (minStack 0 1) (maxStack 0 1)),
      (OP_NUMBER, operation_of opNumber GasQuickStep (minStack 0 1) (maxStack 0 1)),
      (OP_DIFFICULTY, operation_of opDifficulty GasQuickStep (minStack 0 1) (maxStack 0 1)),
      (OP_GASLIMIT, operation_of opGasLimit GasQuickStep (minStack 0 1) (maxStack 0 1))]"

definition frontier_flow :: "(byte \<times> ('t, 's) operation) list" where
  "frontier_flow =
     [(OP_POP, operation_of opPop GasQuickStep (minStack 1 0) (maxStack 1 0)),
      (OP_MLOAD, (operation_of opMload GasFastestStep (minStack 1 1) (maxStack 1 1))
        \<lparr>op_dynamicGas := Some gasMLoad, op_memorySize := Some memoryMLoad\<rparr>),
      (OP_MSTORE, (operation_of opMstore GasFastestStep (minStack 2 0) (maxStack 2 0))
        \<lparr>op_dynamicGas := Some gasMStore, op_memorySize := Some memoryMStore\<rparr>),
      (OP_MSTORE8, (operation_of opMstore8 GasFastestStep (minStack 2 0) (maxStack 2 0))
        \<lparr>op_dynamicGas := Some gasMStore8, op_memorySize := Some memoryMStore8\<rparr>),
      (OP_SLOAD, operation_of opSload SloadGasFrontier (minStack 1 1) (maxStack 1 1)),
      (OP_SSTORE, (operation_of opSstore 0 (minStack 2 0) (maxStack 2 0))
        \<lparr>op_dynamicGas := Some gasSStore, op_writes := True\<rparr>),
      (OP_JUMP, (operation_of opJump GasMidStep (minStack 1 0) (maxStack 1 0))
        \<lparr>op_jumps := True\<rparr>),
      (OP_JUMPI, (operation_of opJumpi GasSlowStep (minStack 2 0) (maxStack 2 0))
        \<lparr>op_jumps := True\<rparr>),
      (OP_PC, operation_of opPc GasQuickStep (minStack 0 1) (maxStack 0 1)),
      (OP_MSIZE, operation_of opMsize GasQuickStep (minStack 0 1) (maxStack 0 1)),
      (OP_GAS, operation_of opGas GasQuickStep (minStack 0 1) (maxStack 0 1)),
      (JUMPDEST, operation_of opJumpdest JumpdestGas (minStack 0 0) (maxStack 0 0))]"

definition frontier_push :: "(byte \<times> ('t, 's) operation) list" where
  "frontier_push =
     (PUSH1, operation_of opPush1 GasFastestStep (minStack 0 1) (maxStack 0 1)) #
     map (\<lambda>n. (PUSH1 + of_nat (n - 1), operation_of (makePush (of_nat n) n) GasFastestStep (minStack 0 1) (maxStack 0 1))) [2..<33]"

definition frontier_dup :: "(byte \<times> ('t, 's) operation) list" where
  "frontier_dup =
     map (\<lambda>n. (0x80 + of_nat (n - 1), operation_of (makeDup n) GasFastestStep (minDupStack (int n)) (maxDupStack (int n)))) [1..<17]"

definition frontier_swap :: "(byte \<times> ('t, 's) operation) list" where
  "frontier_swap =
     map (\<lambda>n. (0x90 + of_nat (n - 1),
       operation_of (makeSwap n) GasFastestStep (minSwapStack (int n + 1)) (maxSwapStack (int n + 1)))) [1..<17]"

definition frontier_log :: "(byte \<times> ('t, 's) operation) list" where
  "frontier_log =
     map (\<lambda>n. (0xa0 + of_nat n,
       (operation_of (makeLog n) 0 (minStack (int n + 2) 0) (maxStack (int n + 2) 0))
         \<lparr>op_dynamicGas := Some (makeGasLog (of_nat n)), op_memorySize := Some memoryLog, op_writes := True\<rparr>)) [0..<5]"

definition frontier_calls :: "(byte \<times> ('t, 's) operation) list" where
  "frontier_calls =
     [(OP_CREATE, (operation_of opCreate CreateGas (minStack 3 1) (maxStack 3 1))
        \<lparr>op_dynamicGas := Some gasCreate, op_memorySize := Some memoryCreate, op_writes := True, op_returns := True\<rparr>),
      (OP_CALL, (operation_of opCall CallGasFrontier (minStack 7 1) (maxStack 7 1))
        \<lparr>op_dynamicGas := Some gasCall, op_memorySize := Some memoryCall, op_returns := True\<rparr>),
      (OP_CALLCODE, (operation_of opCallCode CallGasFrontier (minStack 7 1) (maxStack 7 1))
        \<lparr>op_dynamicGas := Some gasCallCode, op_memorySize := Some memoryCall, op_returns := True\<rparr>),
      (OP_RETURN, (operation_of opReturn 0 (minStack 2 0) (maxStack 2 0))
        \<lparr>op_dynamicGas := Some gasReturn, op_memorySize := Some memoryReturn, op_halts := True\<rparr>),
      (OP_SELFDESTRUCT, (operation_of opSuicide 0 (minStack 1 0) (maxStack 1 0))
        \<lparr>op_dynamicGas := Some gasSelfdestruct, op_halts := True, op_writes := True\<rparr>)]"

definition newFrontierInstructionSet :: "('t, 's) JumpTable" where
  "newFrontierInstructionSet = map_of
     (frontier_arithmetic @ frontier_bits @ frontier_environment @ frontier_block @ frontier_flow @ frontier_push @
      frontier_dup @ frontier_swap @ frontier_log @ frontier_calls)"

section \<open>Later forks\<close>

text \<open>A field of an entry is changed through its pointer: a missing entry panics.\<close>

definition modify :: "byte \<Rightarrow> (('t, 's) operation \<Rightarrow> ('t, 's) operation) \<Rightarrow> ('t, 's) JumpTable \<Rightarrow> ('t, 's) JumpTable option" where
  "modify k f jt = (case jt k of None \<Rightarrow> None | Some op \<Rightarrow> Some (jt(k \<mapsto> f op)))"

definition set_constantGas :: "byte \<Rightarrow> uint64 \<Rightarrow> ('t, 's) JumpTable \<Rightarrow> ('t, 's) JumpTable option" where
  "set_constantGas k gas = modify k (\<lambda>op. op\<lparr>op_constantGas := gas\<rparr>)"

definition set_dynamicGas :: "byte \<Rightarrow> ('t, 's) gasFunc \<Rightarrow> ('t, 's) JumpTable \<Rightarrow> ('t, 's) JumpTable option" where
  "set_dynamicGas k gas = modify k (\<lambda>op. op\<lparr>op_dynamicGas := Some gas\<rparr>)"

primrec sequence :: "('a \<Rightarrow> 'a option) list \<Rightarrow> 'a \<Rightarrow> 'a option" where
  "sequence [] x = Some x"
| "sequence (f # fs) x = Option.bind (f x) (sequence fs)"

definition newHomesteadInstructionSet :: "('t, 's) JumpTable" where
  "newHomesteadInstructionSet =
     newFrontierInstructionSet(OP_DELEGATECALL \<mapsto> (operation_of opDelegateCall CallGasFrontier (minStack 6 1) (maxStack 6 1))
          \<lparr>op_dynamicGas := Some gasDelegateCall, op_memorySize := Some memoryDelegateCall, op_returns := True\<rparr>)"

definition newTangerineWhistleInstructionSet :: "('t, 's) JumpTable option" where
  "newTangerineWhistleInstructionSet =
     sequence
       [set_constantGas OP_BALANCE BalanceGasEIP150,
        set_constantGas OP_EXTCODESIZE ExtcodeSizeGasEIP150,
        set_constantGas OP_SLOAD SloadGasEIP150,
        set_constantGas OP_EXTCODECOPY ExtcodeCopyBaseEIP150,
        set_constantGas OP_CALL CallGasEIP150,
        set_constantGas OP_CALLCODE CallGasEIP150,
        set_constantGas OP_DELEGATECALL CallGasEIP150]
       newHomesteadInstructionSet"

definition newSpuriousDragonInstructionSet :: "('t, 's) JumpTable option" where
  "newSpuriousDragonInstructionSet =
     Option.bind newTangerineWhistleInstructionSet (set_dynamicGas OP_EXP gasExpEIP158)"

definition newByzantiumInstructionSet :: "('t, 's) JumpTable option" where
  "newByzantiumInstructionSet =
     map_option (\<lambda>jt. jt(OP_STATICCALL \<mapsto> (operation_of opStaticCall CallGasEIP150 (minStack 6 1) (maxStack 6 1))
          \<lparr>op_dynamicGas := Some gasStaticCall, op_memorySize := Some memoryStaticCall, op_returns := True\<rparr>,
        OP_RETURNDATASIZE \<mapsto> operation_of opReturnDataSize GasQuickStep (minStack 0 1) (maxStack 0 1),
        OP_RETURNDATACOPY \<mapsto> (operation_of opReturnDataCopy GasFastestStep (minStack 3 0) (maxStack 3 0))
          \<lparr>op_dynamicGas := Some gasReturnDataCopy, op_memorySize := Some memoryReturnDataCopy\<rparr>,
        OP_REVERT \<mapsto> (operation_of opRevert 0 (minStack 2 0) (maxStack 2 0))
          \<lparr>op_dynamicGas := Some gasRevert, op_memorySize := Some memoryRevert, op_reverts := True, op_returns := True\<rparr>)) newSpuriousDragonInstructionSet"

definition newConstantinopleInstructionSet :: "('t, 's) JumpTable option" where
  "newConstantinopleInstructionSet =
     map_option (\<lambda>jt. jt(OP_SHL \<mapsto> operation_of opSHL GasFastestStep (minStack 2 1) (maxStack 2 1),
        OP_SHR \<mapsto> operation_of opSHR GasFastestStep (minStack 2 1) (maxStack 2 1),
        OP_SAR \<mapsto> operation_of opSAR GasFastestStep (minStack 2 1) (maxStack 2 1),
        OP_EXTCODEHASH \<mapsto> operation_of opExtCodeHash ExtcodeHashGasConstantinople (minStack 1 1) (maxStack 1 1),
        OP_CREATE2 \<mapsto> (operation_of opCreate2 Create2Gas (minStack 4 1) (maxStack 4 1))
          \<lparr>op_dynamicGas := Some gasCreate2, op_memorySize := Some memoryCreate2, op_writes := True, op_returns := True\<rparr>)) newByzantiumInstructionSet"

definition enable1884 :: "('t, 's) JumpTable \<Rightarrow> ('t, 's) JumpTable option" where
  "enable1884 jt =
     map_option (\<lambda>jt. jt(OP_SELFBALANCE \<mapsto> operation_of opSelfBalance GasFastStep (minStack 0 1) (maxStack 0 1)))
       (sequence
         [set_constantGas OP_SLOAD SloadGasEIP1884,
          set_constantGas OP_BALANCE BalanceGasEIP1884,
          set_constantGas OP_EXTCODEHASH ExtcodeHashGasEIP1884] jt)"

definition enable1344 :: "('t, 's) JumpTable \<Rightarrow> ('t, 's) JumpTable option" where
  "enable1344 jt =
     Some (jt(OP_CHAINID \<mapsto> operation_of opChainID GasQuickStep (minStack 0 1) (maxStack 0 1)))"

definition enable2200 :: "('t, 's) JumpTable \<Rightarrow> ('t, 's) JumpTable option" where
  "enable2200 =
     sequence
       [set_constantGas OP_SLOAD SloadGasEIP2200,
        set_dynamicGas OP_SSTORE gasSStoreEIP2200]"

definition enable2315 :: "('t, 's) JumpTable \<Rightarrow> ('t, 's) JumpTable option" where
  "enable2315 jt =
     Some (jt(BEGINSUB \<mapsto> operation_of opBeginSub GasQuickStep (minStack 0 0) (maxStack 0 0),
        OP_JUMPSUB \<mapsto> (operation_of opJumpSub GasSlowStep (minStack 1 0) (maxStack 1 0))
          \<lparr>op_jumps := True\<rparr>,
        OP_RETURNSUB \<mapsto> (operation_of opReturnSub GasFastStep (minStack 0 0) (maxStack 0 0))
          \<lparr>op_jumps := True\<rparr>))"

definition enable2929 :: "('t, 's) JumpTable \<Rightarrow> ('t, 's) JumpTable option" where
  "enable2929 =
     sequence
       [set_dynamicGas OP_SSTORE gasSStoreEIP2929,
        set_constantGas OP_SLOAD 0,
        set_dynamicGas OP_SLOAD gasSLoadEIP2929,
        set_constantGas OP_EXTCODECOPY WarmStorageReadCostEIP2929,
        set_dynamicGas OP_EXTCODECOPY gasExtCodeCopyEIP2929,
        set_constantGas OP_EXTCODESIZE WarmStorageReadCostEIP2929,
        set_dynamicGas OP_EXTCODESIZE gasEip2929AccountCheck,
        set_constantGas OP_EXTCODEHASH WarmStorageReadCostEIP2929,
        set_dynamicGas OP_EXTCODEHASH gasEip2929AccountCheck,
        set_constantGas OP_BALANCE WarmStorageReadCostEIP2929,
        set_dynamicGas OP_BALANCE gasEip2929AccountCheck,
        set_constantGas OP_CALL WarmStorageReadCostEIP2929,
        set_dynamicGas OP_CALL gasCallEIP2929,
        set_constantGas OP_CALLCODE WarmStorageReadCostEIP2929,
        set_dynamicGas OP_CALLCODE gasCallCodeEIP2929,
        set_constantGas OP_STATICCALL WarmStorageReadCostEIP2929,
        set_dynamicGas OP_STATICCALL gasStaticCallEIP2929,
        set_constantGas OP_DELEGATECALL WarmStorageReadCostEIP2929,
        set_dynamicGas OP_DELEGATECALL gasDelegateCallEIP2929,
        set_constantGas OP_SELFDESTRUCT SelfdestructGasEIP150,
        set_dynamicGas OP_SELFDESTRUCT gasSelfdestructEIP2929]"

definition newIstanbulInstructionSet :: "('t, 's) JumpTable option" where
  "newIstanbulInstructionSet =
     Option.bind newConstantinopleInstructionSet (sequence [enable1344, enable1884, enable2200])"

definition newYoloV2InstructionSet :: "('t, 's) JumpTable option" where
  "newYoloV2InstructionSet = Option.bind newIstanbulInstructionSet (sequence [enable2315, enable2929])"

section \<open>Configuration\<close>

definition activators :: "int \<rightharpoonup> (('t, 's) JumpTable \<Rightarrow> ('t, 's) JumpTable option)" where
  "activators = map_of
     [(2929, enable2929), (2200, enable2200), (1884, enable1884), (1344, enable1344), (2315, enable2315)]"

text \<open>\<open>EnableEIP\<close> on a table of its own: \<open>Inl\<close> is the error for an unknown number, \<open>None\<close> a nil entry.\<close>

definition EnableEIP :: "int \<Rightarrow> ('t, 's) JumpTable \<Rightarrow> (unit + ('t, 's) JumpTable) option" where
  "EnableEIP eipNum jt =
     (case activators eipNum of None \<Rightarrow> Some (Inl ()) | Some enablerFn \<Rightarrow> map_option Inr (enablerFn jt))"

definition ValidEip :: "int \<Rightarrow> bool" where
  "ValidEip eipNum \<longleftrightarrow> (activators eipNum :: (((unit, unit) JumpTable \<Rightarrow> (unit, unit) JumpTable option) option)) \<noteq> None"

text \<open>
  The loop over \<open>cfg.ExtraEips\<close>: it ranges over the array the slice had at the start, \<open>arr\<close>, while an unknown
  number is cut out of the slice, of which \<open>len\<close> elements are left; cutting moves elements of the array.
  A slice bound out of range panics.
\<close>

primrec extra_eips :: "nat \<Rightarrow> nat \<Rightarrow> int list \<Rightarrow> nat \<Rightarrow> ('t, 's) JumpTable \<Rightarrow> (('t, 's) JumpTable \<times> int list) option" where
  "extra_eips 0 i arr len jt = Some (jt, take len arr)"
| "extra_eips (Suc n) i arr len jt =
     (case EnableEIP (arr ! i) jt of
        None \<Rightarrow> None
      | Some (Inr jt) \<Rightarrow> extra_eips n (i + 1) arr len jt
      | Some (Inl _) \<Rightarrow>
          if i + 1 \<le> len then
            extra_eips n (i + 1) (take i arr @ take (len - (i + 1)) (drop (i + 1) arr) @ drop (len - 1) arr) (len - 1) jt
          else None)"

definition default_table :: "Rules \<Rightarrow> ('t, 's) JumpTable option" where
  "default_table rules =
     (if IsYoloV2 rules then newYoloV2InstructionSet
      else if IsIstanbul rules then newIstanbulInstructionSet
      else if IsConstantinople rules then newConstantinopleInstructionSet
      else if IsByzantium rules then newByzantiumInstructionSet
      else if IsEIP158 rules then newSpuriousDragonInstructionSet
      else if IsEIP150 rules then newTangerineWhistleInstructionSet
      else if IsHomestead rules then Some newHomesteadInstructionSet
      else Some newFrontierInstructionSet)"

text \<open>\<open>NewEVMInterpreter\<close> without a table in its configuration: the table, and the extra EIPs left in it.\<close>

definition NewEVMInterpreter :: "Rules \<Rightarrow> int list \<Rightarrow> (('t, 's) JumpTable \<times> int list) option" where
  "NewEVMInterpreter rules extra =
     Option.bind (default_table rules) (extra_eips (length extra) 0 extra (length extra))"

end
