(* ===== verification/EvmInterp.thy ===== *)
theory EvmInterp
  imports EvmTable
begin

text \<open>
  The interpreter (\<open>core/vm/interpreter.go\<close>): one turn of its loop, the loop, and \<open>Run\<close>. The loop takes fuel;
  a turn that calls or creates runs the callee with the fuel left, so one number bounds the whole call tree.
  Tracing and cancellation are left out.
\<close>

section \<open>One turn of the loop\<close>

datatype ('t, 's) turn = Continue "('t, 's) machine" | Done "('t, 's) machine" bytes "vm_error option"

text \<open>The checks before an operation, in the order of the code: stack bounds, write protection, constant gas.\<close>

definition check_stack :: "('t, 's) operation \<Rightarrow> stack \<Rightarrow> vm_error option" where
  "check_stack operation st =
     (let sLen = int (length st)
      in if sLen < op_minStack operation then Some (ErrStackUnderflow sLen (op_minStack operation))
         else if sLen > op_maxStack operation then Some (ErrStackOverflow sLen (op_maxStack operation))
         else None)"

definition check_write :: "('t, 's) evm_env \<Rightarrow> byte \<Rightarrow> ('t, 's) operation \<Rightarrow> ('t, 's) machine \<Rightarrow> vm_error option outcome" where
  "check_write env opc operation m =
     (if in_readOnly (mc_evm m) \<and> IsByzantium (ee_chainRules env) then
        if op_writes operation then Ret (Some ErrWriteProtection)
        else if opc = OP_CALL then
          andThen (Back (mc_stack m) 2) (\<lambda>v.
            Ret (if u_Sign (ee_uint256 env) v \<noteq> 0 then Some ErrWriteProtection else None))
        else Ret None
      else Ret None)"

text \<open>The memory an operation needs, in whole words.\<close>

definition new_memory_size :: "('t, 's) evm_env \<Rightarrow> ('t, 's) operation \<Rightarrow> ('t, 's) machine \<Rightarrow> (vm_error + uint64) outcome" where
  "new_memory_size env operation m =
     (case op_memorySize operation of
        None \<Rightarrow> Ret (Inr 0)
      | Some f \<Rightarrow>
          andThen (f (ee_uint256 env) (mc_stack m)) (\<lambda>(memSize, overflow).
            if overflow then Ret (Inl ErrGasUintOverflow) else Ret (safe_mul (toWordSize memSize) 32)))"

text \<open>The dynamic gas: an error of the gas function is reported as running out of gas.\<close>

definition charge_dynamic :: "('t, 's) evm_env \<Rightarrow> ('t, 's) operation \<Rightarrow> ('t, 's) machine \<Rightarrow> uint64 \<Rightarrow> (('t, 's) machine \<times> bool) outcome" where
  "charge_dynamic env operation m memorySize =
     (case op_dynamicGas operation of
        None \<Rightarrow> Ret (m, True)
      | Some f \<Rightarrow>
          andThen (f env m memorySize) (\<lambda>(m, x).
            case x of
              Inl e \<Rightarrow> Ret (m, False)
            | Inr dynamicCost \<Rightarrow>
                (case UseGas (mc_contract m) dynamicCost of (c, ok) \<Rightarrow> Ret (m\<lparr>mc_contract := c\<rparr>, ok))))"

text \<open>After the operation: its result may become the return data, and its flags say how to go on.\<close>

definition after_execute :: "('t, 's) operation \<Rightarrow> ('t, 's) machine \<times> bytes \<times> vm_error option \<Rightarrow> ('t, 's) turn" where
  "after_execute operation r =
     (case r of (m, res, err) \<Rightarrow>
        let m = (if op_returns operation then m\<lparr>mc_evm := (mc_evm m)\<lparr>in_returnData := res\<rparr>\<rparr> else m)
        in case err of
             Some e \<Rightarrow> Done m [] (Some e)
           | None \<Rightarrow>
               if op_reverts operation then Done m res (Some ErrExecutionReverted)
               else if op_halts operation then Done m res None
               else if \<not> op_jumps operation then Continue (m\<lparr>mc_pc := mc_pc m + 1\<rparr>)
               else Continue m)"

text \<open>The part of a turn that pays for an operation, resizes the memory and executes it.\<close>

definition pay_and_execute ::
  "('t, 's) evm_env \<Rightarrow> ('t, 's) runner \<Rightarrow> ('t, 's) operation \<Rightarrow> ('t, 's) machine \<Rightarrow> ('t, 's) turn outcome" where
  "pay_and_execute env run operation m =
     (case UseGas (mc_contract m) (op_constantGas operation) of (c, ok) \<Rightarrow>
        if \<not> ok then Ret (Done m [] (Some ErrOutOfGas))
        else
          let m = m\<lparr>mc_contract := c\<rparr>
          in andThen (new_memory_size env operation m) (\<lambda>x.
               case x of
                 Inl e \<Rightarrow> Ret (Done m [] (Some e))
               | Inr memorySize \<Rightarrow>
                   andThen (charge_dynamic env operation m memorySize) (\<lambda>(m, ok).
                     if \<not> ok then Ret (Done m [] (Some ErrOutOfGas))
                     else
                       let m = (if memorySize > 0 then m\<lparr>mc_memory := mem_Resize (mc_memory m) memorySize\<rparr> else m)
                       in andThen (op_execute operation env run m) (\<lambda>r. Ret (after_execute operation r)))))"

definition step ::
  "('t, 's) evm_env \<Rightarrow> ('t, 's) JumpTable \<Rightarrow> ('t, 's) runner \<Rightarrow> ('t, 's) machine \<Rightarrow> ('t, 's) turn outcome" where
  "step env jt run m =
     (let opc = GetOp (mc_contract m) (mc_pc m)
      in case jt opc of
           None \<Rightarrow> Ret (Done m [] (Some (ErrInvalidOpCode opc)))
         | Some operation \<Rightarrow>
             (case check_stack operation (mc_stack m) of
                Some e \<Rightarrow> Ret (Done m [] (Some e))
              | None \<Rightarrow>
                  andThen (check_write env opc operation m) (\<lambda>err.
                    case err of
                      Some e \<Rightarrow> Ret (Done m [] (Some e))
                    | None \<Rightarrow> pay_and_execute env run operation m)))"

section \<open>Run\<close>

text \<open>
  \<open>Run\<close> around its loop: the call depth, the read-only flag (set here and cleared on return unless a caller had
  set it), the return data and a fresh frame.
\<close>

definition enter :: "('t, 's) EVM \<Rightarrow> bool \<Rightarrow> ('t, 's) EVM" where
  "enter evm readOnly =
     evm\<lparr>ev_depth := ev_depth evm + 1, in_readOnly := in_readOnly evm \<or> readOnly, in_returnData := []\<rparr>"

definition leave :: "('t, 's) EVM \<Rightarrow> bool \<Rightarrow> ('t, 's) EVM \<Rightarrow> ('t, 's) EVM" where
  "leave before readOnly evm =
     evm\<lparr>ev_depth := ev_depth evm - 1,
         in_readOnly := (if readOnly \<and> \<not> in_readOnly before then False else in_readOnly evm)\<rparr>"

definition new_frame :: "('t, 's) EVM \<Rightarrow> Contract \<Rightarrow> bytes \<Rightarrow> ('t, 's) machine" where
  "new_frame evm contract input =
     \<lparr>mc_evm = evm, mc_pc = 0, mc_stack = [], mc_rstack = [], mc_memory = NewMemory,
      mc_contract = contract\<lparr>c_Input := input\<rparr>\<rparr>"

definition Run_loop :: "(('t, 's) machine \<Rightarrow> ('t, 's) exec_result) \<Rightarrow> ('t, 's) runner" where
  "Run_loop loop evm contract input readOnly =
     (let evm' = enter evm readOnly
      in if c_Code contract = [] then Ret (leave evm readOnly evm', contract, [], None)
         else andThen (loop (new_frame evm' contract input)) (\<lambda>(m, ret, err).
                Ret (leave evm readOnly (mc_evm m), mc_contract m, ret, err)))"

primrec loop :: "nat \<Rightarrow> ('t, 's) evm_env \<Rightarrow> ('t, 's) JumpTable \<Rightarrow> ('t, 's) machine \<Rightarrow> ('t, 's) exec_result" where
  "loop 0 env jt m = OutOfFuel"
| "loop (Suc n) env jt m =
     andThen (step env jt (Run_loop (loop n env jt)) m) (\<lambda>t.
       case t of Continue m \<Rightarrow> loop n env jt m | Done m ret err \<Rightarrow> Ret (m, ret, err))"

definition Run :: "nat \<Rightarrow> ('t, 's) evm_env \<Rightarrow> ('t, 's) JumpTable \<Rightarrow> ('t, 's) runner" where
  "Run fuel env jt = Run_loop (loop fuel env jt)"

text \<open>The EVM that \<open>NewEVM\<close> makes on a state; its environment and the interpreter are apart.\<close>

definition new_EVM :: "('t, 's) StateDB \<Rightarrow> ('t, 's) EVM" where
  "new_EVM s =
     \<lparr>ev_StateDB = s, ev_depth = 0, ev_callGasTemp = 0, ev_jumpdests = Map.empty, in_readOnly = False, in_returnData = []\<rparr>"

end
