(* ===== verification/EvmMeter.thy ===== *)
theory EvmMeter
  imports EvmInterp
begin

text \<open>
  Metering: what every operation of the jump tables does to the gas, the stack, the call depth and the read-only
  flag. From it: the interpreter always returns, with fuel above the gas it is given, it never returns
  more gas than it got, and it never reads below or grows above the bounds of the stack.
\<close>

section \<open>Outcomes that satisfy a predicate\<close>

text \<open>\<open>outcome_ok A Q r\<close>: the computation returns a value in \<open>Q\<close> or panics as \<open>A\<close> allows; it has enough fuel.\<close>

fun outcome_ok :: "(panic \<Rightarrow> bool) \<Rightarrow> ('a \<Rightarrow> bool) \<Rightarrow> 'a outcome \<Rightarrow> bool" where
  "outcome_ok A Q (Ret x) = Q x"
| "outcome_ok A Q (Panic p) = A p"
| "outcome_ok A Q OutOfFuel = False"

lemma outcome_ok_mono:
  "outcome_ok A Q r \<Longrightarrow> (\<And>p. A p \<Longrightarrow> B p) \<Longrightarrow> (\<And>x. Q x \<Longrightarrow> R x) \<Longrightarrow> outcome_ok B R r"
  by (cases r) auto

lemma outcome_ok_andThen: "outcome_ok A Q (andThen r f) = outcome_ok A (\<lambda>x. outcome_ok A Q (f x)) r"
  by (cases r) auto

lemma outcome_ok_andThenI:
  "outcome_ok A P r \<Longrightarrow> (\<And>x. P x \<Longrightarrow> outcome_ok A Q (f x)) \<Longrightarrow> outcome_ok A Q (andThen r f)"
  by (cases r) auto

lemma outcome_ok_must: "outcome_ok A Q (must p r) = (case r of None \<Rightarrow> A p | Some x \<Rightarrow> Q x)"
  by (simp add: must_def split: option.splits)

lemma outcome_ok_if: "outcome_ok A Q (if b then r else r') = (if b then outcome_ok A Q r else outcome_ok A Q r')"
  by simp

lemma outcome_ok_Back: "outcome_ok A Q (Back st n) = (if n < length st then Q (st ! n) else A StackPanic)"
  by (simp add: Back_def)

lemmas outcome_simps = outcome_ok_andThen outcome_ok_must outcome_ok_Back

section \<open>What leaves the frame alone\<close>

definition mc_gas :: "('t, 's) machine \<Rightarrow> uint64" where
  "mc_gas m = c_Gas (mc_contract m)"

text \<open>Same call depth, read-only flag, callee gas and stack.\<close>

definition same_evm :: "('t, 's) EVM \<Rightarrow> ('t, 's) EVM \<Rightarrow> bool" where
  "same_evm e e' \<longleftrightarrow> ev_depth e' = ev_depth e \<and> in_readOnly e' = in_readOnly e"

lemma same_evm_refl [simp]: "same_evm e e"
  by (simp add: same_evm_def)

lemma same_evm_trans: "same_evm e e' \<Longrightarrow> same_evm e' e'' \<Longrightarrow> same_evm e e''"
  by (simp add: same_evm_def)

lemma same_evm_updates [simp]:
  "same_evm e (e'\<lparr>ev_StateDB := s\<rparr>) = same_evm e e'" "same_evm e (e'\<lparr>ev_jumpdests := jd\<rparr>) = same_evm e e'"
  "same_evm e (e'\<lparr>ev_callGasTemp := g\<rparr>) = same_evm e e'" "same_evm e (e'\<lparr>in_returnData := bs\<rparr>) = same_evm e e'"
  by (simp_all add: same_evm_def)

lemma mc_updates [simp]:
  "mc_gas (set_StateDB s m) = mc_gas m" "mc_stack (set_StateDB s m) = mc_stack m"
  "mc_memory (set_StateDB s m) = mc_memory m" "mc_contract (set_StateDB s m) = mc_contract m"
  "mc_evm (set_StateDB s m) = (mc_evm m)\<lparr>ev_StateDB := s\<rparr>"
  "mc_gas (set_stack st m) = mc_gas m" "mc_stack (set_stack st m) = st" "mc_evm (set_stack st m) = mc_evm m"
  "mc_memory (set_stack st m) = mc_memory m" "mc_contract (set_stack st m) = mc_contract m"
  "mc_gas (m\<lparr>mc_evm := e\<rparr>) = mc_gas m" "mc_gas (m\<lparr>mc_memory := mem\<rparr>) = mc_gas m" "mc_gas (m\<lparr>mc_pc := pc\<rparr>) = mc_gas m"
  "mc_gas (m\<lparr>mc_rstack := rst\<rparr>) = mc_gas m"
  "mc_gas (push v m) = mc_gas m" "mc_evm (push v m) = mc_evm m" "mc_stack (push v m) = v # mc_stack m"
  by (simp_all add: set_StateDB_def set_stack_def push_def mc_gas_def)

section \<open>Plain instructions\<close>

text \<open>
  A plain instruction makes no call. It takes \<open>pops\<close> operands and leaves \<open>pushes\<close> results, panics over the
  stack only when it is too short, and does not change the gas, the depth or the read-only flag.
\<close>

definition plain :: "nat \<Rightarrow> nat \<Rightarrow> ('t, 's) executionFunc \<Rightarrow> bool" where
  "plain pops pushes ex \<longleftrightarrow>
     (\<forall>env run m. outcome_ok (\<lambda>p. p = StackPanic \<longrightarrow> length (mc_stack m) < pops)
        (\<lambda>(m', res, err). mc_gas m' = mc_gas m \<and> same_evm (mc_evm m) (mc_evm m') \<and>
           (err = None \<longrightarrow> length (mc_stack m') + pops = length (mc_stack m) + pushes)) (ex env run m))"

definition no_stack_panic :: "'a outcome \<Rightarrow> bool" where
  "no_stack_panic r \<longleftrightarrow> outcome_ok (\<lambda>p. p \<noteq> StackPanic) (\<lambda>_. True) r"

lemma no_stack_panicD: "no_stack_panic r \<Longrightarrow> r = Panic p \<Longrightarrow> p \<noteq> StackPanic" "no_stack_panic r \<Longrightarrow> r \<noteq> OutOfFuel"
  by (auto simp: no_stack_panic_def)

lemma outcome_ok_silent:
  "no_stack_panic r \<Longrightarrow> (\<And>p. p \<noteq> StackPanic \<Longrightarrow> A p) \<Longrightarrow> (\<And>x. r = Ret x \<Longrightarrow> Q x) \<Longrightarrow> outcome_ok A Q r"
  by (cases r) (auto simp: no_stack_panic_def)

lemma no_stack_panic_simps [simp]:
  "no_stack_panic (mem_GetPtr mem a b)" "no_stack_panic (mem_GetCopy mem a b)" "no_stack_panic (mem_Set mem u v bs)"
  "no_stack_panic (mem_Set32 U mem u w)" "no_stack_panic (getData bs u v)" "no_stack_panic (mem_ptr env m x y)"
  "no_stack_panic (mem_copy env m x y)"
  by (simp_all add: no_stack_panic_def mem_GetPtr_def mem_GetCopy_def mem_Set_def mem_Set32_def getData_def Let_def
        mem_ptr_def mem_copy_def)

lemma mem_write_ok:
  "outcome_ok (\<lambda>p. p \<noteq> StackPanic)
     (\<lambda>m'. mc_gas m' = mc_gas m \<and> mc_evm m' = mc_evm m \<and> mc_stack m' = mc_stack m \<and> mc_contract m' = mc_contract m)
     (mem_write env m x y bs)"
  unfolding mem_write_def outcome_ok_andThen by (rule outcome_ok_silent) (auto simp: mc_gas_def)

lemma isCode_ok:
  "outcome_ok (\<lambda>p. p \<noteq> StackPanic) (\<lambda>(c', jd', b). c_Gas c' = c_Gas c) (isCode c jd u)"
  by (auto simp: isCode_def isCode_by_def outcome_simps split: option.splits)

lemma validJumpdest_ok:
  "outcome_ok (\<lambda>p. p \<noteq> StackPanic) (\<lambda>(c', jd', b). c_Gas c' = c_Gas c) (validJumpdest U c jd x)"
  "outcome_ok (\<lambda>p. p \<noteq> StackPanic) (\<lambda>(c', jd', b). c_Gas c' = c_Gas c) (validJumpSubdest c jd u)"
  using isCode_ok by (auto simp: validJumpdest_def validJumpSubdest_def split: prod.splits)

text \<open>Reading the state changes only the state.\<close>

lemma mc_reads:
  "mc_GetState env m k = (set_StateDB (fst (GetState (ee_backend env) (mc_StateDB m) (mc_address m) k)) m,
     snd (GetState (ee_backend env) (mc_StateDB m) (mc_address m) k))"
  "mc_GetCommittedState env m k = (set_StateDB (fst (GetCommittedState (ee_backend env) (mc_StateDB m) (mc_address m) k)) m,
     snd (GetCommittedState (ee_backend env) (mc_StateDB m) (mc_address m) k))"
  "mc_Exist env m a = (set_StateDB (fst (Exist (ee_backend env) (mc_StateDB m) a)) m, snd (Exist (ee_backend env) (mc_StateDB m) a))"
  "mc_Empty env m a = (set_StateDB (fst (Empty (ee_backend env) (mc_StateDB m) a)) m, snd (Empty (ee_backend env) (mc_StateDB m) a))"
  "mc_GetBalance env m a = (set_StateDB (fst (GetBalance (ee_backend env) (mc_StateDB m) a)) m, snd (GetBalance (ee_backend env) (mc_StateDB m) a))"
  "mc_HasSuicided env m a = (set_StateDB (fst (HasSuicided (ee_backend env) (mc_StateDB m) a)) m, snd (HasSuicided (ee_backend env) (mc_StateDB m) a))"
  "evm_GetCode env e a = (e\<lparr>ev_StateDB := fst (GetCode (ee_backend env) (ev_StateDB e) a)\<rparr>,
     case snd (GetCode (ee_backend env) (ev_StateDB e) a) of None \<Rightarrow> [] | Some bs \<Rightarrow> bs)"
  "evm_GetCodeHash env e a = (e\<lparr>ev_StateDB := fst (GetCodeHash (ee_backend env) (ev_StateDB e) a)\<rparr>,
     snd (GetCodeHash (ee_backend env) (ev_StateDB e) a))"
  "evm_CanTransfer env e a v = (e\<lparr>ev_StateDB := fst (CanTransfer (ee_backend env) (ev_StateDB e) a v)\<rparr>,
     snd (CanTransfer (ee_backend env) (ev_StateDB e) a v))"
  "evm_Exist env e a = (e\<lparr>ev_StateDB := fst (Exist (ee_backend env) (ev_StateDB e) a)\<rparr>,
     snd (Exist (ee_backend env) (ev_StateDB e) a))"
  "evm_Snapshot e = (e\<lparr>ev_StateDB := fst (Snapshot (ev_StateDB e))\<rparr>, snd (Snapshot (ev_StateDB e)))"
  by (simp_all add: mc_GetState_def mc_GetCommittedState_def mc_Exist_def mc_Empty_def mc_GetBalance_def
        mc_HasSuicided_def evm_GetCode_def evm_GetCodeHash_def evm_CanTransfer_def evm_Exist_def evm_Snapshot_def
        split: prod.splits)

lemmas pops = pop1_def pop2_def pop3_def pop4_def stack_panic_def ret_ok_def ret_err_def

lemma plain_arithmetic:
  "plain 2 1 opAdd" "plain 2 1 opSub" "plain 2 1 opMul" "plain 2 1 opDiv" "plain 2 1 opSdiv" "plain 2 1 opMod"
  "plain 2 1 opSmod" "plain 2 1 opExp" "plain 2 1 opSignExtend" "plain 1 1 opNot" "plain 2 1 opLt" "plain 2 1 opGt"
  "plain 2 1 opSlt" "plain 2 1 opSgt" "plain 2 1 opEq" "plain 1 1 opIszero" "plain 2 1 opAnd" "plain 2 1 opOr"
  "plain 2 1 opXor" "plain 2 1 opByte" "plain 3 1 opAddmod" "plain 3 1 opMulmod" "plain 2 1 opSHL" "plain 2 1 opSHR"
  "plain 2 1 opSAR"
  by (simp_all add: plain_def pops opAdd_def opSub_def opMul_def opDiv_def opSdiv_def opMod_def opSmod_def opExp_def
        opSignExtend_def opNot_def opLt_def opGt_def opSlt_def opSgt_def opEq_def opIszero_def opAnd_def opOr_def
        opXor_def opByte_def opAddmod_def opMulmod_def opSHL_def opSHR_def opSAR_def Let_def split: list.split)

lemmas pushers = push_address_def push_uint64_def push_big_def ret_ok_def

lemma plain_push:
  "plain 0 1 opAddress" "plain 0 1 opOrigin" "plain 0 1 opCaller" "plain 0 1 opCallValue" "plain 0 1 opCallDataSize"
  "plain 0 1 opReturnDataSize" "plain 0 1 opCodeSize" "plain 0 1 opGasprice" "plain 0 1 opCoinbase"
  "plain 0 1 opTimestamp" "plain 0 1 opNumber" "plain 0 1 opDifficulty" "plain 0 1 opGasLimit" "plain 0 1 opSelfBalance"
  "plain 0 1 opChainID" "plain 0 1 opPc" "plain 0 1 opMsize" "plain 0 1 opGas" "plain 0 1 opPush1"
  "plain 0 1 (makePush k n)" "plain 0 0 opJumpdest" "plain 0 0 opBeginSub" "plain 0 0 opStop" "plain 1 0 opPop"
  by (simp_all add: plain_def pushers pops opAddress_def opOrigin_def opCaller_def opCallValue_def opCallDataSize_def
        opReturnDataSize_def opCodeSize_def opGasprice_def opCoinbase_def opTimestamp_def opNumber_def opDifficulty_def
        opGasLimit_def opSelfBalance_def opChainID_def opPc_def opMsize_def opGas_def opPush1_def makePush_def
        opJumpdest_def opBeginSub_def opStop_def opPop_def Let_def mc_reads split: list.split)

lemma plain_state:
  "plain 1 1 opBalance" "plain 1 1 opExtCodeSize" "plain 1 1 opExtCodeHash" "plain 1 1 opBlockhash" "plain 1 1 opSload"
  "plain 2 0 opSstore" "plain 1 0 opSuicide"
  by (simp_all add: plain_def pops opBalance_def opExtCodeSize_def opExtCodeHash_def opBlockhash_def opSload_def
        opSstore_def opSuicide_def Let_def mc_reads split: list.split prod.split)

text \<open>Composition of a step that cannot panic over the stack with the rest of an instruction.\<close>

lemma ok_then:
  "no_stack_panic r \<Longrightarrow> (\<And>p. p \<noteq> StackPanic \<Longrightarrow> A p) \<Longrightarrow> (\<And>x. r = Ret x \<Longrightarrow> outcome_ok A Q (f x)) \<Longrightarrow>
   outcome_ok A Q (andThen r f)"
  unfolding outcome_ok_andThen by (rule outcome_ok_silent)

lemma write_then:
  assumes "\<And>p. p \<noteq> StackPanic \<Longrightarrow> A p"
    and "\<And>m'. mc_gas m' = mc_gas m \<Longrightarrow> mc_evm m' = mc_evm m \<Longrightarrow> mc_stack m' = mc_stack m \<Longrightarrow>
           mc_contract m' = mc_contract m \<Longrightarrow> outcome_ok A Q (f m')"
  shows "outcome_ok A Q (andThen (mem_write env m x y bs) f)"
  unfolding outcome_ok_andThen by (rule outcome_ok_mono [OF mem_write_ok]) (use assms in auto)

lemma plain_memory:
  "plain 2 1 opSha3" "plain 1 1 opCallDataLoad" "plain 3 0 opCallDataCopy" "plain 3 0 opReturnDataCopy" "plain 3 0 opCodeCopy"
  "plain 4 0 opExtCodeCopy" "plain 1 1 opMload" "plain 2 0 opMstore" "plain 2 0 opMstore8" "plain 2 0 opReturn" "plain 2 0 opRevert"
  by (auto simp: plain_def pops opSha3_def opCallDataLoad_def opCallDataCopy_def opReturnDataCopy_def opCodeCopy_def
        opExtCodeCopy_def opMload_def opMstore_def opMstore8_def opReturn_def opRevert_def Let_def mc_reads
        intro!: ok_then write_then split: list.split prod.split)

lemma plain_log: "plain (2 + n) 0 (makeLog n)"
  by (auto simp: plain_def pops makeLog_def intro!: ok_then split: list.split)

lemma plain_dup: "1 \<le> n \<Longrightarrow> plain n (n + 1) (makeDup n)"
  by (auto simp: plain_def pops makeDup_def stack_dup_def)

lemma plain_swap: "plain (n + 1) (n + 1) (makeSwap n)"
  by (auto simp: plain_def pops makeSwap_def stack_swap_def)

lemma jump_to_ok:
  "outcome_ok (\<lambda>p. p \<noteq> StackPanic)
     (\<lambda>(m', res, err). mc_gas m' = mc_gas m \<and> same_evm (mc_evm m) (mc_evm m') \<and> mc_stack m' = mc_stack m) (jump_to env pos m)"
  unfolding jump_to_def outcome_ok_andThen
  by (rule outcome_ok_mono [OF validJumpdest_ok(1)]) (auto simp: Let_def ret_err_def ret_ok_def set_jumps_def mc_gas_def)

lemma plain_jumps: "plain 1 0 opJump" "plain 2 0 opJumpi" "plain 0 0 opReturnSub"
  by (auto simp: plain_def pops opJump_def opJumpi_def opReturnSub_def split: list.split
        intro!: outcome_ok_mono [OF jump_to_ok])

lemma plain_opJumpSub: "plain 1 0 opJumpSub"
  by (auto simp: plain_def pops opJumpSub_def Let_def set_jumps_def mc_gas_def outcome_ok_andThen split: list.split
        intro!: outcome_ok_mono [OF validJumpdest_ok(2)])

lemmas plain_rules = plain_arithmetic plain_push plain_state plain_memory plain_log plain_swap plain_jumps plain_opJumpSub

section \<open>Gas functions\<close>

lemma UseGas_ok: "UseGas c g = (c', True) \<Longrightarrow> unat (c_Gas c') + unat g = unat (c_Gas c)"
  by (auto simp: UseGas_def not_less word_le_nat_alt unat_sub split: if_splits)

lemma UseGas_le: "UseGas c g = (c', b) \<Longrightarrow> c_Gas c' \<le> c_Gas c"
  by (auto simp: UseGas_def not_less word_le_nat_alt unat_sub split: if_splits)

lemma UseGas_all [simp]: "c_Gas (fst (UseGas c (c_Gas c))) = 0"
  by (simp add: UseGas_def)

text \<open>
  A gas function asks for at least \<open>k\<close> if it returns a price. It may take gas itself, never give any, and it
  leaves the stack alone.
\<close>

definition gas_rel :: "('t, 's) machine \<Rightarrow> ('t, 's) machine \<Rightarrow> bool" where
  "gas_rel m m' \<longleftrightarrow> mc_gas m' \<le> mc_gas m \<and> same_evm (mc_evm m) (mc_evm m') \<and> mc_stack m' = mc_stack m"

definition gas_fun :: "nat \<Rightarrow> nat \<Rightarrow> ('t, 's) gasFunc \<Rightarrow> bool" where
  "gas_fun k pops f \<longleftrightarrow>
     (\<forall>env m sz. outcome_ok (\<lambda>p. p = StackPanic \<longrightarrow> length (mc_stack m) < pops)
        (\<lambda>(m', x). gas_rel m m' \<and> (\<forall>c. x = Inr c \<longrightarrow> k \<le> unat c)) (f env m sz))"

lemma gas_rel_refl [simp]: "gas_rel m m"
  by (simp add: gas_rel_def)

lemma gas_rel_trans: "gas_rel m m' \<Longrightarrow> gas_rel m' m'' \<Longrightarrow> gas_rel m m''"
  by (auto simp: gas_rel_def intro: same_evm_trans order_trans)

lemma gas_rel_updates [simp]:
  "gas_rel m (set_StateDB s m') = gas_rel m m'" "gas_rel m (m'\<lparr>mc_memory := mem\<rparr>) = gas_rel m m'"
  "gas_rel m (mc_AddRefund m' g) = gas_rel m m'" "gas_rel m (mc_AddAddressToAccessList m' a) = gas_rel m m'"
  "gas_rel m (m'\<lparr>mc_evm := (mc_evm m')\<lparr>ev_callGasTemp := g\<rparr>\<rparr>) = gas_rel m m'"
  "gas_rel m (suicide_refund env m') = gas_rel m m'"
  by (simp_all add: gas_rel_def mc_AddRefund_def mc_AddAddressToAccessList_def suicide_refund_def mc_reads)

lemma gas_rel_source [simp]:
  "gas_rel (set_StateDB s m) m' = gas_rel m m'" "gas_rel (m\<lparr>mc_memory := mem\<rparr>) m' = gas_rel m m'"
  by (simp_all add: gas_rel_def same_evm_def)

lemma mc_access [simp]:
  "mc_gas (mc_AddAddressToAccessList m a) = mc_gas m" "mc_stack (mc_AddAddressToAccessList m a) = mc_stack m"
  "mc_contract (mc_AddAddressToAccessList m a) = mc_contract m"
  "mc_evm (mc_AddAddressToAccessList m a) = (mc_evm m)\<lparr>ev_StateDB := AddAddressToAccessList (mc_StateDB m) a\<rparr>"
  by (simp_all add: mc_AddAddressToAccessList_def)

lemma safe_add_Inr: "safe_add x y = Inr r \<Longrightarrow> unat r = unat x + unat y"
  by (auto simp: safe_add_def SafeAdd_def unat_word_ariths not_le split: if_splits)

lemma safe_mul_Inr: "safe_mul x y = Inr r \<Longrightarrow> unat r = unat x * unat y"
  by (auto simp: safe_mul_def SafeMul_def unat_word_ariths not_le split: if_splits)

lemma outcome_gas_bind:
  "outcome_ok A Q (gas_bind r f) =
     outcome_ok A (\<lambda>(m, x). case x of Inl e \<Rightarrow> Q (m, Inl e) | Inr g \<Rightarrow> outcome_ok A Q (f m g)) r"
  by (cases r) (auto simp: gas_bind_def split: sum.splits)

lemma outcome_gas_memory:
  "outcome_ok A Q (gas_memory m sz) = Q (m\<lparr>mc_memory := fst (memoryGasCost (mc_memory m) sz)\<rparr>, snd (memoryGasCost (mc_memory m) sz))"
  by (simp add: gas_memory_def split: prod.split)

lemma outcome_operand64:
  "outcome_ok A Q (operand64 env m n) =
     (if n < length (mc_stack m)
      then Q (m, if snd (u_Uint64WithOverflow (ee_uint256 env) (mc_stack m ! n)) then Inl ErrGasUintOverflow
                 else Inr (fst (u_Uint64WithOverflow (ee_uint256 env) (mc_stack m ! n)))) else A StackPanic)"
  by (simp add: operand64_def outcome_simps split: prod.split)

lemmas gas_simps = outcome_simps outcome_gas_bind outcome_gas_memory outcome_operand64 gas_step_def

lemma gas_words_ok:
  "outcome_ok (\<lambda>p. p = StackPanic \<longrightarrow> length (mc_stack m) \<le> n) (\<lambda>(m', x). m' = m \<and> (\<forall>c. x = Inr c \<longrightarrow> unat g \<le> unat c))
     (gas_words env n price m g)"
  by (auto simp: gas_words_def gas_simps safe_add_Inr split: sum.split)

lemma gas_fun_memory:
  "gas_fun 0 0 gasReturn" "gas_fun 0 0 gasRevert" "gas_fun 0 0 gasMLoad" "gas_fun 0 0 gasMStore8" "gas_fun 0 0 gasMStore"
  "gas_fun 0 0 gasCreate"
  by (simp_all add: gas_fun_def gasReturn_def gasRevert_def gasMLoad_def gasMStore8_def gasMStore_def gasCreate_def
        pureMemoryGascost_def outcome_gas_memory)

lemma gas_fun_words: "gas_fun 0 (Suc n) (\<lambda>env m sz. gas_bind (gas_memory m sz) (gas_words env n price))"
  unfolding gas_fun_def gas_simps
  by (auto split: sum.split intro!: outcome_ok_mono [OF gas_words_ok])

lemma gas_fun_copy:
  "gas_fun 0 3 gasCallDataCopy" "gas_fun 0 3 gasCodeCopy" "gas_fun 0 4 gasExtCodeCopy" "gas_fun 0 3 gasReturnDataCopy"
  "gas_fun 0 2 gasSha3" "gas_fun 0 3 gasCreate2"
  using gas_fun_words [of 2] gas_fun_words [of 3] gas_fun_words [of 1]
  by (simp_all add: gas_fun_def gasCallDataCopy_def gasCodeCopy_def gasExtCodeCopy_def gasReturnDataCopy_def
        memoryCopierGas_def gasSha3_def gasCreate2_def eval_nat_numeral)

lemma gas_fun_log: "gas_fun 375 2 (makeGasLog n)"
  by (auto simp: gas_fun_def makeGasLog_def gas_simps safe_add_Inr split: sum.split)

lemma gas_fun_exp: "gas_fun 10 2 gasExpFrontier" "gas_fun 10 2 gasExpEIP158"
  by (auto simp: gas_fun_def gasExpFrontier_def gasExpEIP158_def gas_exp_def gas_simps safe_add_Inr Let_def)

lemma sstore_dirty_ok:
  "outcome_ok (\<lambda>p. p \<noteq> StackPanic) (gas_rel m) (sstore_dirty a b c original current v m)"
  by (auto simp: sstore_dirty_def outcome_simps mc_SubRefund_def split: option.split)

lemma dirty_then:
  assumes "\<And>p. p \<noteq> StackPanic \<Longrightarrow> A p" "\<And>m''. gas_rel m m'' \<Longrightarrow> Q (f m'')"
  shows "outcome_ok A Q (andThen (sstore_dirty a b c original current v m) (\<lambda>m. Ret (f m)))"
  unfolding outcome_ok_andThen by (rule outcome_ok_mono [OF sstore_dirty_ok]) (use assms in auto)

lemma back_then:
  "(n < length st \<Longrightarrow> outcome_ok A Q (f (st ! n))) \<Longrightarrow> (n \<ge> length st \<Longrightarrow> A StackPanic) \<Longrightarrow> outcome_ok A Q (andThen (Back st n) f)"
  by (simp add: outcome_simps)

lemma gas_fun_sstore: "gas_fun 200 2 gasSStore" "gas_fun 800 2 gasSStoreEIP2200"
  by (auto simp: gas_fun_def gasSStore_def gasSStoreEIP2200_def mc_reads Let_def intro!: back_then dirty_then)

lemma cold_slot_ok:
  "outcome_ok (\<lambda>p. p \<noteq> StackPanic) (\<lambda>(m', c). gas_rel m m' \<and> (c = 0 \<or> c = ColdSloadCostEIP2929)) (cold_slot m slot)"
  by (auto simp: cold_slot_def outcome_simps mc_SlotInAccessList_def mc_AddSlotToAccessList_def split: option.split)

lemma cold_then:
  assumes "\<And>p. p \<noteq> StackPanic \<Longrightarrow> A p"
    and "\<And>m' c. gas_rel m m' \<Longrightarrow> c = 0 \<or> c = ColdSloadCostEIP2929 \<Longrightarrow> outcome_ok A Q (f (m', c))"
  shows "outcome_ok A Q (andThen (cold_slot m slot) f)"
  unfolding outcome_ok_andThen by (rule outcome_ok_mono [OF cold_slot_ok]) (use assms in auto)

lemma gas_fun_sstore2929: "gas_fun 100 2 gasSStoreEIP2929"
  by (auto simp: gas_fun_def gasSStoreEIP2929_def mc_reads Let_def intro!: back_then dirty_then cold_then)
    (blast intro: gas_rel_trans)+

lemma gas_fun_access:
  "gas_fun 100 1 gasSLoadEIP2929" "gas_fun 0 1 gasEip2929AccountCheck"
  by (auto simp: gas_fun_def gasSLoadEIP2929_def gasEip2929AccountCheck_def outcome_simps mc_SlotInAccessList_def
        mc_AddSlotToAccessList_def Let_def split: option.split)

lemma gas_fun_extcodecopy2929: "gas_fun 0 4 gasExtCodeCopyEIP2929"
proof -
  have "outcome_ok (\<lambda>p. p = StackPanic \<longrightarrow> length (mc_stack m) < 4) (\<lambda>(m', x). gas_rel m m') (gasExtCodeCopy env m sz)"
    for env and m :: "('a, 'b) machine" and sz
    using gas_fun_copy(3) [unfolded gas_fun_def, rule_format] by (rule outcome_ok_mono) auto
  note copy = this
  show ?thesis
    unfolding gas_fun_def gasExtCodeCopyEIP2929_def gas_simps
    by (auto intro!: outcome_ok_mono [OF copy] simp: Let_def gas_rel_def split: sum.split)
qed

lemma gas_fun_selfdestruct: "gas_fun 0 1 gasSelfdestruct" "gas_fun 0 1 gasSelfdestructEIP2929"
  by (auto simp: gas_fun_def gasSelfdestruct_def gasSelfdestructEIP2929_def empty_and_paid_def mc_reads outcome_simps Let_def)

section \<open>Gas of calls\<close>

text \<open>
  The price of a call covers what the callee gets (\<open>callGasTemp\<close>) and, when it sends value, the price of a
  transfer, which is more than the stipend the callee gets for free.
\<close>

definition call_priced :: "nat \<Rightarrow> ('t, 's) machine \<Rightarrow> ('t, 's) machine \<times> (vm_error + uint64) \<Rightarrow> bool" where
  "call_priced k m r \<longleftrightarrow> gas_rel m (fst r) \<and> (\<forall>c. snd r = Inr c \<longrightarrow> unat (ev_callGasTemp (mc_evm (fst r))) + k \<le> unat c)"

lemma callee_priced:
  assumes "gas_rel m m'" "mc_stack m' \<noteq> []" "k \<le> unat g"
  shows "outcome_ok (\<lambda>p. p \<noteq> StackPanic) (call_priced k m) (gas_callee env m' g)"
  using assms by (auto simp: gas_callee_def gas_simps call_priced_def safe_add_Inr split: sum.split)

lemma callee_priced_add:
  assumes "gas_rel m m'" "mc_stack m' \<noteq> []" "k \<le> unat g"
  shows "outcome_ok (\<lambda>p. p \<noteq> StackPanic) (call_priced k m) (gas_bind (gas_step m' (safe_add g g')) (gas_callee env))"
proof (cases "safe_add g g'")
  case (Inr x)
  then have "k \<le> unat x" using assms(3) by (simp add: safe_add_Inr)
  then show ?thesis using callee_priced [OF assms(1,2)] Inr by (simp add: gas_bind_def gas_step_def)
qed (use assms in \<open>simp add: gas_bind_def gas_step_def call_priced_def\<close>)

lemma memory_priced:
  assumes "gas_rel m m'" "\<And>m'' g. gas_rel m m'' \<Longrightarrow> mc_stack m'' = mc_stack m' \<Longrightarrow> outcome_ok A (call_priced k m) (f m'' g)"
  shows "outcome_ok A (call_priced k m) (gas_bind (gas_memory m' sz) f)"
  using assms by (auto simp: outcome_gas_bind outcome_gas_memory call_priced_def split: sum.split)

definition gas_call :: "(uint256 \<Rightarrow> stack \<Rightarrow> bool) \<Rightarrow> nat \<Rightarrow> ('t, 's) gasFunc \<Rightarrow> bool" where
  "gas_call sends pops f \<longleftrightarrow>
     (\<forall>env m sz. pops \<le> length (mc_stack m) \<longrightarrow>
        outcome_ok (\<lambda>p. p \<noteq> StackPanic) (call_priced (if sends (ee_uint256 env) (mc_stack m) then 9000 else 0) m) (f env m sz))"

lemma gas_call_plain:
  "gas_call (\<lambda>U st. False) 1 gasDelegateCall" "gas_call (\<lambda>U st. False) 1 gasStaticCall"
  by (auto simp: gas_call_def gasDelegateCall_def gasStaticCall_def intro!: memory_priced callee_priced)

lemma gas_call_callcode: "gas_call (\<lambda>U st. u_Sign U (st ! 2) \<noteq> 0) 3 gasCallCode"
  by (auto simp: gas_call_def gasCallCode_def Let_def intro!: memory_priced back_then callee_priced_add)

lemma gasCall_account_ok:
  "gasCall_account env m b a = (m', g) \<Longrightarrow> gas_rel m m' \<and> mc_stack m' = mc_stack m \<and> unat (g + 9000) \<ge> 9000"
  by (auto simp: gasCall_account_def mc_reads split: if_splits)

lemma gas_call_call: "gas_call (\<lambda>U st. \<not> u_IsZero U (st ! 2)) 3 gasCall"
  by (auto simp: gas_call_def gasCall_def Let_def dest!: gasCall_account_ok split: prod.split
        intro!: memory_priced back_then callee_priced_add)

lemma gas_call_2929:
  assumes "gas_call sends pops f" "2 \<le> pops"
  shows "gas_call sends pops (makeCallVariantGasCallEIP2929 f)"
proof -
  have "outcome_ok (\<lambda>p. p \<noteq> StackPanic) (call_priced k m) (f env m' sz)"
    if "gas_rel m m'" "pops \<le> length (mc_stack m')" "k = (if sends (ee_uint256 env) (mc_stack m') then 9000 else 0)" for env m m' sz k
  proof (rule outcome_ok_mono)
    show "outcome_ok (\<lambda>p. p \<noteq> StackPanic) (call_priced k m') (f env m' sz)"
      using assms(1) that by (simp add: gas_call_def)
  qed (use that gas_rel_trans in \<open>auto simp: call_priced_def\<close>)
  note f = this
  show ?thesis
    using assms(2)
    by (auto simp: gas_call_def makeCallVariantGasCallEIP2929_def Let_def split: prod.split intro!: back_then f)
      (auto simp: gas_rel_def call_priced_def mc_gas_def dest: UseGas_le)
qed

section \<open>Calls\<close>

text \<open>
  What a call owes its caller when the interpreter runs contracts with less than \<open>n\<close> gas: no more gas back than
  it was given, and the depth and the read-only flag as they were.
\<close>

definition meters :: "nat \<Rightarrow> ('t, 's) runner \<Rightarrow> bool" where
  "meters n run \<longleftrightarrow>
     (\<forall>evm c input ro. unat (c_Gas c) < n \<longrightarrow>
        outcome_ok (\<lambda>p. p \<noteq> StackPanic) (\<lambda>(evm', c', ret, err). c_Gas c' \<le> c_Gas c \<and> same_evm evm evm') (run evm c input ro))"

definition metered :: "uint64 \<Rightarrow> ('t, 's) EVM \<Rightarrow> ('t, 's) call_result outcome \<Rightarrow> bool" where
  "metered gas evm = outcome_ok (\<lambda>p. p \<noteq> StackPanic) (\<lambda>(evm', ret, gas', err). gas' \<le> gas \<and> same_evm evm evm')"

lemma metered_Ret [simp]: "metered gas evm (Ret (evm', ret, gas', err)) \<longleftrightarrow> gas' \<le> gas \<and> same_evm evm evm'"
  by (simp add: metered_def)

lemma no_stack_panic_andThen:
  "no_stack_panic r \<Longrightarrow> (\<And>x. no_stack_panic (f x)) \<Longrightarrow> no_stack_panic (andThen r f)"
  by (cases r) (auto simp: no_stack_panic_def)

lemma no_stack_panic_Ret [simp]: "no_stack_panic (Ret x)"
  by (simp add: no_stack_panic_def)

lemma RequiredGas_ok: "no_stack_panic (RequiredGas p input)"
proof -
  have "no_stack_panic (modexp_expHead bs i j)" for bs i j
    by (auto simp: modexp_expHead_def intro!: no_stack_panic_andThen)
  then have "no_stack_panic (modexp_gas b input)" for b
    unfolding modexp_gas_def Let_def by (intro no_stack_panic_andThen) auto
  then show ?thesis by (cases p) auto
qed

lemma call_native_metered: "same_evm evm evm' \<Longrightarrow> metered gas evm (call_native env evm' p input gas)"
  unfolding metered_def call_native_def RunPrecompiledContract_def outcome_ok_andThen
  by (rule outcome_ok_silent [OF RequiredGas_ok])
    (auto simp: word_le_nat_alt word_less_nat_alt unat_sub split: prod.split)

lemma end_call_metered:
  assumes "metered gas evm r"
  shows "metered gas evm (andThen r (end_call env snapshot))"
  unfolding metered_def
  by (rule outcome_ok_andThenI [OF assms [unfolded metered_def]])
    (auto simp: end_call_def outcome_simps split: option.split)

lemma run_contract_metered:
  "meters n run \<Longrightarrow> unat (c_Gas c) < n \<Longrightarrow> c_Gas c \<le> gas \<Longrightarrow> same_evm evm evm' \<Longrightarrow> metered gas evm (run_contract run evm' c input ro)"
  unfolding metered_def run_contract_def outcome_ok_andThen meters_def
  by (erule allE, erule allE, erule allE, erule allE, erule (1) impE, erule outcome_ok_mono)
    (auto intro: same_evm_trans)

lemma NewContract_simps [simp]:
  "c_Gas (snd (evm_NewContract evm caller a v gas)) = gas"
  "same_evm e (fst (evm_NewContract evm caller a v gas)) = same_evm e evm"
  "c_Gas (SetCallCode c a h code) = c_Gas c"
  by (simp_all add: evm_NewContract_def NewContract_def SetCallCode_def)

lemma AsDelegate_ok: "outcome_ok (\<lambda>p. p \<noteq> StackPanic) (\<lambda>c'. c_Gas c' = c_Gas c) (AsDelegate c)"
  by (simp add: AsDelegate_def split: ContractRef.split)

lemma foreign_code_metered:
  "meters n run \<Longrightarrow> unat (c_Gas c) < n \<Longrightarrow> c_Gas c \<le> gas \<Longrightarrow> same_evm evm evm' \<Longrightarrow>
   metered gas evm (foreign_code env run evm' c a input ro)"
  by (auto simp: foreign_code_def mc_reads intro!: run_contract_metered)

lemma call_code_metered:
  "meters n run \<Longrightarrow> unat gas < n \<Longrightarrow> same_evm evm evm' \<Longrightarrow> metered gas evm (call_code env run evm' caller a input gas v)"
  by (auto simp: call_code_def mc_reads split: option.split prod.split_asm
        intro!: call_native_metered run_contract_metered simp: case_prod_beta)

lemma Call_metered:
  assumes "meters n run" "unat gas < n"
  shows "metered gas evm (Call env run evm caller a input gas v)"
  using assms
  by (auto simp: Call_def mc_reads case_prod_beta call_transfer_def Let_def intro!: end_call_metered call_code_metered)

lemma CallCode_metered:
  assumes "meters n run" "unat gas < n"
  shows "metered gas evm (CallCode env run evm caller a input gas v)"
  using assms
  by (auto simp: CallCode_def mc_reads case_prod_beta split: option.split
        intro!: end_call_metered foreign_code_metered call_native_metered)

lemma StaticCall_metered:
  assumes "meters n run" "unat gas < n"
  shows "metered gas evm (StaticCall env run evm caller a input gas)"
  using assms
  by (auto simp: StaticCall_def mc_reads case_prod_beta Let_def split: option.split
        intro!: end_call_metered foreign_code_metered call_native_metered)

lemma DelegateCall_metered:
  assumes "meters n run" "unat gas < n"
  shows "metered gas evm (DelegateCall env run evm caller a input gas)"
proof -
  have "metered gas evm (andThen (AsDelegate c) (\<lambda>c. foreign_code env run e c a input False))"
    if "c_Gas c = gas" "same_evm evm e" for c e
    unfolding metered_def
    by (rule outcome_ok_andThenI [OF AsDelegate_ok], fold metered_def)
      (use that assms in \<open>auto intro!: foreign_code_metered\<close>)
  then show ?thesis
    by (auto simp: DelegateCall_def mc_reads case_prod_beta split: option.split intro!: end_call_metered call_native_metered)
qed

definition metered_create :: "uint64 \<Rightarrow> ('t, 's) EVM \<Rightarrow> ('t, 's) create_result outcome \<Rightarrow> bool" where
  "metered_create gas evm =
     outcome_ok (\<lambda>p. p \<noteq> StackPanic) (\<lambda>(evm', ret, addr, gas', err). gas' \<le> gas \<and> same_evm evm evm')"

lemma metered_create_Ret [simp]:
  "metered_create gas evm (Ret (evm', ret, a, gas', err)) \<longleftrightarrow> gas' \<le> gas \<and> same_evm evm evm'"
  by (simp add: metered_create_def)

lemma end_create_metered:
  assumes "c_Gas c \<le> gas" "same_evm evm evm'"
  shows "metered_create gas evm (end_create env snapshot addr (evm', c, ret, err))"
proof -
  have "c_Gas (fst (UseGas c g)) \<le> gas" for g
    using UseGas_le [OF prod.collapse [symmetric], of c g] assms(1) by (rule order_trans)
  then show ?thesis
    using assms
    by (auto simp: end_create_def metered_create_def Let_def case_prod_beta outcome_simps split: option.split prod.split)
qed

lemma evm_create_metered:
  assumes "meters n run" "unat gas < n"
  shows "metered_create gas evm (evm_create env run evm caller ch gas v addr)"
proof -
  have "metered_create gas evm (andThen (run e c [] False) (end_create env snapshot addr))"
    if "c_Gas c = gas" "same_evm evm e" for e c snapshot
  proof -
    have "outcome_ok (\<lambda>p. p \<noteq> StackPanic) (\<lambda>(e', c', ret, err). c_Gas c' \<le> c_Gas c \<and> same_evm e e') (run e c [] False)"
      using assms that(1) unfolding meters_def by blast
    then show ?thesis
      unfolding metered_create_def
      by (rule outcome_ok_andThenI, fold metered_create_def)
        (use that in \<open>auto intro!: end_create_metered intro: same_evm_trans\<close>)
  qed
  then show ?thesis
    by (auto simp: evm_create_def mc_reads case_prod_beta create_collides_def create_prepare_def create_account_def Let_def)
qed

lemma Create_metered:
  assumes "meters n run" "unat gas < n"
  shows "metered_create gas evm (Create env run evm caller code gas v)"
    "metered_create gas evm (Create2 env run evm caller code gas v salt)"
  using evm_create_metered [OF assms, of "evm\<lparr>ev_StateDB := s\<rparr>" for s] evm_create_metered [OF assms, of evm]
  by (auto simp: Create_def Create2_def Let_def metered_create_def same_evm_def split: prod.split)

section \<open>Instructions that call\<close>

text \<open>
  An instruction that calls gives the callee \<open>callGasTemp\<close>, with the stipend when it sends value, and gets
  back at most that.
\<close>

definition calls :: "(uint256 \<Rightarrow> stack \<Rightarrow> bool) \<Rightarrow> nat \<Rightarrow> ('t, 's) executionFunc \<Rightarrow> bool" where
  "calls sends pops ex \<longleftrightarrow>
     (\<forall>n env run m. meters n run \<and> uint256_ok (ee_uint256 env) \<and> pops \<le> length (mc_stack m) \<longrightarrow>
        (let k = unat (ev_callGasTemp (mc_evm m)) + (if sends (ee_uint256 env) (mc_stack m) then 2300 else 0)
         in k < n \<and> unat (mc_gas m) + k < 2 ^ 64 \<longrightarrow>
            outcome_ok (\<lambda>p. p \<noteq> StackPanic)
              (\<lambda>(m', res, err). unat (mc_gas m') \<le> unat (mc_gas m) + k \<and> same_evm (mc_evm m) (mc_evm m') \<and>
                 length (mc_stack m') + pops = length (mc_stack m) + 1) (ex env run m)))"

lemma add_gas_simps [simp]:
  "mc_gas (add_gas g m) = mc_gas m + g" "mc_evm (add_gas g m) = mc_evm m" "mc_stack (add_gas g m) = mc_stack m"
  by (simp_all add: add_gas_def mc_gas_def)

lemma opCall_end_ok:
  assumes "metered gas (mc_evm m) r"
  shows "outcome_ok (\<lambda>p. p \<noteq> StackPanic)
     (\<lambda>(m', res, err). (\<exists>g \<le> gas. mc_gas m' = mc_gas m + g) \<and> same_evm (mc_evm m) (mc_evm m') \<and> length (mc_stack m') = Suc (length st))
     (andThen r (opCall_end env a b c d args st m))"
proof (rule outcome_ok_andThenI [OF assms [unfolded metered_def]])
  fix r :: "('a, 'b) call_result"
  assume "case r of (evm', ret, gas', err) \<Rightarrow> gas' \<le> gas \<and> same_evm (mc_evm m) evm'"
  then show "outcome_ok (\<lambda>p. p \<noteq> StackPanic)
     (\<lambda>(m', res, err). (\<exists>g \<le> gas. mc_gas m' = mc_gas m + g) \<and> same_evm (mc_evm m) (mc_evm m') \<and> length (mc_stack m') = Suc (length st))
     (opCall_end env a b c d args st m r)"
    by (auto simp: opCall_end_def Let_def split: prod.splits retdata.split intro!: write_then ok_then)
qed

lemma gas_returned: "g \<le> gas \<Longrightarrow> unat x + unat gas < 2 ^ 64 \<Longrightarrow> unat (x + g :: uint64) \<le> unat x + unat gas"
  by (subst unat_plus_if') (auto simp: word_le_nat_alt)

lemma opCall_end_gas:
  assumes "metered gas (mc_evm m) r" "unat gas = k" "unat (mc_gas m) + k < 2 ^ 64"
  shows "outcome_ok (\<lambda>p. p \<noteq> StackPanic)
     (\<lambda>(m', res, err). unat (mc_gas m') \<le> unat (mc_gas m) + k \<and> same_evm (mc_evm m) (mc_evm m') \<and> length (mc_stack m') = Suc (length st))
     (andThen r (opCall_end env a b c d args st m))"
  by (rule outcome_ok_mono [OF opCall_end_ok [OF assms(1)]]) (use assms gas_returned in auto)

lemma split_stack:
  "6 \<le> length st \<longleftrightarrow> (\<exists>a b c d e f r. st = a # b # c # d # e # f # r)"
  "7 \<le> length st \<longleftrightarrow> (\<exists>a b c d e f g r. st = a # b # c # d # e # f # g # r)"
  by (auto simp: numeral_eq_Suc Suc_le_length_iff)

lemma callsI:
  assumes "\<And>n env run m k. meters n run \<Longrightarrow> uint256_ok (ee_uint256 env) \<Longrightarrow> pops \<le> length (mc_stack m) \<Longrightarrow>
    k = unat (ev_callGasTemp (mc_evm m)) + (if sends (ee_uint256 env) (mc_stack m) then 2300 else 0) \<Longrightarrow>
    k < n \<Longrightarrow> unat (mc_gas m) + k < 2 ^ 64 \<Longrightarrow>
    outcome_ok (\<lambda>p. p \<noteq> StackPanic)
      (\<lambda>(m', res, err). unat (mc_gas m') \<le> unat (mc_gas m) + k \<and> same_evm (mc_evm m) (mc_evm m') \<and>
         length (mc_stack m') + pops = length (mc_stack m) + 1) (ex env run m)"
  shows "calls sends pops ex"
  unfolding calls_def Let_def using assms by blast

lemma call_with_args:
  assumes "\<And>args. metered gas (mc_evm m) (call args)" "unat gas = k" "unat (mc_gas m) + k < 2 ^ 64"
    "L = pops + length st"
  shows "outcome_ok (\<lambda>p. p \<noteq> StackPanic)
     (\<lambda>(m', res, err). unat (mc_gas m') \<le> unat (mc_gas m) + k \<and> same_evm (mc_evm m) (mc_evm m') \<and>
        length (mc_stack m') + pops = L + 1)
     (andThen (mem_ptr env m x y) (\<lambda>args. andThen (call args) (opCall_end env a b c d args st m)))"
  by (rule ok_then, simp, simp, rule outcome_ok_mono [OF opCall_end_gas [OF assms(1-3)]]) (use assms(4) in auto)

lemma stipend:
  assumes "unat (mc_gas m) + (unat (ev_callGasTemp (mc_evm m)) + (if \<not> u_IsZero (ee_uint256 env) v then 2300 else 0)) < 2 ^ 64"
  shows "unat (call_gas env m v) = unat (ev_callGasTemp (mc_evm m)) + (if \<not> u_IsZero (ee_uint256 env) v then 2300 else 0)"
  using assms by (auto simp: call_gas_def unat_plus_if')

lemma nth_2 [simp]: "(a # b # c # xs) ! 2 = c"
  by (simp add: numeral_2_eq_2)

lemma calls_opCall: "calls (\<lambda>U st. \<not> u_IsZero U (st ! 2)) 7 opCall"
  by (rule callsI, simp only: opCall_def split_stack(2), elim exE, simp only: list.case nth_2, rule call_with_args [OF _ stipend])
    (rule Call_metered, assumption, simp_all only: stipend, simp_all)

lemma calls_opCallCode: "calls (\<lambda>U st. \<not> u_IsZero U (st ! 2)) 7 opCallCode"
  by (rule callsI, simp only: opCallCode_def split_stack(2), elim exE, simp only: list.case nth_2, rule call_with_args [OF _ stipend])
    (rule CallCode_metered, assumption, simp_all only: stipend, simp_all)

lemma calls_opDelegateCall: "calls (\<lambda>U st. False) 6 opDelegateCall"
  by (rule callsI, simp only: opDelegateCall_def split_stack(1), elim exE, simp only: list.case, rule call_with_args)
    (rule DelegateCall_metered, assumption, simp_all)

lemma calls_opStaticCall: "calls (\<lambda>U st. False) 6 opStaticCall"
  by (rule callsI, simp only: opStaticCall_def split_stack(1), elim exE, simp only: list.case, rule call_with_args)
    (rule StaticCall_metered, assumption, simp_all)

text \<open>An instruction that gives out only gas of its own contract: no gas is won, whatever it runs.\<close>

definition frugal :: "nat \<Rightarrow> nat \<Rightarrow> ('t, 's) executionFunc \<Rightarrow> bool" where
  "frugal pops pushes ex \<longleftrightarrow>
     (\<forall>n env run m. meters n run \<and> pops \<le> length (mc_stack m) \<and> unat (mc_gas m) < n \<longrightarrow>
        outcome_ok (\<lambda>p. p \<noteq> StackPanic)
          (\<lambda>(m', res, err). mc_gas m' \<le> mc_gas m \<and> same_evm (mc_evm m) (mc_evm m') \<and>
             (err = None \<longrightarrow> length (mc_stack m') + pops = length (mc_stack m) + pushes)) (ex env run m))"

lemma frugal_plain: "plain pops pushes ex \<Longrightarrow> frugal pops pushes ex"
  unfolding frugal_def
proof (intro allI impI, elim conjE)
  fix n env run and m :: "('a, 'b) machine"
  assume "plain pops pushes ex" "pops \<le> length (mc_stack m)"
  then show "outcome_ok (\<lambda>p. p \<noteq> StackPanic)
     (\<lambda>(m', res, err). mc_gas m' \<le> mc_gas m \<and> same_evm (mc_evm m) (mc_evm m') \<and>
        (err = None \<longrightarrow> length (mc_stack m') + pops = length (mc_stack m) + pushes)) (ex env run m)"
    unfolding plain_def by (elim allE) (erule outcome_ok_mono; auto)
qed

lemma opCreate_end_ok:
  assumes "metered_create gas (mc_evm m) r" "unat (mc_gas m) + unat gas = unat g"
  shows "outcome_ok (\<lambda>p. p \<noteq> StackPanic)
     (\<lambda>(m', res, err). mc_gas m' \<le> g \<and> same_evm (mc_evm m) (mc_evm m') \<and> (err = None \<longrightarrow> length (mc_stack m') = Suc (length st)))
     (andThen r (\<lambda>r. opCreate_end env (failed r) st m r))"
proof (rule outcome_ok_andThenI [OF assms(1) [unfolded metered_create_def]])
  fix r :: "('a, 'b) create_result"
  assume "case r of (evm', ret, addr, gas', err) \<Rightarrow> gas' \<le> gas \<and> same_evm (mc_evm m) evm'"
  then show "outcome_ok (\<lambda>p. p \<noteq> StackPanic)
     (\<lambda>(m', res, err). mc_gas m' \<le> g \<and> same_evm (mc_evm m) (mc_evm m') \<and> (err = None \<longrightarrow> length (mc_stack m') = Suc (length st)))
     (opCreate_end env (failed r) st m r)"
    using gas_returned [of _ gas "mc_gas m"] assms(2) unsigned_less [of g]
    by (auto simp: opCreate_end_def Let_def word_le_nat_alt split: prod.splits)
qed

lemma create_with_code:
  assumes "\<And>code. metered_create gas (mc_evm (m\<lparr>mc_contract := fst (UseGas (mc_contract m) gas)\<rparr>)) (create code)" "gas \<le> mc_gas m"
  shows "outcome_ok (\<lambda>p. p \<noteq> StackPanic)
     (\<lambda>(m', res, err). mc_gas m' \<le> mc_gas m \<and> same_evm (mc_evm m) (mc_evm m') \<and> (err = None \<longrightarrow> length (mc_stack m') = Suc (length st)))
     (andThen (mem_copy env m x y) (\<lambda>code. andThen (create code)
        (\<lambda>r. opCreate_end env (failed r) st (m\<lparr>mc_contract := fst (UseGas (mc_contract m) gas)\<rparr>) r)))"
proof -
  let ?m = "m\<lparr>mc_contract := fst (UseGas (mc_contract m) gas)\<rparr>"
  have paid: "unat (mc_gas ?m) + unat gas = unat (mc_gas m)"
    using assms(2) by (simp add: UseGas_def mc_gas_def not_less [symmetric] unat_sub word_less_nat_alt word_le_nat_alt)
  note end_ok = opCreate_end_ok [OF assms(1) paid]
  show ?thesis
    by (rule ok_then, simp, simp, rule outcome_ok_mono [OF end_ok]) auto
qed

lemma gas_minus_64th: "(g :: uint64) - g div 64 \<le> g"
  by (simp add: word_le_nat_alt unat_sub_if' unat_div)

lemma split_stack_create:
  "3 \<le> length st \<longleftrightarrow> (\<exists>a b c r. st = a # b # c # r)" "4 \<le> length st \<longleftrightarrow> (\<exists>a b c d r. st = a # b # c # d # r)"
  by (auto simp: numeral_eq_Suc Suc_le_length_iff)

lemma frugal_opCreate: "frugal 3 1 opCreate"
  unfolding frugal_def opCreate_def pop3_def Let_def split_stack_create
  by (intro allI impI; elim conjE exE; simp only: list.case;
      rule outcome_ok_mono, rule create_with_code, rule Create_metered(1))
    (auto simp: mc_gas_def intro: le_less_trans [OF gas_minus_64th [unfolded word_le_nat_alt]] gas_minus_64th)

lemma frugal_opCreate2: "frugal 4 1 opCreate2"
  unfolding frugal_def opCreate2_def pop4_def Let_def split_stack_create
  by (intro allI impI; elim conjE exE; simp only: list.case;
      rule outcome_ok_mono, rule create_with_code, rule Create_metered(2))
    (auto simp: mc_gas_def intro: le_less_trans [OF gas_minus_64th [unfolded word_le_nat_alt]] gas_minus_64th)

end
