(* ===== verification/EvmEntries.thy ===== *)
theory EvmEntries
  imports EvmTable
begin

text \<open>
  What the jump tables hold: the list of all entries that the tables of the forks, with any extra EIPs enabled,
  can have. A fact about every operation is proved by going through that list once (\<open>entry_all\<close>).
\<close>

section \<open>The entries\<close>

text \<open>The entries added after Frontier that no later change touches.\<close>

definition later_entries :: "(byte \<times> ('t, 's) operation) list" where
  "later_entries =
     [(OP_RETURNDATASIZE, operation_of opReturnDataSize GasQuickStep (minStack 0 1) (maxStack 0 1)),
      (OP_RETURNDATACOPY, (operation_of opReturnDataCopy GasFastestStep (minStack 3 0) (maxStack 3 0))
        \<lparr>op_dynamicGas := Some gasReturnDataCopy, op_memorySize := Some memoryReturnDataCopy\<rparr>),
      (OP_REVERT, (operation_of opRevert 0 (minStack 2 0) (maxStack 2 0))
        \<lparr>op_dynamicGas := Some gasRevert, op_memorySize := Some memoryRevert, op_reverts := True, op_returns := True\<rparr>),
      (OP_SHL, operation_of opSHL GasFastestStep (minStack 2 1) (maxStack 2 1)),
      (OP_SHR, operation_of opSHR GasFastestStep (minStack 2 1) (maxStack 2 1)),
      (OP_SAR, operation_of opSAR GasFastestStep (minStack 2 1) (maxStack 2 1)),
      (OP_CREATE2, (operation_of opCreate2 Create2Gas (minStack 4 1) (maxStack 4 1))
        \<lparr>op_dynamicGas := Some gasCreate2, op_memorySize := Some memoryCreate2, op_writes := True, op_returns := True\<rparr>),
      (OP_SELFBALANCE, operation_of opSelfBalance GasFastStep (minStack 0 1) (maxStack 0 1)),
      (OP_CHAINID, operation_of opChainID GasQuickStep (minStack 0 1) (maxStack 0 1)),
      (BEGINSUB, operation_of opBeginSub GasQuickStep (minStack 0 0) (maxStack 0 0)),
      (OP_JUMPSUB, (operation_of opJumpSub GasSlowStep (minStack 1 0) (maxStack 1 0))\<lparr>op_jumps := True\<rparr>),
      (OP_RETURNSUB, (operation_of opReturnSub GasFastStep (minStack 0 0) (maxStack 0 0))\<lparr>op_jumps := True\<rparr>)]"

text \<open>
  The entries whose prices change: the operation, which the changes keep, and pairs of constant and dynamic gas
  that include all those it can have, in whatever order the changes come.
\<close>

definition priced :: "('t, 's) operation \<Rightarrow> (uint64 \<times> ('t, 's) gasFunc option) list \<Rightarrow> ('t, 's) operation list" where
  "priced op = map (\<lambda>(c, d). op\<lparr>op_constantGas := c, op_dynamicGas := d\<rparr>)"

definition repriced :: "(byte \<times> ('t, 's) operation list) list" where
  "repriced =
     [(OP_BALANCE, priced (operation_of opBalance 0 (minStack 1 1) (maxStack 1 1))
        [(20, None), (400, None), (700, None), (100, Some gasEip2929AccountCheck), (400, Some gasEip2929AccountCheck),
         (700, Some gasEip2929AccountCheck)]),
      (OP_EXTCODESIZE, priced (operation_of opExtCodeSize 0 (minStack 1 1) (maxStack 1 1))
        [(20, None), (700, None), (100, Some gasEip2929AccountCheck), (700, Some gasEip2929AccountCheck)]),
      (OP_EXTCODEHASH, priced (operation_of opExtCodeHash 0 (minStack 1 1) (maxStack 1 1))
        [(400, None), (700, None), (100, Some gasEip2929AccountCheck), (700, Some gasEip2929AccountCheck)]),
      (OP_SLOAD, priced (operation_of opSload 0 (minStack 1 1) (maxStack 1 1))
        [(50, None), (200, None), (800, None), (0, Some gasSLoadEIP2929), (200, Some gasSLoadEIP2929),
         (800, Some gasSLoadEIP2929)]),
      (OP_EXP, priced (operation_of opExp 0 (minStack 2 1) (maxStack 2 1)) [(0, Some gasExpFrontier), (0, Some gasExpEIP158)]),
      (OP_EXTCODECOPY, priced ((operation_of opExtCodeCopy 0 (minStack 4 0) (maxStack 4 0))\<lparr>op_memorySize := Some memoryExtCodeCopy\<rparr>)
        [(20, Some gasExtCodeCopy), (700, Some gasExtCodeCopy), (100, Some gasExtCodeCopyEIP2929), (700, Some gasExtCodeCopyEIP2929)]),
      (OP_SSTORE, priced ((operation_of opSstore 0 (minStack 2 0) (maxStack 2 0))\<lparr>op_writes := True\<rparr>)
        [(0, Some gasSStore), (0, Some gasSStoreEIP2200), (0, Some gasSStoreEIP2929)]),
      (OP_CALL, priced ((operation_of opCall 0 (minStack 7 1) (maxStack 7 1))\<lparr>op_memorySize := Some memoryCall, op_returns := True\<rparr>)
        [(40, Some gasCall), (700, Some gasCall), (100, Some gasCallEIP2929), (700, Some gasCallEIP2929)]),
      (OP_CALLCODE, priced ((operation_of opCallCode 0 (minStack 7 1) (maxStack 7 1))\<lparr>op_memorySize := Some memoryCall, op_returns := True\<rparr>)
        [(40, Some gasCallCode), (700, Some gasCallCode), (100, Some gasCallCodeEIP2929), (700, Some gasCallCodeEIP2929)]),
      (OP_DELEGATECALL, priced ((operation_of opDelegateCall 0 (minStack 6 1) (maxStack 6 1))
          \<lparr>op_memorySize := Some memoryDelegateCall, op_returns := True\<rparr>)
        [(40, Some gasDelegateCall), (700, Some gasDelegateCall), (100, Some gasDelegateCallEIP2929), (700, Some gasDelegateCallEIP2929)]),
      (OP_STATICCALL, priced ((operation_of opStaticCall 0 (minStack 6 1) (maxStack 6 1))
          \<lparr>op_memorySize := Some memoryStaticCall, op_returns := True\<rparr>)
        [(700, Some gasStaticCall), (100, Some gasStaticCallEIP2929)]),
      (OP_SELFDESTRUCT, priced ((operation_of opSuicide 0 (minStack 1 0) (maxStack 1 0))\<lparr>op_halts := True, op_writes := True\<rparr>)
        [(0, Some gasSelfdestruct), (5000, Some gasSelfdestructEIP2929)])]"

definition frontier_entries :: "(byte \<times> ('t, 's) operation) list" where
  "frontier_entries =
     frontier_arithmetic @ frontier_bits @ frontier_environment @ frontier_block @ frontier_flow @ frontier_push @
     frontier_dup @ frontier_swap @ frontier_log @ frontier_calls"

definition entry :: "byte \<Rightarrow> ('t, 's) operation \<Rightarrow> bool" where
  "entry b op \<longleftrightarrow>
     (case map_of repriced b of
        Some ops \<Rightarrow> op \<in> set ops
      | None \<Rightarrow> (b, op) \<in> set frontier_entries \<or> (b, op) \<in> set later_entries)"

lemma entry_all:
  assumes "\<forall>(b, ops) \<in> set repriced. \<forall>op \<in> set ops. P b op"
    and "\<forall>(b, op) \<in> set frontier_entries. P b op" "\<forall>(b, op) \<in> set later_entries. P b op"
    and "entry b op"
  shows "P b op"
  using assms by (auto simp: entry_def split: option.splits dest!: map_of_SomeD)

definition within :: "('t, 's) JumpTable \<Rightarrow> bool" where
  "within jt \<longleftrightarrow> (\<forall>b op. jt b = Some op \<longrightarrow> entry b op)"

section \<open>Every table is within the list\<close>

definition reprice_ok :: "byte \<times> ('t, 's) operation \<Rightarrow> bool" where
  "reprice_ok e = (case map_of repriced (fst e) of Some ops \<Rightarrow> snd e \<in> set ops | None \<Rightarrow> True)"

lemma upt_lists: "[Suc 0..<17] = [1, 2, 3, 4, 5, 6, 7, 8, 9, 10, 11, 12, 13, 14, 15, 16]" "[0..<5] = [0, 1, 2, 3, 4]"
  by code_simp+

lemma frontier_reprice_ok: "\<forall>e \<in> set frontier_entries. reprice_ok e"
proof -
  note defs = reprice_ok_def repriced_def priced_def operation_of_def
  have "\<forall>e \<in> set frontier_arithmetic. reprice_ok e" by (simp add: frontier_arithmetic_def defs)
  moreover have "\<forall>e \<in> set frontier_bits. reprice_ok e" by (simp add: frontier_bits_def defs)
  moreover have "\<forall>e \<in> set frontier_environment. reprice_ok e" by (simp add: frontier_environment_def defs)
  moreover have "\<forall>e \<in> set frontier_block. reprice_ok e" by (simp add: frontier_block_def defs)
  moreover have "\<forall>e \<in> set frontier_flow. reprice_ok e" by (simp add: frontier_flow_def defs)
  moreover have "\<forall>e \<in> set frontier_push. reprice_ok e" by (simp add: frontier_push_def defs upt_rec_numeral)
  moreover have "\<forall>e \<in> set frontier_dup. reprice_ok e" by (simp add: frontier_dup_def defs upt_lists)
  moreover have "\<forall>e \<in> set frontier_swap. reprice_ok e" by (simp add: frontier_swap_def defs upt_lists)
  moreover have "\<forall>e \<in> set frontier_log. reprice_ok e" by (simp add: frontier_log_def defs upt_lists)
  moreover have "\<forall>e \<in> set frontier_calls. reprice_ok e" by (simp add: frontier_calls_def defs)
  ultimately show ?thesis by (auto simp: frontier_entries_def)
qed

lemma frontier_map_of: "newFrontierInstructionSet = map_of frontier_entries"
  by (simp only: newFrontierInstructionSet_def frontier_entries_def)

lemma within_frontier: "within newFrontierInstructionSet"
  unfolding within_def
proof (intro allI impI)
  fix b and op :: "('a, 'b) operation"
  assume "newFrontierInstructionSet b = Some op"
  then have mem: "(b, op) \<in> set frontier_entries"
    by (simp only: frontier_map_of map_of_SomeD)
  then have "reprice_ok (b, op)"
    by (rule bspec [OF frontier_reprice_ok])
  with mem show "entry b op"
    by (simp add: entry_def reprice_ok_def split: option.splits)
qed

lemma within_insert: "within jt \<Longrightarrow> entry b op \<Longrightarrow> within (jt(b \<mapsto> op))"
  by (simp add: within_def)

lemma within_modify:
  "within jt \<Longrightarrow> modify k f jt = Some jt' \<Longrightarrow> (\<And>op. entry k op \<Longrightarrow> entry k (f op)) \<Longrightarrow> within jt'"
  by (auto simp: within_def modify_def split: option.splits if_splits)

text \<open>A change of the table that keeps it within the list.\<close>

definition keeps :: "(('t, 's) JumpTable \<Rightarrow> ('t, 's) JumpTable option) \<Rightarrow> bool" where
  "keeps f \<longleftrightarrow> (\<forall>jt jt'. within jt \<longrightarrow> f jt = Some jt' \<longrightarrow> within jt')"

lemma keepsD: "keeps f \<Longrightarrow> within jt \<Longrightarrow> f jt = Some jt' \<Longrightarrow> within jt'"
  by (simp only: keeps_def)

lemma keeps_bind:
  assumes "keeps f" "keeps g"
  shows "keeps (\<lambda>jt. Option.bind (f jt) g)"
  unfolding keeps_def
proof (intro allI impI)
  fix jt jt' assume "within jt" "Option.bind (f jt) g = Some jt'"
  then obtain jt1 where "f jt = Some jt1" "g jt1 = Some jt'" by (auto simp: bind_eq_Some_conv)
  then show "within jt'" using keepsD [OF assms(1) \<open>within jt\<close>] keepsD [OF assms(2)] by simp
qed

lemma keeps_Nil: "keeps Some"
  by (simp add: keeps_def)

lemma keeps_Cons: "keeps f \<Longrightarrow> keeps (sequence fs) \<Longrightarrow> keeps (sequence (f # fs))"
proof -
  have "sequence (f # fs) = (\<lambda>jt. Option.bind (f jt) (sequence fs))" by (rule ext) simp
  then show "keeps f \<Longrightarrow> keeps (sequence fs) \<Longrightarrow> keeps (sequence (f # fs))" by (simp only: keeps_bind)
qed

lemma keeps_pair: "keeps (\<lambda>jt. Option.bind (f jt) g) \<Longrightarrow> keeps (sequence fs) \<Longrightarrow> keeps (sequence (f # g # fs))"
proof -
  have "sequence (g # fs) = (\<lambda>jt. Option.bind (g jt) (sequence fs))" by (rule ext) simp
  then have "sequence (f # g # fs) = sequence ((\<lambda>jt. Option.bind (f jt) g) # fs)"
    by (intro ext) (simp only: sequence.simps bind_assoc)
  then show "keeps (\<lambda>jt. Option.bind (f jt) g) \<Longrightarrow> keeps (sequence fs) \<Longrightarrow> keeps (sequence (f # g # fs))"
    by (simp only: keeps_Cons)
qed

lemma keeps_sequence: "\<forall>f \<in> set fs. keeps f \<Longrightarrow> keeps (sequence fs)"
proof (induction fs)
  case Nil
  have "sequence [] = (Some :: ('a, 'b) JumpTable \<Rightarrow> ('a, 'b) JumpTable option)" by (rule ext) simp
  then show ?case by (simp only: keeps_Nil)
next
  case (Cons f fs)
  then have "keeps f" "keeps (sequence fs)" by (auto simp del: sequence.simps)
  then show ?case by (rule keeps_Cons)
qed

lemma keeps_modify: "(\<And>op. entry k op \<Longrightarrow> entry k (f op)) \<Longrightarrow> keeps (modify k f)"
  unfolding keeps_def by (intro allI impI) (rule within_modify)

lemma entry_priced:
  "map_of repriced k = Some (priced op ps) \<Longrightarrow>
   entry k op' \<longleftrightarrow> (\<exists>c d. (c, d) \<in> set ps \<and> op' = op\<lparr>op_constantGas := c, op_dynamicGas := d\<rparr>)"
  by (auto simp: entry_def priced_def)

lemma keeps_set_constantGas:
  fixes op :: "('t, 's) operation"
  assumes "map_of repriced k = Some (priced op ps)" "\<forall>(c', d) \<in> set ps. (c, d) \<in> set ps"
  shows "keeps (set_constantGas k c :: ('t, 's) JumpTable \<Rightarrow> ('t, 's) JumpTable option)"
  unfolding set_constantGas_def using assms(2)
  by (intro keeps_modify) (fastforce simp: entry_priced [OF assms(1)])

lemma keeps_set_dynamicGas:
  assumes "map_of repriced k = Some (priced op ps)" "\<forall>(c, d') \<in> set ps. (c, Some d) \<in> set ps"
  shows "keeps (set_dynamicGas k d)"
  unfolding set_dynamicGas_def using assms(2)
  by (intro keeps_modify) (fastforce simp: entry_priced [OF assms(1)])

lemma keeps_set_both:
  assumes "map_of repriced k = Some (priced op ps)" "(c, Some d) \<in> set ps"
  shows "keeps (\<lambda>jt. Option.bind (set_constantGas k c jt) (set_dynamicGas k d))"
proof -
  have "Option.bind (modify k f jt) (modify k g) = modify k (\<lambda>op. g (f op)) jt" for f g and jt :: "('a, 'b) JumpTable"
    by (simp add: modify_def split: option.splits)
  moreover have "keeps (modify k (\<lambda>op. op\<lparr>op_constantGas := c, op_dynamicGas := Some d\<rparr>))"
    using assms(2) by (intro keeps_modify) (fastforce simp: entry_priced [OF assms(1)])
  ultimately show ?thesis
    by (simp add: set_constantGas_def set_dynamicGas_def)
qed

lemma repriced_lookup:
  "map_of repriced OP_BALANCE = Some (priced (operation_of opBalance 0 (minStack 1 1) (maxStack 1 1))
        [(20, None), (400, None), (700, None), (100, Some gasEip2929AccountCheck), (400, Some gasEip2929AccountCheck),
         (700, Some gasEip2929AccountCheck)])"
  "map_of repriced OP_EXTCODESIZE = Some (priced (operation_of opExtCodeSize 0 (minStack 1 1) (maxStack 1 1))
        [(20, None), (700, None), (100, Some gasEip2929AccountCheck), (700, Some gasEip2929AccountCheck)])"
  "map_of repriced OP_EXTCODEHASH = Some (priced (operation_of opExtCodeHash 0 (minStack 1 1) (maxStack 1 1))
        [(400, None), (700, None), (100, Some gasEip2929AccountCheck), (700, Some gasEip2929AccountCheck)])"
  "map_of repriced OP_SLOAD = Some (priced (operation_of opSload 0 (minStack 1 1) (maxStack 1 1))
        [(50, None), (200, None), (800, None), (0, Some gasSLoadEIP2929), (200, Some gasSLoadEIP2929),
         (800, Some gasSLoadEIP2929)])"
  "map_of repriced OP_EXP = Some (priced (operation_of opExp 0 (minStack 2 1) (maxStack 2 1)) [(0, Some gasExpFrontier), (0, Some gasExpEIP158)])"
  "map_of repriced OP_EXTCODECOPY = Some (priced ((operation_of opExtCodeCopy 0 (minStack 4 0) (maxStack 4 0))\<lparr>op_memorySize := Some memoryExtCodeCopy\<rparr>)
        [(20, Some gasExtCodeCopy), (700, Some gasExtCodeCopy), (100, Some gasExtCodeCopyEIP2929), (700, Some gasExtCodeCopyEIP2929)])"
  "map_of repriced OP_SSTORE = Some (priced ((operation_of opSstore 0 (minStack 2 0) (maxStack 2 0))\<lparr>op_writes := True\<rparr>)
        [(0, Some gasSStore), (0, Some gasSStoreEIP2200), (0, Some gasSStoreEIP2929)])"
  "map_of repriced OP_CALL = Some (priced ((operation_of opCall 0 (minStack 7 1) (maxStack 7 1))\<lparr>op_memorySize := Some memoryCall, op_returns := True\<rparr>)
        [(40, Some gasCall), (700, Some gasCall), (100, Some gasCallEIP2929), (700, Some gasCallEIP2929)])"
  "map_of repriced OP_CALLCODE = Some (priced ((operation_of opCallCode 0 (minStack 7 1) (maxStack 7 1))\<lparr>op_memorySize := Some memoryCall, op_returns := True\<rparr>)
        [(40, Some gasCallCode), (700, Some gasCallCode), (100, Some gasCallCodeEIP2929), (700, Some gasCallCodeEIP2929)])"
  "map_of repriced OP_DELEGATECALL = Some (priced ((operation_of opDelegateCall 0 (minStack 6 1) (maxStack 6 1))
          \<lparr>op_memorySize := Some memoryDelegateCall, op_returns := True\<rparr>)
        [(40, Some gasDelegateCall), (700, Some gasDelegateCall), (100, Some gasDelegateCallEIP2929), (700, Some gasDelegateCallEIP2929)])"
  "map_of repriced OP_STATICCALL = Some (priced ((operation_of opStaticCall 0 (minStack 6 1) (maxStack 6 1))
          \<lparr>op_memorySize := Some memoryStaticCall, op_returns := True\<rparr>)
        [(700, Some gasStaticCall), (100, Some gasStaticCallEIP2929)])"
  "map_of repriced OP_SELFDESTRUCT = Some (priced ((operation_of opSuicide 0 (minStack 1 0) (maxStack 1 0))\<lparr>op_halts := True, op_writes := True\<rparr>)
        [(0, Some gasSelfdestruct), (5000, Some gasSelfdestructEIP2929)])"
  by (simp_all add: repriced_def)

lemma entry_later: "(b, op) \<in> set later_entries \<Longrightarrow> map_of (repriced :: (byte \<times> ('t, 's) operation list) list) b = None \<Longrightarrow>
    entry b (op :: ('t, 's) operation)"
  by (simp add: entry_def)

lemmas keeps_constantGas = repriced_lookup [THEN keeps_set_constantGas]
lemmas keeps_dynamicGas = repriced_lookup [THEN keeps_set_dynamicGas]
lemmas keeps_both = repriced_lookup [THEN keeps_set_both]

lemma keeps_1344: "keeps enable1344"
  by (auto simp: keeps_def enable1344_def intro!: within_insert entry_later) (simp_all add: later_entries_def repriced_def)

lemma keeps_2315: "keeps enable2315"
  by (auto simp: keeps_def enable2315_def intro!: within_insert entry_later) (simp_all add: later_entries_def repriced_def)

lemma keeps_2200: "keeps enable2200"
  unfolding enable2200_def by (rule keeps_sequence) (simp add: keeps_constantGas keeps_dynamicGas)

lemma keeps_1884: "keeps enable1884"
proof -
  have "keeps (sequence
         [set_constantGas OP_SLOAD SloadGasEIP1884,
          set_constantGas OP_BALANCE BalanceGasEIP1884,
          set_constantGas OP_EXTCODEHASH ExtcodeHashGasEIP1884] :: ('a, 'b) JumpTable \<Rightarrow> ('a, 'b) JumpTable option)"
    by (rule keeps_sequence) (simp add: keeps_constantGas)
  moreover have "entry OP_SELFBALANCE (operation_of opSelfBalance GasFastStep (minStack 0 1) (maxStack 0 1))"
    by (rule entry_later) (simp_all add: later_entries_def repriced_def)
  ultimately show ?thesis
    unfolding keeps_def enable1884_def by (auto intro!: within_insert)
qed

lemma keeps_2929: "keeps enable2929"
  unfolding enable2929_def
  by (rule keeps_Cons, simp add: keeps_dynamicGas, (rule keeps_pair, simp add: keeps_both)+, simp add: keeps_sequence)

lemmas keeps_eips = keeps_1344 keeps_1884 keeps_2200 keeps_2315 keeps_2929

text \<open>The tables of the forks.\<close>

lemma within_homestead: "within newHomesteadInstructionSet"
  unfolding newHomesteadInstructionSet_def
  by (rule within_insert [OF within_frontier]) (simp add: entry_def repriced_def priced_def operation_of_def)

lemma keeps_tangerine:
  "keeps (sequence
       [set_constantGas OP_BALANCE BalanceGasEIP150, set_constantGas OP_EXTCODESIZE ExtcodeSizeGasEIP150,
        set_constantGas OP_SLOAD SloadGasEIP150, set_constantGas OP_EXTCODECOPY ExtcodeCopyBaseEIP150,
        set_constantGas OP_CALL CallGasEIP150, set_constantGas OP_CALLCODE CallGasEIP150,
        set_constantGas OP_DELEGATECALL CallGasEIP150])"
  by (rule keeps_sequence) (simp add: keeps_constantGas)

lemma within_tangerine: "newTangerineWhistleInstructionSet = Some jt \<Longrightarrow> within jt"
  unfolding newTangerineWhistleInstructionSet_def by (rule keepsD [OF keeps_tangerine within_homestead])

lemma keeps_exp: "keeps (set_dynamicGas OP_EXP gasExpEIP158)"
  by (simp add: keeps_dynamicGas)

lemma within_spurious: "newSpuriousDragonInstructionSet = Some jt \<Longrightarrow> within jt"
  unfolding newSpuriousDragonInstructionSet_def bind_eq_Some_conv
  using within_tangerine keepsD [OF keeps_exp] by blast

lemma within_map:
  assumes "map_option f x = Some jt" "\<And>jt. x = Some jt \<Longrightarrow> within jt" "\<And>jt. within jt \<Longrightarrow> within (f jt)"
  shows "within jt"
  using assms by (cases x) auto

lemma within_byzantium: "newByzantiumInstructionSet = Some jt \<Longrightarrow> within jt"
  unfolding newByzantiumInstructionSet_def
  by (erule within_map, rule within_spurious, assumption, intro within_insert)
    (simp_all add: later_entries_def repriced_def entry_def priced_def operation_of_def)

lemma within_constantinople: "newConstantinopleInstructionSet = Some jt \<Longrightarrow> within jt"
  unfolding newConstantinopleInstructionSet_def
  by (erule within_map, rule within_byzantium, assumption, intro within_insert)
    (simp_all add: later_entries_def repriced_def entry_def priced_def operation_of_def)

lemma keeps_istanbul: "keeps (sequence [enable1344, enable1884, enable2200])"
  by (rule keeps_sequence) (simp add: keeps_eips)

lemma keeps_yoloV2: "keeps (sequence [enable2315, enable2929])"
  by (rule keeps_sequence) (simp add: keeps_eips)

lemma within_istanbul: "newIstanbulInstructionSet = Some jt \<Longrightarrow> within jt"
  unfolding newIstanbulInstructionSet_def bind_eq_Some_conv
  using within_constantinople keepsD [OF keeps_istanbul] by blast

lemma within_yoloV2: "newYoloV2InstructionSet = Some jt \<Longrightarrow> within jt"
  unfolding newYoloV2InstructionSet_def bind_eq_Some_conv
  using within_istanbul keepsD [OF keeps_yoloV2] by blast

lemma within_default: "default_table rules = Some jt \<Longrightarrow> within jt"
  by (auto simp: default_table_def within_tangerine within_spurious within_byzantium within_constantinople
        within_istanbul within_yoloV2 within_homestead within_frontier split: if_splits)

lemma EnableEIP_within: "EnableEIP n jt = Some (Inr jt') \<Longrightarrow> within jt \<Longrightarrow> within jt'"
  by (auto simp: EnableEIP_def activators_def split: if_splits elim: keepsD [OF keeps_2929] keepsD [OF keeps_2200]
        keepsD [OF keeps_1884] keepsD [OF keeps_1344] keepsD [OF keeps_2315])

lemma extra_eips_within: "extra_eips n i arr len jt = Some (jt', left) \<Longrightarrow> within jt \<Longrightarrow> within jt'"
  by (induction n arbitrary: i arr len jt) (auto split: option.splits sum.splits if_splits dest: EnableEIP_within)

lemma NewEVMInterpreter_within: "NewEVMInterpreter rules extra = Some (jt, left) \<Longrightarrow> within jt"
  by (auto simp: NewEVMInterpreter_def bind_eq_Some_conv dest: extra_eips_within within_default)

section \<open>The tables exist\<close>

text \<open>No fork changes an entry its table does not have.\<close>

definition runs :: "byte set \<Rightarrow> (('t, 's) JumpTable \<Rightarrow> ('t, 's) JumpTable option) \<Rightarrow> bool" where
  "runs ks f \<longleftrightarrow> (\<forall>jt. ks \<subseteq> dom jt \<longrightarrow> (\<exists>jt'. f jt = Some jt' \<and> dom jt \<subseteq> dom jt'))"

lemma runs_set: "k \<in> ks \<Longrightarrow> runs ks (set_constantGas k c)" "k \<in> ks \<Longrightarrow> runs ks (set_dynamicGas k d)"
  by (auto simp: runs_def set_constantGas_def set_dynamicGas_def modify_def split: option.split)

lemma runsD: "runs ks f \<Longrightarrow> ks \<subseteq> dom jt \<Longrightarrow> \<exists>jt'. f jt = Some jt' \<and> dom jt \<subseteq> dom jt'"
  by (simp add: runs_def)

lemma runs_sequence: "\<forall>f \<in> set fs. runs ks f \<Longrightarrow> runs ks (sequence fs)"
proof (induction fs)
  case (Cons f fs)
  show ?case
    unfolding runs_def
  proof (intro allI impI)
    fix jt :: "('a, 'b) JumpTable" assume ks: "ks \<subseteq> dom jt"
    obtain jt1 where 1: "f jt = Some jt1" "dom jt \<subseteq> dom jt1" using runsD [OF _ ks, of f] Cons.prems by auto
    then have "ks \<subseteq> dom jt1" using ks by simp
    from runsD [OF Cons.IH this] obtain jt2 where "sequence fs jt1 = Some jt2" "dom jt1 \<subseteq> dom jt2" using Cons.prems by auto
    with 1 show "\<exists>jt'. sequence (f # fs) jt = Some jt' \<and> dom jt \<subseteq> dom jt'" by auto
  qed
qed (simp add: runs_def)

definition made :: "byte set \<Rightarrow> ('t, 's) JumpTable option \<Rightarrow> bool" where
  "made ks x \<longleftrightarrow> (\<exists>jt. x = Some jt \<and> ks \<subseteq> dom jt)"

lemma made_bind: "made ks x \<Longrightarrow> runs ks f \<Longrightarrow> made ks (Option.bind x f)"
  unfolding made_def by (elim exE conjE, drule (1) runsD) auto

lemma made_map: "made ks x \<Longrightarrow> (\<And>jt. ks \<subseteq> dom jt \<Longrightarrow> ks' \<subseteq> dom (f jt)) \<Longrightarrow> made ks' (map_option f x)"
  by (auto simp: made_def)

abbreviation changed_keys :: "byte set" where
  "changed_keys \<equiv> {OP_BALANCE, OP_EXTCODESIZE, OP_SLOAD, OP_EXTCODECOPY, OP_EXP, OP_SSTORE, OP_CALL, OP_CALLCODE, OP_DELEGATECALL,
     OP_SELFDESTRUCT}"

lemma frontier_has:
  assumes "k \<in> fst ` set es" "set es \<subseteq> set (frontier_entries :: (byte \<times> ('t, 's) operation) list)"
  shows "k \<in> dom (newFrontierInstructionSet :: ('t, 's) JumpTable)"
  unfolding frontier_map_of dom_map_of_conv_image_fst using subsetD [OF image_mono [OF assms(2)] assms(1)] .

lemma dom_frontier:
  "{OP_BALANCE, OP_EXTCODESIZE, OP_SLOAD, OP_EXTCODECOPY, OP_EXP, OP_SSTORE, OP_CALL, OP_CALLCODE, OP_SELFDESTRUCT}
     \<subseteq> dom newFrontierInstructionSet"
proof -
  let ?F = "newFrontierInstructionSet :: ('a, 'b) JumpTable"
  have "OP_EXP \<in> dom ?F" by (rule frontier_has [of _ frontier_arithmetic], simp add: frontier_arithmetic_def, auto simp: frontier_entries_def)
  moreover have "OP_BALANCE \<in> dom ?F" by (rule frontier_has [of _ frontier_environment], simp add: frontier_environment_def, auto simp: frontier_entries_def)
  moreover have "OP_EXTCODESIZE \<in> dom ?F" by (rule frontier_has [of _ frontier_environment], simp add: frontier_environment_def, auto simp: frontier_entries_def)
  moreover have "OP_EXTCODECOPY \<in> dom ?F" by (rule frontier_has [of _ frontier_environment], simp add: frontier_environment_def, auto simp: frontier_entries_def)
  moreover have "OP_SLOAD \<in> dom ?F" by (rule frontier_has [of _ frontier_flow], simp add: frontier_flow_def, auto simp: frontier_entries_def)
  moreover have "OP_SSTORE \<in> dom ?F" by (rule frontier_has [of _ frontier_flow], simp add: frontier_flow_def, auto simp: frontier_entries_def)
  moreover have "OP_CALL \<in> dom ?F" by (rule frontier_has [of _ frontier_calls], simp add: frontier_calls_def, auto simp: frontier_entries_def)
  moreover have "OP_CALLCODE \<in> dom ?F" by (rule frontier_has [of _ frontier_calls], simp add: frontier_calls_def, auto simp: frontier_entries_def)
  moreover have "OP_SELFDESTRUCT \<in> dom ?F" by (rule frontier_has [of _ frontier_calls], simp add: frontier_calls_def, auto simp: frontier_entries_def)
  ultimately show ?thesis by (simp only: insert_subset empty_subsetI simp_thms)
qed

lemma dom_homestead: "changed_keys \<subseteq> dom newHomesteadInstructionSet"
  unfolding newHomesteadInstructionSet_def dom_fun_upd by (simp only: option.simps if_False) (use dom_frontier in fast)

lemma made_tangerine: "made changed_keys newTangerineWhistleInstructionSet"
proof -
  have "runs changed_keys (sequence
       [set_constantGas OP_BALANCE BalanceGasEIP150, set_constantGas OP_EXTCODESIZE ExtcodeSizeGasEIP150,
        set_constantGas OP_SLOAD SloadGasEIP150, set_constantGas OP_EXTCODECOPY ExtcodeCopyBaseEIP150,
        set_constantGas OP_CALL CallGasEIP150, set_constantGas OP_CALLCODE CallGasEIP150,
        set_constantGas OP_DELEGATECALL CallGasEIP150] :: ('a, 'b) JumpTable \<Rightarrow> ('a, 'b) JumpTable option)"
    by (rule runs_sequence) (simp add: runs_set)
  from runsD [OF this dom_homestead] dom_homestead show ?thesis
    unfolding newTangerineWhistleInstructionSet_def made_def by (meson subset_trans)
qed

lemma made_spurious: "made changed_keys newSpuriousDragonInstructionSet"
  unfolding newSpuriousDragonInstructionSet_def by (rule made_bind [OF made_tangerine]) (simp add: runs_set)

lemma made_byzantium: "made (insert OP_STATICCALL changed_keys) newByzantiumInstructionSet"
  unfolding newByzantiumInstructionSet_def
  by (rule made_map [OF made_spurious]) (simp only: dom_fun_upd option.simps if_False, blast)

lemma made_constantinople: "made (insert OP_EXTCODEHASH (insert OP_STATICCALL changed_keys)) newConstantinopleInstructionSet"
  unfolding newConstantinopleInstructionSet_def
  by (rule made_map [OF made_byzantium]) (simp only: dom_fun_upd option.simps if_False, blast)

abbreviation later_keys :: "byte set" where
  "later_keys \<equiv> insert OP_EXTCODEHASH (insert OP_STATICCALL changed_keys)"

lemma runs_2200: "runs later_keys enable2200"
  unfolding enable2200_def by (rule runs_sequence) (simp add: runs_set)

lemma runs_2929: "runs later_keys enable2929"
  unfolding enable2929_def by (rule runs_sequence) (simp add: runs_set)

lemma runs_1344: "runs ks enable1344"
  by (auto simp: runs_def enable1344_def)

lemma runs_2315: "runs ks enable2315"
  by (auto simp: runs_def enable2315_def)

lemma runs_1884: "runs later_keys enable1884"
proof -
  have "runs later_keys (sequence
         [set_constantGas OP_SLOAD SloadGasEIP1884,
          set_constantGas OP_BALANCE BalanceGasEIP1884,
          set_constantGas OP_EXTCODEHASH ExtcodeHashGasEIP1884] :: ('a, 'b) JumpTable \<Rightarrow> ('a, 'b) JumpTable option)"
    by (rule runs_sequence) (simp add: runs_set)
  note * = runsD [OF this]
  show ?thesis
    unfolding runs_def enable1884_def
    by (intro allI impI, drule *, elim exE conjE, simp only: option.map, intro exI conjI, rule refl)
      (simp only: dom_fun_upd option.simps if_False subset_insertI2)
qed

lemmas runs_eips = runs_2200 runs_2929 runs_1344 runs_2315 runs_1884

lemma made_istanbul: "made later_keys newIstanbulInstructionSet"
  unfolding newIstanbulInstructionSet_def
  by (rule made_bind [OF made_constantinople], rule runs_sequence) (simp add: runs_eips)

lemma made_yoloV2: "made later_keys newYoloV2InstructionSet"
  unfolding newYoloV2InstructionSet_def
  by (rule made_bind [OF made_istanbul], rule runs_sequence) (simp add: runs_eips)

lemma default_table_made: "\<exists>jt. default_table rules = Some jt"
  using made_tangerine made_spurious made_byzantium made_constantinople made_istanbul made_yoloV2
  unfolding made_def default_table_def by (simp split: if_split) blast

section \<open>Extra EIPs\<close>

lemma ValidEip_iff: "ValidEip e \<longleftrightarrow> e \<in> {2929, 2200, 1884, 1344, 2315}"
  by (auto simp: ValidEip_def activators_def)

lemma activators_known: "(activators e :: (('t, 's) JumpTable \<Rightarrow> ('t, 's) JumpTable option) option) = None \<longleftrightarrow> \<not> ValidEip e"
  by (auto simp: ValidEip_iff activators_def)

text \<open>Tables without \<open>EXTCODEHASH\<close>, and changes that do not add it.\<close>

definition lacks :: "('t, 's) JumpTable \<Rightarrow> bool" where
  "lacks jt \<longleftrightarrow> jt OP_EXTCODEHASH = None"

definition keeps_out :: "(('t, 's) JumpTable \<Rightarrow> ('t, 's) JumpTable option) \<Rightarrow> bool" where
  "keeps_out f \<longleftrightarrow> (\<forall>jt jt'. lacks jt \<longrightarrow> f jt = Some jt' \<longrightarrow> lacks jt')"

lemma lacks_upd: "lacks jt \<Longrightarrow> k \<noteq> OP_EXTCODEHASH \<Longrightarrow> lacks (jt(k \<mapsto> op))"
  by (simp add: lacks_def)

lemma modify_keeps: "lacks jt \<Longrightarrow> modify k f jt = Some jt' \<Longrightarrow> lacks jt'"
  by (cases "jt k") (auto simp: modify_def lacks_def)

lemma keeps_out_set: "keeps_out (set_constantGas k c)" "keeps_out (set_dynamicGas k d)"
  unfolding keeps_out_def set_constantGas_def set_dynamicGas_def using modify_keeps by blast+

lemma keeps_outD: "keeps_out f \<Longrightarrow> lacks jt \<Longrightarrow> f jt = Some jt' \<Longrightarrow> lacks jt'"
  unfolding keeps_out_def by blast

lemma keeps_out_sequence: "\<forall>f \<in> set fs. keeps_out f \<Longrightarrow> keeps_out (sequence fs)"
proof (induction fs)
  case (Cons f fs)
  have "lacks jt'" if l: "lacks jt" and q: "sequence (f # fs) jt = Some jt'" for jt jt'
  proof -
    obtain jt1 where "f jt = Some jt1" "sequence fs jt1 = Some jt'" using q by (auto simp: bind_eq_Some_conv)
    then show ?thesis using keeps_outD [of f jt jt1] keeps_outD [OF Cons.IH, of jt1 jt'] Cons.prems l by simp
  qed
  then show ?case unfolding keeps_out_def by blast
qed (simp add: keeps_out_def)

lemma sequence_fails:
  assumes "\<forall>f \<in> set fs. keeps_out f" "f \<in> set fs" "\<And>jt. lacks jt \<Longrightarrow> f jt = None" "lacks jt"
  shows "sequence fs jt = None"
  using assms(1,2,4)
proof (induction fs arbitrary: jt)
  case (Cons g fs)
  show ?case
  proof (cases "g jt")
    case (Some jt1)
    then have "lacks jt1" "f \<noteq> g" using keeps_outD [of g jt jt1] Cons.prems assms(3) [of jt] by auto
    then show ?thesis using Cons Some by simp
  qed simp
qed simp

text \<open>The tables before Constantinople have no \<open>EXTCODEHASH\<close>.\<close>

lemma above_hash: "0x3f < unat b \<Longrightarrow> unat b + m < 256 \<Longrightarrow> b + of_nat m \<noteq> OP_EXTCODEHASH"
proof
  assume b: "0x3f < unat b" "unat b + m < 256" and eq: "b + of_nat m = OP_EXTCODEHASH"
  have "unat (b + of_nat m) = unat b + m" using b(2) by (simp add: unat_word_ariths unat_of_nat)
  then show False using eq b(1) by simp
qed

lemma range_lacks:
  assumes "0x3f < unat b" "\<forall>n \<in> set ns. unat b + g n < 256"
  shows "map_of (map (\<lambda>n. (b + of_nat (g n), f n)) ns) OP_EXTCODEHASH = None"
  using assms(2) by (induction ns) (use above_hash [OF assms(1)] in auto)

lemma frontier_lacks: "lacks newFrontierInstructionSet"
proof -
  have "map_of frontier_arithmetic OP_EXTCODEHASH = None" by (simp add: frontier_arithmetic_def)
  moreover have "map_of frontier_bits OP_EXTCODEHASH = None" by (simp add: frontier_bits_def)
  moreover have "map_of frontier_environment OP_EXTCODEHASH = None" by (simp add: frontier_environment_def)
  moreover have "map_of frontier_block OP_EXTCODEHASH = None" by (simp add: frontier_block_def)
  moreover have "map_of frontier_flow OP_EXTCODEHASH = None" by (simp add: frontier_flow_def)
  moreover have "map_of frontier_push OP_EXTCODEHASH = None" unfolding frontier_push_def by (simp add: range_lacks)
  moreover have "map_of frontier_dup OP_EXTCODEHASH = None" unfolding frontier_dup_def by (rule range_lacks) auto
  moreover have "map_of frontier_swap OP_EXTCODEHASH = None" unfolding frontier_swap_def by (rule range_lacks) auto
  moreover have "map_of frontier_log OP_EXTCODEHASH = None" unfolding frontier_log_def by (rule range_lacks) auto
  moreover have "map_of frontier_calls OP_EXTCODEHASH = None" by (simp add: frontier_calls_def)
  ultimately show ?thesis by (simp add: lacks_def newFrontierInstructionSet_def)
qed

lemma homestead_lacks: "lacks newHomesteadInstructionSet"
  unfolding newHomesteadInstructionSet_def by (rule lacks_upd [OF frontier_lacks]) simp

lemma tangerine_lacks: "newTangerineWhistleInstructionSet = Some jt \<Longrightarrow> lacks jt"
  unfolding newTangerineWhistleInstructionSet_def
  by (erule keeps_outD [OF keeps_out_sequence homestead_lacks, rotated]) (simp add: keeps_out_set)

lemma spurious_lacks: "newSpuriousDragonInstructionSet = Some jt \<Longrightarrow> lacks jt"
  unfolding newSpuriousDragonInstructionSet_def bind_eq_Some_conv
  by (elim exE conjE) (rule keeps_outD [OF keeps_out_set(2) tangerine_lacks])

lemma byzantium_lacks: "newByzantiumInstructionSet = Some jt \<Longrightarrow> lacks jt"
  unfolding newByzantiumInstructionSet_def map_option_eq_Some
  by (elim exE conjE, drule spurious_lacks, erule subst) (intro lacks_upd, simp_all)

abbreviation constantinople :: "Rules \<Rightarrow> bool" where
  "constantinople rules \<equiv> IsYoloV2 rules \<or> IsIstanbul rules \<or> IsConstantinople rules"

lemma early_lacks: "default_table rules = Some jt \<Longrightarrow> \<not> constantinople rules \<Longrightarrow> lacks jt"
  using byzantium_lacks spurious_lacks tangerine_lacks homestead_lacks frontier_lacks
  by (auto simp: default_table_def split: if_splits)

lemma made_subset: "made ks x \<Longrightarrow> ks' \<subseteq> ks \<Longrightarrow> made ks' x"
  unfolding made_def by blast

lemma madeD: "made ks x \<Longrightarrow> x = Some jt \<Longrightarrow> ks \<subseteq> dom jt"
  unfolding made_def by (elim exE conjE) (simp only: option.inject)

lemma late_has: "constantinople rules \<Longrightarrow> made later_keys (default_table rules)"
  unfolding default_table_def using made_yoloV2 made_istanbul made_constantinople by (simp only: split: if_split) blast

abbreviation store_keys :: "byte set" where
  "store_keys \<equiv> {OP_SLOAD, OP_SSTORE}"

lemma early_has: "made store_keys (default_table rules)"
proof -
  have "made store_keys (Some newFrontierInstructionSet)" unfolding made_def by (rule exI, rule conjI, rule refl, rule subset_trans [OF _ dom_frontier]) simp
  moreover have "made store_keys (Some newHomesteadInstructionSet)" unfolding made_def by (rule exI, rule conjI, rule refl, rule subset_trans [OF _ dom_homestead]) simp
  moreover have "made store_keys newTangerineWhistleInstructionSet" "made store_keys newSpuriousDragonInstructionSet"
    "made store_keys newByzantiumInstructionSet" "made store_keys newConstantinopleInstructionSet"
    "made store_keys newIstanbulInstructionSet" "made store_keys newYoloV2InstructionSet"
    by (rule made_subset [OF made_tangerine] made_subset [OF made_spurious] made_subset [OF made_byzantium] made_subset [OF made_constantinople]
        made_subset [OF made_istanbul] made_subset [OF made_yoloV2], blast)+
  ultimately show ?thesis unfolding default_table_def by (simp only: split: if_split) blast
qed

text \<open>An extra EIP on the tables before Constantinople, and on the others.\<close>

lemma set_missing: "lacks jt \<Longrightarrow> set_constantGas OP_EXTCODEHASH c jt = None"
  by (simp add: set_constantGas_def modify_def lacks_def)

lemma enable2929_missing: "lacks jt \<Longrightarrow> enable2929 jt = None"
  unfolding enable2929_def
  by (rule sequence_fails [where f = "set_constantGas OP_EXTCODEHASH WarmStorageReadCostEIP2929"]) (simp_all add: keeps_out_set set_missing)

lemma enable1884_missing: "lacks jt \<Longrightarrow> enable1884 jt = None"
proof -
  assume "lacks jt"
  then have "sequence [set_constantGas OP_SLOAD SloadGasEIP1884, set_constantGas OP_BALANCE BalanceGasEIP1884,
      set_constantGas OP_EXTCODEHASH ExtcodeHashGasEIP1884] jt = None"
    by (intro sequence_fails [where f = "set_constantGas OP_EXTCODEHASH ExtcodeHashGasEIP1884"]) (simp_all add: keeps_out_set set_missing)
  then show ?thesis by (simp only: enable1884_def option.map)
qed

lemma EnableEIP_runs:
  fixes jt :: "('t, 's) JumpTable"
  assumes "activators e = Some (f :: ('t, 's) JumpTable \<Rightarrow> ('t, 's) JumpTable option)" "runs ks f" "ks \<subseteq> dom jt"
  shows "\<exists>jt'. EnableEIP e jt = Some (Inr jt') \<and> ks \<subseteq> dom jt'"
proof -
  obtain jt' where "f jt = Some jt'" "dom jt \<subseteq> dom jt'" using runsD [OF assms(2,3)] by blast
  then show ?thesis using assms(1,3) by (auto simp: EnableEIP_def)
qed

lemma activators_eqs:
  "activators 2929 = Some enable2929" "activators 2200 = Some enable2200" "activators 1884 = Some enable1884"
  "activators 1344 = Some enable1344" "activators 2315 = Some enable2315"
  by (simp_all add: activators_def)

lemma EnableEIP_late:
  fixes jt :: "('t, 's) JumpTable"
  assumes "ValidEip e" "later_keys \<subseteq> dom jt"
  shows "\<exists>jt'. EnableEIP e jt = Some (Inr jt') \<and> later_keys \<subseteq> dom jt'"
proof -
  have "\<exists>f :: ('t, 's) JumpTable \<Rightarrow> ('t, 's) JumpTable option. activators e = Some f \<and> runs later_keys f"
    using assms(1) activators_eqs runs_2929 runs_2200 runs_1884 runs_1344 [of later_keys] runs_2315 [of later_keys]
    unfolding ValidEip_iff by (elim insertE) blast+
  then show ?thesis using EnableEIP_runs [OF _ _ assms(2)] by blast
qed

lemma store_runs: "runs store_keys enable2200"
  unfolding enable2200_def by (rule runs_sequence) (simp add: runs_set)

lemma EnableEIP_early:
  fixes jt :: "('t, 's) JumpTable"
  assumes "ValidEip e" "store_keys \<subseteq> dom jt" "lacks jt"
  shows "if e = 1884 \<or> e = 2929 then EnableEIP e jt = None
    else \<exists>jt'. EnableEIP e jt = Some (Inr jt') \<and> store_keys \<subseteq> dom jt' \<and> lacks jt'"
proof -
  have out: "keeps_out enable2200" unfolding enable2200_def by (rule keeps_out_sequence) (simp add: keeps_out_set)
  have out': "keeps_out enable1344" "keeps_out enable2315"
    by (simp_all add: keeps_out_def enable1344_def enable2315_def lacks_def)
  consider "e = 2929" | "e = 1884"
    | f :: "('t, 's) JumpTable \<Rightarrow> ('t, 's) JumpTable option" where "e \<noteq> 2929" "e \<noteq> 1884" "activators e = Some f" "runs store_keys f" "keeps_out f"
    using assms(1) store_runs runs_1344 [of store_keys] runs_2315 [of store_keys] out out' by (auto simp: ValidEip_iff activators_eqs)
  then show ?thesis
  proof cases
    case 3
    then obtain jt' where "EnableEIP e jt = Some (Inr jt')" "store_keys \<subseteq> dom jt'" using EnableEIP_runs [OF 3(3,4) assms(2)] by blast
    moreover from this have "lacks jt'" using keeps_outD [OF 3(5) assms(3)] 3(3) by (simp add: EnableEIP_def)
    ultimately show ?thesis using 3(1,2) by simp
  qed (simp_all add: EnableEIP_def activators_eqs enable2929_missing enable1884_missing assms(3))
qed

text \<open>The loop over the extra EIPs, all of them known or all unknown.\<close>

abbreviation enable_all :: "int list \<Rightarrow> int list \<Rightarrow> ('t, 's) JumpTable \<Rightarrow> (('t, 's) JumpTable \<times> int list) option" where
  "enable_all pre es jt \<equiv> extra_eips (length es) (length pre) (pre @ es) (length (pre @ es)) jt"

lemma enable_all_Cons:
  "EnableEIP e jt = None \<Longrightarrow> enable_all pre (e # es) jt = None"
  "EnableEIP e jt = Some (Inr jt1) \<Longrightarrow> enable_all pre (e # es) jt = enable_all (pre @ [e]) es jt1"
  by simp_all

lemma extra_late: "\<forall>e \<in> set es. ValidEip e \<Longrightarrow> later_keys \<subseteq> dom jt \<Longrightarrow> \<exists>jt'. enable_all pre es jt = Some (jt', pre @ es)"
proof (induction es arbitrary: pre jt)
  case (Cons e es)
  obtain jt1 where jt1: "EnableEIP e jt = Some (Inr jt1)" "later_keys \<subseteq> dom jt1"
    using EnableEIP_late [OF _ Cons.prems(2), of e] Cons.prems(1) by auto
  have "\<forall>e \<in> set es. ValidEip e" using Cons.prems(1) by simp
  from Cons.IH [OF this jt1(2), of "pre @ [e]"] show ?case unfolding enable_all_Cons(2) [OF jt1(1)] append_assoc append_Cons append_Nil .
qed simp

lemma extra_early:
  "\<forall>e \<in> set es. ValidEip e \<Longrightarrow> store_keys \<subseteq> dom jt \<Longrightarrow> lacks jt \<Longrightarrow>
   if 1884 \<in> set es \<or> 2929 \<in> set es then enable_all pre es jt = None else \<exists>jt'. enable_all pre es jt = Some (jt', pre @ es)"
proof (induction es arbitrary: pre jt)
  case (Cons e es)
  have v: "ValidEip e" "\<forall>e \<in> set es. ValidEip e" using Cons.prems(1) by auto
  note one = EnableEIP_early [OF v(1) Cons.prems(2,3)]
  show ?case
  proof (cases "e = 1884 \<or> e = 2929")
    case True
    then have "enable_all pre (e # es) jt = None" using one enable_all_Cons(1) by (simp only: if_P)
    then show ?thesis using True by auto
  next
    case False
    then obtain jt1 where jt1: "EnableEIP e jt = Some (Inr jt1)" "store_keys \<subseteq> dom jt1" "lacks jt1" using one by auto
    have mem: "1884 \<in> set (e # es) \<or> 2929 \<in> set (e # es) \<longleftrightarrow> 1884 \<in> set es \<or> 2929 \<in> set es" using False by auto
    from Cons.IH [OF v(2) jt1(2,3), of "pre @ [e]"] show ?thesis
      unfolding enable_all_Cons(2) [OF jt1(1)] mem append_assoc append_Cons append_Nil .
  qed
qed simp

lemma EnableEIP_unknown: "\<not> ValidEip e \<Longrightarrow> EnableEIP e jt = Some (Inl ())"
  by (simp add: EnableEIP_def activators_known [THEN iffD2])

lemma extra_unknown:
  "\<forall>e \<in> set arr. \<not> ValidEip e \<Longrightarrow> length arr = i + Suc r \<Longrightarrow> 2 \<le> length arr \<Longrightarrow> extra_eips (Suc r) i arr (Suc r) jt = None"
proof (induction r arbitrary: i arr)
  case 0
  then have "EnableEIP (arr ! i) jt = Some (Inl ())" by (intro EnableEIP_unknown) simp
  then show ?case using 0 by simp
next
  case (Suc r)
  have e: "EnableEIP (arr ! i) jt = Some (Inl ())" using Suc.prems by (intro EnableEIP_unknown) simp
  note step = extra_eips.simps(2) [of "Suc r" i arr "Suc (Suc r)" jt, unfolded e option.case sum.case]
  show ?case
  proof (cases "i + 1 \<le> Suc (Suc r)")
    case True
    define arr' where "arr' = take i arr @ take (Suc (Suc r) - (i + 1)) (drop (i + 1) arr) @ drop (Suc (Suc r) - 1) arr"
    have len: "length arr' = (i + 1) + Suc r" using Suc.prems(2) True by (simp add: arr'_def)
    have "set arr' \<subseteq> set arr" unfolding arr'_def by (auto dest: in_set_takeD in_set_dropD)
    then have all: "\<forall>e \<in> set arr'. \<not> ValidEip e" using Suc.prems(1) by blast
    have "2 \<le> length arr'" using Suc.prems(2,3) len by simp
    from Suc.IH [OF all len this] show ?thesis
      using True unfolding step arr'_def [symmetric] by (simp only: if_True diff_Suc_1)
  next
    case False
    then show ?thesis unfolding step by (simp only: if_False)
  qed
qed

lemma NewEVMInterpreter_known:
  fixes rules :: Rules
  assumes "\<forall>e \<in> set extra. ValidEip e"
  shows "if (1884 \<in> set extra \<or> 2929 \<in> set extra) \<and> \<not> constantinople rules then NewEVMInterpreter rules extra = (None :: (('t, 's) JumpTable \<times> int list) option)
    else \<exists>jt :: ('t, 's) JumpTable. NewEVMInterpreter rules extra = Some (jt, extra)"
proof -
  obtain jt :: "('t, 's) JumpTable" where jt: "default_table rules = Some jt" using default_table_made by blast
  then have eq: "NewEVMInterpreter rules extra = extra_eips (length extra) (length ([] :: int list)) ([] @ extra) (length ([] @ extra)) jt"
    by (simp add: NewEVMInterpreter_def)
  show ?thesis
  proof (cases "constantinople rules")
    case True
    then show ?thesis using extra_late [OF assms madeD [OF late_has jt], of "[]"] unfolding eq by simp
  next
    case False
    then show ?thesis
      using extra_early [OF assms madeD [OF early_has jt] early_lacks [OF jt], of "[]"] unfolding eq
      by (cases "1884 \<in> set extra \<or> 2929 \<in> set extra") auto
  qed
qed

lemma NewEVMInterpreter_unknown:
  assumes "\<forall>e \<in> set extra. \<not> ValidEip e" "2 \<le> length extra"
  shows "NewEVMInterpreter rules extra = (None :: (('t, 's) JumpTable \<times> int list) option)"
proof -
  obtain jt :: "('t, 's) JumpTable" where jt: "default_table rules = Some jt" using default_table_made by blast
  obtain r where r: "length extra = Suc r" using assms(2) by (cases "length extra") auto
  then show ?thesis using extra_unknown [OF assms(1), of 0 r jt] assms(2) jt by (simp add: NewEVMInterpreter_def del: extra_eips.simps)
qed

end
