(* ===== verification/EvmFuel.thy ===== *)
theory EvmFuel
  imports EvmEntries EvmInterp
begin

text \<open>
  Fuel only bounds a run: a run that ends with some fuel ends the same way with more. Every function that takes
  the interpreter as a parameter is monotone in it.
\<close>

section \<open>The order of outcomes\<close>

definition fuel_le :: "'a outcome \<Rightarrow> 'a outcome \<Rightarrow> bool" where
  "fuel_le r r' \<longleftrightarrow> r = OutOfFuel \<or> r' = r"

definition run_le :: "('t, 's) runner \<Rightarrow> ('t, 's) runner \<Rightarrow> bool" where
  "run_le run run' \<longleftrightarrow> (\<forall>evm c input ro. fuel_le (run evm c input ro) (run' evm c input ro))"

lemma fuel_le_refl [simp, intro!]: "fuel_le r r"
  by (simp add: fuel_le_def)

lemma fuel_le_andThen: "fuel_le r r' \<Longrightarrow> (\<And>x. fuel_le (f x) (f' x)) \<Longrightarrow> fuel_le (andThen r f) (andThen r' f')"
  by (cases r) (auto simp: fuel_le_def)

lemma run_leD: "run_le run run' \<Longrightarrow> fuel_le (run evm c input ro) (run' evm c input ro)"
  by (simp add: run_le_def)

section \<open>Calls\<close>

lemma run_contract_le: "run_le run run' \<Longrightarrow> fuel_le (run_contract run evm c input ro) (run_contract run' evm c input ro)"
  by (auto simp: run_contract_def intro!: fuel_le_andThen run_leD)

lemma foreign_code_le:
  "run_le run run' \<Longrightarrow> fuel_le (foreign_code env run evm c a input ro) (foreign_code env run' evm c a input ro)"
  by (auto simp: foreign_code_def intro!: run_contract_le split: prod.split)

lemma call_code_le:
  "run_le run run' \<Longrightarrow> fuel_le (call_code env run evm caller a input gas v) (call_code env run' evm caller a input gas v)"
  by (auto simp: call_code_def intro!: run_contract_le split: prod.split option.split)

lemma calls_le:
  assumes "run_le run run'"
  shows "fuel_le (Call env run evm caller a input gas v) (Call env run' evm caller a input gas v)"
    "fuel_le (CallCode env run evm caller a input gas v) (CallCode env run' evm caller a input gas v)"
    "fuel_le (DelegateCall env run evm caller a input gas) (DelegateCall env run' evm caller a input gas)"
    "fuel_le (StaticCall env run evm caller a input gas) (StaticCall env run' evm caller a input gas)"
  using assms
  by (auto simp: Call_def CallCode_def DelegateCall_def StaticCall_def Let_def
        intro!: fuel_le_andThen call_code_le foreign_code_le split: prod.split option.split)

lemma evm_create_le:
  "run_le run run' \<Longrightarrow> fuel_le (evm_create env run evm caller ch gas v a) (evm_create env run' evm caller ch gas v a)"
  by (auto simp: evm_create_def Let_def intro!: fuel_le_andThen run_leD split: prod.split)

lemma creates_le:
  assumes "run_le run run'"
  shows "fuel_le (Create env run evm caller code gas v) (Create env run' evm caller code gas v)"
    "fuel_le (Create2 env run evm caller code gas v salt) (Create2 env run' evm caller code gas v salt)"
  using evm_create_le [OF assms] by (auto simp: Create_def Create2_def Let_def split: prod.split)

section \<open>Instructions\<close>

definition mono_exec :: "('t, 's) executionFunc \<Rightarrow> bool" where
  "mono_exec ex \<longleftrightarrow> (\<forall>env run run' m. run_le run run' \<longrightarrow> fuel_le (ex env run m) (ex env run' m))"

lemmas instruction_defs =
  opAdd_def opSub_def opMul_def opDiv_def opSdiv_def opMod_def opSmod_def opExp_def opSignExtend_def opNot_def
  opLt_def opGt_def opSlt_def opSgt_def opEq_def opIszero_def opAnd_def opOr_def opXor_def opByte_def opAddmod_def
  opMulmod_def opSHL_def opSHR_def opSAR_def opSha3_def opAddress_def opBalance_def opOrigin_def opCaller_def
  opCallValue_def opCallDataLoad_def opCallDataSize_def opCallDataCopy_def opReturnDataSize_def opReturnDataCopy_def
  opExtCodeSize_def opCodeSize_def opCodeCopy_def opExtCodeCopy_def opExtCodeHash_def opGasprice_def opBlockhash_def
  opCoinbase_def opTimestamp_def opNumber_def opDifficulty_def opGasLimit_def opSelfBalance_def opChainID_def
  opPop_def opMload_def opMstore_def opMstore8_def opSload_def opSstore_def opJump_def opJumpi_def opJumpdest_def
  opBeginSub_def opJumpSub_def opReturnSub_def opPc_def opMsize_def opGas_def opStop_def opReturn_def opRevert_def
  opSuicide_def makeLog_def opPush1_def makePush_def makeDup_def makeSwap_def

lemma mono_calls: "mono_exec opCall" "mono_exec opCallCode" "mono_exec opDelegateCall" "mono_exec opStaticCall"
  by (auto simp: mono_exec_def opCall_def opCallCode_def opDelegateCall_def opStaticCall_def
        intro!: fuel_le_andThen calls_le split: list.split)

lemma mono_creates: "mono_exec opCreate" "mono_exec opCreate2"
  by (auto simp: mono_exec_def opCreate_def opCreate2_def pop3_def pop4_def Let_def
        intro!: fuel_le_andThen creates_le split: list.split)

definition mono_op :: "('t, 's) operation \<Rightarrow> bool" where
  "mono_op op = mono_exec (op_execute op)"

lemma entry_mono: "entry b op \<Longrightarrow> mono_op op"
proof (rule entry_all [where P = "\<lambda>b. mono_op"])
  note simps = mono_op_def mono_exec_def operation_of_def instruction_defs
  show "\<forall>(b, ops) \<in> set repriced. \<forall>op \<in> set ops. mono_op op"
    by (simp add: repriced_def priced_def mono_op_def operation_of_def mono_calls) (simp add: mono_exec_def instruction_defs)
  show "\<forall>(b, op) \<in> set later_entries. mono_op op"
    by (simp add: later_entries_def mono_op_def operation_of_def mono_creates) (simp add: mono_exec_def instruction_defs)
  have "\<forall>(b, op) \<in> set frontier_arithmetic. mono_op op" by (simp add: frontier_arithmetic_def simps)
  moreover have "\<forall>(b, op) \<in> set frontier_bits. mono_op op" by (simp add: frontier_bits_def simps)
  moreover have "\<forall>(b, op) \<in> set frontier_environment. mono_op op" by (simp add: frontier_environment_def simps)
  moreover have "\<forall>(b, op) \<in> set frontier_block. mono_op op" by (simp add: frontier_block_def simps)
  moreover have "\<forall>(b, op) \<in> set frontier_flow. mono_op op" by (simp add: frontier_flow_def simps)
  moreover have "\<forall>(b, op) \<in> set frontier_push. mono_op op" by (auto simp: frontier_push_def simps)
  moreover have "\<forall>(b, op) \<in> set frontier_dup. mono_op op" by (auto simp: frontier_dup_def simps)
  moreover have "\<forall>(b, op) \<in> set frontier_swap. mono_op op" by (auto simp: frontier_swap_def simps)
  moreover have "\<forall>(b, op) \<in> set frontier_log. mono_op op" by (auto simp: frontier_log_def simps)
  moreover have "\<forall>(b, op) \<in> set frontier_calls. mono_op op"
    by (simp add: frontier_calls_def mono_op_def operation_of_def mono_calls mono_creates) (simp add: mono_exec_def instruction_defs)
  ultimately show "\<forall>(b, op) \<in> set frontier_entries. mono_op op"
    unfolding frontier_entries_def set_append ball_Un by blast
qed

section \<open>The interpreter\<close>

lemma step_le:
  assumes "within jt" "run_le run run'"
  shows "fuel_le (step env jt run m) (step env jt run' m)"
proof (cases "jt (GetOp (mc_contract m) (mc_pc m))")
  case (Some op)
  then have "mono_exec (op_execute op)" using assms(1) entry_mono by (auto simp: within_def mono_op_def)
  then have "fuel_le (op_execute op env run m) (op_execute op env run' m)" for m
    using assms(2) by (simp add: mono_exec_def)
  with Some show ?thesis
    by (auto simp: step_def pay_and_execute_def Let_def intro!: fuel_le_andThen split: option.split prod.split sum.split)
qed (simp add: step_def)

lemma Run_loop_le: "(\<And>m. fuel_le (lp m) (lp' m)) \<Longrightarrow> run_le (Run_loop lp) (Run_loop lp')"
  by (auto simp: run_le_def Run_loop_def Let_def intro!: fuel_le_andThen)

lemma loop_le: "within jt \<Longrightarrow> n \<le> n' \<Longrightarrow> fuel_le (loop n env jt m) (loop n' env jt m)"
proof (induction n arbitrary: n' m)
  case (Suc n)
  then obtain k where k: "n' = Suc k" "n \<le> k" by (cases n') auto
  have "run_le (Run_loop (loop n env jt)) (Run_loop (loop k env jt))"
    using Suc.IH [OF Suc.prems(1) k(2)] by (rule Run_loop_le)
  from step_le [OF Suc.prems(1) this] Suc.IH [OF Suc.prems(1) k(2)] show ?case
    by (auto simp: k(1) intro!: fuel_le_andThen split: turn.split)
qed (simp add: fuel_le_def)

lemma Run_le: "within jt \<Longrightarrow> n \<le> n' \<Longrightarrow> fuel_le (Run n env jt evm c input ro) (Run n' env jt evm c input ro)"
  unfolding Run_def by (rule run_leD, rule Run_loop_le, rule loop_le)

end
