(* ===== verification/EvmProgress.thy ===== *)
theory EvmProgress
  imports EvmMeter EvmFuel
begin

text \<open>
  The interpreter as a whole: every operation of every jump table pays for itself, so a run ends within as many
  turns as it has gas, never reaches below or beyond its stack, and hands back no more gas than it was given.
\<close>

section \<open>One operation\<close>

text \<open>
  What a turn owes: to go on it must have used gas and its stack must fit; to end it must not have won any.
\<close>

definition turn_ok :: "('t, 's) machine \<Rightarrow> ('t, 's) turn \<Rightarrow> bool" where
  "turn_ok m t = (case t of
       Continue m' \<Rightarrow> mc_gas m' < mc_gas m \<and> same_evm (mc_evm m) (mc_evm m') \<and> length (mc_stack m') \<le> 1024
     | Done m' ret err \<Rightarrow> mc_gas m' \<le> mc_gas m \<and> same_evm (mc_evm m) (mc_evm m'))"

definition op_ok :: "('t, 's) operation \<Rightarrow> bool" where
  "op_ok op \<longleftrightarrow>
     (\<forall>n env run m. meters n run \<and> uint256_ok (ee_uint256 env) \<and> unat (mc_gas m) \<le> n \<and> check_stack op (mc_stack m) = None \<longrightarrow>
        outcome_ok (\<lambda>p. p \<noteq> StackPanic) (turn_ok m) (pay_and_execute env run op m))"

lemma op_okD:
  "op_ok op \<Longrightarrow> meters n run \<Longrightarrow> uint256_ok (ee_uint256 env) \<Longrightarrow> unat (mc_gas m) \<le> n \<Longrightarrow> check_stack op (mc_stack m) = None \<Longrightarrow>
   outcome_ok (\<lambda>p. p \<noteq> StackPanic) (turn_ok m) (pay_and_execute env run op m)"
  unfolding op_ok_def by blast

text \<open>The dynamic gas as a function that is always there.\<close>

definition dyn_price :: "('t, 's) operation \<Rightarrow> ('t, 's) gasFunc" where
  "dyn_price op = (case op_dynamicGas op of None \<Rightarrow> (\<lambda>env m sz. Ret (m, Inr 0)) | Some f \<Rightarrow> f)"

lemma UseGas_0 [simp]: "UseGas c 0 = (c, True)"
  by (simp add: UseGas_def)

lemma charge_dynamic_price:
  "charge_dynamic env op m sz =
     andThen (dyn_price op env m sz) (\<lambda>(m, x).
       case x of Inl e \<Rightarrow> Ret (m, False)
       | Inr cost \<Rightarrow> Ret (m\<lparr>mc_contract := fst (UseGas (mc_contract m) cost)\<rparr>, snd (UseGas (mc_contract m) cost)))"
  by (auto simp: charge_dynamic_def dyn_price_def split: option.split prod.split sum.split intro!: arg_cong [of _ _ "andThen _"])

lemma UseGas_snd:
  "snd (UseGas c g) \<Longrightarrow> unat (c_Gas (fst (UseGas c g))) + unat g = unat (c_Gas c)" "c_Gas (fst (UseGas c g)) \<le> c_Gas c"
  by (cases "UseGas c g", use UseGas_ok UseGas_le in auto)+

lemma pay_dynamic:
  assumes dyn: "outcome_ok (\<lambda>p. p \<noteq> StackPanic)
        (\<lambda>(m2, x). gas_rel m1 m2 \<and> (\<forall>c. x = Inr c \<longrightarrow> P (ev_callGasTemp (mc_evm m2)) (unat c))) (dyn_price op env m1 sz)"
    and exec: "\<And>m2 c. same_evm (mc_evm m1) (mc_evm m2) \<Longrightarrow> mc_stack m2 = mc_stack m1 \<Longrightarrow> P (ev_callGasTemp (mc_evm m2)) c \<Longrightarrow>
      unat (mc_gas m2) + c \<le> unat (mc_gas m1) \<Longrightarrow>
      outcome_ok (\<lambda>p. p \<noteq> StackPanic) (\<lambda>r. Q (after_execute op r)) (op_execute op env run m2)"
    and out: "\<And>m2. gas_rel m1 m2 \<Longrightarrow> Q (Done m2 [] (Some ErrOutOfGas))"
  shows "outcome_ok (\<lambda>p. p \<noteq> StackPanic) Q
       (andThen (charge_dynamic env op m1 sz) (\<lambda>(m, ok).
          if \<not> ok then Ret (Done m [] (Some ErrOutOfGas))
          else let m = (if sz > 0 then m\<lparr>mc_memory := mem_Resize (mc_memory m) sz\<rparr> else m)
               in andThen (op_execute op env run m) (\<lambda>r. Ret (after_execute op r))))"
proof -
  let ?A = "\<lambda>p. p \<noteq> StackPanic"
  define rest where "rest = (\<lambda>(m, ok). if \<not> ok then Ret (Done m [] (Some ErrOutOfGas))
          else let m = (if sz > 0 then m\<lparr>mc_memory := mem_Resize (mc_memory m) sz\<rparr> else m)
               in andThen (op_execute op env run m) (\<lambda>r. Ret (after_execute op r)))"
  have unpaid: "outcome_ok ?A Q (rest (m2, False))" if "gas_rel m1 m2" for m2
    using out [OF that] by (simp add: rest_def)
  have paid: "outcome_ok ?A Q (rest (m2, True))"
    if "same_evm (mc_evm m1) (mc_evm m2)" "mc_stack m2 = mc_stack m1" "P (ev_callGasTemp (mc_evm m2)) c"
      "unat (mc_gas m2) + c \<le> unat (mc_gas m1)" for m2 c
    using that by (auto simp: rest_def Let_def outcome_ok_andThen intro!: exec [where c = c])
  have "outcome_ok ?A Q (rest (m2\<lparr>mc_contract := fst (UseGas (mc_contract m2) g)\<rparr>, snd (UseGas (mc_contract m2) g)))"
    if rel: "gas_rel m1 m2" and price: "P (ev_callGasTemp (mc_evm m2)) (unat g)" for m2 g
  proof (cases "snd (UseGas (mc_contract m2) g)")
    case True
    then have "unat (c_Gas (fst (UseGas (mc_contract m2) g))) + unat g = unat (mc_gas m2)"
      by (simp add: UseGas_snd mc_gas_def)
    then show ?thesis
      using True rel price paid [of "m2\<lparr>mc_contract := fst (UseGas (mc_contract m2) g)\<rparr>" "unat g"]
      by (simp add: gas_rel_def mc_gas_def word_le_nat_alt)
  next
    case False
    have "gas_rel m1 (m2\<lparr>mc_contract := fst (UseGas (mc_contract m2) g)\<rparr>)"
      using rel order_trans [OF UseGas_snd(2)] by (simp add: gas_rel_def mc_gas_def)
    with False show ?thesis by (simp add: unpaid)
  qed
  with unpaid have "outcome_ok ?A Q (andThen (charge_dynamic env op m1 sz) rest)"
    unfolding charge_dynamic_price outcome_ok_andThen
    by (intro outcome_ok_mono [OF dyn]) (auto split: sum.split)
  then show ?thesis by (simp only: rest_def)
qed

text \<open>
  Paying and executing: the price is known to satisfy \<open>P\<close>; from then on the operation runs on a machine with
  the same stack that has paid both parts.
\<close>

lemma pay_and_execute_rule:
  assumes mem: "no_stack_panic (new_memory_size env op m)"
    and dyn: "\<And>m1 sz. mc_stack m1 = mc_stack m \<Longrightarrow>
      outcome_ok (\<lambda>p. p \<noteq> StackPanic) (\<lambda>(m2, x). gas_rel m1 m2 \<and> (\<forall>c. x = Inr c \<longrightarrow> P (ev_callGasTemp (mc_evm m2)) (unat c)))
        (dyn_price op env m1 sz)"
    and exec: "\<And>m2 c. same_evm (mc_evm m) (mc_evm m2) \<Longrightarrow> mc_stack m2 = mc_stack m \<Longrightarrow> P (ev_callGasTemp (mc_evm m2)) c \<Longrightarrow>
      unat (mc_gas m2) + unat (op_constantGas op) + c \<le> unat (mc_gas m) \<Longrightarrow>
      outcome_ok (\<lambda>p. p \<noteq> StackPanic) (\<lambda>r. turn_ok m (after_execute op r)) (op_execute op env run m2)"
  shows "outcome_ok (\<lambda>p. p \<noteq> StackPanic) (turn_ok m) (pay_and_execute env run op m)"
proof (cases "UseGas (mc_contract m) (op_constantGas op)")
  case (Pair c ok)
  let ?m = "m\<lparr>mc_contract := c\<rparr>"
  have gas: "mc_gas ?m \<le> mc_gas m" using UseGas_le [OF Pair] by (simp add: mc_gas_def)
  have mem': "no_stack_panic (new_memory_size env op ?m)"
    using mem by (simp add: new_memory_size_def cong: option.case_cong)
  show ?thesis
  proof (cases ok)
    case True
    then have paid: "unat (mc_gas ?m) + unat (op_constantGas op) = unat (mc_gas m)"
      using UseGas_ok Pair by (simp add: mc_gas_def)
    have "outcome_ok (\<lambda>p. p \<noteq> StackPanic) (turn_ok m)
       (andThen (charge_dynamic env op ?m sz) (\<lambda>(m, ok).
          if \<not> ok then Ret (Done m [] (Some ErrOutOfGas))
          else let m = (if sz > 0 then m\<lparr>mc_memory := mem_Resize (mc_memory m) sz\<rparr> else m)
               in andThen (op_execute op env run m) (\<lambda>r. Ret (after_execute op r))))" for sz
    proof (rule pay_dynamic [OF dyn])
      fix m2 c assume "same_evm (mc_evm ?m) (mc_evm m2)" "mc_stack m2 = mc_stack ?m" "P (ev_callGasTemp (mc_evm m2)) c"
        "unat (mc_gas m2) + c \<le> unat (mc_gas ?m)"
      then show "outcome_ok (\<lambda>p. p \<noteq> StackPanic) (\<lambda>r. turn_ok m (after_execute op r)) (op_execute op env run m2)"
        using paid by (intro exec) auto
    qed (use gas in \<open>auto simp: turn_ok_def gas_rel_def\<close>)
    then show ?thesis
      using Pair True gas
      by (auto simp: pay_and_execute_def Let_def turn_ok_def split: sum.split intro!: ok_then [OF mem'])
  next
    case False
    then show ?thesis using Pair by (simp add: pay_and_execute_def turn_ok_def)
  qed
qed

section \<open>Kinds of operations\<close>

definition mem_fun :: "nat \<Rightarrow> ('t, 's) operation \<Rightarrow> bool" where
  "mem_fun pops op \<longleftrightarrow> (\<forall>U st f. op_memorySize op = Some f \<longrightarrow> pops \<le> length st \<longrightarrow> no_stack_panic (f U st))"

lemma mem_fun_size: "mem_fun pops op \<Longrightarrow> pops \<le> length (mc_stack m) \<Longrightarrow> no_stack_panic (new_memory_size env op m)"
  by (auto simp: new_memory_size_def mem_fun_def split: option.split intro!: no_stack_panic_andThen)

lemma turn_ok_after:
  assumes "mc_gas m' < mc_gas m" "same_evm (mc_evm m) (mc_evm m')" "err = None \<Longrightarrow> length (mc_stack m') \<le> 1024"
  shows "turn_ok m (after_execute op (m', res, err))"
  using assms by (auto simp: after_execute_def turn_ok_def Let_def less_imp_le mc_gas_def split: option.split)

lemma turn_ok_after_halt:
  assumes "mc_gas m' \<le> mc_gas m" "same_evm (mc_evm m) (mc_evm m')" "op_halts op \<or> op_reverts op"
  shows "turn_ok m (after_execute op (m', res, err))"
  using assms by (auto simp: after_execute_def turn_ok_def Let_def mc_gas_def split: option.split)

lemma check_stack_None: "check_stack op st = None \<longleftrightarrow> op_minStack op \<le> int (length st) \<and> int (length st) \<le> op_maxStack op"
  by (auto simp: check_stack_def Let_def)

lemma gas_funD:
  "gas_fun k pops f \<Longrightarrow> pops \<le> length (mc_stack m) \<Longrightarrow>
   outcome_ok (\<lambda>p. p \<noteq> StackPanic) (\<lambda>(m', x). gas_rel m m' \<and> (\<forall>c. x = Inr c \<longrightarrow> k \<le> unat c)) (f env m sz)"
  unfolding gas_fun_def by (elim allE) (erule outcome_ok_mono; auto)

lemma frugalD:
  "frugal pops pushes ex \<Longrightarrow> meters n run \<Longrightarrow> pops \<le> length (mc_stack m) \<Longrightarrow> unat (mc_gas m) < n \<Longrightarrow>
   outcome_ok (\<lambda>p. p \<noteq> StackPanic)
     (\<lambda>(m', res, err). mc_gas m' \<le> mc_gas m \<and> same_evm (mc_evm m) (mc_evm m') \<and>
        (err = None \<longrightarrow> length (mc_stack m') + pops = length (mc_stack m) + pushes)) (ex env run m)"
  unfolding frugal_def by blast

lemma callsD:
  "calls sends pops ex \<Longrightarrow> meters n run \<Longrightarrow> uint256_ok (ee_uint256 env) \<Longrightarrow> pops \<le> length (mc_stack m) \<Longrightarrow>
   k = unat (ev_callGasTemp (mc_evm m)) + (if sends (ee_uint256 env) (mc_stack m) then 2300 else 0) \<Longrightarrow>
   k < n \<Longrightarrow> unat (mc_gas m) + k < 2 ^ 64 \<Longrightarrow>
   outcome_ok (\<lambda>p. p \<noteq> StackPanic)
     (\<lambda>(m', res, err). unat (mc_gas m') \<le> unat (mc_gas m) + k \<and> same_evm (mc_evm m) (mc_evm m') \<and>
        length (mc_stack m') + pops = length (mc_stack m) + 1) (ex env run m)"
  unfolding calls_def Let_def by blast

text \<open>An operation that ends the run may be free.\<close>

lemma op_ok_halt:
  assumes "plain pops pushes (op_execute op)" "op_minStack op = int pops" "op_halts op \<or> op_reverts op"
    "gas_fun 0 pops (dyn_price op)" "mem_fun pops op"
  shows "op_ok op"
  unfolding op_ok_def check_stack_None
proof (intro allI impI, elim conjE)
  fix n :: nat and env run and m :: "('a, 'b) machine"
  assume "op_minStack op \<le> int (length (mc_stack m))"
  then have len: "pops \<le> length (mc_stack m)" using assms(2) by simp
  show "outcome_ok (\<lambda>p. p \<noteq> StackPanic) (turn_ok m) (pay_and_execute env run op m)"
  proof (rule pay_and_execute_rule [where P = "\<lambda>g c. True"])
    fix m2 :: "('a, 'b) machine" and c
    assume m2: "same_evm (mc_evm m) (mc_evm m2)" "mc_stack m2 = mc_stack m"
      "unat (mc_gas m2) + unat (op_constantGas op) + c \<le> unat (mc_gas m)"
    have "outcome_ok (\<lambda>p. p = StackPanic \<longrightarrow> length (mc_stack m2) < pops)
        (\<lambda>(m', res, err). mc_gas m' = mc_gas m2 \<and> same_evm (mc_evm m2) (mc_evm m')) (op_execute op env run m2)"
      using assms(1) unfolding plain_def by (elim allE) (erule outcome_ok_mono; auto)
    then show "outcome_ok (\<lambda>p. p \<noteq> StackPanic) (\<lambda>r. turn_ok m (after_execute op r)) (op_execute op env run m2)"
      by (rule outcome_ok_mono)
        (use m2 len assms(3) in \<open>auto intro!: turn_ok_after_halt intro: same_evm_trans simp: word_le_nat_alt\<close>)
  next
    fix m1 :: "('a, 'b) machine" and sz
    assume "mc_stack m1 = mc_stack m"
    then have "pops \<le> length (mc_stack m1)" using len by simp
    from gas_funD [OF assms(4) this]
    show "outcome_ok (\<lambda>p. p \<noteq> StackPanic) (\<lambda>(m2, x). gas_rel m1 m2 \<and> (\<forall>c. x = Inr c \<longrightarrow> True)) (dyn_price op env m1 sz)"
      by (rule outcome_ok_mono) auto
  qed (rule mem_fun_size [OF assms(5) len])
qed

text \<open>Any other that makes no call, or a creation, asks for at least one unit of gas.\<close>

lemma op_ok_frugal:
  assumes "frugal pops pushes (op_execute op)" "op_minStack op = int pops" "op_maxStack op = 1024 + int pops - int pushes"
    "gas_fun k pops (dyn_price op)" "mem_fun pops op" "0 < unat (op_constantGas op) + k"
  shows "op_ok op"
  unfolding op_ok_def check_stack_None
proof (intro allI impI, elim conjE)
  fix n and env :: "('a, 'b) evm_env" and run :: "('a, 'b) runner" and m :: "('a, 'b) machine"
  assume run: "meters n run" "unat (mc_gas m) \<le> n"
    and bounds: "op_minStack op \<le> int (length (mc_stack m))" "int (length (mc_stack m)) \<le> op_maxStack op"
  then have len: "pops \<le> length (mc_stack m)" using assms(2) by simp
  show "outcome_ok (\<lambda>p. p \<noteq> StackPanic) (turn_ok m) (pay_and_execute env run op m)"
  proof (rule pay_and_execute_rule [where P = "\<lambda>g c. k \<le> c"])
    fix m2 :: "('a, 'b) machine" and c
    assume m2: "same_evm (mc_evm m) (mc_evm m2)" "mc_stack m2 = mc_stack m" "k \<le> c"
      "unat (mc_gas m2) + unat (op_constantGas op) + c \<le> unat (mc_gas m)"
    then have less: "mc_gas m2 < mc_gas m" using assms(6) unfolding word_less_nat_alt by linarith
    have "outcome_ok (\<lambda>p. p \<noteq> StackPanic)
        (\<lambda>(m', res, err). mc_gas m' \<le> mc_gas m2 \<and> same_evm (mc_evm m2) (mc_evm m') \<and>
           (err = None \<longrightarrow> length (mc_stack m') + pops = length (mc_stack m2) + pushes)) (op_execute op env run m2)"
      using assms(1) run len m2(2) less by (intro frugalD [OF _ run(1)]) (auto simp: word_less_nat_alt)
    then show "outcome_ok (\<lambda>p. p \<noteq> StackPanic) (\<lambda>r. turn_ok m (after_execute op r)) (op_execute op env run m2)"
      by (rule outcome_ok_mono)
        (use m2 len less bounds assms(2,3) in \<open>auto intro!: turn_ok_after intro: same_evm_trans\<close>)
  next
    fix m1 :: "('a, 'b) machine" and sz
    assume "mc_stack m1 = mc_stack m"
    then have "pops \<le> length (mc_stack m1)" using len by simp
    from gas_funD [OF assms(4) this]
    show "outcome_ok (\<lambda>p. p \<noteq> StackPanic) (\<lambda>(m2, x). gas_rel m1 m2 \<and> (\<forall>c. x = Inr c \<longrightarrow> k \<le> unat c)) (dyn_price op env m1 sz)" .
  qed (rule mem_fun_size [OF assms(5) len])
qed

text \<open>A call pays in advance for the gas it gives out.\<close>

lemma op_ok_call:
  assumes "calls sends pops (op_execute op)" "op_dynamicGas op = Some f" "gas_call sends' pops f"
    "\<And>U st. uint256_ok U \<Longrightarrow> sends U st \<Longrightarrow> sends' U st"
    "op_minStack op = int pops" "op_maxStack op = 1024 + int pops - 1" "mem_fun pops op" "0 < unat (op_constantGas op)"
  shows "op_ok op"
  unfolding op_ok_def check_stack_None
proof (intro allI impI, elim conjE)
  fix n and env :: "('a, 'b) evm_env" and run :: "('a, 'b) runner" and m :: "('a, 'b) machine"
  let ?U = "ee_uint256 env" and ?A = "\<lambda>p. p \<noteq> StackPanic"
  assume run: "meters n run" "unat (mc_gas m) \<le> n" "uint256_ok ?U"
    and bounds: "op_minStack op \<le> int (length (mc_stack m))" "int (length (mc_stack m)) \<le> op_maxStack op"
  then have len: "pops \<le> length (mc_stack m)" using assms(5) by simp
  show "outcome_ok ?A (turn_ok m) (pay_and_execute env run op m)"
  proof (rule pay_and_execute_rule [where P = "\<lambda>g c. unat g + (if sends' ?U (mc_stack m) then 9000 else 0) \<le> c"])
    fix m2 :: "('a, 'b) machine" and c
    assume m2: "same_evm (mc_evm m) (mc_evm m2)" "mc_stack m2 = mc_stack m"
      "unat (ev_callGasTemp (mc_evm m2)) + (if sends' ?U (mc_stack m) then 9000 else 0) \<le> c"
      "unat (mc_gas m2) + unat (op_constantGas op) + c \<le> unat (mc_gas m)"
    define callee where "callee = unat (ev_callGasTemp (mc_evm m2)) + (if sends ?U (mc_stack m2) then 2300 else 0)"
    have "callee \<le> c" using m2(2,3) assms(4) [OF run(3), of "mc_stack m"] by (auto simp: callee_def split: if_splits)
    then have callee: "callee < n" "unat (mc_gas m2) + callee < unat (mc_gas m)"
      using m2(4) assms(8) run(2) by linarith+
    then have fits: "unat (mc_gas m2) + callee < 2 ^ 64"
      using unsigned_less [of "mc_gas m", where 'a = nat] by simp
    have "outcome_ok ?A
        (\<lambda>(m', res, err). unat (mc_gas m') \<le> unat (mc_gas m2) + callee \<and> same_evm (mc_evm m2) (mc_evm m') \<and>
           length (mc_stack m') + pops = length (mc_stack m2) + 1) (op_execute op env run m2)"
      using assms(1) run len m2(2) callee fits by (intro callsD) (auto simp: callee_def)
    then show "outcome_ok ?A (\<lambda>r. turn_ok m (after_execute op r)) (op_execute op env run m2)"
      by (rule outcome_ok_mono)
        (use m2 len callee(2) bounds assms(5,6) in \<open>auto intro!: turn_ok_after intro: same_evm_trans simp: word_less_nat_alt\<close>)
  next
    fix m1 :: "('a, 'b) machine" and sz
    assume "mc_stack m1 = mc_stack m"
    then have "outcome_ok ?A (call_priced (if sends' ?U (mc_stack m) then 9000 else 0) m1) (f env m1 sz)"
      using assms(3) len unfolding gas_call_def by metis
    then show "outcome_ok ?A (\<lambda>(m2, x). gas_rel m1 m2 \<and>
        (\<forall>c. x = Inr c \<longrightarrow> unat (ev_callGasTemp (mc_evm m2)) + (if sends' ?U (mc_stack m) then 9000 else 0) \<le> unat c)) (dyn_price op env m1 sz)"
      unfolding dyn_price_def assms(2) option.case by (rule outcome_ok_mono) (auto simp: call_priced_def)
  qed (rule mem_fun_size [OF assms(7) len])
qed

section \<open>Every entry of the tables\<close>

lemma gas_fun_price:
  "op_dynamicGas op = None \<Longrightarrow> gas_fun 0 pops (dyn_price op)"
  "op_dynamicGas op = Some f \<Longrightarrow> gas_fun k pops' f \<Longrightarrow> pops' \<le> pops \<Longrightarrow> gas_fun k pops (dyn_price op)"
proof -
  assume f: "op_dynamicGas op = Some f" "gas_fun k pops' f" "pops' \<le> pops"
  show "gas_fun k pops (dyn_price op)"
    using f(2) unfolding gas_fun_def dyn_price_def f(1) option.case
    by (elim all_forward) (erule outcome_ok_mono; use f(3) in auto)
qed (simp add: gas_fun_def dyn_price_def)

lemma gas_fun_mono: "gas_fun k pops f \<Longrightarrow> gas_fun 0 pops f"
  unfolding gas_fun_def by (elim all_forward) (erule outcome_ok_mono; auto)

lemma Back_ok: "i < length st \<Longrightarrow> no_stack_panic (Back st i)"
  by (simp add: Back_def)

lemma mem_range_ok:
  "i < length st \<Longrightarrow> j < length st \<Longrightarrow> no_stack_panic (mem_range i j U st)"
  "i < length st \<Longrightarrow> no_stack_panic (mem_range_fixed i n U st)"
  by (simp_all add: mem_range_def mem_range_fixed_def no_stack_panic_andThen Back_ok)

lemma mem_range_max_ok:
  "i < length st \<Longrightarrow> j < length st \<Longrightarrow> k < length st \<Longrightarrow> l < length st \<Longrightarrow> no_stack_panic (mem_range_max i j k l U st)"
  unfolding mem_range_max_def
  by (rule no_stack_panic_andThen, rule mem_range_ok) (auto intro!: no_stack_panic_andThen mem_range_ok)

lemma memory_size_ok:
  "2 \<le> length st \<Longrightarrow> no_stack_panic (memorySha3 U st)" "3 \<le> length st \<Longrightarrow> no_stack_panic (memoryCallDataCopy U st)"
  "3 \<le> length st \<Longrightarrow> no_stack_panic (memoryReturnDataCopy U st)" "3 \<le> length st \<Longrightarrow> no_stack_panic (memoryCodeCopy U st)"
  "4 \<le> length st \<Longrightarrow> no_stack_panic (memoryExtCodeCopy U st)" "1 \<le> length st \<Longrightarrow> no_stack_panic (memoryMLoad U st)"
  "2 \<le> length st \<Longrightarrow> no_stack_panic (memoryMStore U st)" "2 \<le> length st \<Longrightarrow> no_stack_panic (memoryMStore8 U st)"
  "3 \<le> length st \<Longrightarrow> no_stack_panic (memoryCreate U st)" "4 \<le> length st \<Longrightarrow> no_stack_panic (memoryCreate2 U st)"
  "7 \<le> length st \<Longrightarrow> no_stack_panic (memoryCall U st)" "6 \<le> length st \<Longrightarrow> no_stack_panic (memoryDelegateCall U st)"
  "6 \<le> length st \<Longrightarrow> no_stack_panic (memoryStaticCall U st)" "2 \<le> length st \<Longrightarrow> no_stack_panic (memoryReturn U st)"
  "2 \<le> length st \<Longrightarrow> no_stack_panic (memoryRevert U st)" "Suc (Suc n) \<le> length st \<Longrightarrow> no_stack_panic (memoryLog U st)"
  unfolding memorySha3_def memoryCallDataCopy_def memoryReturnDataCopy_def memoryCodeCopy_def memoryExtCodeCopy_def
    memoryMLoad_def memoryMStore8_def memoryMStore_def memoryCreate_def memoryCreate2_def memoryCall_def memoryDelegateCall_def
    memoryStaticCall_def memoryReturn_def memoryRevert_def memoryLog_def
  by (intro mem_range_ok mem_range_max_ok; linarith)+

lemmas op_simps = operation_of_def minStack_def maxStack_def minDupStack_def maxDupStack_def minSwapStack_def maxSwapStack_def
  mem_fun_def memory_size_ok

lemma op_ok_simple:
  "op_dynamicGas op = None \<Longrightarrow> op_execute op = ex \<Longrightarrow> plain p q ex \<Longrightarrow> op_minStack op = int p \<Longrightarrow>
   op_maxStack op = 1024 + int p - int q \<Longrightarrow> op_memorySize op = None \<Longrightarrow> op_constantGas op \<noteq> 0 \<Longrightarrow> op_ok op"
  by (rule op_ok_frugal [OF frugal_plain]) (auto intro: gas_fun_price simp: mem_fun_def unat_gt_0)

lemma op_ok_dyn:
  "op_execute op = ex \<Longrightarrow> frugal p q ex \<Longrightarrow> op_dynamicGas op = Some f \<Longrightarrow> gas_fun k p' f \<Longrightarrow> p' \<le> p \<Longrightarrow> op_minStack op = int p \<Longrightarrow>
   op_maxStack op = 1024 + int p - int q \<Longrightarrow> mem_fun p op \<Longrightarrow> op_constantGas op \<noteq> 0 \<or> 0 < k \<Longrightarrow> op_ok op"
  by (rule op_ok_frugal) (auto intro: gas_fun_price simp: unat_gt_0)

lemmas gas_funs = gas_fun_memory gas_fun_copy gas_fun_exp gas_fun_sstore gas_fun_sstore2929 gas_fun_access gas_fun_extcodecopy2929
  gas_fun_log

lemmas frugals = plain_rules [THEN frugal_plain] frugal_opCreate frugal_opCreate2

lemma op_ok_stop: "op_ok ((operation_of opStop 0 (minStack 0 0) (maxStack 0 0))\<lparr>op_halts := True\<rparr>)"
  by (rule op_ok_halt, simp add: operation_of_def, rule plain_rules) (simp_all add: op_simps gas_fun_price)

lemma op_ok_free:
  "op_halts op \<or> op_reverts op \<Longrightarrow> op_execute op = ex \<Longrightarrow> plain p q ex \<Longrightarrow> op_dynamicGas op = Some f \<Longrightarrow> gas_fun k p' f \<Longrightarrow> p' \<le> p \<Longrightarrow>
   op_minStack op = int p \<Longrightarrow> mem_fun p op \<Longrightarrow> op_ok op"
  by (rule op_ok_halt) (auto intro: gas_fun_price gas_fun_mono)

lemma ops_listed:
  "\<forall>(b, op) \<in> set (frontier_arithmetic @ frontier_bits @ frontier_environment @ frontier_block @ frontier_flow @ later_entries). op_ok op"
  unfolding frontier_arithmetic_def frontier_bits_def frontier_environment_def frontier_block_def frontier_flow_def later_entries_def
    append.simps list.set ball_simps prod.case
  by (intro conjI TrueI, rule op_ok_stop,
      (rule op_ok_simple, (simp add: operation_of_def; fail), simp add: operation_of_def, rule plain_rules, (simp add: op_simps)+ |
       rule op_ok_free, (simp add: operation_of_def; fail), simp add: operation_of_def, rule plain_rules, simp add: operation_of_def,
         rule gas_funs, (simp add: op_simps)+ |
       rule op_ok_dyn, simp add: operation_of_def, rule frugals, simp add: operation_of_def, rule gas_funs, (simp add: op_simps)+)+)

lemma ops_push: "\<forall>(b, op) \<in> set frontier_push. op_ok op"
  unfolding frontier_push_def list.set ball_simps prod.case
  by (intro conjI, rule op_ok_simple, (simp add: operation_of_def; fail), simp add: operation_of_def, rule plain_rules, (simp add: op_simps)+)
    (auto intro!: op_ok_simple [where ex = "makePush k n" for k n, OF _ _ plain_push(20)] simp: op_simps)

lemma ops_dup: "\<forall>(b, op) \<in> set frontier_dup. op_ok op"
proof -
  have "op_ok (operation_of (makeDup n) GasFastestStep (minDupStack (int n)) (maxDupStack (int n)))" if "1 \<le> n" for n
    by (rule op_ok_simple [OF _ _ plain_dup [OF that]]) (simp_all add: op_simps)
  then show ?thesis by (auto simp: frontier_dup_def)
qed

lemma ops_swap: "\<forall>(b, op) \<in> set frontier_swap. op_ok op"
proof -
  have "op_ok (operation_of (makeSwap n) GasFastestStep (minSwapStack (int n + 1)) (maxSwapStack (int n + 1)))" for n
    by (rule op_ok_simple [OF _ _ plain_swap]) (simp_all add: op_simps)
  then show ?thesis by (auto simp: frontier_swap_def)
qed

lemma ops_log: "\<forall>(b, op) \<in> set frontier_log. op_ok op"
proof -
  have "op_ok ((operation_of (makeLog n) 0 (minStack (int n + 2) 0) (maxStack (int n + 2) 0))
         \<lparr>op_dynamicGas := Some (makeGasLog g), op_memorySize := Some memoryLog, op_writes := True\<rparr>)" for n g
    by (rule op_ok_dyn [OF _ frugal_plain [OF plain_log] _ gas_fun_log]) (auto simp: op_simps intro: memory_size_ok(16))
  then show ?thesis by (auto simp: frontier_log_def)
qed

section \<open>The operations that call\<close>

lemma gas_call_mono: "gas_call sends p f \<Longrightarrow> p \<le> p' \<Longrightarrow> gas_call sends p' f"
  by (simp add: gas_call_def)

lemma op_ok_calling:
  "op_execute op = ex \<Longrightarrow> calls sends p ex \<Longrightarrow> op_dynamicGas op = Some f \<Longrightarrow> gas_call sends' p' f \<Longrightarrow> p' \<le> p \<Longrightarrow>
   (\<And>U st. uint256_ok U \<Longrightarrow> sends U st \<Longrightarrow> sends' U st) \<Longrightarrow> op_minStack op = int p \<Longrightarrow>
   op_maxStack op = 1023 + int p \<Longrightarrow> mem_fun p op \<Longrightarrow> op_constantGas op \<noteq> 0 \<Longrightarrow> op_ok op"
  by (rule op_ok_call [where sends = sends and sends' = sends']) (auto intro: gas_call_mono simp: unat_gt_0)

lemma gas_call_plain2: "gas_call (\<lambda>U st. False) 2 gasDelegateCall" "gas_call (\<lambda>U st. False) 2 gasStaticCall"
  by (rule gas_call_mono [OF gas_call_plain(1)], simp, rule gas_call_mono [OF gas_call_plain(2)], simp)

lemmas gas_calls = gas_call_plain gas_call_callcode gas_call_call
  gas_call_plain2 [THEN gas_call_2929, folded gasDelegateCallEIP2929_def gasStaticCallEIP2929_def, simplified]
  gas_call_callcode [THEN gas_call_2929, folded gasCallCodeEIP2929_def, simplified]
  gas_call_call [THEN gas_call_2929, folded gasCallEIP2929_def, simplified]

lemmas calls_rules = calls_opCall calls_opCallCode calls_opDelegateCall calls_opStaticCall

lemma nonzero_sign: "uint256_ok U \<Longrightarrow> \<not> u_IsZero U x \<Longrightarrow> u_Sign U x \<noteq> 0"
proof -
  assume "uint256_ok U" "\<not> u_IsZero U x"
  moreover have "sint x = 0 \<Longrightarrow> x = 0" by (rule signed_word_eqI) simp
  ultimately show ?thesis by (auto simp: uint256_ok_def sgn_0_0)
qed

lemma ops_calls: "\<forall>(b, op) \<in> set frontier_calls. op_ok op"
  unfolding frontier_calls_def list.set ball_simps prod.case
  by (intro conjI TrueI,
       (rule op_ok_free, (simp add: operation_of_def; fail), simp add: operation_of_def, rule plain_rules, simp add: operation_of_def,
         rule gas_funs gas_fun_selfdestruct, (simp add: op_simps)+ |
        rule op_ok_dyn, simp add: operation_of_def, rule frugals, simp add: operation_of_def, rule gas_funs, (simp add: op_simps)+ |
        rule op_ok_calling, simp add: operation_of_def, rule calls_rules, simp add: operation_of_def, rule gas_calls,
         (simp add: op_simps nonzero_sign)+)+)

lemma ops_repriced: "\<forall>(b, ops) \<in> set repriced. \<forall>op \<in> set ops. op_ok op"
  unfolding repriced_def priced_def list.map list.set ball_simps prod.case
  by (intro conjI TrueI,
       (rule op_ok_simple, (simp add: operation_of_def; fail), simp add: operation_of_def, rule plain_rules, (simp add: op_simps)+ |
        rule op_ok_free, (simp add: operation_of_def; fail), simp add: operation_of_def, rule plain_rules, simp add: operation_of_def,
         rule gas_funs gas_fun_selfdestruct, (simp add: op_simps)+ |
        rule op_ok_dyn, simp add: operation_of_def, rule frugals, simp add: operation_of_def, rule gas_funs, (simp add: op_simps)+ |
        rule op_ok_calling, simp add: operation_of_def, rule calls_rules, simp add: operation_of_def, rule gas_calls,
         (simp add: op_simps nonzero_sign)+)+)

section \<open>The interpreter\<close>

text \<open>Besides the operations themselves: the write protection looks at the third operand of \<open>CALL\<close>.\<close>

definition table_ok :: "('t, 's) JumpTable \<Rightarrow> bool" where
  "table_ok jt \<longleftrightarrow> (\<forall>b op. jt b = Some op \<longrightarrow> op_ok op \<and> (b = OP_CALL \<longrightarrow> 3 \<le> op_minStack op))"

lemma entry_op_ok: "entry b op \<Longrightarrow> op_ok op"
proof (rule entry_all [where P = "\<lambda>b. op_ok"])
  show "\<forall>(b, op) \<in> set frontier_entries. op_ok op"
    unfolding frontier_entries_def set_append using ops_listed ops_push ops_dup ops_swap ops_log ops_calls by auto
  show "\<forall>(b, op) \<in> set later_entries. op_ok op" using ops_listed by auto
qed (rule ops_repriced)

lemma table_ok_within: "within jt \<Longrightarrow> table_ok jt"
proof -
  assume "within jt"
  moreover have "3 \<le> op_minStack op" if "entry OP_CALL op" for op
    using that unfolding entry_priced [OF repriced_lookup(8)] by (auto simp: operation_of_def minStack_def)
  ultimately show ?thesis unfolding within_def table_ok_def using entry_op_ok by blast
qed

lemma check_write_ok: "opc = OP_CALL \<Longrightarrow> 3 \<le> length (mc_stack m) \<Longrightarrow> no_stack_panic (check_write env opc op m)"
  "opc \<noteq> OP_CALL \<Longrightarrow> no_stack_panic (check_write env opc op m)"
  by (auto simp: check_write_def intro!: no_stack_panic_andThen Back_ok)

lemma turn_ok_stop: "turn_ok m (Done m [] err)"
  by (simp add: turn_ok_def)

lemma step_ok:
  assumes "table_ok jt" "meters n run" "uint256_ok (ee_uint256 env)" "unat (mc_gas m) \<le> n"
  shows "outcome_ok (\<lambda>p. p \<noteq> StackPanic) (turn_ok m) (step env jt run m)"
proof (cases "jt (GetOp (mc_contract m) (mc_pc m))")
  case None
  then show ?thesis by (simp add: step_def turn_ok_stop)
next
  case (Some op)
  then have op: "op_ok op" "GetOp (mc_contract m) (mc_pc m) = OP_CALL \<Longrightarrow> 3 \<le> op_minStack op"
    using assms(1) by (auto simp: table_ok_def)
  show ?thesis
  proof (cases "check_stack op (mc_stack m)")
    case None
    then have "no_stack_panic (check_write env (GetOp (mc_contract m) (mc_pc m)) op m)"
      using op(2) by (cases "GetOp (mc_contract m) (mc_pc m) = OP_CALL") (simp_all add: check_stack_None check_write_ok)
    moreover have "outcome_ok (\<lambda>p. p \<noteq> StackPanic) (turn_ok m) (pay_and_execute env run op m)"
      using op_okD [OF op(1) assms(2-4) None] .
    ultimately show ?thesis
      using Some None by (auto simp: step_def turn_ok_stop split: option.split intro!: ok_then)
  qed (use Some in \<open>simp add: step_def turn_ok_stop\<close>)
qed

lemma enter_leave: "same_evm (enter evm ro) evm' \<Longrightarrow> same_evm evm (leave evm ro evm')"
  by (auto simp: same_evm_def enter_def leave_def)

lemma Run_loop_meters:
  assumes "\<And>m. unat (mc_gas m) < n \<Longrightarrow>
    outcome_ok (\<lambda>p. p \<noteq> StackPanic) (\<lambda>(m', ret, err). mc_gas m' \<le> mc_gas m \<and> same_evm (mc_evm m) (mc_evm m')) (lp m)"
  shows "meters n (Run_loop lp)"
  unfolding meters_def
proof (intro allI impI)
  fix evm :: "('a, 'b) EVM" and c :: Contract and input ro
  assume "unat (c_Gas c) < n"
  then have "unat (mc_gas (new_frame (enter evm ro) c input)) < n" by (simp add: new_frame_def mc_gas_def)
  from assms [OF this] show "outcome_ok (\<lambda>p. p \<noteq> StackPanic) (\<lambda>(evm', c', ret, err). c_Gas c' \<le> c_Gas c \<and> same_evm evm evm')
      (Run_loop lp evm c input ro)"
    by (auto simp: Run_loop_def Let_def new_frame_def mc_gas_def enter_leave outcome_ok_andThen elim!: outcome_ok_mono)
qed

lemma loop_ok:
  assumes "table_ok jt" "uint256_ok (ee_uint256 env)" "unat (mc_gas m) < fuel"
  shows "outcome_ok (\<lambda>p. p \<noteq> StackPanic) (\<lambda>(m', ret, err). mc_gas m' \<le> mc_gas m \<and> same_evm (mc_evm m) (mc_evm m')) (loop fuel env jt m)"
  using assms(3)
proof (induction fuel arbitrary: m)
  case (Suc n)
  have "outcome_ok (\<lambda>p. p \<noteq> StackPanic) (turn_ok m) (step env jt (Run_loop (loop n env jt)) m)"
    by (rule step_ok [OF assms(1) Run_loop_meters [OF Suc.IH] assms(2)]) (use Suc.prems in \<open>simp_all add: less_Suc_eq_le\<close>)
  then show ?case
    unfolding loop.simps
  proof (rule outcome_ok_andThenI)
    fix t assume t: "turn_ok m t"
    show "outcome_ok (\<lambda>p. p \<noteq> StackPanic) (\<lambda>(m', ret, err). mc_gas m' \<le> mc_gas m \<and> same_evm (mc_evm m) (mc_evm m'))
        (case t of Continue m \<Rightarrow> loop n env jt m | Done m ret err \<Rightarrow> Ret (m, ret, err))"
    proof (cases t)
      case (Continue m')
      with t have m': "mc_gas m' < mc_gas m" "same_evm (mc_evm m) (mc_evm m')" by (simp_all add: turn_ok_def)
      with Suc.prems have "unat (mc_gas m') < n" by (simp add: word_less_nat_alt)
      from Suc.IH [OF this] show ?thesis
        unfolding Continue turn.case by (rule outcome_ok_mono) (use m' in \<open>auto intro: same_evm_trans order_trans [OF _ less_imp_le]\<close>)
    qed (use t in \<open>simp add: turn_ok_def\<close>)
  qed
qed simp

lemma Run_meters: "table_ok jt \<Longrightarrow> uint256_ok (ee_uint256 env) \<Longrightarrow> meters fuel (Run fuel env jt)"
  unfolding Run_def by (rule Run_loop_meters, rule loop_ok)

text \<open>
  The turns of one run: the frames that a run of a contract passes through, each by one turn of the loop with the
  interpreter itself for the calls.
\<close>

inductive turns :: "('t, 's) evm_env \<Rightarrow> ('t, 's) JumpTable \<Rightarrow> ('t, 's) runner \<Rightarrow> ('t, 's) machine \<Rightarrow> ('t, 's) machine \<Rightarrow> bool"
  for env jt run m where
  start: "turns env jt run m m"
| turn: "turns env jt run m m1 \<Longrightarrow> step env jt run m1 = Ret (Continue m2) \<Longrightarrow> turns env jt run m m2"

lemma turns_ok:
  assumes "turns env jt run m m'" "table_ok jt" "meters n run" "uint256_ok (ee_uint256 env)" "unat (mc_gas m) \<le> n" "length (mc_stack m) \<le> 1024"
  shows "length (mc_stack m') \<le> 1024 \<and> mc_gas m' \<le> mc_gas m \<and> same_evm (mc_evm m) (mc_evm m')"
  using assms(1)
proof induction
  case (turn m1 m2)
  then have "unat (mc_gas m1) \<le> n" using assms(5) by (simp add: word_le_nat_alt)
  from step_ok [OF assms(2-4) this] turn.hyps(2) have "turn_ok m1 (Continue m2)" by simp
  then show ?case using turn.IH by (auto simp: turn_ok_def intro: same_evm_trans less_imp_le order_trans)
qed (simp add: assms(6))

lemma Run_ok:
  assumes "NewEVMInterpreter rules extra = Some (jt, left)" "uint256_ok (ee_uint256 env)"
  shows "unat (c_Gas c) < n \<Longrightarrow> outcome_ok (\<lambda>p. p \<noteq> StackPanic) (\<lambda>(evm', c', ret, err). c_Gas c' \<le> c_Gas c \<and> same_evm evm evm')
      (Run n env jt evm c input ro)"
    and "unat (c_Gas c) < k \<Longrightarrow> Run n env jt evm c input ro \<noteq> OutOfFuel \<Longrightarrow> Run n env jt evm c input ro = Run k env jt evm c input ro"
proof -
  have jt: "within jt" using assms(1) by (rule NewEVMInterpreter_within)
  show ok: "outcome_ok (\<lambda>p. p \<noteq> StackPanic) (\<lambda>(evm', c', ret, err). c_Gas c' \<le> c_Gas c \<and> same_evm evm evm')
      (Run n env jt evm c input ro)" if "unat (c_Gas c) < n" for n
    using Run_meters [OF table_ok_within [OF jt] assms(2), of n] that unfolding meters_def by blast
  show "Run n env jt evm c input ro = Run k env jt evm c input ro" if "unat (c_Gas c) < k" "Run n env jt evm c input ro \<noteq> OutOfFuel"
  proof (cases "n \<le> k")
    case True
    then show ?thesis using Run_le [OF jt True, of env evm c input ro] that(2) by (auto simp: fuel_le_def)
  next
    case False
    then have "fuel_le (Run k env jt evm c input ro) (Run n env jt evm c input ro)" by (intro Run_le [OF jt]) simp
    moreover have "Run k env jt evm c input ro \<noteq> OutOfFuel" using ok [OF that(1)] by (cases "Run k env jt evm c input ro") auto
    ultimately show ?thesis by (auto simp: fuel_le_def)
  qed
qed

end
