(* ===== verification/EvmStore.thy ===== *)
theory EvmStore
  imports StateSnapshots EvmProgress
begin

text \<open>
  How the EVM uses the state database. The locale \<open>evm_store\<close> is the interface: what the interpreter relies on
  of the operations of the database, as a relation between the database before and after, one for code that may
  write and a stronger one for read-only code. Its lemmas show that a run of any code stays within the relation.
\<close>

section \<open>Instructions that leave the database alone\<close>

fun outcome_if :: "(panic \<Rightarrow> bool) \<Rightarrow> ('a \<Rightarrow> bool) \<Rightarrow> 'a outcome \<Rightarrow> bool" where
  "outcome_if A Q (Ret x) = Q x"
| "outcome_if A Q (Panic p) = A p"
| "outcome_if A Q OutOfFuel = True"

lemma outcome_if_andThen: "outcome_if A Q (andThen r f) = outcome_if A (\<lambda>x. outcome_if A Q (f x)) r"
  by (cases r) auto

lemma outcome_if_mono: "outcome_if A Q r \<Longrightarrow> (\<And>p. A p \<Longrightarrow> B p) \<Longrightarrow> (\<And>x. Q x \<Longrightarrow> R x) \<Longrightarrow> outcome_if B R r"
  by (cases r) auto

lemma outcome_if_must: "outcome_if A Q (must p r) = (case r of None \<Rightarrow> A p | Some x \<Rightarrow> Q x)"
  by (simp add: must_def split: option.splits)

lemma outcome_if_Back: "outcome_if A Q (Back st n) = (if n < length st then Q (st ! n) else A StackPanic)"
  by (simp add: Back_def)

text \<open>The panics of code that runs on a database that keeps the contract below.\<close>

abbreviation code_panic :: "panic \<Rightarrow> bool" where
  "code_panic p \<equiv> p \<noteq> RevisionPanic \<and> p \<noteq> GasPoolPanic"

definition same_store :: "('t, 's) EVM \<Rightarrow> ('t, 's) EVM \<Rightarrow> bool" where
  "same_store e e' \<longleftrightarrow> ev_StateDB e' = ev_StateDB e \<and> in_readOnly e' = in_readOnly e"

lemma same_store_simps [simp]:
  "same_store e e" "same_store e (e'\<lparr>ev_jumpdests := jd\<rparr>) = same_store e e'"
  "same_store e (e'\<lparr>ev_callGasTemp := g\<rparr>) = same_store e e'" "same_store e (e'\<lparr>in_returnData := bs\<rparr>) = same_store e e'"
  by (simp_all add: same_store_def)

definition storeless :: "('t, 's) executionFunc \<Rightarrow> bool" where
  "storeless ex \<longleftrightarrow> (\<forall>env rn m. outcome_if code_panic (\<lambda>(m', res, err). same_store (mc_evm m) (mc_evm m')) (ex env rn m))"

lemma memory_panics [simp]:
  "outcome_if code_panic (\<lambda>_. True) (mem_GetPtr mem a b)" "outcome_if code_panic (\<lambda>_. True) (mem_GetCopy mem a b)"
  "outcome_if code_panic (\<lambda>_. True) (mem_Set mem u v bs)" "outcome_if code_panic (\<lambda>_. True) (mem_Set32 U mem u w)"
  "outcome_if code_panic (\<lambda>_. True) (getData bs u v)" "outcome_if code_panic (\<lambda>_. True) (mem_ptr env m x y)"
  "outcome_if code_panic (\<lambda>_. True) (mem_copy env m x y)"
  by (simp_all add: mem_GetPtr_def mem_GetCopy_def mem_Set_def mem_Set32_def getData_def Let_def mem_ptr_def mem_copy_def)

lemma mem_then:
  "outcome_if code_panic (\<lambda>_. True) r \<Longrightarrow> (\<And>p. code_panic p \<Longrightarrow> A p) \<Longrightarrow> (\<And>x. outcome_if A Q (f x)) \<Longrightarrow> outcome_if A Q (andThen r f)"
  by (cases r) auto

lemma write_then_if:
  assumes "\<And>p. code_panic p \<Longrightarrow> A p" "\<And>m'. mc_evm m' = mc_evm m \<Longrightarrow> outcome_if A Q (f m')"
  shows "outcome_if A Q (andThen (mem_write env m x y bs) f)"
  unfolding mem_write_def
  by (cases "mem_Set (mc_memory m) (u_Uint64 (ee_uint256 env) x) (u_Uint64 (ee_uint256 env) y) bs")
    (use assms memory_panics(3) [of "mc_memory m" "u_Uint64 (ee_uint256 env) x" "u_Uint64 (ee_uint256 env) y" bs] in auto)

lemma storeless_arithmetic:
  "storeless opAdd" "storeless opSub" "storeless opMul" "storeless opDiv" "storeless opSdiv" "storeless opMod" "storeless opSmod"
  "storeless opExp" "storeless opSignExtend" "storeless opNot" "storeless opLt" "storeless opGt" "storeless opSlt" "storeless opSgt"
  "storeless opEq" "storeless opIszero" "storeless opAnd" "storeless opOr" "storeless opXor" "storeless opByte" "storeless opAddmod"
  "storeless opMulmod" "storeless opSHL" "storeless opSHR" "storeless opSAR"
  by (simp_all add: storeless_def pops opAdd_def opSub_def opMul_def opDiv_def opSdiv_def opMod_def opSmod_def opExp_def
        opSignExtend_def opNot_def opLt_def opGt_def opSlt_def opSgt_def opEq_def opIszero_def opAnd_def opOr_def opXor_def
        opByte_def opAddmod_def opMulmod_def opSHL_def opSHR_def opSAR_def Let_def split: list.split)

lemma storeless_push:
  "storeless opAddress" "storeless opOrigin" "storeless opCaller" "storeless opCallValue" "storeless opCallDataSize"
  "storeless opReturnDataSize" "storeless opCodeSize" "storeless opGasprice" "storeless opCoinbase"
  "storeless opTimestamp" "storeless opNumber" "storeless opDifficulty" "storeless opGasLimit"
  "storeless opChainID" "storeless opPc" "storeless opMsize" "storeless opGas" "storeless opPush1"
  "storeless (makePush k n)" "storeless opJumpdest" "storeless opBeginSub" "storeless opStop" "storeless opPop"
  "storeless (makeDup n)" "storeless (makeSwap n)" "storeless opReturnSub" "storeless opBlockhash"
  by (simp_all add: storeless_def pushers pops opAddress_def opOrigin_def opCaller_def opCallValue_def opCallDataSize_def
        opReturnDataSize_def opCodeSize_def opGasprice_def opCoinbase_def opTimestamp_def opNumber_def opDifficulty_def
        opGasLimit_def opChainID_def opPc_def opMsize_def opGas_def opPush1_def makePush_def opJumpdest_def opBeginSub_def
        opStop_def opPop_def makeDup_def makeSwap_def stack_dup_def stack_swap_def opReturnSub_def opBlockhash_def Let_def
        split: list.split prod.split)

lemma storeless_memory:
  "storeless opCallDataLoad" "storeless opCallDataCopy" "storeless opReturnDataCopy" "storeless opCodeCopy"
  "storeless opMload" "storeless opMstore" "storeless opMstore8" "storeless opReturn" "storeless opRevert"
  by (auto simp: storeless_def pops opCallDataLoad_def opCallDataCopy_def opReturnDataCopy_def opCodeCopy_def
        opMload_def opMstore_def opMstore8_def opReturn_def opRevert_def Let_def
        intro!: mem_then write_then_if split: list.split prod.split)

lemma validJumpdest_panics [simp]:
  "outcome_if code_panic (\<lambda>_. True) (validJumpdest U c jd x)" "outcome_if code_panic (\<lambda>_. True) (validJumpSubdest c jd u)"
  by (auto simp: validJumpdest_def validJumpSubdest_def isCode_def isCode_by_def outcome_if_andThen outcome_if_must
        split: prod.splits option.splits)

lemma storeless_jumps: "storeless opJump" "storeless opJumpi" "storeless opJumpSub"
  by (auto simp: storeless_def pops opJump_def opJumpi_def opJumpSub_def jump_to_def Let_def set_jumps_def
        intro!: mem_then split: list.split)

lemmas storeless_rules = storeless_arithmetic storeless_push storeless_memory storeless_jumps

section \<open>The interface\<close>

text \<open>The operations that read-only code makes: reads, warming the access list, preimages and transfers of nothing.\<close>

fun quiet_op :: "db_op \<Rightarrow> bool" where
  "quiet_op (op_AddBalance a n) = (n = 0)"
| "quiet_op (op_SubBalance a n) = (n = 0)"
| "quiet_op (op_AddPreimage h bs) = True"
| "quiet_op (op_AddAddressToAccessList a) = True"
| "quiet_op (op_AddSlotToAccessList a k) = True"
| "quiet_op (op_Exist a) = True"
| "quiet_op (op_Empty a) = True"
| "quiet_op (op_GetBalance a) = True"
| "quiet_op (op_GetNonce a) = True"
| "quiet_op (op_GetCodeHash a) = True"
| "quiet_op (op_HasSuicided a) = True"
| "quiet_op (op_GetCode a) = True"
| "quiet_op (op_GetCodeSize a) = True"
| "quiet_op (op_GetState a k) = True"
| "quiet_op (op_GetCommittedState a k) = True"
| "quiet_op _ = False"

definition plain_op :: "db_op \<Rightarrow> bool" where
  "plain_op op \<longleftrightarrow> op \<noteq> op_Snapshot \<and> (\<forall>n. op \<noteq> op_RevertToSnapshot n)"

text \<open>
  \<open>inv\<close> holds of every database the EVM works on; \<open>chg q\<close> relates the database before and after, \<open>q\<close> saying that
  the code is read-only; \<open>like\<close> says that no client sees a difference. A revert to a snapshot undoes whatever
  code did since.
\<close>

locale evm_store =
  fixes env :: "('t, 's) evm_env"
    and inv :: "('t, 's) StateDB \<Rightarrow> bool"
    and chg :: "bool \<Rightarrow> ('t, 's) StateDB \<Rightarrow> ('t, 's) StateDB \<Rightarrow> bool"
    and like :: "('t, 's) StateDB \<Rightarrow> ('t, 's) StateDB \<Rightarrow> bool"
  assumes chg_refl: "chg q s s"
    and chg_trans: "inv s \<Longrightarrow> chg q s s' \<Longrightarrow> chg q s' s'' \<Longrightarrow> chg q s s''"
    and chg_quiet: "chg True s s' \<Longrightarrow> chg q s s'"
    and chg_inv: "inv s \<Longrightarrow> chg q s s' \<Longrightarrow> inv s'"
    and quiet: "inv s \<Longrightarrow> quiet_op op \<Longrightarrow> run_op (ee_backend env) op s = Some s' \<Longrightarrow> chg True s s'"
    and loud: "inv s \<Longrightarrow> plain_op op \<Longrightarrow> run_op (ee_backend env) op s = Some s' \<Longrightarrow> chg False s s'"
    and create: "inv s \<Longrightarrow> \<not> snd (Exist (ee_backend env) s a) \<Longrightarrow> 
      chg True s (CreateAccount (ee_backend env) (fst (Exist (ee_backend env) s a)) a)"
    and snapshot: "inv s \<Longrightarrow> Snapshot s = (s', i) \<Longrightarrow> chg True s s'"
    and revert: "inv s \<Longrightarrow> Snapshot s = (s1, i) \<Longrightarrow> chg False s1 s2 \<Longrightarrow>
      \<exists>s3. RevertToSnapshot (ee_backend env) s2 i = Some s3 \<and> chg True s s3 \<and> like s s3"
    and like_refl: "like s s"
    and like_trans: "like s s' \<Longrightarrow> like s' s'' \<Longrightarrow> like s s''"
    and like_balance: "inv s \<Longrightarrow> like s (fst (GetBalance (ee_backend env) s a))"
begin

definition goes :: "bool \<Rightarrow> ('t, 's) StateDB \<Rightarrow> ('t, 's) StateDB \<Rightarrow> bool" where
  "goes q s s' \<longleftrightarrow> (inv s \<longrightarrow> chg q s s')"

lemma goes_refl [simp]: "goes q s s"
  by (simp add: goes_def chg_refl)

lemma goes_trans: "goes q s s' \<Longrightarrow> goes q s' s'' \<Longrightarrow> goes q s s''"
  unfolding goes_def using chg_trans chg_inv by blast

lemma goes_quiet: "goes True s s' \<Longrightarrow> goes q s s'"
  unfolding goes_def using chg_quiet by blast

lemma goes_loud: "goes q s s' \<Longrightarrow> goes False s s'"
  using goes_quiet by (cases q) auto

lemma goes_inv: "goes q s s' \<Longrightarrow> inv s \<Longrightarrow> inv s'"
  unfolding goes_def using chg_inv by blast

lemma goes_quiet_op: "quiet_op op \<Longrightarrow> run_op (ee_backend env) op s = Some s' \<Longrightarrow> goes q s s'"
  by (rule goes_quiet) (simp add: goes_def quiet)

lemma goes_plain_op: "plain_op op \<Longrightarrow> run_op (ee_backend env) op s = Some s' \<Longrightarrow> goes False s s'"
  by (simp add: goes_def loud)

lemma goes_weaken: "(q \<Longrightarrow> q') \<Longrightarrow> goes q' s s' \<Longrightarrow> goes q s s'"
  using goes_quiet by (cases q; cases q') auto

abbreviation be :: "('t, 's) backend" where
  "be \<equiv> ee_backend env"

lemma goes_reads [simp]:
  "goes q s (fst (Exist be s a))" "goes q s (fst (Empty be s a))" "goes q s (fst (GetBalance be s a))"
  "goes q s (fst (GetNonce be s a))" "goes q s (fst (GetCodeHash be s a))" "goes q s (fst (HasSuicided be s a))"
  "goes q s (fst (GetCode be s a))" "goes q s (fst (GetCodeSize be s a))" "goes q s (fst (GetState be s a k))"
  "goes q s (fst (GetCommittedState be s a k))" "goes q s (AddAddressToAccessList s a)" "goes q s (AddPreimage s h bs)"
  "goes q s (AddBalance be s a 0)" "goes q s (SubBalance be s a 0)"
  by (rule goes_quiet_op [of "op_Exist a"] goes_quiet_op [of "op_Empty a"] goes_quiet_op [of "op_GetBalance a"]
      goes_quiet_op [of "op_GetNonce a"] goes_quiet_op [of "op_GetCodeHash a"] goes_quiet_op [of "op_HasSuicided a"]
      goes_quiet_op [of "op_GetCode a"] goes_quiet_op [of "op_GetCodeSize a"] goes_quiet_op [of "op_GetState a k"]
      goes_quiet_op [of "op_GetCommittedState a k"] goes_quiet_op [of "op_AddAddressToAccessList a"]
      goes_quiet_op [of "op_AddPreimage h bs"] goes_quiet_op [of "op_AddBalance a 0"] goes_quiet_op [of "op_SubBalance a 0"];
      simp; fail)+

lemma goes_slot: "AddSlotToAccessList s a k = Some s' \<Longrightarrow> goes q s s'"
  by (rule goes_quiet_op [of "op_AddSlotToAccessList a k"]) simp_all

lemma goes_writes [simp]:
  "goes False s (CreateAccount be s a)" "goes False s (AddBalance be s a n)" "goes False s (SubBalance be s a n)"
  "goes False s (SetNonce be s a v)" "goes False s (SetCode be s a c)" "goes False s (SetState be s a k w)"
  "goes False s (fst (Suicide be s a))" "goes False s (AddLog s log)" "goes False s (AddRefund s g)"
  by (rule goes_plain_op [of "op_CreateAccount a"] goes_plain_op [of "op_AddBalance a n"] goes_plain_op [of "op_SubBalance a n"]
      goes_plain_op [of "op_SetNonce a v"] goes_plain_op [of "op_SetCode a c"] goes_plain_op [of "op_SetState a k w"]
      goes_plain_op [of "op_Suicide a"] goes_plain_op [of "op_AddLog log"] goes_plain_op [of "op_AddRefund g"];
      simp add: plain_op_def; fail)+

lemma goes_SubRefund: "SubRefund s g = Some s' \<Longrightarrow> goes False s s'"
  by (rule goes_plain_op [of "op_SubRefund g"]) (simp_all add: plain_op_def)

lemma goes_Snapshot [simp]: "goes q s (fst (Snapshot s))"
  by (rule goes_quiet) (auto simp: goes_def intro: snapshot [OF _ prod.collapse [symmetric]])

lemma goes_Transfer: "(q \<Longrightarrow> n = 0) \<Longrightarrow> goes q s (Transfer be s a b n)"
  unfolding Transfer_def
  by (cases q) (auto intro: goes_trans [OF goes_reads(14) goes_reads(13)] goes_trans [OF goes_writes(3) goes_writes(2)])

lemma goes_create: "\<not> snd (Exist be s a) \<Longrightarrow> goes q s (CreateAccount be (fst (Exist be s a)) a)"
  by (rule goes_quiet) (simp add: goes_def create)

text \<open>The same of the EVM: besides the database, the read-only flag is as it was.\<close>

definition egoes :: "bool \<Rightarrow> ('t, 's) EVM \<Rightarrow> ('t, 's) EVM \<Rightarrow> bool" where
  "egoes q e e' \<longleftrightarrow> goes q (ev_StateDB e) (ev_StateDB e') \<and> in_readOnly e' = in_readOnly e"

lemma egoes_refl [simp]: "egoes q e e"
  by (simp add: egoes_def)

lemma egoes_trans: "egoes q e e' \<Longrightarrow> egoes q e' e'' \<Longrightarrow> egoes q e e''"
  by (auto simp: egoes_def intro: goes_trans)

lemma egoes_same: "same_store e e' \<Longrightarrow> egoes q e e'"
  by (simp add: egoes_def same_store_def)

lemma egoes_set [simp]: "egoes q e (e\<lparr>ev_StateDB := s\<rparr>) = goes q (ev_StateDB e) s"
  by (simp add: egoes_def)

lemma egoes_updates [simp]:
  "egoes q e (e'\<lparr>ev_jumpdests := jd\<rparr>) = egoes q e e'" "egoes q e (e'\<lparr>ev_callGasTemp := g\<rparr>) = egoes q e e'"
  "egoes q e (e'\<lparr>in_returnData := bs\<rparr>) = egoes q e e'"
  by (simp_all add: egoes_def)

definition kept :: "bool \<Rightarrow> ('t, 's) EVM \<Rightarrow> ('a \<Rightarrow> ('t, 's) EVM) \<Rightarrow> 'a outcome \<Rightarrow> bool" where
  "kept q e get = outcome_if (\<lambda>p. inv (ev_StateDB e) \<longrightarrow> code_panic p) (\<lambda>x. egoes q e (get x))"

lemma kept_Ret [simp]: "kept q e get (Ret x) = egoes q e (get x)"
  by (simp add: kept_def)

lemma kept_from: "egoes q e e' \<Longrightarrow> kept q e' get r \<Longrightarrow> kept q e get r"
  unfolding kept_def
  by (erule outcome_if_mono) (use goes_inv egoes_trans in \<open>auto simp: egoes_def\<close>)

lemma kept_andThen: "kept q e get r \<Longrightarrow> (\<And>x. kept q (get x) get' (f x)) \<Longrightarrow> kept q e get' (andThen r f)"
  by (cases r) (auto simp: kept_def intro: kept_from [unfolded kept_def])

lemma kept_weaken: "(q \<Longrightarrow> q') \<Longrightarrow> kept q' e get r \<Longrightarrow> kept q e get r"
  unfolding kept_def by (erule outcome_if_mono) (auto simp: egoes_def intro: goes_weaken)

lemma kept_mem_then: "outcome_if code_panic (\<lambda>_. True) r \<Longrightarrow> (\<And>x. kept q e get (f x)) \<Longrightarrow> kept q e get (andThen r f)"
  unfolding kept_def by (rule mem_then) auto

end

section \<open>Calls\<close>

context evm_store
begin

definition quiet_code :: "('t, 's) EVM \<Rightarrow> bool" where
  "quiet_code e \<longleftrightarrow> in_readOnly e \<and> IsByzantium (ee_chainRules env)"

lemma egoes_quiet: "egoes q e e' \<Longrightarrow> quiet_code e' = quiet_code e"
  by (simp add: egoes_def quiet_code_def)

definition runner_ok :: "('t, 's) runner \<Rightarrow> bool" where
  "runner_ok rn \<longleftrightarrow> (\<forall>e c input ro. kept (quiet_code e \<or> ro \<and> IsByzantium (ee_chainRules env)) e fst (rn e c input ro))"

lemma run_contract_kept:
  assumes "runner_ok rn" "q \<Longrightarrow> quiet_code e \<or> ro \<and> IsByzantium (ee_chainRules env)"
  shows "kept q e fst (run_contract rn e c input ro)"
  unfolding run_contract_def
  by (rule kept_weaken [OF assms(2)], assumption, rule kept_andThen) (use assms(1) in \<open>auto simp: runner_ok_def\<close>)

lemma RequiredGas_panics: "outcome_if code_panic (\<lambda>_. True) (RequiredGas p input)"
proof -
  have "outcome_if code_panic (\<lambda>_. True) (modexp_expHead bs i j)" for bs i j
    by (auto simp: modexp_expHead_def intro!: mem_then)
  then have "outcome_if code_panic (\<lambda>_. True) (modexp_gas b input)" for b
    unfolding modexp_gas_def Let_def by (intro mem_then) auto
  then show ?thesis by (cases p) auto
qed

lemma call_native_kept: "kept q e fst (call_native env e p input gas)"
  unfolding call_native_def RunPrecompiledContract_def
  by (intro kept_andThen [where get = "\<lambda>_. e"] kept_mem_then [OF RequiredGas_panics]) (auto split: prod.split)

lemma revert_ends:
  assumes "goes q (fst (Snapshot (ev_StateDB e))) s"
    and "\<And>s'. goes q (ev_StateDB e) s' \<Longrightarrow> (inv (ev_StateDB e) \<Longrightarrow> like (ev_StateDB e) s') \<Longrightarrow>
      outcome_if (\<lambda>p. inv (ev_StateDB e) \<longrightarrow> code_panic p) Q (f s')"
  shows "outcome_if (\<lambda>p. inv (ev_StateDB e) \<longrightarrow> code_panic p) Q
    (andThen (must RevisionPanic (RevertToSnapshot be s (snd (Snapshot (ev_StateDB e))))) f)"
proof (cases "inv (ev_StateDB e)")
  case True
  then have "inv (fst (Snapshot (ev_StateDB e)))" by (rule goes_inv [OF goes_Snapshot])
  then have "chg False (fst (Snapshot (ev_StateDB e))) s" using goes_loud [OF assms(1)] by (simp add: goes_def)
  from revert [OF True prod.collapse [symmetric] this] show ?thesis
    using assms(2) chg_quiet by (auto simp: must_def goes_def)
next
  case False
  then have "outcome_if (\<lambda>p. inv (ev_StateDB e) \<longrightarrow> code_panic p) Q (f s')" for s' by (intro assms(2)) (simp_all add: goes_def)
  with False show ?thesis by (auto simp: must_def split: option.split)
qed

lemma revert_kept:
  assumes "goes q (fst (Snapshot (ev_StateDB e))) s" "\<And>s'. goes q (ev_StateDB e) s' \<Longrightarrow> kept q e get (f s')"
  shows "kept q e get (andThen (must RevisionPanic (RevertToSnapshot be s (snd (Snapshot (ev_StateDB e))))) f)"
  using assms(2) unfolding kept_def by (intro revert_ends [OF assms(1)]) simp

text \<open>How a call ends: within the relation and, on an error, with nothing to be seen of it.\<close>

definition ends :: "bool \<Rightarrow> ('t, 's) EVM \<Rightarrow> ('t, 's) call_result outcome \<Rightarrow> bool" where
  "ends q e = outcome_if (\<lambda>p. inv (ev_StateDB e) \<longrightarrow> code_panic p) (\<lambda>(e', ret, gas, err).
     egoes q e e' \<and> (err \<noteq> None \<longrightarrow> inv (ev_StateDB e) \<longrightarrow> like (ev_StateDB e) (ev_StateDB e')))"

lemma ends_Ret [simp]: "ends q e (Ret (e', ret, gas, err)) \<longleftrightarrow>
    egoes q e e' \<and> (err \<noteq> None \<longrightarrow> inv (ev_StateDB e) \<longrightarrow> like (ev_StateDB e) (ev_StateDB e'))"
  by (simp add: ends_def)

lemma ends_kept: "ends q e r \<Longrightarrow> kept q e fst r"
  unfolding kept_def ends_def by (erule outcome_if_mono) auto

lemma ends_from:
  assumes "egoes q e e0" "inv (ev_StateDB e) \<Longrightarrow> like (ev_StateDB e) (ev_StateDB e0)" "ends q e0 r"
  shows "ends q e r"
  using assms(3) unfolding ends_def
  by (rule outcome_if_mono) (use assms(1,2) goes_inv egoes_trans like_trans in \<open>fastforce simp: egoes_def\<close>)+

lemma end_call_ends:
  assumes "kept q (e\<lparr>ev_StateDB := fst (Snapshot (ev_StateDB e))\<rparr>) fst r"
  shows "ends q e (andThen r (end_call env (snd (Snapshot (ev_StateDB e)))))"
proof (cases r)
  case (Ret x)
  obtain e2 ret gas err where x: "x = (e2, ret, gas, err)" by (cases x)
  then have e2: "goes q (fst (Snapshot (ev_StateDB e))) (ev_StateDB e2)" "in_readOnly e2 = in_readOnly e"
    using assms Ret by (simp_all add: egoes_def)
  show ?thesis
    using e2(2) goes_trans [OF goes_Snapshot e2(1)] unfolding Ret x andThen.simps end_call_def prod.case
    by (cases err) (auto simp: egoes_def ends_def intro!: revert_ends [OF e2(1)])
qed (use assms goes_inv [OF goes_Snapshot] in \<open>auto simp: kept_def ends_def\<close>)

lemma foreign_code_kept:
  assumes "runner_ok rn" "q \<Longrightarrow> quiet_code e \<or> ro \<and> IsByzantium (ee_chainRules env)"
  shows "kept q e fst (foreign_code env rn e c a input ro)"
proof -
  let ?s1 = "fst (GetCodeHash be (ev_StateDB e) a)"
  let ?e = "e\<lparr>ev_StateDB := fst (GetCode be ?s1 a)\<rparr>"
  have "egoes q e ?e" using goes_trans [OF goes_reads(5) goes_reads(7)] by simp
  moreover have "kept q ?e fst (run_contract rn ?e c' input ro)" for c'
    by (rule run_contract_kept [OF assms(1)]) (use assms(2) in \<open>simp add: quiet_code_def\<close>)
  ultimately have "kept q e fst (run_contract rn ?e c' input ro)" for c'
    by (rule kept_from)
  then show ?thesis by (simp add: foreign_code_def mc_reads)
qed

lemma NewContract_store [simp]:
  "egoes q e (fst (evm_NewContract e' caller a v gas)) = egoes q e e'"
  "quiet_code (fst (evm_NewContract e' caller a v gas)) = quiet_code e'"
  by (simp_all add: evm_NewContract_def quiet_code_def split: prod.split)

lemma call_code_kept:
  assumes "runner_ok rn" "q \<Longrightarrow> quiet_code e"
  shows "kept q e fst (call_code env rn e caller a input gas v)"
proof -
  let ?e1 = "e\<lparr>ev_StateDB := fst (GetCode be (ev_StateDB e) a)\<rparr>"
  let ?e2 = "fst (evm_NewContract ?e1 caller a v gas)"
  let ?e3 = "?e2\<lparr>ev_StateDB := fst (GetCodeHash be (ev_StateDB ?e2) a)\<rparr>"
  have e2: "ev_StateDB ?e2 = fst (GetCode be (ev_StateDB e) a)" "in_readOnly ?e2 = in_readOnly e"
    by (simp_all add: evm_NewContract_def split: prod.split)
  have "egoes q e ?e3"
    using goes_trans [OF goes_reads(7) goes_reads(5)] by (simp add: egoes_def e2)
  moreover have "kept q ?e3 fst (run_contract rn ?e3 c' input False)" for c'
    by (rule run_contract_kept [OF assms(1)]) (use assms(2) in \<open>simp add: quiet_code_def e2\<close>)
  ultimately have "kept q e fst (run_contract rn ?e3 c' input False)" for c'
    by (rule kept_from)
  then show ?thesis
    by (auto simp: call_code_def mc_reads case_prod_beta call_native_kept split: option.split)
qed

lemma call_transfer_store:
  assumes "q \<Longrightarrow> v = 0"
  shows "egoes q e (call_transfer env (e\<lparr>ev_StateDB := fst (Exist be (ev_StateDB e) a)\<rparr>) (snd (Exist be (ev_StateDB e) a)) caller a v)"
proof -
  have t: "goes q s (Transfer be s (ref_Address caller) a v)" for s by (rule goes_Transfer [OF assms])
  show ?thesis
    using goes_trans [OF goes_create t] goes_trans [OF goes_reads(1) t]
    by (auto simp: call_transfer_def egoes_def Let_def)
qed

lemma CanTransfer_store [simp]: "goes q s (fst (CanTransfer be s a v))"
  by (simp add: CanTransfer_def case_prod_beta)

lemma CanTransfer_like: "inv s \<Longrightarrow> like s (fst (CanTransfer be s a v))"
  by (simp add: CanTransfer_def case_prod_beta like_balance)

lemma Call_ends:
  assumes "runner_ok rn" "q \<Longrightarrow> quiet_code e" "q \<Longrightarrow> v = 0"
  shows "ends q e (Call env rn e caller a input gas v)"
proof -
  let ?snap = "\<lambda>e0. e0\<lparr>ev_StateDB := fst (Snapshot (ev_StateDB e0))\<rparr>"
  let ?exist = "\<lambda>e1. e1\<lparr>ev_StateDB := fst (Exist be (ev_StateDB e1) a)\<rparr>"
  have body: "ends q e0 (andThen (call_code env rn (call_transfer env (?exist (?snap e0)) (snd (Exist be (ev_StateDB (?snap e0)) a))
      caller a v) caller a input gas v) (end_call env (snd (Snapshot (ev_StateDB e0)))))" if "quiet_code e0 = quiet_code e" for e0
  proof -
    let ?e1 = "?snap e0"
    let ?e3 = "call_transfer env (?exist ?e1) (snd (Exist be (ev_StateDB ?e1) a)) caller a v"
    have e3: "egoes q ?e1 ?e3" by (rule call_transfer_store [OF assms(3)])
    have "quiet_code ?e3 = quiet_code e" using egoes_quiet [OF e3] that by (simp add: quiet_code_def)
    then have "kept q ?e1 fst (call_code env rn ?e3 caller a input gas v)"
      using assms(1,2) by (intro kept_from [OF e3] call_code_kept) auto
    then show ?thesis by (rule end_call_ends)
  qed
  have quick: "egoes q e0 (?exist (?snap e0))" for e0
    using goes_trans [OF goes_Snapshot goes_reads(1)] by simp
  let ?e0 = "e\<lparr>ev_StateDB := fst (CanTransfer be (ev_StateDB e) (ref_Address caller) v)\<rparr>"
  have e0: "egoes q e ?e0" "inv (ev_StateDB e) \<Longrightarrow> like (ev_StateDB e) (ev_StateDB ?e0)" "quiet_code ?e0 = quiet_code e"
    by (simp_all add: quiet_code_def CanTransfer_like)
  show ?thesis
    using body [of e] ends_from [OF e0(1,2) body [OF e0(3)]] quick [of e] egoes_trans [OF e0(1) quick [of ?e0]]
    by (cases "v = 0") (auto simp: Call_def mc_reads like_refl CanTransfer_like)
qed

lemma CallCode_ends:
  assumes "runner_ok rn" "q \<Longrightarrow> quiet_code e"
  shows "ends q e (CallCode env rn e caller a input gas v)"
proof -
  let ?e0 = "e\<lparr>ev_StateDB := fst (CanTransfer be (ev_StateDB e) (ref_Address caller) v)\<rparr>"
  let ?e1 = "?e0\<lparr>ev_StateDB := fst (Snapshot (ev_StateDB ?e0))\<rparr>"
  let ?e2 = "fst (evm_NewContract ?e1 caller (ref_Address caller) v gas)"
  have e2: "egoes q ?e1 ?e2" by simp
  have "kept q ?e2 fst (foreign_code env rn ?e2 c a input False)" for c
    by (rule foreign_code_kept [OF assms(1)]) (use assms(2) in \<open>simp add: quiet_code_def evm_NewContract_def split: prod.split\<close>)
  note code = end_call_ends [OF kept_from [OF e2 this]]
  have e0: "egoes q e ?e0" "inv (ev_StateDB e) \<Longrightarrow> like (ev_StateDB e) (ev_StateDB ?e0)" by (simp_all add: CanTransfer_like)
  from ends_from [OF e0 code] ends_from [OF e0 end_call_ends [OF call_native_kept]] e0 show ?thesis
    by (auto simp: CallCode_def mc_reads case_prod_beta like_refl split: option.split)
qed

lemma DelegateCall_ends:
  assumes "runner_ok rn" "q \<Longrightarrow> quiet_code e"
  shows "ends q e (DelegateCall env rn e caller a input gas)"
proof -
  let ?e1 = "e\<lparr>ev_StateDB := fst (Snapshot (ev_StateDB e))\<rparr>"
  let ?e2 = "fst (evm_NewContract ?e1 caller (ref_Address caller) 0 gas)"
  have e2: "egoes q ?e1 ?e2" by simp
  have "kept q ?e2 fst (foreign_code env rn ?e2 c a input False)" for c
    by (rule foreign_code_kept [OF assms(1)]) (use assms(2) in \<open>simp add: quiet_code_def evm_NewContract_def split: prod.split\<close>)
  then have "kept q ?e2 fst (andThen (AsDelegate c) (\<lambda>c. foreign_code env rn ?e2 c a input False))" for c
    by (intro kept_mem_then) (simp add: AsDelegate_def split: ContractRef.split)
  note code = end_call_ends [OF kept_from [OF e2 this]]
  from code end_call_ends [OF call_native_kept] show ?thesis
    by (auto simp: DelegateCall_def like_refl mc_reads case_prod_beta split: option.split)
qed

lemma StaticCall_ends:
  assumes "runner_ok rn" "q \<Longrightarrow> quiet_code e \<or> IsByzantium (ee_chainRules env)"
  shows "ends q e (StaticCall env rn e caller a input gas)"
proof -
  let ?e1 = "e\<lparr>ev_StateDB := fst (Snapshot (ev_StateDB e))\<rparr>"
  let ?e2 = "?e1\<lparr>ev_StateDB := AddBalance be (ev_StateDB ?e1) a 0\<rparr>"
  let ?e3 = "fst (evm_NewContract ?e2 caller a 0 gas)"
  have e2: "egoes q ?e1 ?e2" unfolding egoes_set by simp
  then have e3: "egoes q ?e1 ?e3" by simp
  have "kept q ?e3 fst (foreign_code env rn ?e3 c a input True)" for c
    by (rule foreign_code_kept [OF assms(1)]) (use assms(2) in \<open>auto simp: quiet_code_def\<close>)
  from end_call_ends [OF kept_from [OF e3 this]] end_call_ends [OF kept_from [OF e2 call_native_kept]] show ?thesis
    by (auto simp: StaticCall_def like_refl mc_reads case_prod_beta Let_def split: option.split)
qed

lemmas calls_kept = Call_ends [THEN ends_kept] CallCode_ends [THEN ends_kept] DelegateCall_ends [THEN ends_kept]
  StaticCall_ends [THEN ends_kept]

lemma create_prepare_store [simp]: "egoes False e (create_prepare env e caller a)"
  using goes_trans [OF goes_reads(4) goes_writes(4)] goes_trans [OF _ goes_reads(11)]
  by (auto simp: create_prepare_def egoes_def case_prod_beta Let_def)

lemma create_collides_store [simp]: "egoes q e (fst (create_collides env e a))"
  using goes_trans [OF goes_reads(5) goes_reads(4)] by (simp add: create_collides_def mc_reads case_prod_beta)

lemma create_account_store [simp]: "egoes False e (create_account env e caller a v)"
  using goes_trans [OF goes_writes(1) goes_Transfer] goes_trans [OF goes_trans [OF goes_writes(1) goes_writes(4)] goes_Transfer]
  by (auto simp: create_account_def egoes_def Let_def)

lemma end_create_kept:
  assumes "kept False (e\<lparr>ev_StateDB := fst (Snapshot (ev_StateDB e))\<rparr>) fst r"
  shows "kept False e fst (andThen r (end_create env (snd (Snapshot (ev_StateDB e))) a))"
proof (cases r)
  case (Ret x)
  obtain e2 c ret err where x: "x = (e2, c, ret, err)" by (cases x)
  let ?s1 = "fst (Snapshot (ev_StateDB e))"
  have e2: "goes False ?s1 (ev_StateDB e2)" "in_readOnly e2 = in_readOnly e"
    using assms Ret x by (simp_all add: egoes_def)
  have code: "goes False ?s1 (SetCode be (ev_StateDB e2) a ret)" using goes_trans [OF e2(1) goes_writes(5)] .
  note all = goes_trans [OF goes_Snapshot e2(1)] goes_trans [OF goes_Snapshot code]
  show ?thesis
    using e2(2) all unfolding Ret x andThen.simps end_create_def prod.case Let_def case_prod_beta
    by (intro kept_andThen [where get = fst]) (auto simp: egoes_def intro!: revert_kept [OF e2(1)] revert_kept [OF code])
qed (use assms goes_inv [OF goes_Snapshot] in \<open>auto simp: kept_def\<close>)

lemma evm_create_kept:
  assumes "runner_ok rn"
  shows "kept False e fst (evm_create env rn e caller ch gas v a)"
proof -
  let ?e1 = "e\<lparr>ev_StateDB := fst (CanTransfer be (ev_StateDB e) (ref_Address caller) v)\<rparr>"
  let ?e2 = "create_prepare env ?e1 (ref_Address caller) a"
  let ?e3 = "fst (create_collides env ?e2 a)"
  let ?e4 = "?e3\<lparr>ev_StateDB := fst (Snapshot (ev_StateDB ?e3))\<rparr>"
  let ?e5 = "fst (evm_NewContract (create_account env ?e4 (ref_Address caller) a v) caller a v gas)"
  have e1: "egoes False e ?e1" by simp
  have e3: "egoes False e ?e3" using egoes_trans [OF egoes_trans [OF e1 create_prepare_store] create_collides_store] .
  have e5: "egoes False ?e4 ?e5" by simp
  have "kept False ?e5 fst (rn ?e5 c [] False)" for c
    using assms kept_weaken [of False] unfolding runner_ok_def by blast
  from kept_from [OF e3 end_create_kept [OF kept_from [OF e5 this]]]
  have run: "kept False e fst (andThen (rn ?e5 c [] False) (end_create env (snd (Snapshot (ev_StateDB ?e3))) a))" for c .
  have "egoes False ?e3 ?e4" by simp
  then have "egoes False e ?e5" using egoes_trans [OF e3] egoes_trans [OF _ e5] by blast
  then show ?thesis
    using run e1 e3 by (auto simp: evm_create_def mc_reads case_prod_beta)
qed

lemma Create_kept:
  assumes "runner_ok rn"
  shows "kept False e fst (Create env rn e caller code gas v)" "kept False e fst (Create2 env rn e caller code gas v salt)"
proof -
  let ?e1 = "e\<lparr>ev_StateDB := fst (GetNonce be (ev_StateDB e) (ref_Address caller))\<rparr>"
  have "egoes False e ?e1" by simp
  from kept_from [OF this evm_create_kept [OF assms]]
  show "kept False e fst (Create env rn e caller code gas v)"
    by (simp add: Create_def case_prod_beta)
  show "kept False e fst (Create2 env rn e caller code gas v salt)"
    using evm_create_kept [OF assms] by (simp add: Create2_def Let_def)
qed

end

section \<open>Instructions\<close>

context evm_store
begin

text \<open>What an instruction does to the database, when the stack and the read-only flag are as \<open>ok\<close> says.\<close>

definition exec_ok :: "(bool \<Rightarrow> stack \<Rightarrow> bool) \<Rightarrow> ('t, 's) executionFunc \<Rightarrow> bool" where
  "exec_ok ok ex \<longleftrightarrow> (\<forall>rn m. runner_ok rn \<longrightarrow> ok (quiet_code (mc_evm m)) (mc_stack m) \<longrightarrow>
     kept (quiet_code (mc_evm m)) (mc_evm m) (\<lambda>r. mc_evm (fst r)) (ex env rn m))"

abbreviation anyhow :: "bool \<Rightarrow> stack \<Rightarrow> bool" where
  "anyhow q st \<equiv> True"

abbreviation writing :: "bool \<Rightarrow> stack \<Rightarrow> bool" where
  "writing q st \<equiv> \<not> q"

abbreviation paying :: "bool \<Rightarrow> stack \<Rightarrow> bool" where
  "paying q st \<equiv> q \<longrightarrow> 2 < length st \<longrightarrow> u_IsZero (ee_uint256 env) (st ! 2)"

lemma exec_ok_storeless: "storeless ex \<Longrightarrow> exec_ok ok ex"
  unfolding exec_ok_def kept_def storeless_def
  by (intro allI impI, elim allE) (erule outcome_if_mono; auto intro: egoes_same)

lemma exec_ok_reads:
  "exec_ok ok opBalance" "exec_ok ok opSelfBalance" "exec_ok ok opExtCodeSize" "exec_ok ok opSload" "exec_ok ok opSha3"
  by (auto simp: exec_ok_def pops pushers opBalance_def opSelfBalance_def opExtCodeSize_def opSload_def opSha3_def mc_reads
        mc_StateDB_def Let_def case_prod_beta kept_def intro!: mem_then split: list.split)

lemma exec_ok_extcode: "exec_ok ok opExtCodeHash" "exec_ok ok opExtCodeCopy"
  using goes_trans [OF goes_reads(2) goes_reads(5)]
  by (auto simp: exec_ok_def pops opExtCodeHash_def opExtCodeCopy_def mc_reads
        mc_StateDB_def Let_def case_prod_beta kept_def intro!: mem_then write_then_if split: list.split)

lemma exec_ok_writes: "exec_ok writing opSstore" "exec_ok writing opSuicide" "exec_ok writing (makeLog n)"
  using goes_trans [OF goes_reads(3) goes_trans [OF goes_writes(2) goes_writes(7)]]
  by (auto simp: exec_ok_def pops opSstore_def opSuicide_def makeLog_def mc_reads
        mc_StateDB_def Let_def case_prod_beta kept_def intro!: mem_then split: list.split)

lemma opCall_end_kept:
  assumes "kept q (mc_evm m) fst r"
  shows "kept q (mc_evm m) (\<lambda>r. mc_evm (fst r)) (andThen r (opCall_end env a b c d args st m))"
  by (rule kept_andThen [OF assms])
    (auto simp: opCall_end_def Let_def add_gas_def kept_def split: prod.split retdata.split intro!: mem_then write_then_if)

lemma exec_ok_calls: "exec_ok paying opCall" "exec_ok ok opCallCode" "exec_ok ok opDelegateCall" "exec_ok ok opStaticCall"
  by (auto simp: exec_ok_def opCall_def opCallCode_def opDelegateCall_def opStaticCall_def stack_panic_def kept_def [symmetric]
        big_value_def split: list.split
        intro!: kept_mem_then opCall_end_kept calls_kept)
    (simp_all add: kept_def)

lemma opCreate_end_kept:
  assumes "kept q (mc_evm m) fst r"
  shows "kept q (mc_evm m) (\<lambda>r. mc_evm (fst r)) (andThen r (\<lambda>r. opCreate_end env (failed r) st (m\<lparr>mc_contract := c\<rparr>) r))"
  by (rule kept_andThen [OF assms]) (auto simp: opCreate_end_def Let_def add_gas_def split: prod.split)

lemma exec_ok_creates: "exec_ok writing opCreate" "exec_ok writing opCreate2"
  by (auto simp: exec_ok_def opCreate_def opCreate2_def pop3_def pop4_def stack_panic_def Let_def split: list.split
        intro!: kept_mem_then opCreate_end_kept Create_kept)
    (simp_all add: kept_def)

lemmas exec_ok_rules = storeless_rules [THEN exec_ok_storeless] exec_ok_reads exec_ok_extcode exec_ok_writes exec_ok_calls exec_ok_creates

end

section \<open>Gas functions\<close>

context evm_store
begin

definition gas_ok :: "bool \<Rightarrow> ('t, 's) gasFunc \<Rightarrow> bool" where
  "gas_ok w f \<longleftrightarrow> (\<forall>m sz. (w \<longrightarrow> \<not> quiet_code (mc_evm m)) \<longrightarrow>
     kept (quiet_code (mc_evm m)) (mc_evm m) (\<lambda>r. mc_evm (fst r)) (f env m sz))"

lemma gas_bind_kept:
  "kept q e (\<lambda>r. mc_evm (fst r)) r \<Longrightarrow> (\<And>m g. kept q (mc_evm m) (\<lambda>r. mc_evm (fst r)) (f m g)) \<Longrightarrow>
   kept q e (\<lambda>r. mc_evm (fst r)) (gas_bind r f)"
  unfolding gas_bind_def by (rule kept_andThen) (auto split: sum.split prod.split)

lemma gas_memory_kept [simp]: "kept q (mc_evm m) (\<lambda>r. mc_evm (fst r)) (gas_memory m sz)"
  by (simp add: gas_memory_def split: prod.split)

lemma gas_step_kept [simp]: "kept q e (\<lambda>r. mc_evm (fst r)) (gas_step m x) = egoes q e (mc_evm m)"
  by (simp add: gas_step_def)

lemma kept_Back_then: "(\<And>x. kept q e get (f x)) \<Longrightarrow> kept q e get (andThen (Back st n) f)"
  by (rule kept_mem_then) (simp_all add: Back_def)

lemma operand64_kept [simp]: "kept q (mc_evm m) (\<lambda>r. mc_evm (fst r)) (operand64 env m n)"
  by (auto simp: operand64_def intro!: kept_Back_then split: prod.split)

lemma gas_words_kept [simp]: "kept q (mc_evm m) (\<lambda>r. mc_evm (fst r)) (gas_words env n price m g)"
  by (auto simp: gas_words_def intro!: gas_bind_kept)

lemma gas_ok_memory:
  "gas_ok w gasReturn" "gas_ok w gasRevert" "gas_ok w gasMLoad" "gas_ok w gasMStore8" "gas_ok w gasMStore" "gas_ok w gasCreate"
  "gas_ok w gasCallDataCopy" "gas_ok w gasCodeCopy" "gas_ok w gasExtCodeCopy" "gas_ok w gasReturnDataCopy" "gas_ok w gasSha3"
  "gas_ok w gasCreate2" "gas_ok w gasExpFrontier" "gas_ok w gasExpEIP158" "gas_ok w (makeGasLog n)"
  by (auto simp: gas_ok_def gasReturn_def gasRevert_def gasMLoad_def gasMStore8_def gasMStore_def gasCreate_def pureMemoryGascost_def
        gasCallDataCopy_def gasCodeCopy_def gasExtCodeCopy_def gasReturnDataCopy_def memoryCopierGas_def gasSha3_def gasCreate2_def
        gasExpFrontier_def gasExpEIP158_def gas_exp_def makeGasLog_def Let_def intro!: gas_bind_kept kept_Back_then)

lemma gas_store [simp]:
  "egoes q e (mc_evm (mc_AddAddressToAccessList m a)) = egoes q e ((mc_evm m)\<lparr>ev_StateDB := AddAddressToAccessList (ev_StateDB (mc_evm m)) a\<rparr>)"
  "egoes q e (mc_evm (mc_AddRefund m g)) = egoes q e ((mc_evm m)\<lparr>ev_StateDB := AddRefund (ev_StateDB (mc_evm m)) g\<rparr>)"
  by (simp_all add: mc_AddAddressToAccessList_def mc_AddRefund_def mc_StateDB_def)

lemma slot_then:
  assumes "\<And>x. kept q (mc_evm m) get (f x)"
  shows "kept q (mc_evm m) get (andThen (mc_SlotInAccessList m slot) f)"
  by (rule kept_mem_then) (use assms in \<open>auto simp: mc_SlotInAccessList_def outcome_if_must split: option.split\<close>)

lemma add_slot_then:
  assumes "\<And>m'. kept q (mc_evm m') get (f m')"
  shows "kept q (mc_evm m) get (andThen (mc_AddSlotToAccessList m slot) f)"
proof (rule kept_andThen [where get = mc_evm])
  show "kept q (mc_evm m) mc_evm (mc_AddSlotToAccessList m slot)"
    by (auto simp: mc_AddSlotToAccessList_def kept_def outcome_if_andThen outcome_if_must mc_StateDB_def split: option.split intro: goes_slot)
qed (rule assms)

lemma cold_slot_kept: "kept q (mc_evm m) (\<lambda>r. mc_evm (fst r)) (cold_slot m slot)"
  by (auto simp: cold_slot_def intro!: slot_then add_slot_then split: prod.split) (simp add: kept_def)

lemma gas_ok_access: "gas_ok w gasSLoadEIP2929" "gas_ok w gasEip2929AccountCheck"
  by (auto simp: gas_ok_def gasSLoadEIP2929_def gasEip2929AccountCheck_def Let_def mc_StateDB_def
        intro!: kept_Back_then slot_then add_slot_then split: prod.split)

lemma gas_ok_extcodecopy2929: "gas_ok w gasExtCodeCopyEIP2929"
  unfolding gas_ok_def gasExtCodeCopyEIP2929_def
  by (intro allI impI gas_bind_kept gas_ok_memory(9) [unfolded gas_ok_def, rule_format]) (auto simp: Let_def mc_StateDB_def intro!: kept_Back_then)

lemma sstore_dirty_kept: "kept False (mc_evm m) mc_evm (sstore_dirty a b c original current v m)"
  unfolding sstore_dirty_def
  by (rule kept_andThen [where get = mc_evm])
    (auto simp: mc_SubRefund_def kept_def outcome_if_andThen outcome_if_must mc_StateDB_def split: option.split intro: goes_SubRefund)

lemma state_then:
  assumes "\<And>m' v. kept q (mc_evm m') get (f m' v)"
  shows "kept q (mc_evm m) get (case mc_GetState env m k of (m, v) \<Rightarrow> f m v)"
    "kept q (mc_evm m) get (case mc_GetCommittedState env m k of (m, v) \<Rightarrow> f m v)"
  using assms by (auto simp: mc_reads mc_StateDB_def intro!: kept_from [OF _ assms])

lemma dirty_then_kept:
  "(\<And>m'. kept False (mc_evm m') get (f m')) \<Longrightarrow> kept False (mc_evm m) get (andThen (sstore_dirty a b c original current v m) f)"
  by (rule kept_andThen [OF sstore_dirty_kept])

lemma gas_ok_sstore: "gas_ok True gasSStore" "gas_ok True gasSStoreEIP2200"
  by (auto simp: gas_ok_def gasSStore_def gasSStoreEIP2200_def Let_def intro!: kept_Back_then state_then dirty_then_kept)

lemma cold_then_kept:
  "(\<And>m' c. kept q (mc_evm m') get (f m' c)) \<Longrightarrow> kept q (mc_evm m) get (andThen (cold_slot m slot) (\<lambda>(m, c). f m c))"
  by (rule kept_andThen [OF cold_slot_kept]) (auto split: prod.split)

lemma gas_ok_sstore2929: "gas_ok True gasSStoreEIP2929"
  by (auto simp: gas_ok_def gasSStoreEIP2929_def Let_def intro!: kept_Back_then state_then dirty_then_kept cold_then_kept)

lemma gas_callee_kept: "kept q (mc_evm m) (\<lambda>r. mc_evm (fst r)) (gas_callee env m gas)"
  by (auto simp: gas_callee_def intro!: kept_Back_then split: sum.split)

lemma gas_ok_calls: "gas_ok w gasCallCode" "gas_ok w gasDelegateCall" "gas_ok w gasStaticCall"
  by (auto simp: gas_ok_def gasCallCode_def gasDelegateCall_def gasStaticCall_def Let_def
        intro!: gas_bind_kept kept_Back_then gas_callee_kept)

lemma gasCall_account_store: "egoes q (mc_evm m) (mc_evm (fst (gasCall_account env m b a)))"
  by (auto simp: gasCall_account_def mc_reads mc_StateDB_def)

lemma gas_ok_call: "gas_ok w gasCall"
  unfolding gas_ok_def gasCall_def Let_def case_prod_beta
  by (intro allI impI kept_Back_then gas_bind_kept kept_from [OF gasCall_account_store gas_memory_kept])
    (auto simp: gas_callee_kept)

lemma gas_ok_always: "gas_ok False f \<Longrightarrow> gas_ok w f"
  by (simp add: gas_ok_def)

lemma quiet_code_list [simp]: "quiet_code (mc_evm (mc_AddAddressToAccessList m a)) = quiet_code (mc_evm m)"
  by (simp add: quiet_code_def)

lemma gas_ok_2929:
  assumes "gas_ok False f"
  shows "gas_ok w (makeCallVariantGasCallEIP2929 f)"
proof (rule gas_ok_always)
  have f: "kept (quiet_code (mc_evm m)) (mc_evm m) (\<lambda>r. mc_evm (fst r)) (f env m sz)" for m sz
    using assms by (simp add: gas_ok_def)
  have "kept (quiet_code (mc_evm m)) (mc_evm m) (\<lambda>r. mc_evm (fst r)) (f env ((mc_AddAddressToAccessList m a)\<lparr>mc_contract := c\<rparr>) sz)" for m a c sz
    using f [of "(mc_AddAddressToAccessList m a)\<lparr>mc_contract := c\<rparr>" sz]
    by (intro kept_from [of _ "mc_evm m" "mc_evm (mc_AddAddressToAccessList m a)"])
      (simp_all add: mc_StateDB_def quiet_code_def)
  with f show "gas_ok False (makeCallVariantGasCallEIP2929 f)"
    by (auto simp: gas_ok_def makeCallVariantGasCallEIP2929_def Let_def mc_StateDB_def intro!: kept_Back_then split: prod.split)
qed

lemma suicide_refund_store: "egoes False (mc_evm m) (mc_evm (suicide_refund env m))"
  using goes_trans [OF goes_reads(6) goes_writes(9)]
  by (auto simp: suicide_refund_def mc_reads mc_StateDB_def mc_AddRefund_def)

lemma empty_and_paid_store: "egoes q (mc_evm m) (mc_evm (fst (empty_and_paid env m a)))"
  using goes_trans [OF goes_reads(2) goes_reads(3)] by (auto simp: empty_and_paid_def mc_reads mc_StateDB_def)

lemma Exist_store: "egoes q (mc_evm m) (mc_evm (fst (mc_Exist env m a)))"
  by (simp add: mc_reads mc_StateDB_def)

lemma gas_ok_selfdestruct: "gas_ok True gasSelfdestruct" "gas_ok True gasSelfdestructEIP2929"
proof -
  note refund = egoes_trans [OF empty_and_paid_store suicide_refund_store] egoes_trans [OF Exist_store suicide_refund_store]
    suicide_refund_store
  show "gas_ok True gasSelfdestruct"
    using refund by (auto simp: gas_ok_def gasSelfdestruct_def Let_def case_prod_beta intro!: kept_Back_then)
  have "egoes False (mc_evm m) (mc_evm (mc_AddAddressToAccessList m a))" for m a by (simp add: mc_StateDB_def)
  from refund egoes_trans [OF this refund(1)] show "gas_ok True gasSelfdestructEIP2929"
    by (auto simp: gas_ok_def gasSelfdestructEIP2929_def Let_def case_prod_beta intro!: kept_Back_then)
qed

end

section \<open>Operations and runs\<close>

lemma memory_size_panics:
  "outcome_if code_panic (\<lambda>_. True) (mem_range i j U st)" "outcome_if code_panic (\<lambda>_. True) (mem_range_fixed i n U st)"
  "outcome_if code_panic (\<lambda>_. True) (mem_range_max i j k l U st)"
  by (auto simp: mem_range_def mem_range_fixed_def mem_range_max_def Back_def split: prod.split)

text \<open>The price of \<open>CALL\<close> is computed before its operands are taken, and leaves them where they are.\<close>

definition stack_kept :: "('t, 's) gasFunc \<Rightarrow> bool" where
  "stack_kept f \<longleftrightarrow> (\<forall>env m sz. outcome_if (\<lambda>_. True) (\<lambda>(m', x). mc_stack m' = mc_stack m) (f env m sz))"

lemma outcome_if_gas_bind:
  "outcome_if A Q (gas_bind r f) =
     outcome_if A (\<lambda>(m, x). case x of Inl e \<Rightarrow> Q (m, Inl e) | Inr g \<Rightarrow> outcome_if A Q (f m g)) r"
  by (cases r) (auto simp: gas_bind_def split: sum.splits)

lemma gasCall_stack: "stack_kept gasCall"
  by (auto simp: stack_kept_def gasCall_def gas_callee_def gasCall_account_def mc_reads gas_memory_def gas_step_def Let_def
        outcome_if_andThen outcome_if_Back outcome_if_gas_bind split: prod.split sum.split)

lemma variant_stack:
  assumes "stack_kept f"
  shows "stack_kept (makeCallVariantGasCallEIP2929 f)"
proof -
  have "outcome_if (\<lambda>_. True) (\<lambda>(m', x). mc_stack m' = st) (f env m sz)" if "mc_stack m = st" for env m sz st
    using assms that by (auto simp: stack_kept_def)
  then show ?thesis
    by (auto simp: stack_kept_def makeCallVariantGasCallEIP2929_def Let_def outcome_if_andThen outcome_if_Back split: prod.split)
qed

lemmas memory_size_defs = memorySha3_def memoryCallDataCopy_def memoryReturnDataCopy_def memoryCodeCopy_def memoryExtCodeCopy_def
  memoryMLoad_def memoryMStore8_def memoryMStore_def memoryCreate_def memoryCreate2_def memoryCall_def memoryDelegateCall_def
  memoryStaticCall_def memoryReturn_def memoryRevert_def memoryLog_def

context evm_store
begin

definition op_store :: "byte \<Rightarrow> ('t, 's) operation \<Rightarrow> bool" where
  "op_store b op \<longleftrightarrow>
     (\<forall>f. op_dynamicGas op = Some f \<longrightarrow> gas_ok (op_writes op) f) \<and>
     (\<forall>f U st. op_memorySize op = Some f \<longrightarrow> outcome_if code_panic (\<lambda>_. True) (f U st)) \<and>
     (b = OP_CALL \<longrightarrow> \<not> op_writes op \<and> (\<forall>f. op_dynamicGas op = Some f \<longrightarrow> stack_kept f)) \<and>
     exec_ok (if op_writes op then writing else if b = OP_CALL then paying else anyhow) (op_execute op)"

lemmas op_store_rules = exec_ok_rules gas_ok_memory gas_ok_access gas_ok_extcodecopy2929 gas_ok_sstore gas_ok_sstore2929 gas_ok_calls
  gas_ok_call gas_ok_calls [THEN gas_ok_2929] gas_ok_call [THEN gas_ok_2929] gas_ok_selfdestruct
  gasCallEIP2929_def gasStaticCallEIP2929_def gasDelegateCallEIP2929_def gasCallCodeEIP2929_def memory_size_panics memory_size_defs
  gasCall_stack gasCall_stack [THEN variant_stack]

lemma entry_store: "entry b op \<Longrightarrow> op_store b op"
proof (rule entry_all [where P = op_store])
  note simps = op_store_def operation_of_def op_store_rules
  show "\<forall>(b, ops) \<in> set repriced. \<forall>op \<in> set ops. op_store b op"
    by (simp add: repriced_def priced_def simps)
  show "\<forall>(b, op) \<in> set later_entries. op_store b op"
    by (simp add: later_entries_def simps)
  have "\<forall>(b, op) \<in> set frontier_arithmetic. op_store b op" by (simp add: frontier_arithmetic_def simps)
  moreover have "\<forall>(b, op) \<in> set frontier_bits. op_store b op" by (simp add: frontier_bits_def simps)
  moreover have "\<forall>(b, op) \<in> set frontier_environment. op_store b op" by (simp add: frontier_environment_def simps)
  moreover have "\<forall>(b, op) \<in> set frontier_block. op_store b op" by (simp add: frontier_block_def simps)
  moreover have "\<forall>(b, op) \<in> set frontier_flow. op_store b op" by (simp add: frontier_flow_def simps)
  moreover have "\<forall>(b, op) \<in> set frontier_push. op_store b op" by (auto simp: frontier_push_def simps)
  moreover have "\<forall>(b, op) \<in> set frontier_dup. op_store b op" by (auto simp: frontier_dup_def simps)
  moreover have "\<forall>(b, op) \<in> set frontier_swap. op_store b op" by (auto simp: frontier_swap_def simps)
  moreover have "\<forall>(b, op) \<in> set frontier_log. op_store b op" by (simp add: frontier_log_def upt_lists simps)
  moreover have "\<forall>(b, op) \<in> set frontier_calls. op_store b op" by (simp add: frontier_calls_def simps)
  ultimately show "\<forall>(b, op) \<in> set frontier_entries. op_store b op"
    unfolding frontier_entries_def set_append ball_Un by blast
qed

lemma charge_dynamic_kept:
  assumes "op_store b op" "op_writes op \<Longrightarrow> \<not> quiet_code (mc_evm m)"
  shows "kept (quiet_code (mc_evm m)) (mc_evm m) (\<lambda>r. mc_evm (fst r)) (charge_dynamic env op m sz)"
proof (cases "op_dynamicGas op")
  case (Some f)
  then have "kept (quiet_code (mc_evm m)) (mc_evm m) (\<lambda>r. mc_evm (fst r)) (f env m sz)"
    using assms by (simp add: op_store_def gas_ok_def)
  then show ?thesis
    unfolding charge_dynamic_def Some option.case by (rule kept_andThen) (auto split: prod.split sum.split)
qed (simp add: charge_dynamic_def)

primrec turn_evm :: "('t, 's) turn \<Rightarrow> ('t, 's) EVM" where
  "turn_evm (Continue m) = mc_evm m"
| "turn_evm (Done m ret err) = mc_evm m"

lemma new_memory_size_panics: "op_store b op \<Longrightarrow> outcome_if code_panic (\<lambda>_. True) (new_memory_size env op m)"
  by (auto simp: new_memory_size_def op_store_def split: option.split intro!: mem_then)

lemma charge_dynamic_stack:
  assumes "op_store OP_CALL op" "charge_dynamic env op m sz = Ret (m', paid)"
  shows "mc_stack m' = mc_stack m"
proof (cases "op_dynamicGas op")
  case (Some f)
  then have "outcome_if (\<lambda>_. True) (\<lambda>(m', x). mc_stack m' = mc_stack m) (f env m sz)"
    using assms(1) by (simp add: op_store_def stack_kept_def)
  then show ?thesis
    using assms(2) Some by (cases "f env m sz") (auto simp: charge_dynamic_def split: sum.splits prod.splits)
qed (use assms(2) in \<open>simp add: charge_dynamic_def\<close>)

lemma exec_okD:
  "exec_ok ok ex \<Longrightarrow> runner_ok rn \<Longrightarrow> ok (quiet_code (mc_evm m)) (mc_stack m) \<Longrightarrow>
   kept (quiet_code (mc_evm m)) (mc_evm m) (\<lambda>r. mc_evm (fst r)) (ex env rn m)"
  by (simp add: exec_ok_def)

lemma pay_and_execute_kept:
  assumes op: "op_store b op" and rn: "runner_ok rn" and w: "op_writes op \<Longrightarrow> \<not> quiet_code (mc_evm m)"
    and pay: "b = OP_CALL \<Longrightarrow> paying (quiet_code (mc_evm m)) (mc_stack m)"
  shows "kept (quiet_code (mc_evm m)) (mc_evm m) turn_evm (pay_and_execute env rn op m)"
proof -
  let ?q = "quiet_code (mc_evm m)"
  have exec: "kept ?q (mc_evm m2) turn_evm (andThen (op_execute op env rn m2) (\<lambda>r. Ret (after_execute op r)))"
    if "egoes ?q (mc_evm m) (mc_evm m2)" "b = OP_CALL \<Longrightarrow> mc_stack m2 = mc_stack m" for m2
  proof (rule kept_andThen)
    have q: "quiet_code (mc_evm m2) = ?q" by (rule egoes_quiet [OF that(1)])
    have "exec_ok (if op_writes op then writing else if b = OP_CALL then paying else anyhow) (op_execute op)"
      using op by (simp add: op_store_def)
    from exec_okD [OF this rn, of m2] show "kept ?q (mc_evm m2) (\<lambda>r. mc_evm (fst r)) (op_execute op env rn m2)"
      using w pay that(2) by (simp add: q split: if_splits)
  qed (auto simp: after_execute_def Let_def split: prod.split option.split)
  have charge: "kept ?q (mc_evm m) turn_evm
     (andThen (charge_dynamic env op m1 sz) (\<lambda>(m, paid).
        if \<not> paid then Ret (Done m [] (Some ErrOutOfGas))
        else let m = (if sz > 0 then m\<lparr>mc_memory := mem_Resize (mc_memory m) sz\<rparr> else m)
             in andThen (op_execute op env rn m) (\<lambda>r. Ret (after_execute op r))))"
    if m1: "mc_evm m1 = mc_evm m" "mc_stack m1 = mc_stack m" for m1 sz
  proof (cases "charge_dynamic env op m1 sz")
    case (Ret x)
    obtain m2 paid where x: "x = (m2, paid)" by force
    have m2: "egoes ?q (mc_evm m) (mc_evm m2)"
      using charge_dynamic_kept [OF op, of m1 sz] w Ret x m1(1) by simp
    have "b = OP_CALL \<Longrightarrow> mc_stack m2 = mc_stack m"
      using charge_dynamic_stack [of op m1 sz m2 paid] op Ret x m1(2) by simp
    with m2 show ?thesis
      using kept_from [OF m2 exec [of m2]] kept_from [OF m2 exec [of "m2\<lparr>mc_memory := mem_Resize (mc_memory m2) sz\<rparr>", simplified]]
      unfolding Ret x by (auto simp: Let_def)
  qed (use charge_dynamic_kept [OF op, of m1 sz] w m1(1) in \<open>auto simp: kept_def\<close>)
  then have charge': "kept ?q (mc_evm m) turn_evm
     (andThen (charge_dynamic env op (m\<lparr>mc_contract := c\<rparr>) sz) (\<lambda>(m, paid).
        if \<not> paid then Ret (Done m [] (Some ErrOutOfGas))
        else let m = (if sz > 0 then m\<lparr>mc_memory := mem_Resize (mc_memory m) sz\<rparr> else m)
             in andThen (op_execute op env rn m) (\<lambda>r. Ret (after_execute op r))))" for c sz
    by simp
  show ?thesis
    by (cases "UseGas (mc_contract m) (op_constantGas op)")
      (auto simp: pay_and_execute_def Let_def intro!: kept_mem_then [OF new_memory_size_panics [OF op]] charge'
        split: sum.split)
qed

lemma check_write_panics: "outcome_if code_panic (\<lambda>_. True) (check_write env b op m)"
  by (auto simp: check_write_def Back_def)

lemma step_kept:
  assumes "within jt" "runner_ok rn" "uint256_ok (ee_uint256 env)"
  shows "kept (quiet_code (mc_evm m)) (mc_evm m) turn_evm (step env jt rn m)"
proof -
  define b where "b = GetOp (mc_contract m) (mc_pc m)"
  show ?thesis
  proof (cases "jt b")
    case (Some op)
    then have op: "op_store b op" using assms(1) entry_store by (auto simp: within_def)
    have "kept (quiet_code (mc_evm m)) (mc_evm m) turn_evm (pay_and_execute env rn op m)"
      if "check_write env b op m = Ret None"
    proof (rule pay_and_execute_kept [OF op assms(2)])
      show "\<not> quiet_code (mc_evm m)" if "op_writes op"
        using \<open>check_write env b op m = Ret None\<close> that by (auto simp: check_write_def quiet_code_def split: if_splits)
      show "paying (quiet_code (mc_evm m)) (mc_stack m)" if "b = OP_CALL"
        using \<open>check_write env b op m = Ret None\<close> that nonzero_sign [OF assms(3)]
        by (auto simp: check_write_def quiet_code_def Back_def split: if_splits)
    qed
    then show ?thesis
      using Some check_write_panics [of b op m] unfolding step_def b_def [symmetric] Let_def
      by (cases "check_write env b op m") (auto simp: kept_def split: option.split)
  qed (simp add: step_def b_def [symmetric] Let_def)
qed

lemma Run_loop_ok:
  assumes "\<And>m. kept (quiet_code (mc_evm m)) (mc_evm m) (\<lambda>r. mc_evm (fst r)) (lp m)"
  shows "runner_ok (Run_loop lp)"
  unfolding runner_ok_def
proof (intro allI)
  fix e c input ro
  let ?q = "quiet_code e \<or> ro \<and> IsByzantium (ee_chainRules env)"
  have out: "egoes ?q e (leave e ro e')" if "egoes ?q (enter e ro) e'" for e'
    using that by (auto simp: egoes_def enter_def leave_def)
  have q: "quiet_code (enter e ro) = ?q" by (auto simp: quiet_code_def enter_def)
  have "kept ?q (enter e ro) (\<lambda>r. mc_evm (fst r)) (lp (new_frame (enter e ro) c input))"
    using assms [of "new_frame (enter e ro) c input"] by (simp add: new_frame_def q)
  then have "kept ?q e fst (andThen (lp (new_frame (enter e ro) c input)) (\<lambda>(m, ret, err). Ret (leave e ro (mc_evm m), mc_contract m, ret, err)))"
    by (cases "lp (new_frame (enter e ro) c input)") (auto simp: kept_def out enter_def)
  then show "kept ?q e fst (Run_loop lp e c input ro)"
    using out [of "enter e ro"] by (simp add: Run_loop_def Let_def)
qed

lemma loop_kept:
  assumes "within jt" "uint256_ok (ee_uint256 env)"
  shows "kept (quiet_code (mc_evm m)) (mc_evm m) (\<lambda>r. mc_evm (fst r)) (loop fuel env jt m)"
proof (induction fuel arbitrary: m)
  case (Suc n)
  have step: "kept (quiet_code (mc_evm m)) (mc_evm m) turn_evm (step env jt (Run_loop (loop n env jt)) m)"
    by (rule step_kept [OF assms(1) Run_loop_ok [OF Suc.IH] assms(2)])
  show ?case
  proof (cases "step env jt (Run_loop (loop n env jt)) m")
    case (Ret t)
    then have t: "egoes (quiet_code (mc_evm m)) (mc_evm m) (turn_evm t)" using step by simp
    show ?thesis
    proof (cases t)
      case (Continue m')
      have "kept (quiet_code (mc_evm m)) (mc_evm m') (\<lambda>r. mc_evm (fst r)) (loop n env jt m')"
        using Suc.IH [of m'] egoes_quiet [OF t] Continue by simp
      then show ?thesis using kept_from [OF t] Ret Continue by simp
    qed (use t Ret in simp)
  qed (use step in \<open>auto simp: kept_def\<close>)
qed (simp add: kept_def)

lemma Run_runner_ok: "within jt \<Longrightarrow> uint256_ok (ee_uint256 env) \<Longrightarrow> runner_ok (Run fuel env jt)"
  unfolding Run_def by (rule Run_loop_ok, rule loop_kept)

end

end
