(* ===== verification/ChainConfig.thy ===== *)
theory ChainConfig
  imports EvmGas
begin

text \<open>
  The chain configuration (\<open>params/config.go\<close>): the block at which each fork is scheduled, the rules at a block, the check of
  the order of the forks, and the check that a new configuration does not change the past, with the block to rewind to
  when it does. A \<open>nil\<close> block number is \<open>None\<close>.
\<close>

section \<open>Model\<close>

record CliqueConfig =
  clq_Period :: uint64
  clq_Epoch :: uint64

record ChainConfig =
  cc_ChainID :: "int option"
  cc_HomesteadBlock :: "int option"
  cc_DAOForkBlock :: "int option"
  cc_DAOForkSupport :: bool
  cc_EIP150Block :: "int option"
  cc_EIP150Hash :: hash
  cc_EIP155Block :: "int option"
  cc_EIP158Block :: "int option"
  cc_ByzantiumBlock :: "int option"
  cc_ConstantinopleBlock :: "int option"
  cc_PetersburgBlock :: "int option"
  cc_IstanbulBlock :: "int option"
  cc_MuirGlacierBlock :: "int option"
  cc_YoloV2Block :: "int option"
  cc_EWASMBlock :: "int option"
  cc_Hayekash :: "unit option"
  cc_Clique :: "CliqueConfig option"

definition isForked :: "int option \<Rightarrow> int option \<Rightarrow> bool" where
  "isForked s head = (case (s, head) of (Some s, Some head) \<Rightarrow> s \<le> head | _ \<Rightarrow> False)"

definition cc_IsHomestead :: "ChainConfig \<Rightarrow> int option \<Rightarrow> bool" where
  "cc_IsHomestead c num = isForked (cc_HomesteadBlock c) num"

definition cc_IsDAOFork :: "ChainConfig \<Rightarrow> int option \<Rightarrow> bool" where
  "cc_IsDAOFork c num = isForked (cc_DAOForkBlock c) num"

definition cc_IsEIP150 :: "ChainConfig \<Rightarrow> int option \<Rightarrow> bool" where
  "cc_IsEIP150 c num = isForked (cc_EIP150Block c) num"

definition cc_IsEIP155 :: "ChainConfig \<Rightarrow> int option \<Rightarrow> bool" where
  "cc_IsEIP155 c num = isForked (cc_EIP155Block c) num"

definition cc_IsEIP158 :: "ChainConfig \<Rightarrow> int option \<Rightarrow> bool" where
  "cc_IsEIP158 c num = isForked (cc_EIP158Block c) num"

definition cc_IsByzantium :: "ChainConfig \<Rightarrow> int option \<Rightarrow> bool" where
  "cc_IsByzantium c num = isForked (cc_ByzantiumBlock c) num"

definition cc_IsConstantinople :: "ChainConfig \<Rightarrow> int option \<Rightarrow> bool" where
  "cc_IsConstantinople c num = isForked (cc_ConstantinopleBlock c) num"

definition cc_IsMuirGlacier :: "ChainConfig \<Rightarrow> int option \<Rightarrow> bool" where
  "cc_IsMuirGlacier c num = isForked (cc_MuirGlacierBlock c) num"

definition cc_IsPetersburg :: "ChainConfig \<Rightarrow> int option \<Rightarrow> bool" where
  "cc_IsPetersburg c num =
     (isForked (cc_PetersburgBlock c) num \<or> cc_PetersburgBlock c = None \<and> isForked (cc_ConstantinopleBlock c) num)"

definition cc_IsIstanbul :: "ChainConfig \<Rightarrow> int option \<Rightarrow> bool" where
  "cc_IsIstanbul c num = isForked (cc_IstanbulBlock c) num"

definition cc_IsYoloV2 :: "ChainConfig \<Rightarrow> int option \<Rightarrow> bool" where
  "cc_IsYoloV2 c num = isForked (cc_YoloV2Block c) num"

definition cc_IsEWASM :: "ChainConfig \<Rightarrow> int option \<Rightarrow> bool" where
  "cc_IsEWASM c num = isForked (cc_EWASMBlock c) num"

lemmas cc_defs = cc_IsHomestead_def cc_IsDAOFork_def cc_IsEIP150_def cc_IsEIP155_def cc_IsEIP158_def cc_IsByzantium_def
  cc_IsConstantinople_def cc_IsMuirGlacier_def cc_IsPetersburg_def cc_IsIstanbul_def cc_IsYoloV2_def cc_IsEWASM_def

definition config_Rules :: "ChainConfig \<Rightarrow> int option \<Rightarrow> Rules" where
  "config_Rules c num =
     \<lparr>rules_ChainID = (case cc_ChainID c of None \<Rightarrow> 0 | Some chainID \<Rightarrow> chainID),
      IsHomestead = cc_IsHomestead c num, IsEIP150 = cc_IsEIP150 c num, IsEIP155 = cc_IsEIP155 c num, IsEIP158 = cc_IsEIP158 c num,
      IsByzantium = cc_IsByzantium c num, IsConstantinople = cc_IsConstantinople c num, IsPetersburg = cc_IsPetersburg c num,
      IsIstanbul = cc_IsIstanbul c num, IsYoloV2 = cc_IsYoloV2 c num\<rparr>"

text \<open>The order of the forks. An error names the two forks, with the block of the first one unless it is not enabled.\<close>

record scheduled_fork =
  fk_name :: string
  fk_block :: "int option"
  fk_optional :: bool

datatype order_error = UnsupportedForkOrdering string "int option" string "int option"

primrec fork_loop :: "scheduled_fork list \<Rightarrow> scheduled_fork \<Rightarrow> order_error option" where
  "fork_loop [] lastFork = None"
| "fork_loop (cur # forks) lastFork =
     (if fk_name lastFork \<noteq> '''' \<and> fk_block lastFork = None \<and> fk_block cur \<noteq> None
      then Some (UnsupportedForkOrdering (fk_name lastFork) None (fk_name cur) (fk_block cur))
      else if fk_name lastFork \<noteq> '''' \<and> fk_block lastFork \<noteq> None \<and> fk_block cur \<noteq> None \<and> the (fk_block lastFork) > the (fk_block cur)
      then Some (UnsupportedForkOrdering (fk_name lastFork) (fk_block lastFork) (fk_name cur) (fk_block cur))
      else fork_loop forks (if \<not> fk_optional cur \<or> fk_block cur \<noteq> None then cur else lastFork))"

definition CheckConfigForkOrder :: "ChainConfig \<Rightarrow> order_error option" where
  "CheckConfigForkOrder c =
     fork_loop
       [\<lparr>fk_name = ''homesteadBlock'', fk_block = cc_HomesteadBlock c, fk_optional = False\<rparr>,
        \<lparr>fk_name = ''daoForkBlock'', fk_block = cc_DAOForkBlock c, fk_optional = True\<rparr>,
        \<lparr>fk_name = ''eip150Block'', fk_block = cc_EIP150Block c, fk_optional = False\<rparr>,
        \<lparr>fk_name = ''eip155Block'', fk_block = cc_EIP155Block c, fk_optional = False\<rparr>,
        \<lparr>fk_name = ''eip158Block'', fk_block = cc_EIP158Block c, fk_optional = False\<rparr>,
        \<lparr>fk_name = ''byzantiumBlock'', fk_block = cc_ByzantiumBlock c, fk_optional = False\<rparr>,
        \<lparr>fk_name = ''constantinopleBlock'', fk_block = cc_ConstantinopleBlock c, fk_optional = False\<rparr>,
        \<lparr>fk_name = ''petersburgBlock'', fk_block = cc_PetersburgBlock c, fk_optional = False\<rparr>,
        \<lparr>fk_name = ''istanbulBlock'', fk_block = cc_IstanbulBlock c, fk_optional = False\<rparr>,
        \<lparr>fk_name = ''muirGlacierBlock'', fk_block = cc_MuirGlacierBlock c, fk_optional = True\<rparr>,
        \<lparr>fk_name = ''yoloV2Block'', fk_block = cc_YoloV2Block c, fk_optional = False\<rparr>]
       \<lparr>fk_name = '''', fk_block = None, fk_optional = False\<rparr>"

text \<open>Compatibility of a stored and a new configuration at a head block.\<close>

definition configNumEqual :: "int option \<Rightarrow> int option \<Rightarrow> bool" where
  "configNumEqual x y = (case (x, y) of (None, _) \<Rightarrow> y = None | (_, None) \<Rightarrow> x = None | (Some x, Some y) \<Rightarrow> x = y)"

definition isForkIncompatible :: "int option \<Rightarrow> int option \<Rightarrow> int option \<Rightarrow> bool" where
  "isForkIncompatible s1 s2 head = ((isForked s1 head \<or> isForked s2 head) \<and> \<not> configNumEqual s1 s2)"

record ConfigCompatError =
  ce_What :: string
  ce_StoredConfig :: "int option"
  ce_NewConfig :: "int option"
  ce_RewindTo :: uint64

definition newCompatError :: "string \<Rightarrow> int option \<Rightarrow> int option \<Rightarrow> ConfigCompatError" where
  "newCompatError what storedblock newblock =
     (let rew = (case storedblock of
                   None \<Rightarrow> newblock
                 | Some s \<Rightarrow> (case newblock of None \<Rightarrow> storedblock | Some n \<Rightarrow> if s < n then storedblock else newblock))
      in \<lparr>ce_What = what, ce_StoredConfig = storedblock, ce_NewConfig = newblock,
          ce_RewindTo = (case rew of Some r \<Rightarrow> if r > 0 then word_of_int r - 1 else 0 | None \<Rightarrow> 0)\<rparr>)"

definition checkCompatible :: "ChainConfig \<Rightarrow> ChainConfig \<Rightarrow> int option \<Rightarrow> ConfigCompatError option" where
  "checkCompatible c newcfg head =
     (if isForkIncompatible (cc_HomesteadBlock c) (cc_HomesteadBlock newcfg) head
        then Some (newCompatError ''Homestead fork block'' (cc_HomesteadBlock c) (cc_HomesteadBlock newcfg))
      else if isForkIncompatible (cc_DAOForkBlock c) (cc_DAOForkBlock newcfg) head
        then Some (newCompatError ''DAO fork block'' (cc_DAOForkBlock c) (cc_DAOForkBlock newcfg))
      else if cc_IsDAOFork c head \<and> cc_DAOForkSupport c \<noteq> cc_DAOForkSupport newcfg
        then Some (newCompatError ''DAO fork support flag'' (cc_DAOForkBlock c) (cc_DAOForkBlock newcfg))
      else if isForkIncompatible (cc_EIP150Block c) (cc_EIP150Block newcfg) head
        then Some (newCompatError ''EIP150 fork block'' (cc_EIP150Block c) (cc_EIP150Block newcfg))
      else if isForkIncompatible (cc_EIP155Block c) (cc_EIP155Block newcfg) head
        then Some (newCompatError ''EIP155 fork block'' (cc_EIP155Block c) (cc_EIP155Block newcfg))
      else if isForkIncompatible (cc_EIP158Block c) (cc_EIP158Block newcfg) head
        then Some (newCompatError ''EIP158 fork block'' (cc_EIP158Block c) (cc_EIP158Block newcfg))
      else if cc_IsEIP158 c head \<and> \<not> configNumEqual (cc_ChainID c) (cc_ChainID newcfg)
        then Some (newCompatError ''EIP158 chain ID'' (cc_EIP158Block c) (cc_EIP158Block newcfg))
      else if isForkIncompatible (cc_ByzantiumBlock c) (cc_ByzantiumBlock newcfg) head
        then Some (newCompatError ''Byzantium fork block'' (cc_ByzantiumBlock c) (cc_ByzantiumBlock newcfg))
      else if isForkIncompatible (cc_ConstantinopleBlock c) (cc_ConstantinopleBlock newcfg) head
        then Some (newCompatError ''Constantinople fork block'' (cc_ConstantinopleBlock c) (cc_ConstantinopleBlock newcfg))
      else if isForkIncompatible (cc_PetersburgBlock c) (cc_PetersburgBlock newcfg) head \<and>
              isForkIncompatible (cc_ConstantinopleBlock c) (cc_PetersburgBlock newcfg) head
        then Some (newCompatError ''Petersburg fork block'' (cc_PetersburgBlock c) (cc_PetersburgBlock newcfg))
      else if isForkIncompatible (cc_IstanbulBlock c) (cc_IstanbulBlock newcfg) head
        then Some (newCompatError ''Istanbul fork block'' (cc_IstanbulBlock c) (cc_IstanbulBlock newcfg))
      else if isForkIncompatible (cc_MuirGlacierBlock c) (cc_MuirGlacierBlock newcfg) head
        then Some (newCompatError ''Muir Glacier fork block'' (cc_MuirGlacierBlock c) (cc_MuirGlacierBlock newcfg))
      else if isForkIncompatible (cc_YoloV2Block c) (cc_YoloV2Block newcfg) head
        then Some (newCompatError ''YOLOv2 fork block'' (cc_YoloV2Block c) (cc_YoloV2Block newcfg))
      else if isForkIncompatible (cc_EWASMBlock c) (cc_EWASMBlock newcfg) head
        then Some (newCompatError ''ewasm fork block'' (cc_EWASMBlock c) (cc_EWASMBlock newcfg))
      else None)"

section \<open>Forks\<close>

lemma isForked_mono: "isForked s (Some n) \<Longrightarrow> n \<le> m \<Longrightarrow> isForked s (Some m)"
  by (auto simp: isForked_def split: option.splits)

lemma configNumEqual_iff [simp]: "configNumEqual x y \<longleftrightarrow> x = y"
  by (auto simp: configNumEqual_def split: option.splits)

lemma compatible_fork:
  "\<not> isForkIncompatible s1 s2 (Some h) \<Longrightarrow> n \<le> h \<Longrightarrow> isForked s1 (Some n) = isForked s2 (Some n)"
  using isForked_mono by (auto simp: isForkIncompatible_def)

lemma rewind_below:
  assumes "isForked s1 (Some h) \<or> isForked s2 (Some h)" "0 \<le> h" "h < 2 ^ 64"
  shows "ce_RewindTo (newCompatError what s1 s2) = 0 \<or> uint (ce_RewindTo (newCompatError what s1 s2)) < h"
proof -
  have r: "uint (word_of_int r - 1 :: uint64) < h" if "0 < r" "r \<le> h" for r
  proof -
    have "uint (word_of_int r :: uint64) = r" using that assms(3) by (simp add: uint_word_of_int_eq take_bit_int_eq_self)
    then show ?thesis using that by (simp add: uint_sub_if_size uint_arith_simps)
  qed
  show ?thesis
    using assms(1) r by (auto simp: newCompatError_def isForked_def Let_def split: option.splits if_splits)
qed

lemma if_SomeE:
  "(if P then Some x else y) = Some z \<Longrightarrow> (P \<Longrightarrow> x = z \<Longrightarrow> R) \<Longrightarrow> (y = Some z \<Longrightarrow> R) \<Longrightarrow> R"
  by (cases P) auto

lemma checkCompatible_rewind:
  assumes "checkCompatible c newcfg (Some h) = Some err" "0 \<le> h" "h < 2 ^ 64"
  shows "ce_RewindTo err = 0 \<or> uint (ce_RewindTo err) < h"
proof -
  have fork: ?thesis if "newCompatError what s1 s2 = err" "isForked s1 (Some h) \<or> isForked s2 (Some h)" for what s1 s2
    using rewind_below [OF that(2) assms(2,3)] that(1) by blast
  show ?thesis
    using assms(1) unfolding checkCompatible_def isForkIncompatible_def cc_IsDAOFork_def cc_IsEIP158_def
    by (elim if_SomeE) ((erule fork, blast) | simp only: option.distinct)+
qed

text \<open>The loop of \<open>CheckCompatible\<close> for the lowest conflict.\<close>

function compat_loop :: "ChainConfig \<Rightarrow> ChainConfig \<Rightarrow> ConfigCompatError option \<Rightarrow> uint64 \<Rightarrow> ConfigCompatError option" where
  "compat_loop c newcfg lasterr bhead =
     (case checkCompatible c newcfg (Some (uint bhead)) of
        None \<Rightarrow> lasterr
      | Some err \<Rightarrow>
          if lasterr \<noteq> None \<and> ce_RewindTo err = ce_RewindTo (the lasterr) then lasterr
          else compat_loop c newcfg (Some err) (ce_RewindTo err))"
  by pat_completeness auto
termination
proof (relation "measures [\<lambda>(c, newcfg, lasterr, bhead). unat bhead, \<lambda>(c, newcfg, lasterr, bhead). if map_option ce_RewindTo lasterr = Some 0 then 0 else 1]")
  fix c newcfg and lasterr :: "ConfigCompatError option" and bhead :: uint64 and err
  assume e: "checkCompatible c newcfg (Some (uint bhead)) = Some err" and n: "\<not> (lasterr \<noteq> None \<and> ce_RewindTo err = ce_RewindTo (the lasterr))"
  have "ce_RewindTo err = 0 \<or> uint (ce_RewindTo err) < uint bhead"
    using checkCompatible_rewind [OF e] uint_lt2p [of bhead] by simp
  then have "unat (ce_RewindTo err) < unat bhead \<or> ce_RewindTo err = 0 \<and> bhead = 0"
    by (metis unat_gt_0 unat_0 unat_mono word_less_def)
  then consider "unat (ce_RewindTo err) < unat bhead" | "ce_RewindTo err = 0" "bhead = 0" by blast
  then show "((c, newcfg, Some err, ce_RewindTo err), c, newcfg, lasterr, bhead) \<in> measures [\<lambda>(c, newcfg, lasterr, bhead). unat bhead,
      \<lambda>(c, newcfg, lasterr, bhead). if map_option ce_RewindTo lasterr = Some 0 then 0 else 1]"
    using n by cases auto
qed simp

declare compat_loop.simps [simp del]

definition CheckCompatible :: "ChainConfig \<Rightarrow> ChainConfig \<Rightarrow> uint64 \<Rightarrow> ConfigCompatError option" where
  "CheckCompatible c newcfg height = compat_loop c newcfg None height"

section \<open>Compatible configurations\<close>

text \<open>What two configurations without conflict at a head agree on: all the rules up to that block but Petersburg.\<close>

definition agree :: "ChainConfig \<Rightarrow> ChainConfig \<Rightarrow> int \<Rightarrow> bool" where
  "agree c c' n \<longleftrightarrow>
     (config_Rules c (Some n))\<lparr>rules_ChainID := 0, IsPetersburg := False\<rparr> = (config_Rules c' (Some n))\<lparr>rules_ChainID := 0, IsPetersburg := False\<rparr> \<and>
     (cc_IsEIP158 c (Some n) \<longrightarrow> cc_ChainID c = cc_ChainID c') \<and>
     (cc_PetersburgBlock c = cc_PetersburgBlock c' \<longrightarrow> cc_IsPetersburg c (Some n) = cc_IsPetersburg c' (Some n)) \<and>
     cc_IsDAOFork c (Some n) = cc_IsDAOFork c' (Some n) \<and> (cc_IsDAOFork c (Some n) \<longrightarrow> cc_DAOForkSupport c = cc_DAOForkSupport c') \<and>
     cc_IsMuirGlacier c (Some n) = cc_IsMuirGlacier c' (Some n) \<and> cc_IsEWASM c (Some n) = cc_IsEWASM c' (Some n)"

lemma if_Some_None: "(if P then Some x else y) = None \<longleftrightarrow> \<not> P \<and> y = None"
  by simp

lemma checkCompatible_agree:
  assumes "checkCompatible c c' (Some h) = None" "n \<le> h"
  shows "agree c c' n"
proof -
  note ok = assms(1) [unfolded checkCompatible_def if_Some_None]
  note fork = compatible_fork [OF _ assms(2)]
  have up: "isForked s (Some n) \<Longrightarrow> isForked s (Some h)" for s using isForked_mono assms(2) by blast
  have "isForked (cc_HomesteadBlock c) (Some n) = isForked (cc_HomesteadBlock c') (Some n)" using ok fork by blast
  moreover have "isForked (cc_DAOForkBlock c) (Some n) = isForked (cc_DAOForkBlock c') (Some n)" using ok fork by blast
  moreover have "isForked (cc_EIP150Block c) (Some n) = isForked (cc_EIP150Block c') (Some n)" using ok fork by blast
  moreover have "isForked (cc_EIP155Block c) (Some n) = isForked (cc_EIP155Block c') (Some n)" using ok fork by blast
  moreover have "isForked (cc_EIP158Block c) (Some n) = isForked (cc_EIP158Block c') (Some n)" using ok fork by blast
  moreover have "isForked (cc_ByzantiumBlock c) (Some n) = isForked (cc_ByzantiumBlock c') (Some n)" using ok fork by blast
  moreover have "isForked (cc_ConstantinopleBlock c) (Some n) = isForked (cc_ConstantinopleBlock c') (Some n)" using ok fork by blast
  moreover have "isForked (cc_IstanbulBlock c) (Some n) = isForked (cc_IstanbulBlock c') (Some n)" using ok fork by blast
  moreover have "isForked (cc_MuirGlacierBlock c) (Some n) = isForked (cc_MuirGlacierBlock c') (Some n)" using ok fork by blast
  moreover have "isForked (cc_YoloV2Block c) (Some n) = isForked (cc_YoloV2Block c') (Some n)" using ok fork by blast
  moreover have "isForked (cc_EWASMBlock c) (Some n) = isForked (cc_EWASMBlock c') (Some n)" using ok fork by blast
  moreover have "cc_IsEIP158 c (Some n) \<longrightarrow> cc_ChainID c = cc_ChainID c'"
    using ok up unfolding cc_IsEIP158_def configNumEqual_iff by blast
  moreover have "cc_IsDAOFork c (Some n) \<longrightarrow> cc_DAOForkSupport c = cc_DAOForkSupport c'"
    using ok up unfolding cc_IsDAOFork_def by blast
  ultimately show ?thesis by (simp add: agree_def config_Rules_def cc_defs)
qed

text \<open>An error says to rewind below the head, or to the start; at that block there is no conflict, or it is the start.\<close>

definition resolved :: "ChainConfig \<Rightarrow> ChainConfig \<Rightarrow> ConfigCompatError \<Rightarrow> bool" where
  "resolved c c' e \<longleftrightarrow> ce_RewindTo e = 0 \<or> checkCompatible c c' (Some (uint (ce_RewindTo e))) = None"

lemma rewinds_down:
  assumes "checkCompatible c c' (Some (uint h)) = Some err"
  shows "ce_RewindTo err < h \<or> ce_RewindTo err = 0 \<and> h = 0"
proof -
  have "ce_RewindTo err = 0 \<or> uint (ce_RewindTo err) < uint h" using checkCompatible_rewind [OF assms] uint_lt2p [of h] by simp
  then have "ce_RewindTo err = 0 \<or> ce_RewindTo err < h" by (simp add: word_less_def)
  then show ?thesis by (cases "h = 0") (auto simp: word_gt_0)
qed

lemma compat_loop_resolved:
  "ce_RewindTo e0 = h \<Longrightarrow> \<exists>e. compat_loop c c' (Some e0) h = Some e \<and> resolved c c' e \<and> ce_RewindTo e \<le> h"
proof (induction "unat h" arbitrary: e0 h rule: less_induct)
  case less
  note eq = compat_loop.simps [of c c' "Some e0" h]
  show ?case
  proof (cases "checkCompatible c c' (Some (uint h))")
    case None
    then have "compat_loop c c' (Some e0) h = Some e0" "resolved c c' e0" using eq less.prems by (simp_all add: resolved_def)
    then show ?thesis using less.prems by blast
  next
    case (Some err)
    consider "ce_RewindTo err < h" | "ce_RewindTo err = 0" "h = 0" using rewinds_down [OF Some] by blast
    then show ?thesis
    proof cases
      case 1
      then have "unat (ce_RewindTo err) < unat h" by (rule unat_mono)
      from less.hyps [OF this refl] obtain e where
        e: "compat_loop c c' (Some err) (ce_RewindTo err) = Some e" "resolved c c' e" "ce_RewindTo e \<le> ce_RewindTo err" by blast
      have "compat_loop c c' (Some e0) h = Some e" using eq Some 1 e(1) less.prems by simp
      then show ?thesis using e 1 by (meson order.strict_implies_order order_trans)
    next
      case 2
      then have "compat_loop c c' (Some e0) h = Some e0" "resolved c c' e0" using eq Some less.prems by (simp_all add: resolved_def)
      then show ?thesis using less.prems by blast
    qed
  qed
qed

lemma CheckCompatible_cases:
  "(checkCompatible c c' (Some (uint h)) = None \<and> CheckCompatible c c' h = None) \<or>
   (\<exists>e. CheckCompatible c c' h = Some e \<and> resolved c c' e \<and> (ce_RewindTo e < h \<or> h = 0))"
proof (cases "checkCompatible c c' (Some (uint h))")
  case None
  then show ?thesis by (simp add: CheckCompatible_def compat_loop.simps [of c c' None h])
next
  case (Some err)
  obtain e where e: "compat_loop c c' (Some err) (ce_RewindTo err) = Some e" "resolved c c' e" "ce_RewindTo e \<le> ce_RewindTo err"
    using compat_loop_resolved [OF refl] by blast
  have "CheckCompatible c c' h = Some e" using Some e(1) by (simp add: CheckCompatible_def compat_loop.simps [of c c' None h])
  moreover have "ce_RewindTo e < h \<or> h = 0" using rewinds_down [OF Some] e(3) by (meson order.strict_trans1)
  ultimately show ?thesis using e(2) by blast
qed

section \<open>The order of the forks\<close>

text \<open>A fork scheduled not before another, which is scheduled too.\<close>

definition follows :: "int option \<Rightarrow> int option \<Rightarrow> bool" where
  "follows x y \<longleftrightarrow> (case y of None \<Rightarrow> True | Some b \<Rightarrow> (\<exists>a. x = Some a \<and> a \<le> b))"

lemma follows_forked: "follows x y \<Longrightarrow> isForked y head \<Longrightarrow> isForked x head"
  by (auto simp: follows_def isForked_def split: option.splits)

lemma fork_loop_next:
  "fork_loop (\<lparr>fk_name = n, fk_block = x, fk_optional = False\<rparr> # forks) \<lparr>fk_name = m, fk_block = y, fk_optional = b\<rparr> = None \<Longrightarrow> m \<noteq> '''' \<Longrightarrow>
   follows y x \<and> fork_loop forks \<lparr>fk_name = n, fk_block = x, fk_optional = False\<rparr> = None"
  by (auto simp: follows_def not_less split: if_splits option.splits)

lemma fork_loop_optional:
  "fork_loop (\<lparr>fk_name = n, fk_block = x, fk_optional = True\<rparr> # \<lparr>fk_name = k, fk_block = z, fk_optional = False\<rparr> # forks)
     \<lparr>fk_name = m, fk_block = y, fk_optional = b\<rparr> = None \<Longrightarrow> m \<noteq> '''' \<Longrightarrow> n \<noteq> '''' \<Longrightarrow>
   follows y z \<and> fork_loop forks \<lparr>fk_name = k, fk_block = z, fk_optional = False\<rparr> = None"
  by (auto simp: follows_def not_less split: if_splits option.splits)

lemma fork_order_follows:
  assumes "CheckConfigForkOrder c = None"
  shows "follows (cc_HomesteadBlock c) (cc_EIP150Block c)" "follows (cc_EIP150Block c) (cc_EIP155Block c)"
    "follows (cc_EIP155Block c) (cc_EIP158Block c)" "follows (cc_EIP158Block c) (cc_ByzantiumBlock c)"
    "follows (cc_ByzantiumBlock c) (cc_ConstantinopleBlock c)" "follows (cc_ConstantinopleBlock c) (cc_PetersburgBlock c)"
    "follows (cc_PetersburgBlock c) (cc_IstanbulBlock c)" "follows (cc_IstanbulBlock c) (cc_YoloV2Block c)"
proof -
  note s1 = assms [unfolded CheckConfigForkOrder_def fork_loop.simps(2) [where lastFork = "\<lparr>fk_name = '''', fk_block = None, fk_optional = False\<rparr>"],
      simplified scheduled_fork.simps simp_thms if_False if_True]
  note s2 = fork_loop_optional [OF s1 list.distinct(2) list.distinct(2)]
  note s3 = fork_loop_next [OF s2 [THEN conjunct2] list.distinct(2)]
  note s4 = fork_loop_next [OF s3 [THEN conjunct2] list.distinct(2)]
  note s5 = fork_loop_next [OF s4 [THEN conjunct2] list.distinct(2)]
  note s6 = fork_loop_next [OF s5 [THEN conjunct2] list.distinct(2)]
  note s7 = fork_loop_next [OF s6 [THEN conjunct2] list.distinct(2)]
  note s8 = fork_loop_next [OF s7 [THEN conjunct2] list.distinct(2)]
  note s9 = fork_loop_optional [OF s8 [THEN conjunct2] list.distinct(2) list.distinct(2)]
  show "follows (cc_HomesteadBlock c) (cc_EIP150Block c)" "follows (cc_EIP150Block c) (cc_EIP155Block c)"
    "follows (cc_EIP155Block c) (cc_EIP158Block c)" "follows (cc_EIP158Block c) (cc_ByzantiumBlock c)"
    "follows (cc_ByzantiumBlock c) (cc_ConstantinopleBlock c)" "follows (cc_ConstantinopleBlock c) (cc_PetersburgBlock c)"
    "follows (cc_PetersburgBlock c) (cc_IstanbulBlock c)" "follows (cc_IstanbulBlock c) (cc_YoloV2Block c)"
    using s2 s3 s4 s5 s6 s7 s8 s9 by blast+
qed

section \<open>Properties\<close>

text \<open>The forks of a configuration that \<open>CheckConfigForkOrder\<close> accepts build on each other: at every block, the rules of
  a fork that is active include those of all the forks before it, Petersburg included.\<close>

theorem fork_order_cumulative:
  assumes "CheckConfigForkOrder c = None" "r = config_Rules c num"
  shows "(IsYoloV2 r \<longrightarrow> IsIstanbul r) \<and> (IsIstanbul r \<longrightarrow> IsPetersburg r) \<and> (IsPetersburg r \<longrightarrow> IsConstantinople r) \<and>
    (IsConstantinople r \<longrightarrow> IsByzantium r) \<and> (IsByzantium r \<longrightarrow> IsEIP158 r) \<and> (IsEIP158 r \<longrightarrow> IsEIP155 r) \<and>
    (IsEIP155 r \<longrightarrow> IsEIP150 r) \<and> (IsEIP150 r \<longrightarrow> IsHomestead r)"
proof -
  note forked = fork_order_follows [OF assms(1), THEN follows_forked]
  show ?thesis unfolding assms(2) config_Rules_def Rules.simps cc_defs using forked by blast
qed

text \<open>A chain that forked into Istanbul at block 5, and a configuration that moves this to block 7.\<close>

definition example_config :: "int \<Rightarrow> ChainConfig" where
  "example_config n = \<lparr>cc_ChainID = Some 1, cc_HomesteadBlock = Some 0, cc_DAOForkBlock = None, cc_DAOForkSupport = False,
     cc_EIP150Block = Some 0, cc_EIP150Hash = 0, cc_EIP155Block = Some 0, cc_EIP158Block = Some 0, cc_ByzantiumBlock = Some 0,
     cc_ConstantinopleBlock = Some 2, cc_PetersburgBlock = Some 2, cc_IstanbulBlock = Some n, cc_MuirGlacierBlock = None,
     cc_YoloV2Block = None, cc_EWASMBlock = None, cc_Hayekash = Some (), cc_Clique = None\<rparr>"

theorem fork_order_cumulative_witness:
  "CheckConfigForkOrder (example_config 5) = None \<and> IsIstanbul (config_Rules (example_config 5) (Some 6)) \<and>
   IsByzantium (config_Rules (example_config 5) (Some 6))"
proof -
  have "CheckConfigForkOrder (example_config 5) = None" by (simp add: CheckConfigForkOrder_def example_config_def)
  moreover have "IsIstanbul (config_Rules (example_config 5) (Some 6))"
    by (simp add: config_Rules_def cc_defs isForked_def example_config_def)
  ultimately show ?thesis using fork_order_cumulative [OF _ refl, of "example_config 5" "Some 6"] by simp
qed



text \<open>A configuration that leaves Petersburg to start with Constantinople may be replaced by one that schedules it after the
  head, although the rules of the blocks since Constantinople change: \<open>checkCompatible\<close> compares the block numbers, of which
  neither is reached, and not what \<open>IsPetersburg\<close> makes of them.\<close>

theorem CheckCompatible_misses_petersburg:
  assumes "cc_ConstantinopleBlock c = Some k" "cc_PetersburgBlock c = None" "k \<le> uint height" "uint height < p"
  shows "CheckCompatible c (c\<lparr>cc_PetersburgBlock := Some p\<rparr>) height = None \<and>
    IsPetersburg (config_Rules c (Some k)) \<and> \<not> IsPetersburg (config_Rules (c\<lparr>cc_PetersburgBlock := Some p\<rparr>) (Some k))"
proof -
  have "checkCompatible c (c\<lparr>cc_PetersburgBlock := Some p\<rparr>) (Some (uint height)) = None"
    using assms by (simp add: checkCompatible_def isForkIncompatible_def isForked_def)
  then have "CheckCompatible c (c\<lparr>cc_PetersburgBlock := Some p\<rparr>) height = None"
    using CheckCompatible_cases by (simp add: CheckCompatible_def compat_loop.simps [of c _ None height])
  then show ?thesis using assms by (simp add: config_Rules_def cc_defs isForked_def)
qed

end
