(* ===== verification/EvmRuns.thy ===== *)
theory EvmRuns
  imports StateSnapshots EvmProgress ChainConfig
begin

text \<open>
  \<open>NewEVM\<close>, which chooses the rules and the jump table by the chain configuration, and the properties of a run of the
  interpreter, for every jump table that \<open>NewEVMInterpreter\<close> builds, with an example run that shows their hypotheses can
  hold.
\<close>

section \<open>A new EVM\<close>

text \<open>
  \<open>NewEVM\<close> on an environment that holds the contexts of the block and of the transaction, with the extra EIPs of a
  configuration without a jump table of its own: the environment with the rules of the block, the EVM, its jump table and
  the extra EIPs left in the configuration. \<open>None\<close> is a panic, for a chain on EWASM or in building the jump table.
\<close>

definition NewEVM ::
  "('t, 's) evm_env \<Rightarrow> ChainConfig \<Rightarrow> int list \<Rightarrow> ('t, 's) StateDB \<Rightarrow> (('t, 's) evm_env \<times> ('t, 's) EVM \<times> ('t, 's) JumpTable \<times> int list) option" where
  "NewEVM env chainConfig extraEips statedb =
     (let evm = new_EVM statedb;
          env = env\<lparr>ee_chainRules := config_Rules chainConfig (Some (ee_BlockNumber env))\<rparr>
      in if cc_IsEWASM chainConfig (Some (ee_BlockNumber env)) then None
         else map_option (\<lambda>(jt, extraEips). (env, evm, jt, extraEips)) (NewEVMInterpreter (ee_chainRules env) extraEips))"

section \<open>An example\<close>

text \<open>A chain on its first rules, an empty state, and a contract that pushes a byte and stops.\<close>

definition example_rules :: Rules where
  "example_rules = \<lparr>rules_ChainID = 1, IsHomestead = False, IsEIP150 = False, IsEIP155 = False, IsEIP158 = False, IsByzantium = False, IsConstantinople = False,
     IsPetersburg = False, IsIstanbul = False, IsYoloV2 = False\<rparr>"

definition example_env :: "(unit, unit) evm_env" where
  "example_env = \<lparr>ee_backend = empty_backend, ee_uint256 = word_uint256, ee_native = (\<lambda>p bs. ([], None)), ee_GetHash = (\<lambda>n. 0),
     ee_Coinbase = 0, ee_GasLimit = 0, ee_BlockNumber = 0, ee_Time = 0, ee_Difficulty = 0, ee_Origin = 0, ee_GasPrice = 0,
     ee_ChainID = 1, ee_chainRules = example_rules, ee_NoRecursion = False, ee_EnablePreimageRecording = False\<rparr>"

definition example_contract :: "uint64 \<Rightarrow> Contract" where
  "example_contract gas = \<lparr>c_CallerAddress = 1, c_caller = AccountRef 1, c_self = 2, c_analysis = None, c_Code = [PUSH1, 5, OP_STOP],
     c_CodeHash = 0, c_CodeAddr = None, c_Input = [], c_Gas = gas, c_value = 0\<rparr>"

lemma word_uint256_ok: "uint256_ok word_uint256"
  by (auto simp: uint256_ok_def word_uint256_def)

lemma example_uint256: "uint256_ok (ee_uint256 example_env)"
  by (simp add: example_env_def word_uint256_ok)

lemma example_table: "NewEVMInterpreter example_rules [] = Some (newFrontierInstructionSet, [])"
  by (simp add: NewEVMInterpreter_def default_table_def example_rules_def)

lemma frontier_lookup_stop:
  "newFrontierInstructionSet OP_STOP = Some ((operation_of opStop 0 (minStack 0 0) (maxStack 0 0))\<lparr>op_halts := True\<rparr>)"
  by (simp add: newFrontierInstructionSet_def frontier_arithmetic_def)

lemma frontier_lookup_push1:
  "newFrontierInstructionSet PUSH1 = Some (operation_of opPush1 GasFastestStep (minStack 0 1) (maxStack 0 1))"
  by (simp add: newFrontierInstructionSet_def frontier_arithmetic_def frontier_bits_def frontier_environment_def
      frontier_block_def frontier_flow_def frontier_push_def map_add_def)

lemma example_run:
  "Run 3 example_env newFrontierInstructionSet (new_EVM example_db) (example_contract 10) [] False =
     Ret (new_EVM example_db, example_contract 7, [], None)"
  by (simp add: Run_def Run_loop_def enter_def leave_def new_frame_def new_EVM_def example_contract_def step_def GetOp_def
      frontier_lookup_push1 frontier_lookup_stop check_stack_def check_write_def pay_and_execute_def operation_of_def
      UseGas_def new_memory_size_def charge_dynamic_def opPush1_def opStop_def after_execute_def numeral_3_eq_3
      minStack_def maxStack_def push_uint64_def push_def ret_ok_def set_stack_def)

section \<open>Properties\<close>

text \<open>C5: A run of the interpreter ends, and its outcome does not depend on the fuel of the model once that exceeds
  the gas of the contract: there is one outcome, not running out of fuel, that every larger fuel gives. Hence no
  code, with any nesting of calls and creations, makes a frame of \<open>Run\<close> take more turns than it has gas, but for a last one.\<close>

theorem Run_total:
  assumes "NewEVMInterpreter rules extra = Some (jt, left)" "uint256_ok (ee_uint256 env)"
  shows "\<exists>r. r \<noteq> OutOfFuel \<and> (\<forall>fuel. unat (c_Gas c) < fuel \<longrightarrow> Run fuel env jt evm c input ro = r)"
proof (intro exI conjI allI impI)
  let ?r = "Run (Suc (unat (c_Gas c))) env jt evm c input ro"
  show r: "?r \<noteq> OutOfFuel" using Run_ok(1) [OF assms, of c "Suc (unat (c_Gas c))" evm input ro] by auto
  show "Run fuel env jt evm c input ro = ?r" if "unat (c_Gas c) < fuel" for fuel
    using Run_ok(2) [OF assms that r] by simp
qed

theorem Run_total_witness:
  "\<exists>r. r \<noteq> OutOfFuel \<and> Run 11 example_env newFrontierInstructionSet (new_EVM example_db) (example_contract 10) [] False = r \<and>
     Run 100 example_env newFrontierInstructionSet (new_EVM example_db) (example_contract 10) [] False = r"
  using Run_total [OF example_table example_uint256, of "example_contract 10" "new_EVM example_db" "[]" False]
  by (auto simp: example_contract_def)

text \<open>C6: A run gives back no more gas than the contract was given, and leaves the call depth and the read-only
  flag of the interpreter as it found them, however the code ends.\<close>

theorem Run_gas:
  assumes "NewEVMInterpreter rules extra = Some (jt, left)" "uint256_ok (ee_uint256 env)"
    and "Run fuel env jt evm c input ro = Ret (evm', c', ret, err)"
  shows "c_Gas c' \<le> c_Gas c \<and> ev_depth evm' = ev_depth evm \<and> in_readOnly evm' = in_readOnly evm"
proof -
  have "Run (Suc (unat (c_Gas c))) env jt evm c input ro = Ret (evm', c', ret, err)"
    using Run_ok(2) [OF assms(1,2), where n = fuel and k = "Suc (unat (c_Gas c))" and c = c and evm = evm and input = input and ro = ro]
      assms(3) by simp
  then show ?thesis
    using Run_ok(1) [OF assms(1,2) lessI, of c evm input ro] by (simp add: same_evm_def)
qed

theorem Run_gas_witness:
  "c_Gas (example_contract 7) \<le> c_Gas (example_contract 10) \<and> ev_depth (new_EVM example_db) = ev_depth (new_EVM example_db) \<and>
     in_readOnly (new_EVM example_db) = in_readOnly (new_EVM example_db)"
  by (rule Run_gas [OF example_table example_uint256 example_run])

text \<open>C7: No code makes the interpreter reach below the bottom of its stack: the checks of \<open>Run\<close> against
  \<open>minStack\<close> cover every access of every instruction and of its gas and memory size functions, in all forks and
  with all extra EIPs.\<close>

theorem Run_no_stack_panic:
  assumes "NewEVMInterpreter rules extra = Some (jt, left)" "uint256_ok (ee_uint256 env)"
  shows "Run fuel env jt evm c input ro \<noteq> Panic StackPanic"
proof
  assume r: "Run fuel env jt evm c input ro = Panic StackPanic"
  then have "Run (Suc (unat (c_Gas c))) env jt evm c input ro = Panic StackPanic"
    using Run_ok(2) [OF assms, where n = fuel and k = "Suc (unat (c_Gas c))" and c = c and evm = evm and input = input and ro = ro]
    by simp
  then show False using Run_ok(1) [OF assms lessI, of c evm input ro] by simp
qed

theorem Run_no_stack_panic_witness:
  "Run 3 example_env newFrontierInstructionSet (new_EVM example_db) (example_contract 10) [] False \<noteq> Panic StackPanic"
  by (rule Run_no_stack_panic [OF example_table example_uint256])

text \<open>C12: Between any two turns of a run the stack of its frame holds at most 1024 words and the frame has no more
  gas than the run started with.\<close>

theorem turns_stack_limit:
  assumes "NewEVMInterpreter rules extra = Some (jt, left)" "uint256_ok (ee_uint256 env)"
    and "unat (c_Gas c) \<le> fuel" "turns env jt (Run fuel env jt) (new_frame evm c input) m"
  shows "length (mc_stack m) \<le> 1024 \<and> c_Gas (mc_contract m) \<le> c_Gas c"
proof -
  have "table_ok jt" using assms(1) by (intro table_ok_within NewEVMInterpreter_within)
  from turns_ok [OF assms(4) this Run_meters [OF this assms(2)] assms(2)] assms(3)
  show ?thesis by (simp add: new_frame_def mc_gas_def)
qed

theorem turns_stack_limit_witness:
  "length (mc_stack (new_frame (new_EVM example_db) (example_contract 10) [])) \<le> 1024 \<and>
     c_Gas (mc_contract (new_frame (new_EVM example_db) (example_contract 10) [])) \<le> c_Gas (example_contract 10)"
  by (rule turns_stack_limit [OF example_table example_uint256 _ turns.start, where fuel = 10]) (simp add: example_contract_def)

text \<open>C14: When \<open>NewEVM\<close> panics. With extra EIPs that are all known, it panics exactly on a chain that is on EWASM, and when
  EIP 1884 or 2929, which change the price of \<open>EXTCODEHASH\<close>, is asked for on a table before Constantinople, which
  has no such entry. Otherwise it returns an EVM with the rules of its block, a jump table, and all the extra EIPs.\<close>

theorem NewEVM_panics:
  fixes env :: "('t, 's) evm_env"
  assumes "\<forall>e \<in> set extra. ValidEip e" "rules = config_Rules cfg (Some (ee_BlockNumber env))"
  shows "if cc_IsEWASM cfg (Some (ee_BlockNumber env)) \<or>
      (1884 \<in> set extra \<or> 2929 \<in> set extra) \<and> \<not> (IsYoloV2 rules \<or> IsIstanbul rules \<or> IsConstantinople rules)
    then NewEVM env cfg extra s = None
    else \<exists>jt. NewEVM env cfg extra s = Some (env\<lparr>ee_chainRules := rules\<rparr>, new_EVM s, jt, extra)"
proof -
  have "if (1884 \<in> set extra \<or> 2929 \<in> set extra) \<and> \<not> constantinople rules
    then NewEVMInterpreter rules extra = (None :: (('t, 's) JumpTable \<times> int list) option)
    else \<exists>jt :: ('t, 's) JumpTable. NewEVMInterpreter rules extra = Some (jt, extra)" by (rule NewEVMInterpreter_known [OF assms(1)])
  then show ?thesis unfolding NewEVM_def Let_def by (auto simp: assms(2) split: if_splits)
qed

theorem NewEVM_panics_witness:
  "NewEVM (example_env\<lparr>ee_BlockNumber := 1\<rparr>) (example_config 5) [1884] example_db = None \<and>
   NewEVM (example_env\<lparr>ee_BlockNumber := 6\<rparr>) (example_config 5) [1884] example_db \<noteq> None"
  using NewEVM_panics [OF _ refl, of "[1884]" "example_config 5" "example_env\<lparr>ee_BlockNumber := 1\<rparr>" example_db]
    NewEVM_panics [OF _ refl, of "[1884]" "example_config 5" "example_env\<lparr>ee_BlockNumber := 6\<rparr>" example_db]
  by (auto simp: ValidEip_iff config_Rules_def cc_defs isForked_def example_config_def)

text \<open>Cutting an unknown EIP out of the configuration shortens the list under the loop: with two unknown EIPs and no other
  the second cut is out of range, so that \<open>NewEVM\<close> panics instead of reporting them as not activated.\<close>

theorem NewEVM_unknown_eips:
  fixes env :: "('t, 's) evm_env"
  assumes "\<forall>e \<in> set extra. \<not> ValidEip e" "2 \<le> length extra"
  shows "NewEVM env cfg extra s = None"
proof -
  have "NewEVMInterpreter rules extra = (None :: (('t, 's) JumpTable \<times> int list) option)" for rules
    by (rule NewEVMInterpreter_unknown [OF assms])
  then show ?thesis by (simp add: NewEVM_def Let_def)
qed

text \<open>C16: The addresses that \<open>ActivePrecompiles\<close> returns are not those of the native contracts. Whatever the order in
  which \<open>init\<close> visits its maps, the list for Byzantium stays empty, although calls there find eight native contracts,
  and the list for the forks before holds one address, the last one visited of Byzantium.\<close>

theorem ActivePrecompiles_lists:
  "ActivePrecompiles (contracts_init homestead (byzantium @ [k]) istanbul yolo) (example_rules\<lparr>IsByzantium := True\<rparr>) = [] \<and>
   evm_precompile (example_rules\<lparr>IsByzantium := True\<rparr>) 8 = Some bn256PairingByzantium \<and>
   ActivePrecompiles (contracts_init homestead (byzantium @ [k]) istanbul yolo) example_rules = [k]"
proof -
  have yolo: "PrecompiledAddressesByzantium (foldl (\<lambda>l k. l\<lparr>PrecompiledAddressesYoloV2 := PrecompiledAddressesYoloV2 l @ [k]\<rparr>) l ks) =
      PrecompiledAddressesByzantium l"
    "PrecompiledAddressesHomestead (foldl (\<lambda>l k. l\<lparr>PrecompiledAddressesYoloV2 := PrecompiledAddressesYoloV2 l @ [k]\<rparr>) l ks) =
      PrecompiledAddressesHomestead l" for l :: precompiled_addresses and ks
    by (induction ks arbitrary: l) simp_all
  have istanbul: "PrecompiledAddressesByzantium (foldl (\<lambda>l k. l\<lparr>PrecompiledAddressesIstanbul := PrecompiledAddressesIstanbul l @ [k]\<rparr>) l ks) =
      PrecompiledAddressesByzantium l"
    "PrecompiledAddressesHomestead (foldl (\<lambda>l k. l\<lparr>PrecompiledAddressesIstanbul := PrecompiledAddressesIstanbul l @ [k]\<rparr>) l ks) =
      PrecompiledAddressesHomestead l" for l :: precompiled_addresses and ks
    by (induction ks arbitrary: l) simp_all
  have early: "PrecompiledAddressesByzantium (foldl (\<lambda>l k. l\<lparr>PrecompiledAddressesHomestead := PrecompiledAddressesByzantium l @ [k]\<rparr>) l ks) =
      PrecompiledAddressesByzantium l"
    "PrecompiledAddressesByzantium (foldl (\<lambda>l k. l\<lparr>PrecompiledAddressesHomestead := PrecompiledAddressesHomestead l @ [k]\<rparr>) l ks) =
      PrecompiledAddressesByzantium l" for l :: precompiled_addresses and ks
    by (induction ks arbitrary: l) simp_all
  show ?thesis
    by (simp add: ActivePrecompiles_def contracts_init_def Let_def example_rules_def yolo istanbul early evm_precompile_def
        PrecompiledContractsByzantium_def)
qed

end
