(* ===== verification/EvmIsolation.thy ===== *)
theory EvmIsolation
  imports EvmStore EvmRuns
begin

text \<open>
  The EVM over the state database of \<open>core/state\<close>: the database keeps the contract of \<open>evm_store\<close>, so that a call
  that fails leaves nothing behind and code that runs read-only changes no value, however deep its calls nest.
\<close>

section \<open>Snapshots that stay valid\<close>

definition keeps_snapshots :: "('t, 's) backend \<Rightarrow> ('t, 's) StateDB \<Rightarrow> ('t, 's) StateDB \<Rightarrow> bool" where
  "keeps_snapshots be s s' \<longleftrightarrow> (\<forall>g. tracked be g s \<longrightarrow>
     (\<exists>g'. tracked be g' s' \<and> sd_nextRevisionId s \<le> sd_nextRevisionId s' \<and> (\<forall>n \<in> valid_ids s. n \<in> valid_ids s' \<and> g' n = g n)))"

lemma keeps_snapshots_refl: "keeps_snapshots be s s"
  by (auto simp: keeps_snapshots_def)

lemma keeps_snapshots_trans:
  assumes "keeps_snapshots be s s'" "keeps_snapshots be s' s''"
  shows "keeps_snapshots be s s''"
  unfolding keeps_snapshots_def
proof (intro allI impI)
  fix g assume "tracked be g s"
  then obtain g' where g': "tracked be g' s'" "sd_nextRevisionId s \<le> sd_nextRevisionId s'"
      "\<forall>n \<in> valid_ids s. n \<in> valid_ids s' \<and> g' n = g n"
    using assms(1) unfolding keeps_snapshots_def by blast
  then obtain g'' where "tracked be g'' s''" "sd_nextRevisionId s' \<le> sd_nextRevisionId s''"
      "\<forall>n \<in> valid_ids s'. n \<in> valid_ids s'' \<and> g'' n = g' n"
    using assms(2) unfolding keeps_snapshots_def by blast
  with g' show "\<exists>g'. tracked be g' s'' \<and> sd_nextRevisionId s \<le> sd_nextRevisionId s'' \<and>
      (\<forall>n \<in> valid_ids s. n \<in> valid_ids s'' \<and> g' n = g n)"
    by (intro exI [of _ g'']) auto
qed

lemma keeps_snapshots_evolves: "evolves be s s' \<Longrightarrow> keeps_snapshots be s s'"
  unfolding keeps_snapshots_def using tracked_evolves [of be _ s s'] by (force simp: evolves_def same_revs_def valid_ids_def)

lemma tracked_fresh: "tracked be g s \<Longrightarrow> n \<in> valid_ids s \<Longrightarrow> n < sd_nextRevisionId s"
  by (auto simp: valid_ids_index tracked_def Let_def)

lemma Snapshot_keeps:
  assumes "Snapshot s = (s1, i)" "tracked be g s"
  shows "tracked be (g(i := s)) s1" "i = sd_nextRevisionId s" "sd_nextRevisionId s1 = i + 1" "valid_ids s1 = insert i (valid_ids s)"
    "n \<in> valid_ids s \<Longrightarrow> n \<noteq> i"
  using tracked_Snapshot [OF assms(2,1)] tracked_fresh [OF assms(2), of n] by (simp_all add: valid_ids_def)

lemma keeps_snapshots_Snapshot: "Snapshot s = (s1, i) \<Longrightarrow> keeps_snapshots be s s1"
  unfolding keeps_snapshots_def
proof (intro allI impI)
  fix g assume s: "Snapshot s = (s1, i)" and "tracked be g s"
  note k = Snapshot_keeps [OF this]
  show "\<exists>g'. tracked be g' s1 \<and> sd_nextRevisionId s \<le> sd_nextRevisionId s1 \<and> (\<forall>n\<in>valid_ids s. n \<in> valid_ids s1 \<and> g' n = g n)"
    using k by (intro exI [of _ "g(i := s)"]) auto
qed

lemma Snapshot_view: "view be (fst (Snapshot s)) = view be s"
  by (simp add: Snapshot_def Let_def view_def rest_def GetLogs_def accounts_def peek_def fun_eq_iff)

text \<open>Undoing back to a snapshot, whatever happened since.\<close>

lemma revert_since:
  assumes "env_ok be" "tracked be g s" "Snapshot s = (s1, i)" "keeps_snapshots be s1 s2"
  shows "\<exists>s3 g'. RevertToSnapshot be s2 i = Some s3 \<and> view be s3 = view be s \<and> tracked be g' s3 \<and>
    sd_nextRevisionId s \<le> sd_nextRevisionId s3 \<and> (\<forall>n \<in> valid_ids s. n \<in> valid_ids s3 \<and> g' n = g n)"
proof -
  note k = Snapshot_keeps [OF assms(3,2)]
  obtain g' where g': "tracked be g' s2" "sd_nextRevisionId s1 \<le> sd_nextRevisionId s2"
      "\<forall>n \<in> valid_ids s1. n \<in> valid_ids s2 \<and> g' n = (g(i := s)) n"
    using assms(4) k(1) unfolding keeps_snapshots_def by blast
  have i: "i \<in> valid_ids s2" "g' i = s" using g'(3) k(4) by auto
  then obtain j where "j < length (sd_validRevisions s2)" "rv_id (sd_validRevisions s2 ! j) = i" by (auto simp: valid_ids_index)
  from RevertToSnapshot_tracked [OF assms(1) g'(1) this] obtain s3 where
    s3: "RevertToSnapshot be s2 i = Some s3" "view be s3 = view be s" "sd_validRevisions s3 = sd_validRevisions s"
      "sd_nextRevisionId s3 = sd_nextRevisionId s2" "tracked be g' s3"
    unfolding i(2) by blast
  moreover have "n \<in> valid_ids s3 \<and> g' n = g n" if n: "n \<in> valid_ids s" for n
    using s3(3) bspec [OF g'(3), of n] k(4) k(5) [OF n] n by (simp add: valid_ids_def)
  ultimately show ?thesis using g'(2) k(2,3) by (intro exI [of _ s3] exI [of _ g']) simp
qed

section \<open>Values that stay the same\<close>

text \<open>
  What read-only code leaves alone: of every account its balance, nonce, code and whether it is destructed, of the
  accounts there are everything else too, and the refund and the logs.
\<close>

definition same_values :: "('t, 's) backend \<Rightarrow> ('t, 's) StateDB \<Rightarrow> ('t, 's) StateDB \<Rightarrow> bool" where
  "same_values be s s' \<longleftrightarrow> GetRefund s' = GetRefund s \<and> GetLogs s' = GetLogs s \<and>
     (\<forall>a. (snd (Exist be s a) \<longrightarrow> observe_account be s' a = observe_account be s a) \<and>
        snd (GetBalance be s' a) = snd (GetBalance be s a) \<and> snd (GetNonce be s' a) = snd (GetNonce be s a) \<and>
        snd (GetCode be s' a) = snd (GetCode be s a) \<and> snd (HasSuicided be s' a) = snd (HasSuicided be s a))"

lemma same_values_refl: "same_values be s s"
  by (simp add: same_values_def)

lemma same_values_trans: "same_values be s s' \<Longrightarrow> same_values be s' s'' \<Longrightarrow> same_values be s s''"
  by (simp add: same_values_def getters_of_observe(5))

lemma same_values_observe: "observe be s' = observe be s \<Longrightarrow> same_values be s s'"
  by (auto simp: same_values_def observe_def observe_account_def fun_eq_iff)

lemma same_values_view:
  "env_ok be \<Longrightarrow> db_ok be s \<Longrightarrow> db_ok be s' \<Longrightarrow> view be s' = view be s \<Longrightarrow> same_values be s s'"
  by (rule same_values_observe) (auto simp: db_ok_def intro: view_observe)

lemma read_view_Some: "read_view (Some w) = (if av_deleted w then None else Some w)"
  by (simp add: read_view_def)

lemma same_valuesI:
  assumes "env_ok be" "db_ok be s" "db_ok be s'" "sd_refund s' = sd_refund s" "GetLogs s' = GetLogs s"
    and "\<And>a. accounts be s' a = accounts be s a \<or> read_view (accounts be s a) = None \<and>
      (\<exists>w. accounts be s' a = Some w \<and> \<not> av_deleted w \<and> Balance (av_data w) = 0 \<and> Nonce (av_data w) = 0 \<and> av_code w = None \<and>
         \<not> av_suicided w)"
  shows "same_values be s s'"
proof -
  have wf: "wf_state be s" "wf_state be s'" using assms(2,3) by (simp_all add: db_ok_def)
  have "(snd (Exist be s a) \<longrightarrow> observe_account be s' a = observe_account be s a) \<and>
        snd (GetBalance be s' a) = snd (GetBalance be s a) \<and> snd (GetNonce be s' a) = snd (GetNonce be s a) \<and>
        snd (GetCode be s' a) = snd (GetCode be s a) \<and> snd (HasSuicided be s' a) = snd (HasSuicided be s a)" for a
    using assms(6) [of a]
  proof
    note o = observe_account_view [OF assms(1) wf(1), of a] observe_account_view [OF assms(1) wf(2), of a]
    assume "accounts be s' a = accounts be s a"
    with o have "observe_account be s' a = observe_account be s a" by simp
    then show ?thesis by (simp add: observe_account_def)
  next
    note o = observe_account_view [OF assms(1) wf(1), of a] observe_account_view [OF assms(1) wf(2), of a]
    assume "read_view (accounts be s a) = None \<and> (\<exists>w. accounts be s' a = Some w \<and> \<not> av_deleted w \<and> Balance (av_data w) = 0 \<and>
      Nonce (av_data w) = 0 \<and> av_code w = None \<and> \<not> av_suicided w)"
    then show ?thesis using o by (auto simp: observe_account_def account_reads_def read_view_Some)
  qed
  with assms(4,5) show ?thesis by (simp add: same_values_def GetRefund_def)
qed

lemma same_values_accounts:
  "env_ok be \<Longrightarrow> db_ok be s \<Longrightarrow> db_ok be s' \<Longrightarrow> sd_refund s' = sd_refund s \<Longrightarrow> GetLogs s' = GetLogs s \<Longrightarrow>
   accounts be s' = accounts be s \<Longrightarrow> same_values be s s'"
  by (rule same_valuesI) simp_all

section \<open>Quiet operations\<close>

lemma touch_view: "view be (touch s obj) = view be s"
  by (simp add: touch_def Let_def jappend_def view_def rest_def GetLogs_def accounts_def peek_def fun_eq_iff)

lemma Exist_view:
  assumes "env_ok be" "db_ok be s"
  shows "snd (Exist be s a) \<longleftrightarrow> read_view (accounts be s a) \<noteq> None"
proof -
  have "wf_state be s" using assms(2) by (simp add: db_ok_def)
  from observe_account_view [OF assms(1) this, of a] show ?thesis
    by (auto simp: observe_account_def account_reads_def split: option.splits)
qed

text \<open>An account made where there was none has nothing.\<close>

lemma createObject_values:
  assumes "env_ok be" "db_ok be s" "\<not> snd (Exist be s a)" "createObject be s a = (s1, obj, prev)"
  shows "same_values be s s1" "prev = None"
proof -
  obtain s0 x where g: "getDeletedStateObject be s a = (s0, x)" by force
  note e = getDeleted_eq [OF g]
  note f = silent_fields [OF e(2)]
  note c = createObject_evolves [OF assms(1,2,4)]
  have gone: "read_view (accounts be s a) = None" using assms(1-3) by (simp add: Exist_view)
  then show "prev = None"
    using assms(4) g e(1) by (auto simp: createObject_def Let_def read_view_live live_def split: option.splits if_splits)
  have ok: "db_ok be s1" using evolves_ok [OF c(4) [OF c(2)]] c(5) by simp
  have "sd_refund s1 = sd_refund s0" "sd_logs s1 = sd_logs s0"
    using assms(4) g by (auto simp: createObject_def Let_def setStateObject_def jappend_def split: option.splits if_splits)
  then have r: "sd_refund s1 = sd_refund s" "GetLogs s1 = GetLogs s"
    using rest_sel(6) [OF view_sel(1) [OF f(1)]] view_sel(2) [OF f(1)] by (simp_all add: GetLogs_def fun_eq_iff)
  have obj: "Balance (so_data obj) = 0" "Nonce (so_data obj) = 0" "snd (so_Code be obj) = None" "\<not> so_suicided obj"
    using assms(4) g
    by (auto simp: createObject_def newObject_def Let_def so_setNonce_def so_Code_def so_CodeHash_def split: prod.splits option.splits if_splits)
  have "accounts be s1 a = Some (oview be (sd_snap s1) (sd_snapDestructs s1) obj)"
    using c(1) by (simp add: accounts_def peek_def or_else_def)
  then show "same_values be s s1"
    using obj gone c(3) createObject_view [OF assms(1,2,4)]
    by (intro same_valuesI [OF assms(1,2) ok r]) (metis oview_sel)
qed

lemma CreateAccount_values:
  assumes "env_ok be" "db_ok be s" "\<not> snd (Exist be s a)"
  shows "same_values be s (CreateAccount be s a)"
proof -
  obtain s1 obj prev where c: "createObject be s a = (s1, obj, prev)" by (metis prod_cases3)
  from createObject_values [OF assms c] c show ?thesis by (simp add: CreateAccount_def)
qed

lemma GetOrNew_values:
  assumes "env_ok be" "db_ok be s" "GetOrNewStateObject be s a = (s1, obj)"
  shows "same_values be s s1"
proof -
  obtain s0 x where g: "getStateObject be s a = (s0, x)" by force
  note e = getStateObject_evolves [OF assms(1,2) g]
  have v: "view be s0 = view be s" using read_view_kept(1) [OF assms(1,2), of a] g by simp
  have s0: "same_values be s s0" by (rule same_values_view [OF assms(1,2) e(2) v])
  show ?thesis
  proof (cases x)
    case None
    then have "\<not> snd (Exist be s a)" using g by (simp add: Exist_def)
    then have none: "\<not> snd (Exist be s0 a)" using Exist_view [OF assms(1,2)] Exist_view [OF assms(1) e(2)] view_sel(3) [OF v] by simp
    obtain prev where "createObject be s0 a = (s1, obj, prev)"
      using assms(3) g None by (auto simp: GetOrNewStateObject_def split: prod.splits)
    from createObject_values(1) [OF assms(1) e(2) none this] show ?thesis by (rule same_values_trans [OF s0])
  qed (use assms(3) g s0 in \<open>auto simp: GetOrNewStateObject_def\<close>)
qed

lemma balance_zero_values:
  assumes "env_ok be" "db_ok be s"
  shows "same_values be s (AddBalance be s a 0)" "same_values be s (SubBalance be s a 0)"
proof -
  obtain s1 obj where g: "GetOrNewStateObject be s a = (s1, obj)" by force
  note s1 = GetOrNew_values [OF assms g]
  then show "same_values be s (SubBalance be s a 0)" using g by (simp add: SubBalance_def so_SubBalance_def)
  have "db_ok be (AddBalance be s a 0)" by (rule evolves_ok [OF setters_evolve(1) [OF assms]])
  then have "same_values be s1 (touch s1 obj)" if "so_empty be obj"
    using that g by (intro same_values_view [OF assms(1) GetOrNew_evolves(2) [OF assms g] _ touch_view])
      (simp add: AddBalance_def so_AddBalance_def)
  then show "same_values be s (AddBalance be s a 0)"
    using g s1 by (auto simp: AddBalance_def so_AddBalance_def intro: same_values_trans)
qed

lemma list_values:
  assumes "env_ok be" "db_ok be s"
  shows "same_values be s (AddAddressToAccessList s a)" "same_values be s (AddPreimage s h bs)"
    "AddSlotToAccessList s a k = Some s' \<Longrightarrow> same_values be s s'"
proof -
  show "same_values be s (AddAddressToAccessList s a)"
    by (rule same_values_accounts [OF assms evolves_ok [OF AddAddressToAccessList_evolves [OF assms(2)]]])
      (auto simp: AddAddressToAccessList_def Let_def jappend_def GetLogs_def accounts_def peek_def fun_eq_iff split: prod.split)
  show "same_values be s (AddPreimage s h bs)"
    by (rule same_values_accounts [OF assms evolves_ok [OF AddPreimage_evolves [OF assms(2)]]])
      (auto simp: AddPreimage_def jappend_def GetLogs_def accounts_def peek_def fun_eq_iff)
  assume s': "AddSlotToAccessList s a k = Some s'"
  then have "db_ok be s'" using AddSlotToAccessList_evolves [OF assms(2), of a k] evolves_ok by auto
  then show "same_values be s s'"
    by (rule same_values_accounts [OF assms])
      (use s' in \<open>auto simp: AddSlotToAccessList_def Let_def jappend_def GetLogs_def accounts_def peek_def fun_eq_iff
        split: option.splits prod.splits if_splits\<close>)
qed

lemma quiet_values:
  assumes "env_ok be" "db_ok be s" "quiet_op op" "run_op be op s = Some s'"
  shows "same_values be s s'"
proof -
  have "op \<noteq> op_Snapshot" "op \<noteq> op_RevertToSnapshot n" for n using assms(3) by (cases op; simp)+
  then have ok: "db_ok be s'" by (intro evolves_ok [OF run_op_evolves [OF assms(1,2,4)]])
  show ?thesis
  proof (cases op)
    case (op_AddBalance a n)
    with assms(3,4) balance_zero_values(1) [OF assms(1,2), of a] show ?thesis by simp
  next
    case (op_SubBalance a n)
    with assms(3,4) balance_zero_values(2) [OF assms(1,2), of a] show ?thesis by simp
  next
    case (op_AddPreimage h bs)
    with assms(4) list_values(2) [OF assms(1,2), of h bs] show ?thesis by simp
  next
    case (op_AddAddressToAccessList a)
    with assms(4) list_values(1) [OF assms(1,2), of a] show ?thesis by simp
  next
    case (op_AddSlotToAccessList a k)
    with assms(4) list_values(3) [OF assms(1,2), of a k] show ?thesis by simp
  qed (use assms(3,4) ok in \<open>auto simp: plain_reads read_view_kept [OF assms(1,2)] intro!: same_values_view [OF assms(1,2)]\<close>)
qed

section \<open>The database keeps the contract\<close>

definition store_inv :: "('t, 's) evm_env \<Rightarrow> ('t, 's) StateDB \<Rightarrow> bool" where
  "store_inv env s \<longleftrightarrow> env_ok (ee_backend env) \<and> (\<exists>g. tracked (ee_backend env) g s)"

definition store_chg :: "('t, 's) evm_env \<Rightarrow> bool \<Rightarrow> ('t, 's) StateDB \<Rightarrow> ('t, 's) StateDB \<Rightarrow> bool" where
  "store_chg env q s s' \<longleftrightarrow> keeps_snapshots (ee_backend env) s s' \<and> (q \<longrightarrow> same_values (ee_backend env) s s')"

definition store_like :: "('t, 's) evm_env \<Rightarrow> ('t, 's) StateDB \<Rightarrow> ('t, 's) StateDB \<Rightarrow> bool" where
  "store_like env s s' \<longleftrightarrow> observe (ee_backend env) s' = observe (ee_backend env) s"

lemma store_invE:
  assumes "store_inv env s"
  obtains g where "env_ok (ee_backend env)" "tracked (ee_backend env) g s" "db_ok (ee_backend env) s"
  using assms tracked_ok unfolding store_inv_def by blast

lemma store_plain:
  assumes "store_inv env s" "plain_op op" "run_op (ee_backend env) op s = Some s'"
  shows "evolves (ee_backend env) s s'"
proof (rule store_invE [OF assms(1)])
  fix g assume "env_ok (ee_backend env)" "db_ok (ee_backend env) s"
  from run_op_evolves [OF this assms(3)] assms(2) show ?thesis by (simp add: plain_op_def)
qed

lemma store_quiet:
  assumes "store_inv env s" "quiet_op op" "run_op (ee_backend env) op s = Some s'"
  shows "store_chg env True s s'"
proof (rule store_invE [OF assms(1)])
  fix g assume ok: "env_ok (ee_backend env)" "db_ok (ee_backend env) s"
  have "plain_op op" using assms(2) by (cases op) (simp_all add: plain_op_def)
  then show ?thesis
    using keeps_snapshots_evolves [OF store_plain [OF assms(1) _ assms(3)]] quiet_values [OF ok assms(2,3)] by (simp add: store_chg_def)
qed

lemma store_create:
  assumes "store_inv env s" "\<not> snd (Exist (ee_backend env) s a)"
  shows "store_chg env True s (CreateAccount (ee_backend env) (fst (Exist (ee_backend env) s a)) a)"
proof (rule store_invE [OF assms(1)])
  let ?be = "ee_backend env" and ?s1 = "fst (Exist (ee_backend env) s a)"
  fix g assume ok: "env_ok ?be" "db_ok ?be s"
  have e: "evolves ?be s ?s1" using reads_evolve(5) [OF ok] by (simp add: plain_reads)
  have v: "view ?be ?s1 = view ?be s" using read_view_kept(1) [OF ok] by (simp add: plain_reads)
  have "\<not> snd (Exist ?be ?s1 a)"
    using assms(2) Exist_view [OF ok] Exist_view [OF ok(1) evolves_ok [OF e]] view_sel(3) [OF v] by simp
  note c = CreateAccount_values [OF ok(1) evolves_ok [OF e] this] CreateAccount_evolves [OF ok(1) evolves_ok [OF e], of a]
  show ?thesis
    using same_values_trans [OF same_values_view [OF ok evolves_ok [OF e] v] c(1)] keeps_snapshots_evolves [OF evolves_trans [OF e c(2)]]
    by (simp add: store_chg_def)
qed

lemma store_snapshot:
  assumes "store_inv env s" "Snapshot s = (s', i)"
  shows "store_chg env True s s'"
proof (rule store_invE [OF assms(1)])
  let ?be = "ee_backend env"
  fix g assume ok: "env_ok ?be" "tracked ?be g s" "db_ok ?be s"
  have "db_ok ?be s'" using tracked_ok Snapshot_keeps(1) [OF assms(2) ok(2)] by blast
  from same_values_view [OF ok(1,3) this] Snapshot_view [of ?be s] assms(2) have "same_values ?be s s'" by simp
  with keeps_snapshots_Snapshot [OF assms(2)] show ?thesis by (simp add: store_chg_def)
qed

lemma store_revert:
  assumes "store_inv env s" "Snapshot s = (s1, i)" "store_chg env False s1 s2"
  shows "\<exists>s3. RevertToSnapshot (ee_backend env) s2 i = Some s3 \<and> store_chg env True s s3 \<and> store_like env s s3"
proof (rule store_invE [OF assms(1)])
  let ?be = "ee_backend env"
  fix g assume ok: "env_ok ?be" "tracked ?be g s" "db_ok ?be s"
  have k: "keeps_snapshots ?be s1 s2" using assms(3) by (simp add: store_chg_def)
  obtain s3 g' where s3: "RevertToSnapshot ?be s2 i = Some s3" "view ?be s3 = view ?be s" "tracked ?be g' s3"
    using revert_since [OF ok(1,2) assms(2) k] by blast
  have o: "observe ?be s3 = observe ?be s"
    using tracked_ok [OF s3(3)] ok(3) by (intro view_observe [OF ok(1) _ _ s3(2)]) (simp_all add: db_ok_def)
  have "keeps_snapshots ?be s s3"
    unfolding keeps_snapshots_def using revert_since [OF ok(1) _ assms(2) k] s3(1) by fastforce
  then show ?thesis using s3(1) same_values_observe [OF o] o by (simp add: store_chg_def store_like_def)
qed

lemma store_balance:
  assumes "store_inv env s"
  shows "store_like env s (fst (GetBalance (ee_backend env) s a))"
proof (rule store_invE [OF assms])
  let ?be = "ee_backend env" and ?s' = "fst (GetBalance (ee_backend env) s a)"
  fix g assume ok: "env_ok ?be" "db_ok ?be s"
  have "db_ok ?be ?s'" using evolves_ok [OF reads_evolve(5) [OF ok]] by (simp add: plain_reads)
  then have "observe ?be ?s' = observe ?be s"
    using ok(2) by (intro view_observe [OF ok(1)]) (simp_all add: db_ok_def plain_reads read_view_kept [OF ok])
  then show ?thesis by (simp add: store_like_def)
qed

interpretation db: evm_store env "store_inv env" "store_chg env" "store_like env" for env :: "('t, 's) evm_env"
proof unfold_locales
  fix q :: bool and s s' s'' :: "('t, 's) StateDB" and op
  show "store_chg env q s s" by (simp add: store_chg_def keeps_snapshots_refl same_values_refl)
  show "store_chg env q s s' \<Longrightarrow> store_chg env q s' s'' \<Longrightarrow> store_chg env q s s''"
    by (auto simp: store_chg_def intro: keeps_snapshots_trans same_values_trans)
  show "store_chg env True s s' \<Longrightarrow> store_chg env q s s'" by (simp add: store_chg_def)
  show "store_inv env s \<Longrightarrow> store_chg env q s s' \<Longrightarrow> store_inv env s'"
    by (auto simp: store_chg_def store_inv_def keeps_snapshots_def)
  show "store_inv env s \<Longrightarrow> plain_op op \<Longrightarrow> run_op (ee_backend env) op s = Some s' \<Longrightarrow> store_chg env False s s'"
    by (simp add: store_chg_def keeps_snapshots_evolves store_plain)
qed (use store_quiet store_create store_snapshot store_revert store_balance in \<open>auto simp: store_like_def\<close>)

lemma store_reachable: "env_ok (ee_backend env) \<Longrightarrow> reachable (ee_backend env) s \<Longrightarrow> store_inv env s"
  using reachable_tracked unfolding store_inv_def by blast

section \<open>An example\<close>

text \<open>A call of the SHA256 contract that has no gas to pay for it.\<close>

lemma example_inv: "store_inv example_env (ev_StateDB (new_EVM example_db))"
  by (rule store_reachable) (simp_all add: example_env_def new_EVM_def empty_backend_ok example_db_reachable)

lemma example_jt: "db.runner_ok example_env (Run fuel example_env newFrontierInstructionSet)"
  using db.Run_runner_ok [OF NewEVMInterpreter_within [OF example_table] example_uint256] .

lemma example_failed_call:
  assumes "store_inv example_env (ev_StateDB e)" "ev_depth e = 0"
  shows "\<exists>e'. Call example_env (Run n example_env newFrontierInstructionSet) e (AccountRef 1) 2 [] 0 0 =
     Ret (e', Fresh [], 0, Some ErrOutOfGas)" (is "\<exists>e'. ?call = _")
proof -
  let ?r = "RevertToSnapshot (ee_backend example_env)"
  have "\<exists>s e'. ?call = andThen (must RevisionPanic (?r s (snd (Snapshot (ev_StateDB e)))))
      (\<lambda>s. Ret (e'\<lparr>ev_StateDB := s\<rparr>, Fresh [], 0, Some ErrOutOfGas))"
    by (simp add: assms(2) Call_def mc_reads call_code_def evm_precompile_def PrecompiledContractsHomestead_def example_env_def
        example_rules_def call_native_def RunPrecompiledContract_def per_word_def end_call_def) blast
  then obtain s e' where c: "?call = andThen (must RevisionPanic (?r s (snd (Snapshot (ev_StateDB e)))))
      (\<lambda>s. Ret (e'\<lparr>ev_StateDB := s\<rparr>, Fresh [], 0, Some ErrOutOfGas))" by blast
  have "db.ends example_env False e ?call" by (rule db.Call_ends [OF example_jt]) simp_all
  then have "?call \<noteq> Panic RevisionPanic" using assms(1) by (auto simp: db.ends_def)
  with c show ?thesis by (auto simp: must_def split: option.splits)
qed

definition static_env :: "(unit, unit) evm_env" where
  "static_env = example_env\<lparr>ee_chainRules := example_rules\<lparr>IsByzantium := True\<rparr>\<rparr>"

lemma example_static_call:
  "StaticCall static_env rn (new_EVM example_db) (AccountRef 1) 4 [] 20 =
     Ret ((new_EVM example_db)\<lparr>ev_StateDB := AddBalance empty_backend (fst (Snapshot example_db)) 4 0\<rparr>, Input_slice, 5, None)"
  by (simp add: StaticCall_def mc_reads evm_precompile_def PrecompiledContractsByzantium_def static_env_def example_env_def
      example_rules_def call_native_def RunPrecompiledContract_def precompile_Run_def per_word_def end_call_def new_EVM_def Let_def)

section \<open>Properties\<close>

text \<open>C3: A call that fails leaves no trace. Whatever code it runs and however deep that nests calls, creations and
  destructions, when \<open>Call\<close>, \<open>CallCode\<close>, \<open>DelegateCall\<close> or \<open>StaticCall\<close> returns an error, every getter of the
  database returns what it returned before the call. The database
  is one that clients can reach without the debugging override \<open>SetStorage\<close>.\<close>

theorem failed_call_undone:
  assumes "NewEVMInterpreter rules extra = Some (jt, left)" "uint256_ok (ee_uint256 env)"
    and "env_ok (ee_backend env)" "reachable (ee_backend env) (ev_StateDB evm)"
    and "r \<in> {Call env (Run fuel env jt) evm caller a input gas v, CallCode env (Run fuel env jt) evm caller a input gas v,
      DelegateCall env (Run fuel env jt) evm caller a input gas, StaticCall env (Run fuel env jt) evm caller a input gas}"
    and "r = Ret (evm', ret, gas', Some err)"
  shows "observe (ee_backend env) (ev_StateDB evm') = observe (ee_backend env) (ev_StateDB evm)"
proof -
  note rn = db.Run_runner_ok [OF NewEVMInterpreter_within [OF assms(1)] assms(2), of fuel]
  have "db.ends env False evm r"
    using assms(5) db.Call_ends [OF rn, of False] db.CallCode_ends [OF rn, of False] db.DelegateCall_ends [OF rn, of False]
      db.StaticCall_ends [OF rn, of False] by auto
  then show ?thesis
    using store_reachable [OF assms(3,4)] unfolding assms(6) by (simp add: store_like_def)
qed

theorem failed_call_undone_witness:
  "\<exists>evm'. Call example_env (Run 3 example_env newFrontierInstructionSet) (new_EVM example_db) (AccountRef 1) 2 [] 0 0 =
       Ret (evm', Fresh [], 0, Some ErrOutOfGas) \<and>
     observe (ee_backend example_env) (ev_StateDB evm') = observe (ee_backend example_env) (ev_StateDB (new_EVM example_db))"
proof -
  obtain evm' where c: "Call example_env (Run 3 example_env newFrontierInstructionSet) (new_EVM example_db) (AccountRef 1) 2 [] 0 0 =
       Ret (evm', Fresh [], 0, Some ErrOutOfGas)" using example_failed_call [OF example_inv] by (auto simp: new_EVM_def)
  have "env_ok (ee_backend example_env)" "reachable (ee_backend example_env) (ev_StateDB (new_EVM example_db))"
    by (simp_all add: example_env_def new_EVM_def empty_backend_ok example_db_reachable)
  from failed_call_undone [OF example_table example_uint256 this insertI1 c] c show ?thesis by blast
qed

text \<open>C4: Static calls do not write. From Byzantium on, whatever a static call runs and whether it succeeds or fails,
  the balance, nonce, code and destruction mark of every account, the code hash and the storage of the accounts there
  are, the logs and the refund are as before.\<close>

theorem static_call_reads_only:
  assumes "NewEVMInterpreter rules extra = Some (jt, left)" "uint256_ok (ee_uint256 env)"
    and "env_ok (ee_backend env)" "reachable (ee_backend env) (ev_StateDB evm)" "IsByzantium (ee_chainRules env)"
    and "StaticCall env (Run fuel env jt) evm caller addr input gas = Ret (evm', ret, gas', err)"
  shows "let be = ee_backend env; s = ev_StateDB evm; s' = ev_StateDB evm' in
    snd (GetBalance be s' a) = snd (GetBalance be s a) \<and> snd (GetNonce be s' a) = snd (GetNonce be s a) \<and>
    snd (GetCode be s' a) = snd (GetCode be s a) \<and> snd (HasSuicided be s' a) = snd (HasSuicided be s a) \<and>
    (snd (Exist be s a) \<longrightarrow> snd (Exist be s' a) \<and> snd (GetCodeHash be s' a) = snd (GetCodeHash be s a) \<and>
       snd (GetState be s' a k) = snd (GetState be s a k) \<and> snd (GetCommittedState be s' a k) = snd (GetCommittedState be s a k)) \<and>
    GetLogs s' = GetLogs s \<and> GetRefund s' = GetRefund s"
proof -
  note rn = db.Run_runner_ok [OF NewEVMInterpreter_within [OF assms(1)] assms(2), of fuel]
  have "db.ends env True evm (StaticCall env (Run fuel env jt) evm caller addr input gas)"
    by (rule db.StaticCall_ends [OF rn]) (simp add: assms(5))
  then have "same_values (ee_backend env) (ev_StateDB evm) (ev_StateDB evm')"
    using store_reachable [OF assms(3,4)] unfolding assms(6) by (simp add: db.egoes_def db.goes_def store_chg_def)
  then show ?thesis by (auto simp: same_values_def observe_account_def Let_def fun_eq_iff)
qed

theorem static_call_reads_only_witness:
  "snd (GetBalance empty_backend (AddBalance empty_backend (fst (Snapshot example_db)) 4 0) 4) = snd (GetBalance empty_backend example_db 4) \<and>
   GetLogs (AddBalance empty_backend (fst (Snapshot example_db)) 4 0) = GetLogs example_db"
proof -
  have e: "uint256_ok (ee_uint256 static_env)" "env_ok (ee_backend static_env)"
      "reachable (ee_backend static_env) (ev_StateDB (new_EVM example_db))" "IsByzantium (ee_chainRules static_env)"
    using example_uint256 by (simp_all add: static_env_def example_env_def new_EVM_def empty_backend_ok example_db_reachable)
  from static_call_reads_only [OF example_table e example_static_call, of 4] show ?thesis
    by (simp add: Let_def static_env_def example_env_def new_EVM_def)
qed

text \<open>C8: The EVM never reverts to a snapshot that is not valid: no run, call or creation ends in the panic of
  \<open>RevertToSnapshot\<close>.\<close>

theorem no_revision_panic:
  assumes "NewEVMInterpreter rules extra = Some (jt, left)" "uint256_ok (ee_uint256 env)"
    and "env_ok (ee_backend env)" "reachable (ee_backend env) (ev_StateDB evm)"
  shows "Run fuel env jt evm c input ro \<noteq> Panic RevisionPanic \<and>
    Call env (Run fuel env jt) evm caller a input gas v \<noteq> Panic RevisionPanic \<and>
    CallCode env (Run fuel env jt) evm caller a input gas v \<noteq> Panic RevisionPanic \<and>
    DelegateCall env (Run fuel env jt) evm caller a input gas \<noteq> Panic RevisionPanic \<and>
    StaticCall env (Run fuel env jt) evm caller a input gas \<noteq> Panic RevisionPanic \<and>
    Create env (Run fuel env jt) evm caller code gas v \<noteq> Panic RevisionPanic \<and>
    Create2 env (Run fuel env jt) evm caller code gas v salt \<noteq> Panic RevisionPanic"
proof -
  note rn = db.Run_runner_ok [OF NewEVMInterpreter_within [OF assms(1)] assms(2), of fuel]
  have safe: "r \<noteq> Panic RevisionPanic" if "db.kept env q evm get r" for q get and r :: "'c outcome"
    using that store_reachable [OF assms(3,4)] by (auto simp: db.kept_def)
  show ?thesis
    using safe [OF rn [unfolded db.runner_ok_def, rule_format]] safe [OF db.calls_kept(1) [OF rn, of False]]
      safe [OF db.calls_kept(2) [OF rn, of False]] safe [OF db.calls_kept(3) [OF rn, of False]]
      safe [OF db.calls_kept(4) [OF rn, of False]] safe [OF db.Create_kept(1) [OF rn]] safe [OF db.Create_kept(2) [OF rn]]
    by simp
qed

theorem no_revision_panic_witness:
  "Call example_env (Run 3 example_env newFrontierInstructionSet) (new_EVM example_db) (AccountRef 1) 2 [] 0 0 \<noteq> Panic RevisionPanic"
proof -
  have "env_ok (ee_backend example_env)" "reachable (ee_backend example_env) (ev_StateDB (new_EVM example_db))"
    by (simp_all add: example_env_def new_EVM_def empty_backend_ok example_db_reachable)
  from no_revision_panic [OF example_table example_uint256 this] show ?thesis by blast
qed

end
