(* ===== verification/Transactions.thy ===== *)
theory Transactions
  imports StateTransition EvmIsolation
begin

text \<open>
  Messages applied to the state database by the EVM: the gas that a message pays for and what it leaves of the
  gas of the block, which messages are refused, and what a message whose code fails does to the accounts.
\<close>

section \<open>Changes of balances and nonces\<close>

text \<open>
  From \<open>s\<close> to \<open>s'\<close> the balances changed by \<open>d\<close>, the nonces by \<open>n\<close>, and nothing else that is there; accounts outside of
  \<open>P\<close> are as they were, and so are the refund counter, the logs, the preimages and the access list.
\<close>

definition moved ::
  "('t, 's) backend \<Rightarrow> ('t, 's) StateDB \<Rightarrow> ('t, 's) StateDB \<Rightarrow> (address \<Rightarrow> int) \<Rightarrow> (address \<Rightarrow> uint64) \<Rightarrow> bool" where
  "moved be s s' d n \<longleftrightarrow> GetLogs s' = GetLogs s \<and>
     (\<forall>a. snd (GetBalance be s' a) = snd (GetBalance be s a) + d a \<and> snd (GetNonce be s' a) = snd (GetNonce be s a) + n a \<and>
        snd (GetCode be s' a) = snd (GetCode be s a) \<and> snd (HasSuicided be s' a) = snd (HasSuicided be s a) \<and>
        (snd (Exist be s a) \<longrightarrow> snd (Exist be s' a) \<and> snd (GetCodeHash be s' a) = snd (GetCodeHash be s a) \<and>
           snd (GetCodeSize be s' a) = snd (GetCodeSize be s a) \<and>
           (\<forall>k. snd (GetState be s' a k) = snd (GetState be s a k) \<and> snd (GetCommittedState be s' a k) = snd (GetCommittedState be s a k))))"

definition framed :: "('t, 's) backend \<Rightarrow> address set \<Rightarrow> ('t, 's) StateDB \<Rightarrow> ('t, 's) StateDB \<Rightarrow> bool" where
  "framed be P s s' \<longleftrightarrow> GetRefund s' = GetRefund s \<and> sd_preimages s' = sd_preimages s \<and>
     AddressInAccessList s' = AddressInAccessList s \<and> SlotInAccessList s' = SlotInAccessList s \<and>
     (\<forall>a. a \<notin> P \<longrightarrow> observe_account be s' a = observe_account be s a)"

definition adjusts ::
  "('t, 's) backend \<Rightarrow> address set \<Rightarrow> ('t, 's) StateDB \<Rightarrow> ('t, 's) StateDB \<Rightarrow> (address \<Rightarrow> int) \<Rightarrow> (address \<Rightarrow> uint64) \<Rightarrow> bool" where
  "adjusts be P s s' d n \<longleftrightarrow> moved be s s' d n \<and> framed be P s s'"

lemma adjustsD:
  assumes "adjusts be P s s' d n"
  shows "snd (GetBalance be s' a) = snd (GetBalance be s a) + d a" "snd (GetNonce be s' a) = snd (GetNonce be s a) + n a"
  using assms by (simp_all add: adjusts_def moved_def)

lemma adjusts_cong: "adjusts be P s s' d n \<Longrightarrow> d = d' \<Longrightarrow> n = n' \<Longrightarrow> adjusts be P s s' d' n'"
  by simp

lemma moved_trans:
  "moved be s s' d n \<Longrightarrow> moved be s' s'' d' n' \<Longrightarrow> moved be s s'' (\<lambda>a. d a + d' a) (\<lambda>a. n a + n' a)"
  by (simp add: moved_def)

lemma adjusts_trans:
  "adjusts be P s s' d n \<Longrightarrow> adjusts be P s' s'' d' n' \<Longrightarrow> adjusts be P s s'' (\<lambda>a. d a + d' a) (\<lambda>a. n a + n' a)"
  by (auto simp: adjusts_def framed_def intro: moved_trans)

lemma moved_values: "same_values be s s' \<Longrightarrow> moved be s s' (\<lambda>a. 0) (\<lambda>a. 0)"
  by (auto simp: moved_def same_values_def observe_account_def fun_eq_iff)

lemma adjusts_observe: "observe be s' = observe be s \<Longrightarrow> adjusts be P s s' (\<lambda>a. 0) (\<lambda>a. 0)"
  using moved_values [OF same_values_observe, of be s' s] by (simp add: adjusts_def framed_def observe_def)

lemma set_object_reads:
  assumes "env_ok be" "db_ok be s" "sd_stateObjects s a = Some obj" "wf_obj be a obj" "\<not> so_deleted obj"
    and "db_ok be s'" "accounts be s' = (accounts be s)(a \<mapsto> (oview be (sd_snap s) (sd_snapDestructs s) obj)\<lparr>av_data := data\<rparr>)"
    and "CodeHash data = CodeHash (so_data obj)" "GetLogs s' = GetLogs s"
  shows "moved be s s' (\<lambda>b. if b = a then Balance data - Balance (so_data obj) else 0)
    (\<lambda>b. if b = a then Nonce data - Nonce (so_data obj) else 0)"
proof -
  let ?w = "oview be (sd_snap s) (sd_snapDestructs s) obj"
  have wf: "wf_state be s" "wf_state be s'" using assms(2,6) by (simp_all add: db_ok_def)
  have w: "accounts be s a = Some ?w" using assms(3) by (simp add: accounts_def peek_def or_else_def)
  have own: "observe_account be s a = account_reads be (Some ?w)" "observe_account be s' a = account_reads be (Some (?w\<lparr>av_data := data\<rparr>))"
    using observe_account_view [OF assms(1) wf(1), of a] observe_account_view [OF assms(1) wf(2), of a] w assms(7) by simp_all
  have other: "observe_account be s' b = observe_account be s b" if "b \<noteq> a" for b
    using observe_account_view [OF assms(1) wf(1), of b] observe_account_view [OF assms(1) wf(2), of b] that assms(7) by simp
  show ?thesis
    unfolding moved_def
  proof (intro conjI assms(9) allI)
    fix b
    show "snd (GetBalance be s' b) = snd (GetBalance be s b) + (if b = a then Balance data - Balance (so_data obj) else 0)"
      "snd (GetNonce be s' b) = snd (GetNonce be s b) + (if b = a then Nonce data - Nonce (so_data obj) else 0)"
      "snd (GetCode be s' b) = snd (GetCode be s b)" "snd (HasSuicided be s' b) = snd (HasSuicided be s b)"
      "snd (Exist be s b) \<longrightarrow> snd (Exist be s' b) \<and> snd (GetCodeHash be s' b) = snd (GetCodeHash be s b) \<and>
         snd (GetCodeSize be s' b) = snd (GetCodeSize be s b) \<and>
         (\<forall>k. snd (GetState be s' b k) = snd (GetState be s b k) \<and> snd (GetCommittedState be s' b k) = snd (GetCommittedState be s b k))"
      using own other [of b] assms(5,8)
      by (cases "b = a"; simp add: observe_account_def account_reads_def read_view_Some fun_eq_iff)+
  qed
qed

lemma moved_SetBalance:
  assumes "env_ok be" "db_ok be s" "sd_stateObjects s a = Some obj" "wf_obj be a obj" "\<not> so_deleted obj"
  shows "moved be s (so_SetBalance s obj m) (\<lambda>b. if b = a then m - Balance (so_data obj) else 0) (\<lambda>b. 0)"
proof -
  have "moved be s (so_SetBalance s obj m) (\<lambda>b. if b = a then Balance ((so_data obj)\<lparr>Balance := m\<rparr>) - Balance (so_data obj) else 0)
    (\<lambda>b. if b = a then Nonce ((so_data obj)\<lparr>Balance := m\<rparr>) - Nonce (so_data obj) else 0)"
    by (rule set_object_reads [OF assms evolves_ok [OF so_SetBalance_evolves [OF assms(2-5)]]])
      (simp_all add: so_SetBalance_def wf_obj_address [OF assms(4)] oview_set [OF wf_obj_fake [OF assms(4)]] GetLogs_def fun_eq_iff)
  then show ?thesis by (simp add: if_distrib cong: if_cong)
qed

lemma moved_SetNonce:
  assumes "env_ok be" "db_ok be s" "sd_stateObjects s a = Some obj" "wf_obj be a obj" "\<not> so_deleted obj"
  shows "moved be s (so_SetNonce s obj m) (\<lambda>b. 0) (\<lambda>b. if b = a then m - Nonce (so_data obj) else 0)"
proof -
  have "moved be s (so_SetNonce s obj m) (\<lambda>b. if b = a then Balance ((so_data obj)\<lparr>Nonce := m\<rparr>) - Balance (so_data obj) else 0)
    (\<lambda>b. if b = a then Nonce ((so_data obj)\<lparr>Nonce := m\<rparr>) - Nonce (so_data obj) else 0)"
    by (rule set_object_reads [OF assms evolves_ok [OF so_SetNonce_evolves [OF assms(2-5)]]])
      (simp_all add: so_SetNonce_def wf_obj_address [OF assms(4)] oview_set [OF wf_obj_fake [OF assms(4)]] GetLogs_def fun_eq_iff)
  then show ?thesis by (simp add: if_distrib cong: if_cong)
qed

definition globals :: "('t, 's) StateDB \<Rightarrow> uint64 \<times> (hash \<rightharpoonup> bytes) \<times> accessList" where
  "globals s = (sd_refund s, sd_preimages s, sd_accessList s)"

lemma globals_set [simp]:
  "globals (setStateObject s obj) = globals s" "globals (jappend e s) = globals s" "globals (sd_setError s err) = globals s"
  "globals (s\<lparr>sd_snapDestructs := D\<rparr>) = globals s" "globals (s\<lparr>sd_journal := j\<rparr>) = globals s"
  by (simp_all add: globals_def setStateObject_def jappend_def sd_setError_def)

lemma globals_object: "globals (fst (getDeletedStateObject be s a)) = globals s" "globals (fst (getStateObject be s a)) = globals s"
proof -
  show d: "globals (fst (getDeletedStateObject be s a)) = globals s"
    by (simp add: getDeletedStateObject_def Let_def split: option.split prod.split)
  have "fst (getStateObject be s a) = fst (getDeletedStateObject be s a)"
    by (simp add: getStateObject_def split: option.split prod.split)
  then show "globals (fst (getStateObject be s a)) = globals s" using d by simp
qed

lemma globals_GetOrNew: "GetOrNewStateObject be s a = (s1, obj) \<Longrightarrow> globals s1 = globals s"
proof -
  have c: "globals (fst (createObject be s' a)) = globals s'" for s'
  proof -
    obtain s0 prev where d: "getDeletedStateObject be s' a = (s0, prev)" by force
    then have "globals s0 = globals s'" using globals_object(1) [of be s' a] by simp
    then show ?thesis by (simp add: createObject_def d Let_def split: option.split)
  qed
  obtain s2 x where g: "getStateObject be s a = (s2, x)" by force
  then have "globals s2 = globals s" using globals_object(2) [of be s a] by simp
  then show "GetOrNewStateObject be s a = (s1, obj) \<Longrightarrow> globals s1 = globals s"
    using c [of s2] g by (cases "createObject be s2 a") (auto simp: GetOrNewStateObject_def split: option.splits)
qed

lemma setter_globals:
  "globals (AddBalance be s a x) = globals s" "globals (SubBalance be s a x) = globals s" "globals (SetNonce be s a m) = globals s"
proof -
  obtain s1 obj where g: "GetOrNewStateObject be s a = (s1, obj)" by force
  note g' = globals_GetOrNew [OF g]
  show "globals (AddBalance be s a x) = globals s" "globals (SubBalance be s a x) = globals s" "globals (SetNonce be s a m) = globals s"
    using g' by (simp_all add: AddBalance_def SubBalance_def SetNonce_def g so_AddBalance_def so_SubBalance_def so_SetBalance_def
        so_SetNonce_def touch_def Let_def)
qed

lemma framed_set:
  assumes "globals s' = globals s" "\<And>b. b \<noteq> a \<Longrightarrow> observe_account be s' b = observe_account be s b" "a \<in> P"
  shows "framed be P s s'"
proof -
  have "observe_account be s' b = observe_account be s b" if "b \<notin> P" for b using assms(2,3) that by metis
  then show ?thesis
    using assms(1) by (simp add: framed_def globals_def GetRefund_def AddressInAccessList_def SlotInAccessList_def fun_eq_iff)
qed

lemma moved_balance:
  assumes "env_ok be" "db_ok be s"
  shows "moved be s (AddBalance be s a x) (\<lambda>b. if b = a then x else 0) (\<lambda>b. 0)"
    "moved be s (SubBalance be s a x) (\<lambda>b. if b = a then - x else 0) (\<lambda>b. 0)"
proof -
  obtain s1 obj where g: "GetOrNewStateObject be s a = (s1, obj)" by force
  note e = GetOrNew_evolves [OF assms g]
  note t = moved_trans [OF moved_values [OF GetOrNew_values [OF assms g]] moved_SetBalance [OF assms(1) e(2-5)]]
  note z = balance_zero_values [OF assms, of a, THEN moved_values]
  show "moved be s (AddBalance be s a x) (\<lambda>b. if b = a then x else 0) (\<lambda>b. 0)"
    using t [of "Balance (so_data obj) + x"] z(1) g by (cases "x = 0") (simp_all add: AddBalance_def so_AddBalance_def cong: if_cong)
  show "moved be s (SubBalance be s a x) (\<lambda>b. if b = a then - x else 0) (\<lambda>b. 0)"
    using t [of "Balance (so_data obj) - x"] z(2) g by (cases "x = 0") (simp_all add: SubBalance_def so_SubBalance_def cong: if_cong)
qed

lemma adjusts_balance:
  assumes "env_ok be" "db_ok be s" "a \<in> P"
  shows "adjusts be P s (AddBalance be s a x) (\<lambda>b. if b = a then x else 0) (\<lambda>b. 0)"
    "adjusts be P s (SubBalance be s a x) (\<lambda>b. if b = a then - x else 0) (\<lambda>b. 0)"
  using moved_balance [OF assms(1,2), of a x] framed_set [OF setter_globals(1) balance_reads(5) [OF assms(1,2)] assms(3)]
    framed_set [OF setter_globals(2) balance_reads(6) [OF assms(1,2)] assms(3)]
  by (simp_all add: adjusts_def)

lemma GetOrNew_nonce:
  assumes "env_ok be" "db_ok be s" "GetOrNewStateObject be s a = (s1, obj)"
  shows "Nonce (so_data obj) = snd (GetNonce be s a)"
proof -
  have wf: "wf_state be s" using assms(2) by (simp add: db_ok_def)
  show ?thesis
    using GetOrNew_view(2,3) [OF assms] oview_sel(1) [of be "sd_snap s1" "sd_snapDestructs s1" obj]
    unfolding getters_of_observe observe_account_view [OF assms(1) wf] account_reads_def
    by (auto split: option.splits)
qed

lemma adjusts_nonce:
  assumes "env_ok be" "db_ok be s" "a \<in> P"
  shows "adjusts be P s (SetNonce be s a m) (\<lambda>b. 0) (\<lambda>b. if b = a then m - snd (GetNonce be s a) else 0)"
proof -
  obtain s1 obj where g: "GetOrNewStateObject be s a = (s1, obj)" by force
  note e = GetOrNew_evolves [OF assms(1,2) g]
  from moved_trans [OF moved_values [OF GetOrNew_values [OF assms(1,2) g]] moved_SetNonce [OF assms(1) e(2-5), of m]] g
  have "moved be s (SetNonce be s a m) (\<lambda>b. 0) (\<lambda>b. if b = a then m - snd (GetNonce be s a) else 0)"
    by (simp add: SetNonce_def GetOrNew_nonce [OF assms(1,2) g] cong: if_cong)
  then show ?thesis
    using framed_set [OF setter_globals(3) nonce_code_reads(4) [OF assms(1,2)] assms(3)] by (simp add: adjusts_def)
qed

text \<open>The accounts that a message pays from and to.\<close>

abbreviation payers :: "('t, 's) evm_env \<Rightarrow> Message \<Rightarrow> address set" where
  "payers env msg \<equiv> {msg_From msg, ee_Coinbase env}"

section \<open>Checks before the code runs\<close>

text \<open>The reason to refuse a message, from what the database holds before it: the six clauses of \<open>TransitionDb\<close>,
  in the order in which the code judges them: the overflow of the intrinsic price before its cover.\<close>

definition message_error :: "('t, 's) evm_env \<Rightarrow> ('t, 's) StateDB \<Rightarrow> GasPool \<Rightarrow> Message \<Rightarrow> core_error option" where
  "message_error env s gp msg =
     (let nonce = snd (GetNonce (ee_backend env) s (msg_From msg));
          funds = snd (GetBalance (ee_backend env) s (msg_From msg));
          fee = uint (msg_Gas msg) * msg_GasPrice msg;
          gas = intrinsic_gas (msg_Data msg) (msg_To msg = None) (IsHomestead (ee_chainRules env)) (IsIstanbul (ee_chainRules env))
      in if msg_CheckNonce msg \<and> nonce < msg_Nonce msg then Some ErrNonceTooHigh
         else if msg_CheckNonce msg \<and> nonce > msg_Nonce msg then Some ErrNonceTooLow
         else if funds < fee then Some ErrInsufficientFunds
         else if gp < msg_Gas msg then Some ErrGasLimitReached
         else if gas \<ge> 2 ^ 64 then Some core_ErrGasUintOverflow
         else if unat (msg_Gas msg) < gas then Some ErrIntrinsicGas
         else if msg_Value msg > 0 \<and> funds - fee < msg_Value msg then Some ErrInsufficientFundsForTransfer
         else None)"

text \<open>The state transition once gas has been bought, as far as the rest of the message depends on it.\<close>

definition bought :: "('t, 's) evm_env \<Rightarrow> ('t, 's) EVM \<Rightarrow> Message \<Rightarrow> GasPool \<Rightarrow> uint64 \<Rightarrow> ('t, 's) StateTransition \<Rightarrow> bool" where
  "bought env evm msg gp gas st \<longleftrightarrow>
     (\<exists>s. st = set_state s ((NewStateTransition evm msg gp)\<lparr>st_gp := gp - msg_Gas msg, st_gas := gas, st_initialGas := msg_Gas msg\<rparr>) \<and>
        store_inv env s \<and>
        adjusts (ee_backend env) (payers env msg) (ev_StateDB evm) s
          (\<lambda>a. if a = msg_From msg then - (uint (msg_Gas msg) * msg_GasPrice msg) else 0) (\<lambda>a. 0))"

lemma store_nonce: "store_inv env s \<Longrightarrow> store_like env s (fst (GetNonce (ee_backend env) s a))"
proof (rule store_invE)
  let ?be = "ee_backend env" and ?s' = "fst (GetNonce (ee_backend env) s a)"
  fix g assume ok: "env_ok ?be" "db_ok ?be s"
  have "db_ok ?be ?s'" using evolves_ok [OF reads_evolve(5) [OF ok]] by (simp add: plain_reads)
  then have "observe ?be ?s' = observe ?be s"
    using ok(2) by (intro view_observe [OF ok(1)]) (simp_all add: db_ok_def plain_reads read_view_kept [OF ok])
  then show ?thesis by (simp add: store_like_def)
qed

lemma quiet_step:
  assumes "store_inv env s" "db.goes env True s s'" "store_like env s s'"
  shows "store_inv env s'" "adjusts (ee_backend env) P s s' (\<lambda>a. 0) (\<lambda>a. 0)"
  using db.goes_inv [OF assms(2,1)] adjusts_observe assms(3) by (auto simp: store_like_def)

lemma store_like_refl: "store_like env s s"
  by (simp add: store_like_def)

lemma set_state_simps [simp]:
  "st_state (set_state s st) = s" "set_state s (set_state s' st) = set_state s st" "st_msg (set_state s st) = st_msg st"
  "st_gp (set_state s st) = st_gp st" "st_gas (set_state s st) = st_gas st" "st_gasPrice (set_state s st) = st_gasPrice st"
  "st_initialGas (set_state s st) = st_initialGas st" "st_value (set_state s st) = st_value st" "st_data (set_state s st) = st_data st"
  "(set_state s st)\<lparr>st_gp := gp\<rparr> = set_state s (st\<lparr>st_gp := gp\<rparr>)" "(set_state s st)\<lparr>st_gas := g\<rparr> = set_state s (st\<lparr>st_gas := g\<rparr>)"
  "(set_state s st)\<lparr>st_initialGas := g\<rparr> = set_state s (st\<lparr>st_initialGas := g\<rparr>)"
  "st_state (st\<lparr>st_gp := gp\<rparr>) = st_state st" "st_state (st\<lparr>st_gas := g\<rparr>) = st_state st" "st_state (st\<lparr>st_initialGas := g\<rparr>) = st_state st"
  by (simp_all add: set_state_def st_state_def)

lemma new_simps [simp]:
  "st_msg (NewStateTransition evm msg gp) = msg" "st_gas (NewStateTransition evm msg gp) = 0"
  "st_gp (NewStateTransition evm msg gp) = gp" "st_gasPrice (NewStateTransition evm msg gp) = msg_GasPrice msg"
  "st_value (NewStateTransition evm msg gp) = msg_Value msg" "st_data (NewStateTransition evm msg gp) = msg_Data msg"
  "st_state (NewStateTransition evm msg gp) = ev_StateDB evm" "st_evm (NewStateTransition evm msg gp) = evm"
  by (simp_all add: NewStateTransition_def st_state_def)

lemma buyGas_new:
  assumes "store_inv env s" "adjusts (ee_backend env) (payers env msg) (ev_StateDB evm) s (\<lambda>a. 0) (\<lambda>a. 0)"
    and "st = set_state s (NewStateTransition evm msg gp)" "fee = uint (msg_Gas msg) * msg_GasPrice msg"
    and "funds = snd (GetBalance (ee_backend env) (ev_StateDB evm) (msg_From msg))"
  shows "funds < fee \<Longrightarrow> snd (buyGas (ee_backend env) st) = Some ErrInsufficientFunds"
    "fee \<le> funds \<Longrightarrow> gp < msg_Gas msg \<Longrightarrow> snd (buyGas (ee_backend env) st) = Some ErrGasLimitReached"
    "fee \<le> funds \<Longrightarrow> msg_Gas msg \<le> gp \<Longrightarrow> snd (buyGas (ee_backend env) st) = None \<and>
       bought env evm msg gp (msg_Gas msg) (fst (buyGas (ee_backend env) st))"
proof -
  let ?be = "ee_backend env"
  obtain s1 b where g: "GetBalance ?be s (msg_From msg) = (s1, b)" by force
  have b: "b = funds" using adjustsD(1) [OF assms(2), of "msg_From msg"] g by (simp add: assms(5))
  note s1 = quiet_step [OF assms(1) db.goes_reads(3) store_balance [OF assms(1), of "msg_From msg"]]
  have s1: "store_inv env s1" "adjusts ?be (payers env msg) s s1 (\<lambda>a. 0) (\<lambda>a. 0)" using s1 g by simp_all
  obtain h where ok: "env_ok ?be" "db_ok ?be s1" using s1(1) by (rule store_invE)
  let ?s2 = "SubBalance ?be s1 (msg_From msg) fee"
  have "store_inv env ?s2" using db.goes_inv [OF db.goes_writes(3) s1(1)] .
  moreover have "adjusts ?be (payers env msg) (ev_StateDB evm) ?s2 (\<lambda>a. if a = msg_From msg then - fee else 0) (\<lambda>a. 0)"
    using adjusts_trans [OF adjusts_trans [OF assms(2) s1(2)] adjusts_balance(2) [OF ok insertI1]] by simp
  ultimately show "funds < fee \<Longrightarrow> snd (buyGas (ee_backend env) st) = Some ErrInsufficientFunds"
    "fee \<le> funds \<Longrightarrow> gp < msg_Gas msg \<Longrightarrow> snd (buyGas (ee_backend env) st) = Some ErrGasLimitReached"
    "fee \<le> funds \<Longrightarrow> msg_Gas msg \<le> gp \<Longrightarrow> snd (buyGas (ee_backend env) st) = None \<and>
       bought env evm msg gp (msg_Gas msg) (fst (buyGas (ee_backend env) st))"
    using g b by (auto simp: buyGas_def assms(3,4) SubGas_def Let_def bought_def cong: if_cong)
qed

lemma preCheck_new:
  assumes "store_inv env (ev_StateDB evm)" "pre = preCheck (ee_backend env) (NewStateTransition evm msg gp)"
    and "fee = uint (msg_Gas msg) * msg_GasPrice msg" "funds = snd (GetBalance (ee_backend env) (ev_StateDB evm) (msg_From msg))"
    and "nonce = snd (GetNonce (ee_backend env) (ev_StateDB evm) (msg_From msg))"
  shows "msg_CheckNonce msg \<and> nonce < msg_Nonce msg \<Longrightarrow> snd pre = Some ErrNonceTooHigh"
    "msg_CheckNonce msg \<and> nonce > msg_Nonce msg \<Longrightarrow> snd pre = Some ErrNonceTooLow"
    "(msg_CheckNonce msg \<longrightarrow> nonce = msg_Nonce msg) \<Longrightarrow> funds < fee \<Longrightarrow> snd pre = Some ErrInsufficientFunds"
    "(msg_CheckNonce msg \<longrightarrow> nonce = msg_Nonce msg) \<Longrightarrow> fee \<le> funds \<Longrightarrow> gp < msg_Gas msg \<Longrightarrow> snd pre = Some ErrGasLimitReached"
    "(msg_CheckNonce msg \<longrightarrow> nonce = msg_Nonce msg) \<Longrightarrow> fee \<le> funds \<Longrightarrow> msg_Gas msg \<le> gp \<Longrightarrow>
       snd pre = None \<and> bought env evm msg gp (msg_Gas msg) (fst pre)"
proof -
  let ?be = "ee_backend env" and ?s = "ev_StateDB evm"
  define s1 where "s1 = (if msg_CheckNonce msg then fst (GetNonce ?be ?s (msg_From msg)) else ?s)"
  have s1: "store_inv env s1" "adjusts ?be (payers env msg) ?s s1 (\<lambda>a. 0) (\<lambda>a. 0)"
    using quiet_step [OF assms(1) db.goes_reads(4) store_nonce [OF assms(1), of "msg_From msg"]]
      quiet_step [OF assms(1) db.goes_refl store_like_refl] assms(1)
    by (simp_all add: s1_def)
  note b = buyGas_new [OF s1 refl assms(3,4)]
  have "NewStateTransition evm msg gp = set_state ?s (NewStateTransition evm msg gp)"
    by (simp add: set_state_def NewStateTransition_def)
  then have pre: "pre = (if msg_CheckNonce msg \<and> nonce < msg_Nonce msg then (set_state s1 (NewStateTransition evm msg gp), Some ErrNonceTooHigh)
      else if msg_CheckNonce msg \<and> nonce > msg_Nonce msg then (set_state s1 (NewStateTransition evm msg gp), Some ErrNonceTooLow)
      else buyGas ?be (set_state s1 (NewStateTransition evm msg gp)))"
    by (simp add: assms(2,5) preCheck_def s1_def Let_def case_prod_beta)
  show "msg_CheckNonce msg \<and> nonce < msg_Nonce msg \<Longrightarrow> snd pre = Some ErrNonceTooHigh"
    "msg_CheckNonce msg \<and> nonce > msg_Nonce msg \<Longrightarrow> snd pre = Some ErrNonceTooLow"
    using pre by auto
  assume n: "msg_CheckNonce msg \<longrightarrow> nonce = msg_Nonce msg"
  then have pre: "pre = buyGas ?be (set_state s1 (NewStateTransition evm msg gp))" using pre by auto
  show "funds < fee \<Longrightarrow> snd pre = Some ErrInsufficientFunds" "fee \<le> funds \<Longrightarrow> gp < msg_Gas msg \<Longrightarrow> snd pre = Some ErrGasLimitReached"
    "fee \<le> funds \<Longrightarrow> msg_Gas msg \<le> gp \<Longrightarrow> snd pre = None \<and> bought env evm msg gp (msg_Gas msg) (fst pre)"
    using b pre by simp_all
qed

text \<open>How a message ends once its code has run.\<close>

definition finish_message ::
  "('t, 's) evm_env \<Rightarrow> ('t, 's) StateTransition \<times> bytes \<times> vm_error option \<Rightarrow>
   (('t, 's) StateTransition \<times> (core_error + ExecutionResult)) outcome" where
  "finish_message env = (\<lambda>(st, ret, vmerr). andThen (refundGas (ee_backend env) st) (\<lambda>st.
     let st = set_state (AddBalance (ee_backend env) (st_state st) (ee_Coinbase env) (uint (gasUsed st) * st_gasPrice st)) st
     in Ret (st, Inr \<lparr>ex_UsedGas = gasUsed st, ex_Err = vmerr, ex_ReturnData = ret\<rparr>)))"

lemma bought_pay:
  assumes "bought env evm msg gp g st" "store_inv env s" "adjusts (ee_backend env) (payers env msg) (st_state st) s (\<lambda>a. 0) (\<lambda>a. 0)"
  shows "bought env evm msg gp g' (set_state s (st\<lparr>st_gas := g'\<rparr>))"
proof -
  obtain s0 where s0: "st = set_state s0 ((NewStateTransition evm msg gp)\<lparr>st_gp := gp - msg_Gas msg, st_gas := g, st_initialGas := msg_Gas msg\<rparr>)"
      "adjusts (ee_backend env) (payers env msg) (ev_StateDB evm) s0 (\<lambda>a. if a = msg_From msg then - (uint (msg_Gas msg) * msg_GasPrice msg) else 0) (\<lambda>a. 0)"
    using assms(1) by (auto simp: bought_def)
  then have "adjusts (ee_backend env) (payers env msg) s0 s (\<lambda>a. 0) (\<lambda>a. 0)" using assms(3) by simp
  from adjusts_trans [OF s0(2) this] assms(2) show ?thesis
    unfolding bought_def by (intro exI [of _ s]) (simp add: s0(1) NewStateTransition_def set_state_def cong: if_cong)
qed

lemma checks_after_gas:
  assumes "bought env evm msg gp (msg_Gas msg) st" "length (msg_Data msg) < 2 ^ 64"
    and "preCheck (ee_backend env) (NewStateTransition evm msg gp) = (st, None)"
    and "gas = intrinsic_gas (msg_Data msg) (msg_To msg = None) (IsHomestead (ee_chainRules env)) (IsIstanbul (ee_chainRules env))"
    and "funds = snd (GetBalance (ee_backend env) (ev_StateDB evm) (msg_From msg))" "fee = uint (msg_Gas msg) * msg_GasPrice msg"
  shows "2 ^ 64 \<le> gas \<Longrightarrow> \<exists>st. ApplyMessage env rn evm msg gp = Ret (st, Inl core_ErrGasUintOverflow)"
    "gas < 2 ^ 64 \<Longrightarrow> unat (msg_Gas msg) < gas \<Longrightarrow> \<exists>st. ApplyMessage env rn evm msg gp = Ret (st, Inl ErrIntrinsicGas)"
    "gas \<le> unat (msg_Gas msg) \<Longrightarrow> msg_Value msg > 0 \<and> funds - fee < msg_Value msg \<Longrightarrow>
       \<exists>st. ApplyMessage env rn evm msg gp = Ret (st, Inl ErrInsufficientFundsForTransfer)"
    "gas \<le> unat (msg_Gas msg) \<Longrightarrow> \<not> (msg_Value msg > 0 \<and> funds - fee < msg_Value msg) \<Longrightarrow>
       \<exists>st. bought env evm msg gp (msg_Gas msg - of_nat gas) st \<and>
         ApplyMessage env rn evm msg gp = andThen (execute_message env rn st) (finish_message env)"
proof -
  let ?be = "ee_backend env"
  obtain s where st: "st = set_state s ((NewStateTransition evm msg gp)\<lparr>st_gp := gp - msg_Gas msg, st_gas := msg_Gas msg, st_initialGas := msg_Gas msg\<rparr>)"
      "store_inv env s" "adjusts ?be (payers env msg) (ev_StateDB evm) s (\<lambda>a. if a = msg_From msg then - fee else 0) (\<lambda>a. 0)"
    using assms(1) unfolding bought_def assms(6) by blast
  have sel: "st_msg st = msg" "st_data st = msg_Data msg" "st_gas st = msg_Gas msg" "st_state st = s"
    by (simp_all add: st(1) NewStateTransition_def)
  note ig = IntrinsicGas_value [OF assms(2), of "msg_To msg = None" "IsHomestead (ee_chainRules env)" "IsIstanbul (ee_chainRules env)",
      folded assms(4)]
  note app = ApplyMessage_def TransitionDb_def assms(3) sel ig Let_def
  show "2 ^ 64 \<le> gas \<Longrightarrow> \<exists>st. ApplyMessage env rn evm msg gp = Ret (st, Inl core_ErrGasUintOverflow)"
    by (simp add: app)
  have small: "(msg_Gas msg < of_nat gas) = (unat (msg_Gas msg) < gas)" if "gas < 2 ^ 64"
    using that by (simp add: word_less_nat_alt unat_small)
  show "gas < 2 ^ 64 \<Longrightarrow> unat (msg_Gas msg) < gas \<Longrightarrow> \<exists>st. ApplyMessage env rn evm msg gp = Ret (st, Inl ErrIntrinsicGas)"
    using small by (simp add: app)
  assume le: "gas \<le> unat (msg_Gas msg)"
  then have lt: "gas < 2 ^ 64" using unat_bound [of "msg_Gas msg"] by linarith
  then have no: "\<not> msg_Gas msg < of_nat gas" using small le by simp
  define can where "can = (if msg_Value msg > 0 then CanTransfer ?be s (msg_From msg) (msg_Value msg) else (s, True))"
  have can: "snd can = (\<not> (msg_Value msg > 0 \<and> funds - fee < msg_Value msg))"
    using adjustsD(1) [OF st(3), of "msg_From msg"] by (auto simp: can_def CanTransfer_def case_prod_beta assms(5))
  have s': "store_inv env (fst can)" "adjusts ?be (payers env msg) s (fst can) (\<lambda>a. 0) (\<lambda>a. 0)"
    using quiet_step [OF st(2) db.CanTransfer_store db.CanTransfer_like [OF st(2)]] quiet_step [OF st(2) db.goes_refl store_like_refl] by (simp_all add: can_def)
  have run: "ApplyMessage env rn evm msg gp =
      (if \<not> snd can then Ret (set_state (fst can) (st\<lparr>st_gas := msg_Gas msg - of_nat gas\<rparr>), Inl ErrInsufficientFundsForTransfer)
       else andThen (execute_message env rn (set_state (fst can) (st\<lparr>st_gas := msg_Gas msg - of_nat gas\<rparr>))) (finish_message env))"
    using lt no by (cases "msg_Value msg > 0") (simp_all add: app can_def finish_message_def case_prod_beta)
  show "msg_Value msg > 0 \<and> funds - fee < msg_Value msg \<Longrightarrow> \<exists>st. ApplyMessage env rn evm msg gp = Ret (st, Inl ErrInsufficientFundsForTransfer)"
    using run can by auto
  show "\<not> (msg_Value msg > 0 \<and> funds - fee < msg_Value msg) \<Longrightarrow> \<exists>st. bought env evm msg gp (msg_Gas msg - of_nat gas) st \<and>
      ApplyMessage env rn evm msg gp = andThen (execute_message env rn st) (finish_message env)"
    using run can bought_pay [OF assms(1) s'(1)] s'(2) sel(4) by auto
qed

lemma TransitionDb_cases:
  assumes "store_inv env (ev_StateDB evm)" "length (msg_Data msg) < 2 ^ 64"
    and "gas = intrinsic_gas (msg_Data msg) (msg_To msg = None) (IsHomestead (ee_chainRules env)) (IsIstanbul (ee_chainRules env))"
  shows "message_error env (ev_StateDB evm) gp msg = Some err \<Longrightarrow> \<exists>st. ApplyMessage env rn evm msg gp = Ret (st, Inl err)"
    "message_error env (ev_StateDB evm) gp msg = None \<Longrightarrow> gas \<le> unat (msg_Gas msg) \<and> msg_Gas msg \<le> gp \<and>
       (\<exists>st. bought env evm msg gp (msg_Gas msg - of_nat gas) st \<and>
         ApplyMessage env rn evm msg gp = andThen (execute_message env rn st) (finish_message env))"
proof -
  let ?be = "ee_backend env" and ?s = "ev_StateDB evm"
  define pre where "pre = preCheck ?be (NewStateTransition evm msg gp)"
  define fee where "fee = uint (msg_Gas msg) * msg_GasPrice msg"
  define funds where "funds = snd (GetBalance ?be ?s (msg_From msg))"
  define nonce where "nonce = snd (GetNonce ?be ?s (msg_From msg))"
  note e = preCheck_new [OF assms(1) pre_def fee_def funds_def nonce_def]
  note me = message_error_def [of env ?s gp msg, folded fee_def funds_def nonce_def assms(3), unfolded Let_def]
  have stop: "\<exists>st. ApplyMessage env rn evm msg gp = Ret (st, Inl err)" if "snd pre = Some err" for err
    using that by (cases pre) (simp add: ApplyMessage_def TransitionDb_def pre_def [symmetric])
  have paid: "\<exists>st. bought env evm msg gp (msg_Gas msg) st \<and> preCheck ?be (NewStateTransition evm msg gp) = (st, None)"
    if "(msg_CheckNonce msg \<longrightarrow> nonce = msg_Nonce msg)" "fee \<le> funds" "msg_Gas msg \<le> gp"
    using e(5) [OF that] pre_def by (intro exI [of _ "fst pre"]) (metis prod.collapse)
  consider (high) "msg_CheckNonce msg \<and> nonce < msg_Nonce msg" | (low) "msg_CheckNonce msg \<and> nonce > msg_Nonce msg"
    | (funds) "msg_CheckNonce msg \<longrightarrow> nonce = msg_Nonce msg" "funds < fee"
    | (pool) "msg_CheckNonce msg \<longrightarrow> nonce = msg_Nonce msg" "fee \<le> funds" "gp < msg_Gas msg"
    | (go) "msg_CheckNonce msg \<longrightarrow> nonce = msg_Nonce msg" "fee \<le> funds" "msg_Gas msg \<le> gp"
    using not_less by (metis linorder_neqE)
  then have "(message_error env ?s gp msg = Some err \<longrightarrow> (\<exists>st. ApplyMessage env rn evm msg gp = Ret (st, Inl err))) \<and>
    (message_error env ?s gp msg = None \<longrightarrow> gas \<le> unat (msg_Gas msg) \<and> msg_Gas msg \<le> gp \<and>
       (\<exists>st. bought env evm msg gp (msg_Gas msg - of_nat gas) st \<and>
         ApplyMessage env rn evm msg gp = andThen (execute_message env rn st) (finish_message env)))"
  proof cases
    case high
    then show ?thesis using stop [OF e(1)] by (simp add: me)
  next
    case low
    then have "\<not> nonce < msg_Nonce msg" by auto
    then show ?thesis using low stop [OF e(2)] by (simp add: me)
  next
    case funds
    then show ?thesis using stop [OF e(3)] by (auto simp: me)
  next
    case pool
    then show ?thesis using stop [OF e(4)] by (auto simp: me)
  next
    case go
    then obtain st where st: "bought env evm msg gp (msg_Gas msg) st" "preCheck ?be (NewStateTransition evm msg gp) = (st, None)"
      using paid by blast
    note c = checks_after_gas [OF st(1) assms(2) st(2) assms(3) funds_def fee_def]
    have me': "message_error env ?s gp msg = (if 2 ^ 64 \<le> gas then Some core_ErrGasUintOverflow
        else if unat (msg_Gas msg) < gas then Some ErrIntrinsicGas
        else if msg_Value msg > 0 \<and> funds - fee < msg_Value msg then Some ErrInsufficientFundsForTransfer else None)"
      using go by (auto simp: me)
    show ?thesis
      using c(1-4) go(3) unfolding me' by (auto simp: not_le not_less split: if_splits)
  qed
  then show "message_error env (ev_StateDB evm) gp msg = Some err \<Longrightarrow> \<exists>st. ApplyMessage env rn evm msg gp = Ret (st, Inl err)"
    "message_error env (ev_StateDB evm) gp msg = None \<Longrightarrow> gas \<le> unat (msg_Gas msg) \<and> msg_Gas msg \<le> gp \<and>
       (\<exists>st. bought env evm msg gp (msg_Gas msg - of_nat gas) st \<and>
         ApplyMessage env rn evm msg gp = andThen (execute_message env rn st) (finish_message env))"
    by blast+
qed

section \<open>Running the code\<close>

lemma execute_message_le: "run_le rn rn' \<Longrightarrow> fuel_le (execute_message env rn st) (execute_message env rn' st)"
  by (auto simp: execute_message_def Let_def intro!: fuel_le_andThen calls_le creates_le split: prod.split)

definition same_message :: "('t, 's) StateTransition \<Rightarrow> ('t, 's) StateTransition \<Rightarrow> bool" where
  "same_message st st' \<longleftrightarrow> st_msg st' = st_msg st \<and> st_gp st' = st_gp st \<and> st_gasPrice st' = st_gasPrice st \<and>
     st_initialGas st' = st_initialGas st"

lemma execute_message_gas:
  assumes "meters n rn" "unat (st_gas st) < n"
  shows "outcome_ok (\<lambda>p. p \<noteq> StackPanic) (\<lambda>(st', ret, err). st_gas st' \<le> st_gas st \<and> same_message st st') (execute_message env rn st)"
proof (cases "msg_To (st_msg st) = None")
  case True
  show ?thesis
    unfolding execute_message_def Let_def if_P [OF True]
    by (rule outcome_ok_andThenI [OF Create_metered(1) [OF assms, unfolded metered_create_def]]) (auto simp: same_message_def)
next
  case False
  show ?thesis
    unfolding execute_message_def Let_def if_not_P [OF False] case_prod_beta [of _ "GetNonce _ _ _"] set_state_simps
    by (rule outcome_ok_andThenI [OF Call_metered [OF assms, unfolded metered_def]]) (auto simp: same_message_def)
qed

lemma outcome_if_then: "outcome_if A P r \<Longrightarrow> (\<And>x. P x \<Longrightarrow> outcome_if A Q (f x)) \<Longrightarrow> outcome_if A Q (andThen r f)"
  by (cases r) auto

text \<open>What the code leaves of the database; a call that fails leaves the nonce of the sender incremented, and no more.\<close>

lemma execute_message_store:
  assumes "db.runner_ok env rn" "store_inv env (st_state st)"
  shows "outcome_if code_panic (\<lambda>(st', ret, err). store_inv env (st_state st') \<and> (msg_To (st_msg st) \<noteq> None \<and> err \<noteq> None \<longrightarrow>
      adjusts (ee_backend env) (payers env (st_msg st)) (st_state st) (st_state st') (\<lambda>a. 0) (\<lambda>a. if a = msg_From (st_msg st) then 1 else 0)))
    (execute_message env rn st)"
proof (cases "msg_To (st_msg st)")
  case None
  have "db.kept env False (st_evm st) fst (Create env rn (st_evm st) caller code gas v)" for caller code gas v
    by (rule db.Create_kept(1) [OF assms(1)])
  then have c: "outcome_if code_panic (\<lambda>x. store_inv env (ev_StateDB (fst x))) (Create env rn (st_evm st) caller code gas v)" for caller code gas v
    unfolding db.kept_def by (rule outcome_if_mono) (use assms(2) in \<open>auto simp: st_state_def db.egoes_def dest: db.goes_inv\<close>)
  show ?thesis
    using None by (simp add: execute_message_def Let_def) (rule outcome_if_then [OF c], auto simp: st_state_def)
next
  case (Some to)
  let ?be = "ee_backend env" and ?from = "msg_From (st_msg st)" and ?s = "st_state st"
  obtain s1 nonce where g: "GetNonce ?be ?s ?from = (s1, nonce)" by force
  let ?P = "payers env (st_msg st)"
  have s1: "store_inv env s1" "adjusts ?be ?P ?s s1 (\<lambda>a. 0) (\<lambda>a. 0)"
    using quiet_step [OF assms(2) db.goes_reads(4) store_nonce [OF assms(2), of ?from]] g by simp_all
  obtain h where ok: "env_ok ?be" "db_ok ?be s1" using s1(1) by (rule store_invE)
  let ?s2 = "SetNonce ?be s1 ?from (nonce + 1)"
  have inv: "store_inv env ?s2" using db.goes_inv [OF db.goes_writes(4) s1(1)] .
  have adj: "adjusts ?be ?P ?s ?s2 (\<lambda>a. 0) (\<lambda>a. if a = ?from then 1 else 0)"
    using adjusts_trans [OF s1(2) adjusts_nonce [OF ok insertI1, where m = "nonce + 1"]] adjustsD(2) [OF s1(2), of ?from] g by (simp cong: if_cong)
  let ?st = "set_state ?s2 st"
  have sdb: "ev_StateDB (st_evm ?st) = ?s2" by (simp add: set_state_def)
  have "db.ends env False (st_evm ?st) (Call env rn (st_evm ?st) caller a input gas v)" for caller a input gas v
    by (rule db.Call_ends [OF assms(1)]) simp_all
  then have c: "outcome_if code_panic (\<lambda>(e', ret, gas, err). store_inv env (ev_StateDB e') \<and>
      (err \<noteq> None \<longrightarrow> adjusts ?be ?P ?s (ev_StateDB e') (\<lambda>a. 0) (\<lambda>a. if a = ?from then 1 else 0)))
      (Call env rn (st_evm ?st) caller a input gas v)" for caller a input gas v
    unfolding db.ends_def sdb
    by (rule outcome_if_mono)
      (use inv adjusts_trans [OF adj adjusts_observe] in \<open>auto simp: db.egoes_def sdb store_like_def dest: db.goes_inv\<close>)
  show ?thesis
    using Some g by (simp add: execute_message_def Let_def) (rule outcome_if_then [OF c], auto simp: st_state_def)
qed

section \<open>Settling the gas\<close>

lemma refundGas_ok:
  assumes "st_gas st \<le> st_initialGas st" "unat (st_gp st) + unat (st_initialGas st) < 2 ^ 64"
  shows "\<exists>g. refundGas be st = Ret (set_state (AddBalance be (st_state st) (msg_From (st_msg st)) (uint g * st_gasPrice st))
        (st\<lparr>st_gas := g, st_gp := st_gp st + g\<rparr>)) \<and>
      unat g \<le> unat (st_initialGas st) \<and> unat (st_initialGas st) - unat (st_gas st) \<le> 2 * (unat (st_initialGas st) - unat g)"
proof -
  define refund where "refund = (if gasUsed st div 2 > GetRefund (st_state st) then GetRefund (st_state st) else gasUsed st div 2)"
  define g where "g = st_gas st + refund"
  have used: "unat (gasUsed st) = unat (st_initialGas st) - unat (st_gas st)" by (simp add: gasUsed_def unat_sub assms(1))
  have "refund \<le> gasUsed st div 2" by (auto simp: refund_def)
  then have r: "unat refund \<le> (unat (st_initialGas st) - unat (st_gas st)) div 2"
    by (simp add: word_le_nat_alt unat_div used)
  have le: "unat (st_gas st) \<le> unat (st_initialGas st)" using assms(1) by (simp add: word_le_nat_alt)
  have "unat (st_gas st) + unat refund < 2 ^ 64" using r le unat_bound [of "st_initialGas st"] by linarith
  then have g: "unat g = unat (st_gas st) + unat refund" by (simp add: g_def unat_word_ariths)
  then have g2: "unat g \<le> unat (st_initialGas st)" "unat (st_initialGas st) - unat (st_gas st) \<le> 2 * (unat (st_initialGas st) - unat g)"
    using r le by linarith+
  have "\<not> st_gp st > - 1 - g" using g2(1) assms(2) by (simp add: word_less_nat_alt minus_one_unat not_less)
  then have "refundGas be st = Ret (set_state (AddBalance be (st_state st) (msg_From (st_msg st)) (uint g * st_gasPrice st))
        (st\<lparr>st_gas := g, st_gp := st_gp st + g\<rparr>))"
    by (simp add: refundGas_def Let_def refund_def [symmetric] g_def [symmetric] AddGas_def must_def set_state_def)
  with g2 show ?thesis by blast
qed

lemma finish_message_ok:
  assumes "st_gas st \<le> st_initialGas st" "unat (st_gp st) + unat (st_initialGas st) < 2 ^ 64" "store_inv env (st_state st)"
    and "r = finish_message env (st, ret, err)"
  shows "\<exists>st' used. r = Ret (st', Inr \<lparr>ex_UsedGas = used, ex_Err = err, ex_ReturnData = ret\<rparr>) \<and>
      unat used \<le> unat (st_initialGas st) \<and> unat (st_gp st') + unat used = unat (st_gp st) + unat (st_initialGas st) \<and>
      unat (st_initialGas st) - unat (st_gas st) \<le> 2 * unat used \<and>
      adjusts (ee_backend env) (payers env (st_msg st)) (st_state st) (st_state st')
        (\<lambda>a. (if a = msg_From (st_msg st) then (uint (st_initialGas st) - uint used) * st_gasPrice st else 0) +
             (if a = ee_Coinbase env then uint used * st_gasPrice st else 0)) (\<lambda>a. 0)"
proof -
  let ?be = "ee_backend env"
  obtain g where g: "refundGas ?be st = Ret (set_state (AddBalance ?be (st_state st) (msg_From (st_msg st)) (uint g * st_gasPrice st))
        (st\<lparr>st_gas := g, st_gp := st_gp st + g\<rparr>))" "unat g \<le> unat (st_initialGas st)"
      "unat (st_initialGas st) - unat (st_gas st) \<le> 2 * (unat (st_initialGas st) - unat g)"
    using refundGas_ok [OF assms(1,2), of ?be] by blast
  define used where "used = st_initialGas st - g"
  have used: "unat used = unat (st_initialGas st) - unat g" using g(2) by (simp add: used_def unat_sub word_le_nat_alt)
  then have "int (unat g) = int (unat (st_initialGas st)) - int (unat used)" using g(2) by linarith
  then have u: "uint g = uint (st_initialGas st) - uint used" by simp
  obtain h where ok: "env_ok ?be" "db_ok ?be (st_state st)" using assms(3) by (rule store_invE)
  let ?s1 = "AddBalance ?be (st_state st) (msg_From (st_msg st)) (uint g * st_gasPrice st)"
  have ok1: "db_ok ?be ?s1" by (rule evolves_ok [OF setters_evolve(1) [OF ok]])
  have gp: "unat (st_gp st + g) = unat (st_gp st) + unat g" using g(2) assms(2) by (simp add: unat_word_ariths)
  have r: "r = Ret (set_state (AddBalance ?be ?s1 (ee_Coinbase env) (uint used * st_gasPrice st)) (st\<lparr>st_gas := g, st_gp := st_gp st + g\<rparr>),
      Inr \<lparr>ex_UsedGas = used, ex_Err = err, ex_ReturnData = ret\<rparr>)"
    using g(1) by (simp add: assms(4) finish_message_def Let_def gasUsed_def used_def)
  let ?st = "set_state (AddBalance ?be ?s1 (ee_Coinbase env) (uint used * st_gasPrice st)) (st\<lparr>st_gas := g, st_gp := st_gp st + g\<rparr>)"
  have "adjusts ?be (payers env (st_msg st)) (st_state st) (st_state ?st)
        (\<lambda>a. (if a = msg_From (st_msg st) then (uint (st_initialGas st) - uint used) * st_gasPrice st else 0) +
             (if a = ee_Coinbase env then uint used * st_gasPrice st else 0)) (\<lambda>a. 0)"
    using adjusts_trans [OF adjusts_balance(1) [OF ok insertI1] adjusts_balance(1) [OF ok(1) ok1 insertI2 [OF insertI1]]] by (simp add: u [symmetric] cong: if_cong)
  moreover have "unat (st_gp ?st) + unat used = unat (st_gp st) + unat (st_initialGas st)" using gp used g(2) by simp
  ultimately show ?thesis using r used g(3) by (intro exI [of _ ?st] exI [of _ used]) simp
qed

text \<open>A message that is not refused: what its code and the settlement of its gas give.\<close>

lemma message_executed:
  assumes "NewEVMInterpreter rules extra = Some (jt, left)" "uint256_ok (ee_uint256 env)"
    and "bought env evm msg gp g st" "g \<le> msg_Gas msg" "msg_Gas msg \<le> gp" "unat g < fuel"
  shows "case andThen (execute_message env (Run fuel env jt) st) (finish_message env) of
      Ret (st', Inr res) \<Rightarrow> unat (ex_UsedGas res) \<le> unat (msg_Gas msg) \<and> unat (st_gp st') + unat (ex_UsedGas res) = unat gp \<and>
        unat (msg_Gas msg) - unat g \<le> 2 * unat (ex_UsedGas res) \<and>
        (msg_To msg \<noteq> None \<and> ex_Err res \<noteq> None \<longrightarrow> adjusts (ee_backend env) (payers env msg) (ev_StateDB evm) (st_state st')
           (\<lambda>a. (if a = msg_From msg then - (uint (ex_UsedGas res) * msg_GasPrice msg) else 0) +
                (if a = ee_Coinbase env then uint (ex_UsedGas res) * msg_GasPrice msg else 0))
           (\<lambda>a. if a = msg_From msg then 1 else 0))
    | Ret (st', Inl err) \<Rightarrow> False
    | Panic p \<Rightarrow> p \<noteq> StackPanic \<and> p \<noteq> RevisionPanic \<and> p \<noteq> GasPoolPanic
    | OutOfFuel \<Rightarrow> False"
proof -
  let ?be = "ee_backend env"
  note jt = NewEVMInterpreter_within [OF assms(1)]
  obtain s where s: "st = set_state s ((NewStateTransition evm msg gp)\<lparr>st_gp := gp - msg_Gas msg, st_gas := g, st_initialGas := msg_Gas msg\<rparr>)"
      "store_inv env s" "adjusts ?be (payers env msg) (ev_StateDB evm) s (\<lambda>a. if a = msg_From msg then - (uint (msg_Gas msg) * msg_GasPrice msg) else 0) (\<lambda>a. 0)"
    using assms(3) unfolding bought_def by blast
  have sel: "st_msg st = msg" "st_gas st = g" "st_state st = s" "st_gp st = gp - msg_Gas msg" "st_gasPrice st = msg_GasPrice msg"
      "st_initialGas st = msg_Gas msg"
    by (simp_all add: s(1) NewStateTransition_def)
  have pool: "unat (gp - msg_Gas msg) + unat (msg_Gas msg) = unat gp"
    using assms(5) by (simp add: unat_sub word_le_nat_alt)
  note gas = execute_message_gas [OF Run_meters [OF table_ok_within [OF jt] assms(2)], of st fuel env, unfolded sel, OF assms(6)]
  note store = execute_message_store [OF db.Run_runner_ok [OF jt assms(2)], of st fuel, unfolded sel, OF s(2)]
  show ?thesis
  proof (cases "execute_message env (Run fuel env jt) st")
    case (Ret x)
    obtain st1 ret err where x: "x = (st1, ret, err)" by (cases x)
    then have st1: "st_gas st1 \<le> g" "st_msg st1 = msg" "st_gp st1 = gp - msg_Gas msg" "st_gasPrice st1 = msg_GasPrice msg"
        "st_initialGas st1 = msg_Gas msg"
      using gas Ret by (simp_all add: same_message_def sel)
    have inv: "store_inv env (st_state st1)" "msg_To msg \<noteq> None \<and> err \<noteq> None \<Longrightarrow>
        adjusts ?be (payers env msg) s (st_state st1) (\<lambda>a. 0) (\<lambda>a. if a = msg_From msg then 1 else 0)"
      using store Ret x by auto
    have le: "st_gas st1 \<le> msg_Gas msg" using st1(1) assms(4) by simp
    have lt: "unat (gp - msg_Gas msg) + unat (msg_Gas msg) < 2 ^ 64" unfolding pool by (rule unat_bound)
    obtain st' used where f: "finish_message env (st1, ret, err) = Ret (st', Inr \<lparr>ex_UsedGas = used, ex_Err = err, ex_ReturnData = ret\<rparr>)"
        "unat used \<le> unat (msg_Gas msg)" "unat (st_gp st') + unat used = unat gp" "unat (msg_Gas msg) - unat (st_gas st1) \<le> 2 * unat used"
        "adjusts ?be (payers env msg) (st_state st1) (st_state st')
          (\<lambda>a. (if a = msg_From msg then (uint (msg_Gas msg) - uint used) * msg_GasPrice msg else 0) +
               (if a = ee_Coinbase env then uint used * msg_GasPrice msg else 0)) (\<lambda>a. 0)"
      using finish_message_ok [OF _ _ inv(1) refl, of ret err, unfolded st1, OF le lt] unfolding pool by blast
    have "unat (msg_Gas msg) - unat g \<le> 2 * unat used" using f(4) st1(1) by (simp add: word_le_nat_alt)
    moreover have "adjusts ?be (payers env msg) (ev_StateDB evm) (st_state st')
        (\<lambda>a. (if a = msg_From msg then - (uint used * msg_GasPrice msg) else 0) + (if a = ee_Coinbase env then uint used * msg_GasPrice msg else 0))
        (\<lambda>a. if a = msg_From msg then 1 else 0)" if "msg_To msg \<noteq> None \<and> err \<noteq> None"
    proof -
      note t = adjusts_trans [OF adjusts_trans [OF s(3) inv(2) [OF that]] f(5)]
      show ?thesis by (rule adjusts_cong [OF t]) (auto simp: algebra_simps)
    qed
    ultimately show ?thesis using Ret x f(1-3) by (simp cong: if_cong)
  qed (use gas store in auto)
qed

section \<open>An example\<close>

text \<open>A message that pays for itself and no more, to the SHA256 contract.\<close>

definition example_msg :: Message where
  "example_msg = \<lparr>msg_From = 1, msg_To = Some 2, msg_GasPrice = 0, msg_Gas = 21000, msg_Value = 0, msg_Nonce = 0,
     msg_CheckNonce = True, msg_Data = []\<rparr>"

lemma example_reachable:
  "env_ok (ee_backend example_env)" "reachable (ee_backend example_env) (ev_StateDB (new_EVM example_db))"
  by (simp_all add: example_env_def new_EVM_def empty_backend_ok example_db_reachable)

lemma example_accepted: "message_error example_env (ev_StateDB (new_EVM example_db)) 30000 example_msg = None"
  by (simp add: message_error_def example_msg_def new_EVM_def example_env_def Let_def GetNonce_def GetBalance_def example_db_reads
      intrinsic_gas_def example_rules_def)

lemma example_message:
  "\<exists>st used. ApplyMessage example_env (Run 21001 example_env newFrontierInstructionSet) (new_EVM example_db) example_msg 30000 =
     Ret (st, Inr \<lparr>ex_UsedGas = used, ex_Err = Some ErrOutOfGas, ex_ReturnData = []\<rparr>)"
proof -
  let ?rn = "Run 21001 example_env newFrontierInstructionSet"
  have "intrinsic_gas (msg_Data example_msg) (msg_To example_msg = None) (IsHomestead (ee_chainRules example_env))
      (IsIstanbul (ee_chainRules example_env)) = 21000"
    by (simp add: intrinsic_gas_def example_msg_def)
  note c = TransitionDb_cases(2) [OF example_inv _ this [symmetric] example_accepted, of ?rn]
  obtain st where st: "bought example_env (new_EVM example_db) example_msg 30000 0 st"
      "ApplyMessage example_env ?rn (new_EVM example_db) example_msg 30000 = andThen (execute_message example_env ?rn st) (finish_message example_env)"
    using c by (auto simp: example_msg_def)
  obtain s where s: "st = set_state s ((NewStateTransition (new_EVM example_db) example_msg 30000)\<lparr>st_gp := 9000, st_gas := 0, st_initialGas := 21000\<rparr>)"
      "store_inv example_env s"
    using st(1) by (auto simp: bought_def example_msg_def)
  let ?s1 = "fst (GetNonce (ee_backend example_env) s 1)"
  let ?s2 = "SetNonce (ee_backend example_env) ?s1 1 (snd (GetNonce (ee_backend example_env) s 1) + 1)"
  have inv: "store_inv example_env ?s2"
    using db.goes_inv [OF db.goes_writes(4)] db.goes_inv [OF db.goes_reads(4)] s(2) by blast
  have evm: "ev_StateDB ((new_EVM example_db)\<lparr>ev_StateDB := ?s2\<rparr>) = ?s2" "ev_depth ((new_EVM example_db)\<lparr>ev_StateDB := ?s2\<rparr>) = 0"
    by (simp_all add: new_EVM_def)
  obtain e where e: "Call example_env ?rn ((new_EVM example_db)\<lparr>ev_StateDB := ?s2\<rparr>) (AccountRef 1) 2 [] 0 0 = Ret (e, Fresh [], 0, Some ErrOutOfGas)"
    using example_failed_call [of "(new_EVM example_db)\<lparr>ev_StateDB := ?s2\<rparr>"] inv evm by auto
  have x: "execute_message example_env ?rn st = Ret (st\<lparr>st_evm := e, st_gas := 0\<rparr>, [], Some ErrOutOfGas)"
    using e by (simp add: execute_message_def s(1) example_msg_def NewStateTransition_def set_state_def st_state_def st_to_def Let_def
        case_prod_beta ret_bytes_def)
  have "db.ends example_env False ((new_EVM example_db)\<lparr>ev_StateDB := ?s2\<rparr>)
      (Call example_env ?rn ((new_EVM example_db)\<lparr>ev_StateDB := ?s2\<rparr>) (AccountRef 1) 2 [] 0 0)"
    by (rule db.Call_ends [OF example_jt]) simp_all
  then have "store_inv example_env (ev_StateDB e)"
    using e inv by (auto simp: db.egoes_def dest: db.goes_inv)
  then have "\<exists>st' used. finish_message example_env (st\<lparr>st_evm := e, st_gas := 0\<rparr>, [], Some ErrOutOfGas) =
      Ret (st', Inr \<lparr>ex_UsedGas = used, ex_Err = Some ErrOutOfGas, ex_ReturnData = []\<rparr>)"
    using finish_message_ok [of "st\<lparr>st_evm := e, st_gas := 0\<rparr>" example_env _ "[]" "Some ErrOutOfGas", OF _ _ _ refl]
    by (auto simp: s(1) set_state_def NewStateTransition_def st_state_def)
  then show ?thesis using st(2) x by simp
qed

section \<open>Properties\<close>

text \<open>C11: A message is refused exactly for the reasons that \<open>TransitionDb\<close> lists, judged on the database before the
  message: a wrong nonce, too few funds for the gas, too little gas left in the block, an intrinsic price that does
  not fit or is not covered, and too few funds left for the value. The first of these that applies is the error,
  in the order in which the code tests them: that the intrinsic price does not fit before that it is not covered.\<close>

theorem ApplyMessage_refuses:
  assumes "env_ok (ee_backend env)" "reachable (ee_backend env) (ev_StateDB evm)" "length (msg_Data msg) < 2 ^ 64"
  shows "(\<exists>st. ApplyMessage env rn evm msg gp = Ret (st, Inl err)) \<longleftrightarrow> message_error env (ev_StateDB evm) gp msg = Some err"
proof -
  note c = TransitionDb_cases [OF store_reachable [OF assms(1,2)] assms(3) refl]
  have fin: "finish_message env x \<noteq> Ret (st, Inl err)" for x st
    by (cases x; cases "refundGas (ee_backend env) (fst x)") (auto simp: finish_message_def Let_def)
  have run: "andThen r (finish_message env) \<noteq> Ret (st, Inl err)" for r st using fin by (cases r) auto
  show ?thesis
  proof (cases "message_error env (ev_StateDB evm) gp msg")
    case None
    then show ?thesis using c(2) [of gp rn] run by (metis option.distinct(1))
  next
    case (Some e)
    then show ?thesis using c(1) [of gp e rn] by auto
  qed
qed

theorem ApplyMessage_refuses_witness:
  "\<exists>st. ApplyMessage example_env (Run 3 example_env newFrontierInstructionSet) (new_EVM example_db) (example_msg\<lparr>msg_Nonce := 7\<rparr>) 30000 = Ret (st, Inl ErrNonceTooHigh)"
  using ApplyMessage_refuses [OF example_reachable, of "example_msg\<lparr>msg_Nonce := 7\<rparr>" "Run 3 example_env newFrontierInstructionSet" 30000 ErrNonceTooHigh]
  by (simp add: message_error_def example_msg_def new_EVM_def example_env_def Let_def GetNonce_def GetBalance_def example_db_reads)

text \<open>C10: The gas of a message adds up. Given as much fuel as it has gas, applying a message ends; it does not overflow
  the gas pool of the block, and a message that is not refused uses at most its gas and at least half of its intrinsic
  price, and takes exactly what it used from the pool.\<close>

theorem ApplyMessage_gas:
  assumes "NewEVMInterpreter rules extra = Some (jt, left)" "uint256_ok (ee_uint256 env)"
    and "env_ok (ee_backend env)" "reachable (ee_backend env) (ev_StateDB evm)" "length (msg_Data msg) < 2 ^ 64"
    and "unat (msg_Gas msg) < fuel"
  shows "case ApplyMessage env (Run fuel env jt) evm msg gp of
      Ret (st, Inr res) \<Rightarrow> unat (ex_UsedGas res) \<le> unat (msg_Gas msg) \<and> unat (st_gp st) + unat (ex_UsedGas res) = unat gp \<and>
        intrinsic_gas (msg_Data msg) (msg_To msg = None) (IsHomestead (ee_chainRules env)) (IsIstanbul (ee_chainRules env))
          \<le> 2 * unat (ex_UsedGas res)
    | Ret (st, Inl err) \<Rightarrow> message_error env (ev_StateDB evm) gp msg = Some err
    | Panic p \<Rightarrow> p \<noteq> StackPanic \<and> p \<noteq> RevisionPanic \<and> p \<noteq> GasPoolPanic
    | OutOfFuel \<Rightarrow> False"
proof -
  define gas where "gas = intrinsic_gas (msg_Data msg) (msg_To msg = None) (IsHomestead (ee_chainRules env)) (IsIstanbul (ee_chainRules env))"
  note c = TransitionDb_cases [OF store_reachable [OF assms(3,4)] assms(5) gas_def, where rn = "Run fuel env jt" and gp = gp]
  show ?thesis
  proof (cases "message_error env (ev_StateDB evm) gp msg")
    case (Some e)
    then show ?thesis using c(1) [of e] by auto
  next
    case None
    then obtain st where st: "gas \<le> unat (msg_Gas msg)" "msg_Gas msg \<le> gp" "bought env evm msg gp (msg_Gas msg - of_nat gas) st"
        "ApplyMessage env (Run fuel env jt) evm msg gp = andThen (execute_message env (Run fuel env jt) st) (finish_message env)"
      using c(2) by blast
    have g: "unat (of_nat gas :: uint64) = gas" using st(1) unat_bound [of "msg_Gas msg"] by (intro unat_small) linarith
    then have le: "of_nat gas \<le> msg_Gas msg" using st(1) by (simp add: word_le_nat_alt)
    then have n: "unat (msg_Gas msg - of_nat gas) = unat (msg_Gas msg) - gas" by (simp add: unat_sub g)
    then have "msg_Gas msg - of_nat gas \<le> msg_Gas msg" "unat (msg_Gas msg - of_nat gas) < fuel" using assms(6) by (simp_all add: word_le_nat_alt)
    from message_executed [OF assms(1,2) st(3) this(1) st(2) this(2)] show ?thesis
      using n st(1) unfolding st(4) gas_def [symmetric] by (auto split: outcome.splits sum.splits)
  qed
qed

theorem ApplyMessage_gas_witness:
  "\<exists>st res. ApplyMessage example_env (Run 21001 example_env newFrontierInstructionSet) (new_EVM example_db) example_msg 30000 =
      Ret (st, Inr res) \<and> 21000 \<le> 2 * unat (ex_UsedGas res) \<and> unat (st_gp st) + unat (ex_UsedGas res) = 30000"
  using ApplyMessage_gas [OF example_table example_uint256 example_reachable, of example_msg 21001 30000] example_message
  by (auto simp: example_msg_def intrinsic_gas_def)

text \<open>C9: A message to an account whose code fails is charged, and nothing more happens. The sender pays the gas used to
  the miner at the price of the message, and its nonce goes up by one. All that can be read of the other accounts stays as
  it was, and so do the refund counter, the logs, the preimages and the access list. Of the sender and the miner code and
  destruction mark stay, and, if they existed, code hash, code size and storage too; a miner that did not exist may exist
  after being paid.\<close>

theorem failed_message_charged:
  assumes "NewEVMInterpreter rules extra = Some (jt, left)" "uint256_ok (ee_uint256 env)"
    and "env_ok (ee_backend env)" "reachable (ee_backend env) (ev_StateDB evm)" "length (msg_Data msg) < 2 ^ 64"
    and "unat (msg_Gas msg) < fuel" "msg_To msg = Some to"
    and "ApplyMessage env (Run fuel env jt) evm msg gp = Ret (st, Inr res)" "Failed res"
  shows "let be = ee_backend env; s = ev_StateDB evm; s' = st_state st; paid = uint (ex_UsedGas res) * msg_GasPrice msg in
    snd (GetBalance be s' a) = snd (GetBalance be s a) - (if a = msg_From msg then paid else 0) + (if a = ee_Coinbase env then paid else 0) \<and>
    snd (GetNonce be s' a) = snd (GetNonce be s a) + (if a = msg_From msg then 1 else 0) \<and>
    snd (GetCode be s' a) = snd (GetCode be s a) \<and> snd (HasSuicided be s' a) = snd (HasSuicided be s a) \<and>
    (snd (Exist be s a) \<longrightarrow> snd (Exist be s' a) \<and> snd (GetCodeHash be s' a) = snd (GetCodeHash be s a) \<and>
       snd (GetCodeSize be s' a) = snd (GetCodeSize be s a) \<and> snd (GetState be s' a k) = snd (GetState be s a k) \<and>
       snd (GetCommittedState be s' a k) = snd (GetCommittedState be s a k)) \<and>
    (a \<noteq> msg_From msg \<and> a \<noteq> ee_Coinbase env \<longrightarrow> observe_account be s' a = observe_account be s a) \<and>
    GetRefund s' = GetRefund s \<and> GetLogs s' = GetLogs s \<and> sd_preimages s' = sd_preimages s \<and>
    AddressInAccessList s' = AddressInAccessList s \<and> SlotInAccessList s' = SlotInAccessList s"
proof -
  define gas where "gas = intrinsic_gas (msg_Data msg) (msg_To msg = None) (IsHomestead (ee_chainRules env)) (IsIstanbul (ee_chainRules env))"
  note c = TransitionDb_cases [OF store_reachable [OF assms(3,4)] assms(5) gas_def, where rn = "Run fuel env jt" and gp = gp]
  have "message_error env (ev_StateDB evm) gp msg = None"
    using c(1) assms(8) by (cases "message_error env (ev_StateDB evm) gp msg") auto
  then obtain st0 where st: "gas \<le> unat (msg_Gas msg)" "msg_Gas msg \<le> gp" "bought env evm msg gp (msg_Gas msg - of_nat gas) st0"
      "ApplyMessage env (Run fuel env jt) evm msg gp = andThen (execute_message env (Run fuel env jt) st0) (finish_message env)"
    using c(2) by blast
  have "unat (of_nat gas :: uint64) = gas" using st(1) unat_bound [of "msg_Gas msg"] by (intro unat_small) linarith
  then have le: "msg_Gas msg - of_nat gas \<le> msg_Gas msg" "unat (msg_Gas msg - of_nat gas) < fuel"
    using assms(6) st(1) by (simp_all add: word_le_nat_alt unat_sub)
  from message_executed [OF assms(1,2) st(3) le(1) st(2) le(2)] assms(7,9)
  show ?thesis
    unfolding st(4) [symmetric] assms(8) by (auto simp: adjusts_def moved_def framed_def Failed_def Let_def)
qed

theorem failed_message_charged_witness:
  "\<exists>st res. ApplyMessage example_env (Run 21001 example_env newFrontierInstructionSet) (new_EVM example_db) example_msg 30000 =
      Ret (st, Inr res) \<and> Failed res \<and>
    snd (GetNonce (ee_backend example_env) (st_state st) 1) = snd (GetNonce (ee_backend example_env) (ev_StateDB (new_EVM example_db)) 1) + 1"
proof -
  obtain st used where m: "ApplyMessage example_env (Run 21001 example_env newFrontierInstructionSet) (new_EVM example_db) example_msg 30000 =
      Ret (st, Inr \<lparr>ex_UsedGas = used, ex_Err = Some ErrOutOfGas, ex_ReturnData = []\<rparr>)" using example_message by blast
  then show ?thesis
    using failed_message_charged [OF example_table example_uint256 example_reachable _ _ _ m, of 2 1]
    by (auto simp: example_msg_def Failed_def Let_def)
qed

end
