(* ===== verification/TrieKeys.thy ===== *)
theory TrieKeys
  imports Prelude
begin

text \<open>
  Keys of the Merkle Patricia trie (\<open>trie/encoding.go\<close>): key bytes, one nibble per byte with an optional
  terminator 16 (hex), and two nibbles per byte with a flag (compact). An index out of range is a run-time panic:
  \<open>None\<close>.
\<close>

unbundle bit_operations_syntax

section \<open>Encodings\<close>

definition hasTerm :: "bytes \<Rightarrow> bool" where
  "hasTerm s \<longleftrightarrow> length s > 0 \<and> s ! (length s - 1) = 16"

text \<open>\<open>bytes\<close> is the slice from \<open>bi\<close> on of the buffer.\<close>

fun decodeNibbles :: "bytes \<Rightarrow> bytes \<Rightarrow> nat \<Rightarrow> bytes option" where
  "decodeNibbles [] buf bi = Some buf"
| "decodeNibbles [x] buf bi = None"
| "decodeNibbles (x # y # nibbles) buf bi =
     (if bi < length buf then decodeNibbles nibbles (buf[bi := push_bit 4 x OR y]) (bi + 1) else None)"

definition hexToCompact :: "bytes \<Rightarrow> bytes option" where
  "hexToCompact hex =
     (let terminator = (if hasTerm hex then 1 else 0);
          hex = (if hasTerm hex then take (length hex - 1) hex else hex);
          buf = replicate (length hex div 2 + 1) 0;
          buf = buf[0 := push_bit 5 terminator]
      in if length hex mod 2 = 1 then decodeNibbles (drop 1 hex) (buf[0 := (buf ! 0 OR push_bit 4 1) OR hex ! 0]) 1
         else decodeNibbles hex buf 1)"

text \<open>The loop of \<open>hexToCompactInPlace\<close>: it reads ahead of what it writes in the same buffer.\<close>

function compact_loop :: "nat \<Rightarrow> nat \<Rightarrow> nat \<Rightarrow> bytes \<Rightarrow> bytes option" where
  "compact_loop hexLen bi ni hex =
     (if ni < hexLen then
        if ni + 1 < length hex \<and> bi < length hex then compact_loop hexLen (bi + 1) (ni + 2) (hex[bi := push_bit 4 (hex ! ni) OR hex ! (ni + 1)])
        else None
      else Some hex)"
  by pat_completeness auto
termination by (relation "measure (\<lambda>(hexLen, bi, ni, hex). hexLen - ni)") auto

declare compact_loop.simps [simp del]

definition hexToCompactInPlace :: "bytes \<Rightarrow> (bytes \<times> nat) option" where
  "hexToCompactInPlace hex =
     (let hexLen = length hex; t = (hexLen > 0 \<and> hex ! (hexLen - 1) = 16);
          firstByte = (if t then push_bit 5 1 else 0);
          hexLen = (if t then hexLen - 1 else hexLen);
          binLen = hexLen div 2 + 1;
          odd = (hexLen mod 2 = 1);
          firstByte = (if odd then (firstByte OR push_bit 4 1) OR hex ! 0 else firstByte);
          ni = (if odd then 1 else 0)
      in case compact_loop hexLen 1 ni hex of
           None \<Rightarrow> None
         | Some hex \<Rightarrow> if length hex > 0 then Some (hex[0 := firstByte], binLen) else None)"

definition keybytesToHex :: "bytes \<Rightarrow> bytes" where
  "keybytesToHex str = concat (map (\<lambda>b. [b div 16, b mod 16]) str) @ [16]"

definition compactToHex :: "bytes \<Rightarrow> bytes" where
  "compactToHex compact =
     (if length compact = 0 then compact
      else
        let base = keybytesToHex compact;
            base' = (if base ! 0 < 2 then take (length base - 1) base else base);
            chop = 2 - (base' ! 0 AND 1)
        in drop (unat chop) base')"

definition hexToKeybytes :: "bytes \<Rightarrow> bytes option" where
  "hexToKeybytes hex =
     (let hex = (if hasTerm hex then take (length hex - 1) hex else hex)
      in if length hex mod 2 \<noteq> 0 then None else decodeNibbles hex (replicate (length hex div 2) 0) 0)"

fun prefixLen :: "bytes \<Rightarrow> bytes \<Rightarrow> nat" where
  "prefixLen (x # a) (y # b) = (if x \<noteq> y then 0 else Suc (prefixLen a b))"
| "prefixLen _ _ = 0"

section \<open>Valid keys\<close>

text \<open>Nibbles with or without the terminator.\<close>

definition hex_ok :: "bytes \<Rightarrow> bool" where
  "hex_ok k \<longleftrightarrow> (\<exists>ns. (\<forall>x \<in> set ns. x < 16) \<and> (k = ns \<or> k = ns @ [16]))"

fun pack :: "bytes \<Rightarrow> bytes" where
  "pack (x # y # ns) = (push_bit 4 x OR y) # pack ns"
| "pack _ = []"

definition unpack :: "bytes \<Rightarrow> bytes" where
  "unpack bs = concat (map (\<lambda>b. [b div 16, b mod 16]) bs)"

lemma nibble_bits: "(x :: byte) < 16 \<Longrightarrow> bit x n \<Longrightarrow> n < 4"
proof (rule ccontr)
  assume "x < 16" "bit x n" "\<not> n < 4"
  have "take_bit 4 x = x" using \<open>x < 16\<close> by (simp add: take_bit_eq_mod word_mod_less_divisor unat_mod word_less_nat_alt word_unat_eq_iff)
  then show False using \<open>bit x n\<close> \<open>\<not> n < 4\<close> by (metis bit_take_bit_iff)
qed

lemma nibble_pair:
  assumes "(x :: byte) < 16" "(y :: byte) < 16"
  shows "(push_bit 4 x OR y) div 16 = x" "(push_bit 4 x OR y) mod 16 = y"
proof -
  have "drop_bit 4 (push_bit 4 x OR y) = x"
    by (rule bit_eqI) (use nibble_bits [OF assms(1)] nibble_bits [OF assms(2)] in \<open>auto simp: bit_drop_bit_eq bit_or_iff bit_push_bit_iff\<close>)
  then show "(push_bit 4 x OR y) div 16 = x" by (simp add: drop_bit_eq_div)
  have "take_bit 4 (push_bit 4 x OR y) = y"
    by (rule bit_eqI) (use nibble_bits [OF assms(2)] in \<open>auto simp: bit_take_bit_iff bit_or_iff bit_push_bit_iff\<close>)
  then show "(push_bit 4 x OR y) mod 16 = y" by (simp add: take_bit_eq_mod)
qed

lemma nibble_join: "push_bit 4 (b div 16) OR b mod 16 = (b :: byte)"
proof -
  have "push_bit 4 (drop_bit 4 b) OR take_bit 4 b = b"
    by (rule bit_eqI) (auto simp: bit_drop_bit_eq bit_take_bit_iff bit_or_iff bit_push_bit_iff bit_imp_le_length)
  then show ?thesis by (simp add: drop_bit_eq_div take_bit_eq_mod)
qed

lemma decodeNibbles_pack:
  "even (length ns) \<Longrightarrow> bi + length ns div 2 \<le> length buf \<Longrightarrow>
   decodeNibbles ns buf bi = Some (take bi buf @ pack ns @ drop (bi + length ns div 2) buf)"
proof (induction ns buf bi rule: decodeNibbles.induct)
  case (3 x y nibbles buf bi)
  then have "take (bi + 1) (buf[bi := push_bit 4 x OR y]) = take bi buf @ [push_bit 4 x OR y]"
    by (simp add: take_Suc_conv_app_nth take_update_cancel)
  with 3 show ?case by simp
qed simp_all

lemma length_pack [simp]: "length (pack ns) = length ns div 2"
  by (induction ns rule: pack.induct) simp_all

lemma unpack_pack: "even (length ns) \<Longrightarrow> \<forall>x \<in> set ns. x < 16 \<Longrightarrow> unpack (pack ns) = ns"
  by (induction ns rule: pack.induct) (simp_all add: unpack_def nibble_pair)

lemma pack_unpack: "pack (unpack bs) = bs"
  by (induction bs) (simp_all add: unpack_def nibble_join)

lemma length_unpack [simp]: "length (unpack bs) = 2 * length bs"
  by (induction bs) (simp_all add: unpack_def)

lemma keybytesToHex_unpack: "keybytesToHex str = unpack str @ [16]"
  by (simp add: keybytesToHex_def unpack_def)

lemma unpack_nibbles: "x \<in> set (unpack bs) \<Longrightarrow> x < 16"
proof -
  have "(b :: byte) div 16 < 16" "(b :: byte) mod 16 < 16" for b
    using unat_byte_less [of b] by (auto simp: word_less_nat_alt unat_div unat_mod intro!: less_mult_imp_div_less)
  then show "x \<in> set (unpack bs) \<Longrightarrow> x < 16" by (auto simp: unpack_def)
qed

lemma hasTerm_nibbles: "\<forall>x \<in> set ns. x < (16 :: byte) \<Longrightarrow> \<not> hasTerm ns"
  by (cases ns rule: rev_cases) (auto simp: hasTerm_def nth_append)

lemma hasTerm_snoc [simp]: "hasTerm (ns @ [16])"
  by (simp add: hasTerm_def nth_append)

text \<open>The compact form: a flag byte, with the first nibble if there is an odd number, and the rest packed.\<close>

definition flag_byte :: "bool \<Rightarrow> bytes \<Rightarrow> byte" where
  "flag_byte t ns = push_bit 4 (of_bool (odd (length ns)) + 2 * of_bool t) OR (if odd (length ns) then hd ns else 0)"

definition compact_of :: "bool \<Rightarrow> bytes \<Rightarrow> bytes" where
  "compact_of t ns = flag_byte t ns # pack (if odd (length ns) then tl ns else ns)"

lemma hex_cases:
  assumes "hex_ok k"
  obtains t ns where "\<forall>x \<in> set ns. x < 16" "k = ns @ (if t then [16] else [])"
proof -
  obtain ns where "\<forall>x \<in> set ns. x < 16" "k = ns \<or> k = ns @ [16]" using assms unfolding hex_ok_def by blast
  then show ?thesis using that [of ns True] that [of ns False] by auto
qed

lemma hexToCompact_eq:
  assumes "\<forall>x \<in> set ns. x < 16"
  shows "hexToCompact (ns @ (if t then [16] else [])) = Some (compact_of t ns)"
proof -
  define k where "k = ns @ (if t then [16] else [])"
  have ns: "(if t then take (length k - 1) k else k) = ns" "hasTerm k = t"
    using hasTerm_nibbles [OF assms] by (auto simp: k_def)
  have "hexToCompact k = (let buf = (replicate (length ns div 2 + 1) 0)[0 := push_bit 5 (if t then 1 else 0)] in
      if length ns mod 2 = 1 then decodeNibbles (drop 1 ns) (buf[0 := (buf ! 0 OR push_bit 4 1) OR ns ! 0]) 1 else decodeNibbles ns buf 1)"
    unfolding hexToCompact_def Let_def ns ..
  also have "\<dots> = Some (compact_of t ns)"
    by (cases ns; cases t) (auto simp: compact_of_def flag_byte_def decodeNibbles_pack Let_def odd_iff_mod_2_eq_one take_Suc even_Suc)
  finally show ?thesis by (simp add: k_def)
qed

lemma compactToHex_eq:
  assumes "\<forall>x \<in> set ns. x < 16"
  shows "compactToHex (compact_of t ns) = ns @ (if t then [16] else [])"
proof -
  define x where "x = (if odd (length ns) then hd ns else 0)"
  define rest where "rest = (if odd (length ns) then tl ns else ns)"
  define f :: byte where "f = of_bool (odd (length ns)) + 2 * of_bool t"
  have x: "x < 16" using assms by (cases ns) (auto simp: x_def)
  have f: "f < 16" "f < 2 \<longleftrightarrow> \<not> t" "f AND 1 = of_bool (odd (length ns))"
    by (cases t; cases "odd (length ns)"; simp add: f_def)+
  have rest: "even (length rest)" "\<forall>x \<in> set rest. x < 16" using assms by (cases ns; auto simp: rest_def)+
  have "keybytesToHex (compact_of t ns) = [f, x] @ rest @ [16]"
    using nibble_pair [OF f(1) x] unpack_pack [OF rest]
    by (simp add: keybytesToHex_unpack compact_of_def flag_byte_def x_def [symmetric] f_def [symmetric] rest_def [symmetric]) (simp add: unpack_def)
  then have "compactToHex (compact_of t ns) = drop (unat (2 - (f AND 1))) ([f, x] @ rest @ (if t then [16] else []))"
    using f(2) by (simp add: compactToHex_def Let_def compact_of_def)
  also have "\<dots> = ns @ (if t then [16] else [])"
    unfolding f(3) using x_def rest_def by (cases ns) auto
  finally show ?thesis .
qed

lemma compact_loop_pack:
  "bi \<le> ni + 1 \<Longrightarrow> ni \<le> hexLen \<Longrightarrow> even (hexLen - ni) \<Longrightarrow> hexLen \<le> length hex \<Longrightarrow>
   \<exists>hex'. compact_loop hexLen bi ni hex = Some hex' \<and> length hex' = length hex \<and>
     take (bi + (hexLen - ni) div 2) hex' = take bi hex @ pack (take (hexLen - ni) (drop ni hex))"
proof (induction hexLen bi ni hex rule: compact_loop.induct)
  case (1 hexLen bi ni hex)
  show ?case
  proof (cases "ni < hexLen")
    case True
    with 1 have room: "ni + 1 < hexLen" by (cases "ni + 1 = hexLen") auto
    define hex1 where "hex1 = hex[bi := push_bit 4 (hex ! ni) OR hex ! (ni + 1)]"
    have "\<exists>hex'. compact_loop hexLen (bi + 1) (ni + 2) hex1 = Some hex' \<and> length hex' = length hex1 \<and>
        take (bi + 1 + (hexLen - (ni + 2)) div 2) hex' = take (bi + 1) hex1 @ pack (take (hexLen - (ni + 2)) (drop (ni + 2) hex1))"
      using "1.IH" "1.prems" True room by (auto simp: hex1_def)
    moreover have "take (bi + 1) hex1 = take bi hex @ [push_bit 4 (hex ! ni) OR hex ! (ni + 1)]"
      using "1.prems" room by (simp add: hex1_def take_Suc_conv_app_nth take_update_cancel)
    moreover have "drop (ni + 2) hex1 = drop (ni + 2) hex" using "1.prems" by (simp add: hex1_def)
    moreover have "take (hexLen - ni) (drop ni hex) = hex ! ni # hex ! (ni + 1) # take (hexLen - (ni + 2)) (drop (ni + 2) hex)"
    proof -
      have "drop ni hex = hex ! ni # hex ! (ni + 1) # drop (ni + 2) hex"
        using "1.prems" room by (simp add: Cons_nth_drop_Suc)
      moreover have "hexLen - ni = Suc (Suc (hexLen - (ni + 2)))" using room by simp
      ultimately show ?thesis by simp
    qed
    moreover have "bi + (hexLen - ni) div 2 = bi + 1 + (hexLen - (ni + 2)) div 2"
    proof -
      have "hexLen - ni = Suc (Suc (hexLen - (ni + 2)))" using room by simp
      then show ?thesis by simp
    qed
    moreover have "compact_loop hexLen bi ni hex = compact_loop hexLen (bi + 1) (ni + 2) hex1" "length hex1 = length hex"
      using True room "1.prems" by (subst compact_loop.simps, simp add: hex1_def) (simp add: hex1_def)
    ultimately show ?thesis by auto
  next
    case False
    then show ?thesis using "1.prems" by (subst compact_loop.simps) auto
  qed
qed

lemma hexToCompactInPlace_eq:
  assumes "\<forall>x \<in> set ns. x < 16" "k = ns @ (if t then [16] else [])" "k \<noteq> []"
  shows "\<exists>k'. hexToCompactInPlace k = Some (k', length ns div 2 + 1) \<and> length k' = length k \<and>
     take (length ns div 2 + 1) k' = compact_of t ns"
proof -
  define ni where "ni = (if odd (length ns) then 1 else 0 :: nat)"
  have t: "(length k > 0 \<and> k ! (length k - 1) = 16) = t" using hasTerm_nibbles [OF assms(1)] assms(2)
    by (auto simp: hasTerm_def nth_append)
  have len: "(if t then length k - 1 else length k) = length ns" using assms(2) by simp
  have ni: "ni \<le> length ns" "even (length ns - ni)" by (cases ns; auto simp: ni_def)+
  have "1 \<le> ni + 1" "length ns \<le> length k" using assms(2) by auto
  from compact_loop_pack [OF this(1) ni this(2)] obtain k' where k': "compact_loop (length ns) 1 ni k = Some k'" "length k' = length k"
    "take (1 + (length ns - ni) div 2) k' = take 1 k @ pack (take (length ns - ni) (drop ni k))" by blast
  have half: "(length ns - ni) div 2 = length ns div 2" using ni_def by (auto elim: oddE)
  have pack: "take (length ns - ni) (drop ni k) = (if odd (length ns) then tl ns else ns)"
    using assms(2) by (cases ns) (auto simp: ni_def)
  have "hexToCompactInPlace k = Some (k'[0 := (if odd (length ns) then (push_bit 5 (of_bool t) OR push_bit 4 1) OR k ! 0 else push_bit 5 (of_bool t))], length ns div 2 + 1)"
    using k'(1,2) assms(3) unfolding hexToCompactInPlace_def Let_def t len ni_def odd_iff_mod_2_eq_one
    by (cases t) auto
  moreover have "(if odd (length ns) then (push_bit 5 (of_bool t) OR push_bit 4 1) OR k ! 0 else push_bit 5 (of_bool t)) = flag_byte t ns"
    using assms(2) by (cases ns; cases t) (auto simp: flag_byte_def)
  moreover have "take (length ns div 2 + 1) (k'[0 := flag_byte t ns]) = compact_of t ns"
    using k'(3) assms(3) unfolding half pack by (cases k'; cases k) (auto simp: compact_of_def)
  ultimately show ?thesis using k'(2) by simp
qed

text \<open>C39: the three key encodings of the trie agree: the nibbles of key bytes turn back into them; a valid nibble key,
  with or without terminator, goes to a compact form that decodes to it; the compact form has one byte and half a byte
  per nibble; and the in-place routine, which overwrites the buffer it reads, leaves the same compact form at its start.\<close>

theorem key_encodings:
  "hexToKeybytes (keybytesToHex b) = Some b \<and>
   (hex_ok k \<longrightarrow> (\<exists>c. hexToCompact k = Some c \<and> compactToHex c = k \<and>
      length c = (length k - of_bool (hasTerm k)) div 2 + 1 \<and>
      (k \<noteq> [] \<longrightarrow> (\<exists>k'. hexToCompactInPlace k = Some (k', length c) \<and> length k' = length k \<and> take (length c) k' = c))))"
proof (intro conjI impI)
  have "even (length (unpack b))" by simp
  from decodeNibbles_pack [OF this, of 0 "replicate (length (unpack b) div 2) 0"]
  show "hexToKeybytes (keybytesToHex b) = Some b"
    by (simp add: hexToKeybytes_def keybytesToHex_unpack pack_unpack)
  assume "hex_ok k"
  then obtain t ns where ns: "\<forall>x \<in> set ns. x < 16" "k = ns @ (if t then [16] else [])" by (rule hex_cases)
  have "hasTerm k = t" using hasTerm_nibbles [OF ns(1)] ns(2) by simp
  moreover have "length (compact_of t ns) = length ns div 2 + 1" by (auto simp: compact_of_def elim: oddE)
  ultimately show "\<exists>c. hexToCompact k = Some c \<and> compactToHex c = k \<and>
     length c = (length k - of_bool (hasTerm k)) div 2 + 1 \<and>
     (k \<noteq> [] \<longrightarrow> (\<exists>k'. hexToCompactInPlace k = Some (k', length c) \<and> length k' = length k \<and> take (length c) k' = c))"
    using hexToCompact_eq [OF ns(1), of t] compactToHex_eq [OF ns(1), of t] hexToCompactInPlace_eq [OF ns(1,2)] ns(2) by auto
qed

lemma key_encodings_witness:
  "hexToKeybytes (keybytesToHex [0x12, 0xab]) = Some [0x12, 0xab] \<and> compactToHex [0x31, 0x23] = [1, 2, 3, 16]"
proof -
  have "hex_ok [1, 2, 3, 16]" unfolding hex_ok_def by (rule exI [of _ "[1, 2, 3]"]) simp
  moreover have "hexToCompact [1, 2, 3, 16] = Some [0x31, 0x23]" by code_simp
  ultimately show ?thesis using key_encodings [of "[0x12, 0xab]" "[1, 2, 3, 16]"] by auto
qed

end
