(* ===== verification/TrieTree.thy ===== *)
theory TrieTree
  imports TrieKeys
begin

text \<open>
  What a trie stands for: the tree with every node loaded. Lookup, insertion and deletion on trees, the canonical form,
  and the fact that a canonical tree is determined by what it maps keys to.
\<close>

section \<open>Trees\<close>

datatype tree = Void | Leaf bytes | Ext bytes tree | Branch "tree list"

definition nib_key :: "bytes \<Rightarrow> bool" where
  "nib_key k \<longleftrightarrow> (\<forall>x \<in> set k. x < 16)"

text \<open>Nibbles followed by the terminator.\<close>

fun term_key :: "bytes \<Rightarrow> bool" where
  "term_key [] = False"
| "term_key (x # k) = (x = 16 \<and> k = [] \<or> x < 16 \<and> term_key k)"

fun strip :: "bytes \<Rightarrow> bytes \<Rightarrow> bytes option" where
  "strip [] key = Some key"
| "strip (x # k) (y # key) = (if x = y then strip k key else None)"
| "strip (x # k) [] = None"

lemma size_nth_tree [termination_simp]: "i < length ts \<Longrightarrow> size (ts ! i) < Suc (size_list size (ts :: tree list))"
  using size_list_estimation [of "ts ! i" ts "size (ts ! i)" size] nth_mem by (force simp: less_Suc_eq_le intro: size_list_estimation')

lemma size_take_tree [termination_simp]: "t \<in> set (take n ts) \<Longrightarrow> size t < Suc (size_list size (ts :: tree list))"
  by (meson in_set_takeD le_imp_less_Suc order_refl size_list_estimation')

fun tget :: "tree \<Rightarrow> bytes \<Rightarrow> bytes option" where
  "tget Void key = None"
| "tget (Leaf v) key = (if key = [] then Some v else None)"
| "tget (Ext k t) key = (case strip k key of None \<Rightarrow> None | Some r \<Rightarrow> tget t r)"
| "tget (Branch ts) [] = None"
| "tget (Branch ts) (x # key) = (if unat x < length ts then tget (ts ! unat x) key else None)"

text \<open>Canonical form: a leaf at the end of a terminated key, a branch below an extension, two children at least.\<close>

definition two :: "tree list \<Rightarrow> bool" where
  "two ts \<longleftrightarrow> (\<exists>i < length ts. \<exists>j < length ts. i \<noteq> j \<and> ts ! i \<noteq> Void \<and> ts ! j \<noteq> Void)"

fun val_slot :: "tree \<Rightarrow> bool" where
  "val_slot Void = True"
| "val_slot (Leaf v) = (v \<noteq> [])"
| "val_slot _ = False"

fun is_Branch :: "tree \<Rightarrow> bool" where
  "is_Branch (Branch ts) = True"
| "is_Branch _ = False"

fun canon :: "tree \<Rightarrow> bool" where
  "canon Void = False"
| "canon (Leaf v) = False"
| "canon (Ext k t) = (if term_key k then val_slot t \<and> t \<noteq> Void else nib_key k \<and> k \<noteq> [] \<and> is_Branch t \<and> canon t)"
| "canon (Branch ts) = (length ts = 17 \<and> (\<forall>t \<in> set (take 16 ts). t = Void \<or> canon t) \<and> val_slot (ts ! 16) \<and> two ts)"

abbreviation slot :: "tree \<Rightarrow> bool" where
  "slot t \<equiv> t = Void \<or> canon t"

section \<open>Operations\<close>

definition ext :: "bytes \<Rightarrow> tree \<Rightarrow> tree" where
  "ext k t = (if k = [] then t else Ext k t)"

definition fork :: "byte \<Rightarrow> tree \<Rightarrow> byte \<Rightarrow> tree \<Rightarrow> tree" where
  "fork a s b t = Branch ((replicate 17 Void)[unat a := s, unat b := t])"

fun tins :: "tree \<Rightarrow> bytes \<Rightarrow> tree \<Rightarrow> tree" where
  "tins t [] v = v"
| "tins Void key v = Ext key v"
| "tins (Leaf w) key v = Leaf w"
| "tins (Ext k t) key v =
     (let m = prefixLen key k in
      if m = length k then Ext k (tins t (drop m key) v)
      else ext (take m key) (fork (k ! m) (ext (drop (m + 1) k) t) (key ! m) (ext (drop (m + 1) key) v)))"
| "tins (Branch ts) (x # key) v =
     (if unat x < length ts then Branch (ts[unat x := tins (ts ! unat x) key v]) else Branch ts)"

text \<open>The index of the only element with a property, -1 without one and -2 with two or more.\<close>

fun only_loop :: "('a \<Rightarrow> bool) \<Rightarrow> nat \<Rightarrow> int \<Rightarrow> 'a list \<Rightarrow> int" where
  "only_loop f i pos [] = pos"
| "only_loop f i pos (c # cs) =
     (if f c then if pos = -1 then only_loop f (i + 1) (int i) cs else -2 else only_loop f (i + 1) pos cs)"

text \<open>A key in front of a subtree, merged with the key of an extension.\<close>

definition join :: "bytes \<Rightarrow> tree \<Rightarrow> tree" where
  "join k t = (case t of Ext k' t' \<Rightarrow> Ext (k @ k') t' | _ \<Rightarrow> Ext k t)"

definition collapse :: "tree list \<Rightarrow> tree" where
  "collapse ts =
     (let pos = only_loop (\<lambda>t. t \<noteq> Void) 0 (-1) ts
      in if pos \<ge> 0 then join [of_int pos] (ts ! nat pos) else Branch ts)"

fun tdel :: "tree \<Rightarrow> bytes \<Rightarrow> tree" where
  "tdel Void key = Void"
| "tdel (Leaf v) key = Void"
| "tdel (Ext k t) key =
     (let m = prefixLen key k in
      if m < length k then Ext k t
      else if m = length key then Void
      else join k (tdel t (drop (length k) key)))"
| "tdel (Branch ts) [] = Branch ts"
| "tdel (Branch ts) (x # key) =
     (if unat x < length ts then collapse (ts[unat x := tdel (ts ! unat x) key]) else Branch ts)"

section \<open>Keys\<close>

lemma strip_iff: "strip k key = Some r \<longleftrightarrow> key = k @ r"
  by (induction k key rule: strip.induct) auto

lemma strip_None: "strip k key = None \<longleftrightarrow> (\<forall>r. key \<noteq> k @ r)"
  using strip_iff by (metis not_Some_eq)

lemma strip_append [simp]: "strip k (k @ r) = Some r"
  by (simp add: strip_iff)

lemma term_key_append: "nib_key a \<Longrightarrow> term_key (a @ b) = term_key b"
  by (induction a) (auto simp: nib_key_def)

lemma term_key_nib: "term_key (a @ x # b) \<Longrightarrow> nib_key a"
  by (induction a) (auto simp: nib_key_def split: if_splits)

lemma term_key_end: "term_key k \<Longrightarrow> k = a @ b \<Longrightarrow> term_key a \<Longrightarrow> b = []"
  by (induction k arbitrary: a) (auto simp: Cons_eq_append_conv split: if_splits)

lemma term_key_not_nib: "term_key k \<Longrightarrow> \<not> nib_key (k @ b)"
  by (induction k) (auto simp: nib_key_def split: if_splits)

lemma term_key_index: "term_key (x # k) \<Longrightarrow> unat x < 17"
  by (auto simp: word_less_nat_alt)

lemma term_key_snoc: "nib_key ns \<Longrightarrow> term_key (ns @ [16])"
  by (simp add: term_key_append)

lemma keybytes_term: "term_key (keybytesToHex b)"
  using unpack_nibbles by (auto simp: keybytesToHex_unpack nib_key_def intro!: term_key_snoc)

lemma keybytes_inj: "keybytesToHex a = keybytesToHex b \<Longrightarrow> a = b"
  using pack_unpack by (metis append_same_eq keybytesToHex_unpack)

lemma prefixLen_split:
  obtains p a b where "key = p @ a" "k = p @ b" "prefixLen key k = length p" "a = [] \<or> b = [] \<or> hd a \<noteq> hd b"
proof -
  have "\<exists>p a b. key = p @ a \<and> k = p @ b \<and> prefixLen key k = length p \<and> (a = [] \<or> b = [] \<or> hd a \<noteq> hd b)"
  proof (induction key k rule: prefixLen.induct)
    case (1 x a y b)
    show ?case
    proof (cases "x = y")
      case True
      then obtain p a' b' where "a = p @ a'" "b = p @ b'" "prefixLen a b = length p" "a' = [] \<or> b' = [] \<or> hd a' \<noteq> hd b'"
        using 1 by blast
      with True show ?thesis by (intro exI [of _ "x # p"] exI [of _ a'] exI [of _ b']) simp
    next
      case False
      then show ?thesis by (intro exI [of _ "[]"] exI [of _ "x # a"] exI [of _ "y # b"]) simp
    qed
  qed auto
  then show ?thesis using that by blast
qed

text \<open>Two keys: one continues the other, or they part after a common prefix.\<close>

lemma prefixLen_cases:
  obtains (extends) r where "key = k @ r" "prefixLen key k = length k"
  | (shorter) x b where "k = key @ x # b" "prefixLen key k = length key"
  | (parts) p x a y b where "key = p @ x # a" "k = p @ y # b" "x \<noteq> y" "prefixLen key k = length p"
proof (rule prefixLen_split [of key k])
  fix p a b
  assume *: "key = p @ a" "k = p @ b" "prefixLen key k = length p" "a = [] \<or> b = [] \<or> hd a \<noteq> hd b"
  show thesis
  proof (cases b)
    case Nil
    then show thesis using * extends by simp
  next
    case (Cons y b')
    then show thesis using * shorter parts by (cases a) auto
  qed
qed

section \<open>Canonical trees\<close>

lemma canon_Branch:
  "canon (Branch ts) \<longleftrightarrow> length ts = 17 \<and> (\<forall>i < 16. slot (ts ! i)) \<and> val_slot (ts ! 16) \<and> two ts"
  by (force simp: set_conv_nth)

declare canon.simps(4) [simp del]

lemma canon_not_Empty [simp]: "canon t \<Longrightarrow> t \<noteq> Void"
  by auto

lemma unat_nibble: "(x :: byte) < 16 \<Longrightarrow> unat x < 16"
  by (simp add: word_less_nat_alt)

lemma unat_eq_16: "unat (x :: byte) = 16 \<longleftrightarrow> x = 16"
  using word_unat_eq_iff [of x 16] by simp

lemma tget_ext: "tget (ext k t) key = tget (Ext k t) key"
  by (simp add: ext_def)

lemma tget_fork:
  assumes "unat a < 17" "unat b < 17" "a \<noteq> b"
  shows "tget (fork a s b t) (x # key) = (if x = a then tget s key else if x = b then tget t key else None)"
  using assms by (auto simp: fork_def nth_list_update word_unat_eq_iff)

lemma canon_fork:
  assumes "unat a < 17" "unat b < 17" "a \<noteq> b" "s \<noteq> Void" "t \<noteq> Void"
    and "if a = 16 then val_slot s else canon s" "if b = 16 then val_slot t else canon t"
  shows "canon (fork a s b t)"
proof -
  have ab: "unat a \<noteq> unat b" using assms(3) by (simp add: word_unat_eq_iff)
  have "two ((replicate 17 Void)[unat a := s, unat b := t])"
    unfolding two_def using assms(1,2,4,5) ab
    by (intro exI [of _ "unat a"] conjI exI [of _ "unat b"]) (simp_all add: nth_list_update)
  then show ?thesis using assms ab unat_eq_16 [of a] unat_eq_16 [of b]
    by (auto simp: fork_def canon_Branch nth_list_update split: if_splits)
qed

text \<open>A subtree at the end of part of a terminated key.\<close>

lemma canon_ext:
  assumes "canon (Ext (p @ y # b) t)"
  shows "if y = 16 then b = [] \<and> val_slot t \<and> t \<noteq> Void else y < 16 \<and> canon (ext b t)" "nib_key p" "ext b t \<noteq> Void" "unat y < 17"
proof -
  show "if y = 16 then b = [] \<and> val_slot t \<and> t \<noteq> Void else y < 16 \<and> canon (ext b t)"
  proof (cases "term_key (p @ y # b)")
    case True
    then have "term_key (y # b)" using term_key_nib term_key_append by metis
    with True assms show ?thesis by (auto simp: ext_def)
  next
    case False
    then show ?thesis using assms term_key_not_nib by (auto simp: ext_def nib_key_def)
  qed
  then show "unat y < 17" using unat_nibble [of y] by (auto split: if_splits)
  show "nib_key p" using assms term_key_nib by (auto simp: nib_key_def split: if_splits)
  show "ext b t \<noteq> Void" using assms by (auto simp: ext_def split: if_splits)
qed

lemma canon_ext_prefix: "nib_key p \<Longrightarrow> canon t \<Longrightarrow> is_Branch t \<Longrightarrow> canon (ext p t)"
  using term_key_not_nib [of p "[]"] by (auto simp: ext_def)

lemma is_Branch_fork [simp]: "is_Branch (fork a s b t)"
  by (simp add: fork_def)

lemma canon_leaf: "term_key k \<Longrightarrow> v \<noteq> [] \<Longrightarrow> canon (Ext k (Leaf v))"
  by simp

section \<open>Insertion\<close>

lemma tget_Leaf_end: "tget (Ext k (Leaf v)) key = (if key = k then Some v else None)"
  by (auto split: option.splits simp: strip_iff strip_None)

lemma tins_parts:
  assumes "canon (Ext k t)" "term_key key" "v \<noteq> []" "key = p @ x # a" "k = p @ y # b" "x \<noteq> y"
  defines "t' \<equiv> ext p (fork y (ext b t) x (ext a (Leaf v)))"
  shows "canon t'" "tget t' k0 = (if k0 = key then Some v else tget (Ext k t) k0)"
proof -
  note sub = canon_ext [OF assms(1) [unfolded assms(5)]]
  have key: "term_key (x # a)" using assms(2,4) term_key_nib term_key_append by metis
  have "unat x < 17" using term_key_index [OF key] .
  have new: "ext a (Leaf v) \<noteq> Void" "if x = 16 then val_slot (ext a (Leaf v)) else canon (ext a (Leaf v))"
    using key assms(3) by (auto simp: ext_def)
  have old: "if y = 16 then val_slot (ext b t) else canon (ext b t)" using sub(1) by (auto simp: ext_def)
  have "canon (fork y (ext b t) x (ext a (Leaf v)))"
    by (rule canon_fork) (use sub(3,4) \<open>unat x < 17\<close> assms(6) new old in auto)
  then show "canon t'" unfolding t'_def by (intro canon_ext_prefix sub) simp_all
  have *: "tget (fork y (ext b t) x (ext a (Leaf v))) (z # r) =
      (if z = y then tget (Ext b t) r else if z = x then tget (Ext a (Leaf v)) r else None)" for z r
    using tget_fork [OF sub(4) \<open>unat x < 17\<close>] assms(6) by (simp add: tget_ext)
  have nil: "tget (fork y (ext b t) x (ext a (Leaf v))) [] = None" by (simp add: fork_def)
  show "tget t' k0 = (if k0 = key then Some v else tget (Ext k t) k0)"
  proof (cases "\<exists>z r. k0 = p @ z # r")
    case True
    then obtain z r where k0: "k0 = p @ z # r" by blast
    have "tget t' k0 = tget (fork y (ext b t) x (ext a (Leaf v))) (z # r)"
      unfolding t'_def tget_ext k0 by simp
    moreover have "strip k k0 = (if z = y then strip b r else None)" unfolding k0 assms(5) by (induction p) auto
    ultimately show ?thesis using * [of z r] assms(4,6) k0 by (auto simp: tget_Leaf_end simp del: tget.simps(3)) auto
  next
    case False
    then have "strip k k0 = None" "k0 \<noteq> key" using assms(4,5) by (auto simp: strip_None)
    moreover have "tget t' k0 = None"
    proof (cases "strip p k0")
      case (Some r)
      then have "r = []" using False by (cases r) (auto simp: strip_iff)
      then show ?thesis using Some nil by (simp add: t'_def tget_ext)
    qed (simp add: t'_def tget_ext)
    ultimately show ?thesis by simp
  qed
qed

lemma term_key_shorter: "term_key key \<Longrightarrow> canon (Ext (key @ x # b) t) \<Longrightarrow> False"
  by (cases "term_key (key @ x # b)") (use term_key_end term_key_not_nib in \<open>force+\<close>)

lemma term_key_not_Nil: "term_key k \<Longrightarrow> k \<noteq> []"
  by auto

lemma tins_Ext:
  assumes "key \<noteq> []"
  shows "prefixLen key k = length k \<Longrightarrow> tins (Ext k t) key v = Ext k (tins t (drop (length k) key) v)" (is "?l \<Longrightarrow> ?a")
    and "key = p @ x # a \<Longrightarrow> k = p @ y # b \<Longrightarrow> prefixLen key k = length p \<Longrightarrow>
      tins (Ext k t) key v = ext p (fork y (ext b t) x (ext a v))"
proof -
  have eq: "tins (Ext k t) key v = (let m = prefixLen key k in if m = length k then Ext k (tins t (drop m key) v)
      else ext (take m key) (fork (k ! m) (ext (drop (m + 1) k) t) (key ! m) (ext (drop (m + 1) key) v)))"
    using assms by (cases key) (blast, simp only: tins.simps)
  show "?l \<Longrightarrow> ?a" unfolding eq Let_def by simp
  assume "key = p @ x # a" "k = p @ y # b" "prefixLen key k = length p"
  then show "tins (Ext k t) key v = ext p (fork y (ext b t) x (ext a v))" unfolding eq Let_def by simp
qed

lemma canon_branch_child:
  assumes "canon (Branch ts)" "term_key (x # key)"
  obtains (at_value) "x = 16" "key = []" "val_slot (ts ! 16)" "length ts = 17"
  | (below) "x < 16" "unat x < 16" "term_key key" "slot (ts ! unat x)" "length ts = 17"
  using assms unat_nibble [of x] by (auto simp: canon_Branch)

lemma two_update: "two ts \<Longrightarrow> t \<noteq> Void \<Longrightarrow> two (ts[i := t])"
  unfolding two_def by (metis length_list_update nth_list_update_eq nth_list_update_neq)

lemma canon_branch_update:
  assumes "canon (Branch ts)" "t \<noteq> Void" "if i = 16 then val_slot t else canon t"
  shows "canon (Branch (ts[i := t]))"
proof -
  have "slot (ts[i := t] ! j)" if "j < 16" for j
    using that assms by (cases "i = j") (auto simp: canon_Branch)
  moreover have "val_slot (ts[i := t] ! 16)"
    using assms by (cases "i = 16") (auto simp: canon_Branch)
  ultimately show ?thesis using assms(1,2) two_update [of ts t i] by (simp add: canon_Branch)
qed

lemma tget_branch_update:
  assumes "length ts = 17" "unat x < 17"
  shows "tget (Branch (ts[unat x := t])) (y # k) = (if y = x then tget t k else tget (Branch ts) (y # k))"
  using assms by (auto simp: nth_list_update word_unat_eq_iff)

lemma tget_val_slot: "val_slot t \<Longrightarrow> k \<noteq> [] \<Longrightarrow> tget t k = None"
  by (cases t) auto

lemma tins_Branch_is: "is_Branch t \<Longrightarrow> key \<noteq> [] \<Longrightarrow> is_Branch (tins t key v)"
  by (cases t; cases key) auto

lemma tins_correct:
  "slot t \<Longrightarrow> term_key key \<Longrightarrow> v \<noteq> [] \<Longrightarrow>
   canon (tins t key (Leaf v)) \<and> (\<forall>k. term_key k \<longrightarrow> tget (tins t key (Leaf v)) k = (if k = key then Some v else tget t k))"
proof (induction t arbitrary: key)
  case Void
  then show ?case by (cases key) (simp_all add: tget_Leaf_end del: tget.simps(3))
next
  case (Leaf w)
  then show ?case by simp
next
  case (Ext k t)
  note key = term_key_not_Nil [OF Ext.prems(2)]
  have wf: "canon (Ext k t)" using Ext.prems(1) by simp
  show ?case
  proof (cases key k rule: prefixLen_cases)
    case (extends r)
    note eq = tins_Ext(1) [OF key extends(2), of t "Leaf v"]
    show ?thesis
    proof (cases "term_key k")
      case True
      then have "r = []" using term_key_end [OF Ext.prems(2) extends(1)] by simp
      moreover obtain w where "t = Leaf w" using wf True by (cases t) auto
      ultimately show ?thesis using eq extends(1) True Ext.prems(3) by (simp add: tget_Leaf_end del: tget.simps(3))
    next
      case False
      then have k: "nib_key k" "k \<noteq> []" "is_Branch t" "canon t" using wf by auto
      then have r: "term_key r" using term_key_append extends(1) Ext.prems(2) by simp
      have ih: "canon (tins t r (Leaf v))" "\<And>k. term_key k \<Longrightarrow> tget (tins t r (Leaf v)) k = (if k = r then Some v else tget t k)"
        using Ext.IH [of r] k(4) r Ext.prems(3) by auto
      have "canon (Ext k (tins t r (Leaf v)))"
        using k ih False tins_Branch_is [OF k(3) term_key_not_Nil [OF r]] by simp
      moreover have "tget (Ext k (tins t r (Leaf v))) k0 = (if k0 = key then Some v else tget (Ext k t) k0)" if "term_key k0" for k0
      proof (cases "strip k k0")
        case (Some r0)
        then have k0: "k0 = k @ r0" "term_key r0" using that term_key_append [OF k(1)] by (auto simp: strip_iff)
        then show ?thesis using ih(2) [OF k0(2)] extends(1) by simp
      next
        case None
        then have "k0 \<noteq> key" using extends(1) by (auto simp: strip_None)
        then show ?thesis using None by simp
      qed
      ultimately show ?thesis using eq extends(1) by simp
    qed
  next
    case (shorter x b)
    then show ?thesis using term_key_shorter [OF Ext.prems(2)] wf by metis
  next
    case (parts p x a y b)
    show ?thesis
      unfolding tins_Ext(2) [OF key parts(1,2,4)] using tins_parts [OF wf Ext.prems(2,3) parts(1,2,3)] by blast
  qed
next
  case (Branch ts)
  obtain x key' where key: "key = x # key'" using Branch.prems(2) by (cases key) auto
  have wf: "canon (Branch ts)" and tk: "term_key (x # key')" using Branch.prems key by simp_all
  note x = term_key_index [OF tk]
  define s where "s = tins (ts ! unat x) key' (Leaf v)"
  have len: "length ts = 17" using wf by (simp add: canon_Branch)
  have s: "s \<noteq> Void \<and> (if unat x = 16 then val_slot s else canon s) \<and>
    (\<forall>k. term_key (x # k) \<longrightarrow> tget s k = (if k = key' then Some v else tget (ts ! unat x) k))"
    using wf tk
  proof (cases rule: canon_branch_child)
    case at_value
    then show ?thesis using Branch.prems(3) by (simp add: s_def)
  next
    case below
    have "ts ! unat x \<in> set ts" using x len by simp
    from Branch.IH [OF this below(4,3) Branch.prems(3)] below show ?thesis by (auto simp: s_def)
  qed
  have "tins (Branch ts) key (Leaf v) = Branch (ts[unat x := s])" using x len by (simp add: key s_def)
  moreover have "canon (Branch (ts[unat x := s]))" by (rule canon_branch_update [OF wf]) (use s in auto)
  moreover have "tget (Branch (ts[unat x := s])) k = (if k = key then Some v else tget (Branch ts) k)" if "term_key k" for k
  proof (cases k)
    case (Cons y k')
    show ?thesis
    proof (cases "y = x")
      case True
      then have "tget s k' = (if k' = key' then Some v else tget (ts ! unat x) k')"
        using conjunct2 [OF conjunct2 [OF s]] that Cons by metis
      then show ?thesis using True Cons tget_branch_update [OF len x, of s y k'] x len by (simp add: key)
    next
      case False
      then show ?thesis using Cons tget_branch_update [OF len x, of s y k'] by (simp add: key)
    qed
  qed (use that in simp)
  ultimately show ?case by simp
qed

section \<open>Deletion\<close>

lemma only_loop_found: "pos \<ge> 0 \<Longrightarrow> only_loop f i pos cs = (if \<exists>c \<in> set cs. f c then -2 else pos)"
  by (induction cs arbitrary: i) auto

lemma only_loop_least: "only_loop f i (-1) cs \<ge> 0 \<Longrightarrow> only_loop f i (-1) cs \<ge> int i"
proof (induction cs arbitrary: i)
  case (Cons c cs)
  show ?case
  proof (cases "f c")
    case True
    then show ?thesis using Cons.prems by (simp add: only_loop_found split: if_splits)
  next
    case False
    then show ?thesis using Cons.prems Cons.IH [of "i + 1"] by simp
  qed
qed simp

lemma all_less_Suc: "(\<forall>j < Suc n. P j) \<longleftrightarrow> P 0 \<and> (\<forall>j < n. P (Suc j))"
  using less_Suc_eq_0_disj by auto

lemma only_loop_at:
  "only_loop f i (-1) cs = int (i + p) \<longleftrightarrow> p < length cs \<and> f (cs ! p) \<and> (\<forall>j < length cs. j \<noteq> p \<longrightarrow> \<not> f (cs ! j))"
proof (induction cs arbitrary: i p)
  case (Cons c cs)
  show ?case
  proof (cases "f c")
    case True
    then show ?thesis by (cases p) (auto simp: only_loop_found all_less_Suc set_conv_nth)
  next
    case False
    show ?thesis
    proof (cases p)
      case 0
      then show ?thesis using False only_loop_least [of f "i + 1" cs] by auto
    next
      case (Suc q)
      have "only_loop f i (-1) (c # cs) = only_loop f (i + 1) (-1) cs" using False by simp
      then show ?thesis using Suc False Cons.IH [of "i + 1" q] by (simp add: all_less_Suc)
    qed
  qed
qed simp

lemma only_loop_iff:
  "only_loop f 0 (-1) cs = int p \<longleftrightarrow> p < length cs \<and> f (cs ! p) \<and> (\<forall>j < length cs. j \<noteq> p \<longrightarrow> \<not> f (cs ! j))"
  using only_loop_at [of f 0 cs p] by simp

lemma only_loop_two:
  assumes "i < length cs" "j < length cs" "i \<noteq> j" "f (cs ! i)" "f (cs ! j)"
  shows "\<not> only_loop f 0 (-1) cs \<ge> 0"
proof
  assume "only_loop f 0 (-1) cs \<ge> 0"
  then obtain p where "only_loop f 0 (-1) cs = int p" using nonneg_int_cases by blast
  then show False using assms unfolding only_loop_iff by metis
qed

lemma collapse_two: "two ts \<Longrightarrow> collapse ts = Branch ts"
proof -
  assume "two ts"
  then obtain i j where "i < length ts" "j < length ts" "i \<noteq> j" "ts ! i \<noteq> Void" "ts ! j \<noteq> Void" unfolding two_def by blast
  from only_loop_two [of i ts j "\<lambda>t. t \<noteq> Void", OF this] show ?thesis by (simp add: collapse_def)
qed

text \<open>Collapsing a branch with a child left keeps the content and gives a canonical tree.\<close>

definition branch_like :: "tree list \<Rightarrow> bool" where
  "branch_like ts \<longleftrightarrow> length ts = 17 \<and> (\<forall>i < 16. slot (ts ! i)) \<and> val_slot (ts ! 16) \<and> (\<exists>i < 17. ts ! i \<noteq> Void)"

lemma collapse_cases:
  assumes "branch_like ts"
  obtains (many) "two ts" "collapse ts = Branch ts"
  | (one) p where "p < 17" "ts ! p \<noteq> Void" "\<forall>j < 17. j \<noteq> p \<longrightarrow> ts ! j = Void" "collapse ts = join [of_nat p] (ts ! p)"
proof (cases "two ts")
  case True
  then show ?thesis using many collapse_two by blast
next
  case False
  obtain p where p: "p < 17" "ts ! p \<noteq> Void" "length ts = 17" using assms unfolding branch_like_def by blast
  then have others: "\<forall>j < 17. j \<noteq> p \<longrightarrow> ts ! j = Void" using False unfolding two_def by metis
  then have "only_loop (\<lambda>t. t \<noteq> Void) 0 (-1) ts = int p" using p by (subst only_loop_iff) auto
  then have "collapse ts = join [of_nat p] (ts ! p)" by (simp add: collapse_def)
  then show ?thesis using one p others by blast
qed

lemma join_canon:
  assumes "unat x < 17" "t \<noteq> Void" "if x = 16 then val_slot t else canon t" 
  shows "canon (join [x] t)" "tget (join [x] t) (y # k) = (if y = x then tget t k else None)"
proof -
  have x: "x \<noteq> 16 \<Longrightarrow> x < 16" using assms(1) unat_eq_16 [of x] by (simp add: word_less_nat_alt)
  show "canon (join [x] t)"
    using assms x by (cases t) (auto simp: join_def nib_key_def split: if_splits)
  show "tget (join [x] t) (y # k) = (if y = x then tget t k else None)"
    by (cases t) (auto simp: join_def)
qed

lemma collapse_correct:
  assumes "branch_like ts"
  shows "canon (collapse ts)" "term_key k \<Longrightarrow> tget (collapse ts) k = tget (Branch ts) k"
proof -
  have len: "length ts = 17" using assms by (simp add: branch_like_def)
  have "canon (collapse ts) \<and> (term_key k \<longrightarrow> tget (collapse ts) k = tget (Branch ts) k)"
    using assms
  proof (cases rule: collapse_cases)
    case many
    then show ?thesis using assms by (simp add: canon_Branch branch_like_def)
  next
    case (one p)
    define x :: byte where "x = of_nat p"
    have x: "unat x = p" using one(1) by (simp add: x_def unat_of_nat)
    have "if x = 16 then val_slot (ts ! p) else canon (ts ! p)"
    proof (cases "p = 16")
      case True
      then show ?thesis using assms x unat_eq_16 [of x] by (simp add: branch_like_def)
    next
      case False
      then have "slot (ts ! p)" using assms one(1) by (simp add: branch_like_def)
      then show ?thesis using False one(2) x unat_eq_16 [of x] by simp
    qed
    note joined = join_canon [OF _ one(2) this]
    have "tget (join [x] (ts ! p)) (y # k) = tget (Branch ts) (y # k)" if "term_key (y # k)" for y k
      using one(3) joined(2) [of y k] x one(1) len term_key_index [OF that] by (auto simp: word_unat_eq_iff)
    then show ?thesis using joined(1) one(1,4) x by (cases k) (auto simp: x_def)
  qed
  then show "canon (collapse ts)" "term_key k \<Longrightarrow> tget (collapse ts) k = tget (Branch ts) k" by blast+
qed

lemma collapse_not_Empty: "collapse ts \<noteq> Void" 
  by (auto simp: collapse_def join_def Let_def split: tree.splits)

lemma tget_join: "tget (join k t) key = tget (Ext k t) key"
proof -
  have "strip (k @ k') key = (case strip k key of None \<Rightarrow> None | Some r \<Rightarrow> strip k' r)" for k'
    by (induction k key rule: strip.induct) (cases k', auto)
  then show ?thesis by (cases t) (auto simp: join_def split: option.splits)
qed

lemma canon_join:
  assumes "nib_key k" "k \<noteq> []" "canon t"
  shows "canon (join k t)"
proof (cases t)
  case (Ext k' t')
  then show ?thesis using assms term_key_append [OF assms(1), of k'] by (auto simp: join_def nib_key_def)
next
  case (Branch ts)
  then show ?thesis using assms term_key_not_nib [of k "[]"] by (auto simp: join_def)
qed (use assms in auto)

lemma tdel_Ext:
  "prefixLen key k < length k \<Longrightarrow> tdel (Ext k t) key = Ext k t"
  "tdel (Ext k t) k = Void"
  "r \<noteq> [] \<Longrightarrow> prefixLen (k @ r) k = length k \<Longrightarrow> tdel (Ext k t) (k @ r) = join k (tdel t r)"
proof -
  have "prefixLen k k = length k" by (induction k) simp_all
  then show "tdel (Ext k t) k = Void" by (simp add: Let_def)
qed (simp_all add: Let_def)

lemma branch_like_delete:
  assumes "canon (Branch ts)" "if i = 16 then s = Void else slot s"
  shows "branch_like (ts[i := s])"
proof -
  obtain a b where ab: "a < 17" "b < 17" "a \<noteq> b" "ts ! a \<noteq> Void" "ts ! b \<noteq> Void" "length ts = 17"
    using assms(1) by (auto simp: canon_Branch two_def)
  then have "\<exists>j < 17. ts[i := s] ! j \<noteq> Void" by (cases "a = i") (metis nth_list_update_neq)+
  moreover have "slot (ts[i := s] ! j)" if "j < 16" for j
    using that assms ab(6) by (cases "i = j") (auto simp: canon_Branch)
  moreover have "val_slot (ts[i := s] ! 16)"
    using assms ab(6) by (cases "i = 16") (auto simp: canon_Branch)
  ultimately show ?thesis using ab(6) by (simp add: branch_like_def)
qed

lemma tdel_correct:
  "slot t \<Longrightarrow> term_key key \<Longrightarrow>
   slot (tdel t key) \<and> (\<forall>k. term_key k \<longrightarrow> tget (tdel t key) k = (if k = key then None else tget t k)) \<and>
   (is_Branch t \<longrightarrow> tdel t key \<noteq> Void) \<and> (tget t key = None \<longrightarrow> tdel t key = t)"
proof (induction t arbitrary: key)
  case (Ext k t)
  have wf: "canon (Ext k t)" using Ext.prems(1) by simp
  show ?case
  proof (cases key k rule: prefixLen_cases)
    case (extends r)
    show ?thesis
    proof (cases "term_key k")
      case True
      then have "r = []" using term_key_end [OF Ext.prems(2) extends(1)] by simp
      moreover obtain w where "t = Leaf w" using wf True by (cases t) auto
      ultimately show ?thesis using extends(1) tdel_Ext(2) [of k t] by (simp add: tget_Leaf_end del: tget.simps(3) tdel.simps)
    next
      case False
      then have k: "nib_key k" "k \<noteq> []" "is_Branch t" "canon t" using wf by auto
      then have r: "term_key r" using term_key_append extends(1) Ext.prems(2) by simp
      define s where "s = tdel t r"
      have ih: "canon s" "\<And>k. term_key k \<Longrightarrow> tget s k = (if k = r then None else tget t k)" "tget t r = None \<Longrightarrow> s = t"
        using Ext.IH [of r] k(3,4) r by (auto simp: s_def)
      have eq: "tdel (Ext k t) key = join k s"
        using tdel_Ext(3) [OF term_key_not_Nil [OF r]] extends unfolding s_def by metis
      have "tget (Ext k s) k0 = (if k0 = key then None else tget (Ext k t) k0)" if "term_key k0" for k0
      proof (cases "strip k k0")
        case (Some r0)
        then have k0: "k0 = k @ r0" "term_key r0" using that term_key_append [OF k(1)] by (auto simp: strip_iff)
        then show ?thesis using ih(2) [OF k0(2)] extends(1) by simp
      next
        case None
        then have "k0 \<noteq> key" using extends(1) by (auto simp: strip_None)
        then show ?thesis using None by simp
      qed
      moreover have "join k t = Ext k t" using k(3) by (cases t) (auto simp: join_def)
      ultimately show ?thesis unfolding eq tget_join using canon_join [OF k(1,2) ih(1)] ih(3) extends(1) by simp
    qed
  next
    case (shorter x b)
    then show ?thesis using term_key_shorter [OF Ext.prems(2)] wf by metis
  next
    case (parts p x a y b)
    then have "strip k key = None" by (simp add: strip_None)
    then show ?thesis using wf tdel_Ext(1) [of key k t] parts(2,4) by auto
  qed
next
  case (Branch ts)
  obtain x key' where key: "key = x # key'" using Branch.prems(2) by (cases key) auto
  have wf: "canon (Branch ts)" and tk: "term_key (x # key')" using Branch.prems key by simp_all
  note x = term_key_index [OF tk]
  define s where "s = tdel (ts ! unat x) key'"
  have len: "length ts = 17" using wf by (simp add: canon_Branch)
  have s: "(if unat x = 16 then s = Void else slot s) \<and> (tget (ts ! unat x) key' = None \<longrightarrow> s = ts ! unat x) \<and>
    (\<forall>k. term_key (x # k) \<longrightarrow> tget s k = (if k = key' then None else tget (ts ! unat x) k))"
    using wf tk
  proof (cases rule: canon_branch_child)
    case at_value
    then show ?thesis by (cases "ts ! 16") (simp_all add: s_def)
  next
    case below
    have "ts ! unat x \<in> set ts" using x len by simp
    from Branch.IH [OF this below(4,3)] below show ?thesis by (auto simp: s_def)
  qed
  have eq: "tdel (Branch ts) key = collapse (ts[unat x := s])" using x len by (simp add: key s_def)
  note like = branch_like_delete [OF wf conjunct1 [OF s]]
  have "tget (Branch (ts[unat x := s])) k = (if k = key then None else tget (Branch ts) k)" if "term_key k" for k
  proof (cases k)
    case (Cons y k')
    show ?thesis
    proof (cases "y = x")
      case True
      then have "tget s k' = (if k' = key' then None else tget (ts ! unat x) k')"
        using conjunct2 [OF conjunct2 [OF s]] that Cons by metis
      then show ?thesis using True Cons tget_branch_update [OF len x, of s y k'] x len by (simp add: key)
    next
      case False
      then show ?thesis using Cons tget_branch_update [OF len x, of s y k'] by (simp add: key)
    qed
  qed (use that in simp)
  moreover have "collapse (ts[unat x := s]) = Branch ts" if "tget (Branch ts) key = None"
  proof -
    have "s = ts ! unat x" using s that x len by (simp add: key)
    then show ?thesis using wf by (simp add: collapse_two canon_Branch)
  qed
  ultimately show ?case unfolding eq using collapse_correct [OF like] collapse_not_Empty by simp
qed simp_all

section \<open>Content determines the tree\<close>

lemma branch_children:
  assumes "canon (Branch ts)" "i < 17" "ts ! i \<noteq> Void"
  obtains "i = 16" "val_slot (ts ! i)" | "i < 16" "canon (ts ! i)"
proof (cases "i = 16")
  case True
  then show ?thesis using assms that(1) by (simp add: canon_Branch)
next
  case False
  then have "i < 16" using assms(2) by simp
  then show ?thesis using assms that(2) by (auto simp: canon_Branch)
qed

lemma branch_key:
  assumes "canon (Branch ts)" "i < 17" "ts ! i \<noteq> Void"
    and sub: "\<And>t. t \<in> set ts \<Longrightarrow> canon t \<Longrightarrow> \<exists>k. term_key k \<and> tget t k \<noteq> None"
  shows "\<exists>k. term_key (of_nat i # k) \<and> tget (Branch ts) (of_nat i # k) \<noteq> None"
proof -
  have i: "unat (of_nat i :: byte) = i" using assms(2) by (simp add: unat_of_nat)
  have len: "length ts = 17" using assms(1) by (simp add: canon_Branch)
  from assms(1-3) show ?thesis
  proof (cases rule: branch_children)
    case 1
    then show ?thesis using assms(3) len by (intro exI [of _ "[]"]) (cases "ts ! 16"; simp)
  next
    case 2
    then obtain k where "term_key k" "tget (ts ! i) k \<noteq> None" using sub [of "ts ! i"] len by auto
    moreover have "(of_nat i :: byte) < 16" using 2(1) i by (simp add: word_less_nat_alt)
    ultimately show ?thesis using i len assms(2) by (intro exI [of _ k]) simp
  qed
qed

lemma canon_has_key: "canon t \<Longrightarrow> \<exists>k. term_key k \<and> tget t k \<noteq> None"
proof (induction t)
  case (Ext k t)
  show ?case
  proof (cases "term_key k")
    case True
    then obtain w where "t = Leaf w" using Ext.prems by (cases t) auto
    then show ?thesis using True by (intro exI [of _ k]) (simp add: tget_Leaf_end del: tget.simps(3))
  next
    case False
    then have "nib_key k" "canon t" using Ext.prems by auto
    then obtain r where "term_key r" "tget t r \<noteq> None" using Ext.IH by blast
    then show ?thesis using term_key_append [OF \<open>nib_key k\<close>] by (intro exI [of _ "k @ r"]) simp
  qed
next
  case (Branch ts)
  then obtain i where "i < 17" "ts ! i \<noteq> Void" by (auto simp: canon_Branch two_def)
  then show ?case using branch_key [OF Branch.prems] Branch.IH by blast
qed simp_all

text \<open>A branch has two keys with different first nibbles.\<close>

lemma branch_two_keys:
  assumes "canon (Branch ts)"
  obtains x a y b where "x \<noteq> y" "term_key (x # a)" "tget (Branch ts) (x # a) \<noteq> None" "term_key (y # b)" "tget (Branch ts) (y # b) \<noteq> None"
proof -
  obtain i j where ij: "i < 17" "j < 17" "i \<noteq> j" "ts ! i \<noteq> Void" "ts ! j \<noteq> Void"
    using assms by (auto simp: canon_Branch two_def)
  moreover have "(of_nat i :: byte) \<noteq> of_nat j"
  proof
    assume "(of_nat i :: byte) = of_nat j"
    then have "unat (of_nat i :: byte) = unat (of_nat j :: byte)" by simp
    then show False using ij by (simp add: unat_of_nat)
  qed
  ultimately show ?thesis using that branch_key [OF assms] canon_has_key by metis
qed

lemma Ext_keys: "tget (Ext k t) key \<noteq> None \<Longrightarrow> \<exists>r. key = k @ r"
  by (auto simp: strip_iff split: option.splits)

abbreviation same_content :: "tree \<Rightarrow> tree \<Rightarrow> bool" where
  "same_content s t \<equiv> \<forall>k. term_key k \<longrightarrow> tget s k = tget t k"

lemma Ext_not_Branch:
  assumes "canon (Ext k t)" "canon (Branch ts)" "same_content (Ext k t) (Branch ts)"
  shows False
proof -
  obtain x a y b where *: "x \<noteq> y" "term_key (x # a)" "tget (Branch ts) (x # a) \<noteq> None" "term_key (y # b)" "tget (Branch ts) (y # b) \<noteq> None"
    using branch_two_keys [OF assms(2)] .
  then obtain r r' where "x # a = k @ r" "y # b = k @ r'" using assms(3) Ext_keys by metis
  moreover have "k \<noteq> []" using assms(1) by (auto split: if_splits)
  ultimately show False using *(1) by (cases k) auto
qed

text \<open>The key of an extension is the longest common prefix of its content.\<close>

lemma Ext_key_longest:
  assumes "canon (Ext k s)" "canon (Ext (k @ x # b) t)" "same_content (Ext k s) (Ext (k @ x # b) t)"
  shows False
proof -
  have "\<not> term_key k" using term_key_shorter assms(2) by blast
  then obtain ts where s: "s = Branch ts" "canon (Branch ts)" "nib_key k" using assms(1) by (cases s) auto
  obtain y a z c where *: "y \<noteq> z" "term_key (y # a)" "tget (Branch ts) (y # a) \<noteq> None" "term_key (z # c)" "tget (Branch ts) (z # c) \<noteq> None"
    using branch_two_keys [OF s(2)] .
  have "y' = x" if "term_key (y' # a')" "tget (Branch ts) (y' # a') \<noteq> None" for y' a'
  proof -
    have "tget (Ext k s) (k @ y' # a') \<noteq> None" "term_key (k @ y' # a')" using that s term_key_append by simp_all
    then have "tget (Ext (k @ x # b) t) (k @ y' # a') \<noteq> None" using assms(3) by metis
    then show ?thesis using Ext_keys by fastforce
  qed
  then show False using * by metis
qed

lemma content_unique: "slot s \<Longrightarrow> slot t \<Longrightarrow> same_content s t \<Longrightarrow> s = t"
proof (induction s arbitrary: t)
  case Void
  then show ?case using canon_has_key [of t] by auto
next
  case (Leaf v)
  then show ?case by simp
next
  case (Ext k s)
  have wf: "canon (Ext k s)" using Ext.prems(1) by simp
  obtain key where key: "term_key key" "tget (Ext k s) key \<noteq> None" using canon_has_key [OF wf] by blast
  have wt: "canon t" using Ext.prems(2,3) key by force
  show ?case
  proof (cases t)
    case (Ext k' s')
    note wt = wt [unfolded Ext] and same = Ext.prems(3) [unfolded Ext]
    have "tget (Ext k' s') key \<noteq> None" using same key by metis
    then obtain r r' where "key = k @ r" "key = k' @ r'" using key(2) Ext_keys by metis
    then consider "k = k'" | x b where "k' = k @ x # b" | x b where "k = k' @ x # b"
      by (metis append_Nil2 append_eq_append_conv2 neq_Nil_conv)
    then have "k = k'"
    proof cases
      case 2
      then show ?thesis using Ext_key_longest [of k s x b s'] wf wt same by blast
    next
      case 3
      then show ?thesis using Ext_key_longest [of k' s' x b s] wf wt same by metis
    qed
    moreover have "s = s'"
    proof (cases "term_key k")
      case True
      then obtain v w where "s = Leaf v" "s' = Leaf w" using wf wt \<open>k = k'\<close> by (cases s; cases s') auto
      then show ?thesis using same [rule_format, of k] True \<open>k = k'\<close> by (simp add: tget_Leaf_end del: tget.simps(3))
    next
      case False
      then have sub: "nib_key k" "canon s" "canon s'" using wf wt \<open>k = k'\<close> by auto
      have "tget s r = tget s' r" if "term_key r" for r
        using same [rule_format, of "k @ r"] that term_key_append [OF sub(1)] \<open>k = k'\<close> by simp
      then show ?thesis using Ext.IH [of s'] sub by blast
    qed
    ultimately show ?thesis using Ext by simp
  next
    case (Branch ts)
    then show ?thesis using Ext_not_Branch [OF wf] wt Ext.prems(3) by blast
  qed (use wt in auto)
next
  case (Branch ss)
  have wf: "canon (Branch ss)" using Branch.prems(1) by simp
  obtain key where key: "term_key key" "tget (Branch ss) key \<noteq> None" using canon_has_key [OF wf] by blast
  have wt: "canon t" using Branch.prems(2,3) key by force
  show ?case
  proof (cases t)
    case (Ext k s')
    then show ?thesis using Ext_not_Branch [OF _ wf, of k s'] wt Branch.prems(3) by metis
  next
    case (Branch ts)
    note wt = wt [unfolded Branch] and same = Branch.prems(3) [unfolded Branch]
    have len: "length ss = 17" "length ts = 17" using wf wt by (simp_all add: canon_Branch)
    have "ss ! i = ts ! i" if i: "i < 17" for i
    proof -
      have u: "unat (of_nat i :: byte) = i" using i by (simp add: unat_of_nat)
      have get: "tget (ss ! i) k = tget (ts ! i) k" if "term_key (of_nat i # k)" for k
        using same [rule_format, OF that] u len i by simp
      show ?thesis
      proof (cases "i = 16")
        case True
        then show ?thesis using get [of "[]"] wf wt by (cases "ss ! 16"; cases "ts ! 16") (auto simp: canon_Branch)
      next
        case False
        then have "term_key (of_nat i # k) = term_key k" for k
          using i u unat_eq_16 [of "of_nat i"] by (auto simp: word_less_nat_alt)
        then show ?thesis using Branch.IH [of "ss ! i" "ts ! i"] get False i len wf wt by (auto simp: canon_Branch)
      qed
    qed
    then show ?thesis using Branch len by (simp add: list_eq_iff_nth_eq)
  qed (use wt in auto)
qed

end
