(* ===== verification/Trie.thy ===== *)
theory Trie
  imports TrieTree StateObject "HOL-Library.Monad_Syntax"
begin

text \<open>
  The Merkle Patricia trie (\<open>trie/trie.go\<close>, \<open>trie/node.go\<close>): lookup, insertion and deletion on nodes that are
  loaded from the database on demand, and that they implement the operations on trees.

  A run-time panic and a call that does not return are \<open>None\<close>. \<open>db\<close> is what \<open>Database.node\<close> returns: \<open>None\<close> a panic
  (a blob that does not decode), \<open>Some None\<close> nil.
\<close>

section \<open>Nodes\<close>

record nodeFlag =
  nf_hash :: "bytes option"
  nf_dirty :: bool

datatype trie_node =
    NilNode
  | ValueNode bytes
  | HashNode bytes
  | ShortNode bytes trie_node nodeFlag
  | FullNode "trie_node list" nodeFlag

datatype trie_error = MissingNodeError hash bytes

type_synonym node_db = "hash \<Rightarrow> trie_node option option"

record Trie =
  tr_db :: node_db
  tr_root :: trie_node
  tr_unhashed :: nat

definition newFlag :: nodeFlag where
  "newFlag = \<lparr>nf_hash = None, nf_dirty = True\<rparr>"

fun node_cache :: "trie_node \<Rightarrow> bytes option \<times> bool" where
  "node_cache (FullNode cs flags) = (nf_hash flags, nf_dirty flags)"
| "node_cache (ShortNode k n flags) = (nf_hash flags, nf_dirty flags)"
| "node_cache _ = (None, True)"

definition resolveHash :: "node_db \<Rightarrow> bytes \<Rightarrow> bytes \<Rightarrow> (trie_node \<times> trie_error option) option" where
  "resolveHash db n prefix =
     (let hash = BytesToHash n in
      case db hash of
        None \<Rightarrow> None
      | Some (Some node) \<Rightarrow> Some (node, None)
      | Some None \<Rightarrow> Some (NilNode, Some (MissingNodeError hash prefix)))"

definition resolve :: "node_db \<Rightarrow> trie_node \<Rightarrow> bytes \<Rightarrow> (trie_node \<times> trie_error option) option" where
  "resolve db n prefix = (case n of HashNode h \<Rightarrow> resolveHash db h prefix | _ \<Rightarrow> Some (n, None))"

text \<open>\<open>Children[key[pos]]\<close>: both indices are checked.\<close>

definition child_index :: "bytes \<Rightarrow> nat \<Rightarrow> trie_node list \<Rightarrow> nat option" where
  "child_index key pos cs = (if pos < length key \<and> unat (key ! pos) < length cs then Some (unat (key ! pos)) else None)"

section \<open>Operations\<close>

partial_function (option) tryGet ::
  "node_db \<Rightarrow> trie_node \<Rightarrow> bytes \<Rightarrow> nat \<Rightarrow> (bytes option \<times> trie_node \<times> bool \<times> trie_error option) option" where
  "tryGet db origNode key pos =
     (case origNode of
        NilNode \<Rightarrow> Some (None, NilNode, False, None)
      | ValueNode v \<Rightarrow> Some (Some v, origNode, False, None)
      | ShortNode nkey nval flags \<Rightarrow>
          if int (length key) - int pos < int (length nkey) \<or> nkey \<noteq> take (length nkey) (drop pos key) then
            Some (None, origNode, False, None)
          else do {
            (val, newnode, didResolve, err) \<leftarrow> tryGet db nval key (pos + length nkey);
            Some (val, if err = None \<and> didResolve then ShortNode nkey newnode flags else origNode, didResolve, err)
          }
      | FullNode cs flags \<Rightarrow> do {
          i \<leftarrow> child_index key pos cs;
          (val, newnode, didResolve, err) \<leftarrow> tryGet db (cs ! i) key (pos + 1);
          Some (val, if err = None \<and> didResolve then FullNode (cs[i := newnode]) flags else origNode, didResolve, err)
        }
      | HashNode n \<Rightarrow> do {
          (child, err) \<leftarrow> resolveHash db n (take pos key);
          if err \<noteq> None then Some (None, origNode, True, err)
          else do {
            (val, newnode, _, err) \<leftarrow> tryGet db child key pos;
            Some (val, newnode, True, err)
          }
        })"

definition TryGet :: "Trie \<Rightarrow> bytes \<Rightarrow> (Trie \<times> bytes option \<times> trie_error option) option" where
  "TryGet t key = do {
     (val, newroot, didResolve, err) \<leftarrow> tryGet (tr_db t) (tr_root t) (keybytesToHex key) 0;
     Some (if err = None \<and> didResolve then t\<lparr>tr_root := newroot\<rparr> else t, val, err)
   }"

partial_function (option) trie_insert ::
  "node_db \<Rightarrow> trie_node \<Rightarrow> bytes \<Rightarrow> bytes \<Rightarrow> trie_node \<Rightarrow> (bool \<times> trie_node \<times> trie_error option) option" where
  "trie_insert db n prefix key val =
     (if length key = 0 then
        (case n of
           ValueNode v \<Rightarrow> (case val of ValueNode w \<Rightarrow> Some (v \<noteq> w, val, None) | _ \<Rightarrow> None)
         | _ \<Rightarrow> Some (True, val, None))
      else
        case n of
          ShortNode nkey nval flags \<Rightarrow>
            let matchlen = prefixLen key nkey in
            if matchlen = length nkey then do {
              (dirty, nn, err) \<leftarrow> trie_insert db nval (prefix @ take matchlen key) (drop matchlen key) val;
              Some (if \<not> dirty \<or> err \<noteq> None then (False, n, err) else (True, ShortNode nkey nn newFlag, None))
            }
            else do {
              i \<leftarrow> child_index nkey matchlen (replicate 17 NilNode);
              (_, old, err) \<leftarrow> trie_insert db NilNode (prefix @ take (matchlen + 1) nkey) (drop (matchlen + 1) nkey) nval;
              if err \<noteq> None then Some (False, NilNode, err)
              else do {
                j \<leftarrow> child_index key matchlen (replicate 17 NilNode);
                (_, new, err) \<leftarrow> trie_insert db NilNode (prefix @ take (matchlen + 1) key) (drop (matchlen + 1) key) val;
                if err \<noteq> None then Some (False, NilNode, err)
                else
                  let branch = FullNode ((replicate 17 NilNode)[i := old, j := new]) newFlag in
                  if matchlen = 0 then Some (True, branch, None)
                  else Some (True, ShortNode (take matchlen key) branch newFlag, None)
              }
            }
        | FullNode cs flags \<Rightarrow> do {
            i \<leftarrow> child_index key 0 cs;
            (dirty, nn, err) \<leftarrow> trie_insert db (cs ! i) (prefix @ [key ! 0]) (drop 1 key) val;
            Some (if \<not> dirty \<or> err \<noteq> None then (False, n, err) else (True, FullNode (cs[i := nn]) newFlag, None))
          }
        | NilNode \<Rightarrow> Some (True, ShortNode key val newFlag, None)
        | HashNode h \<Rightarrow> do {
            (rn, err) \<leftarrow> resolveHash db h prefix;
            if err \<noteq> None then Some (False, NilNode, err)
            else do {
              (dirty, nn, err) \<leftarrow> trie_insert db rn prefix key val;
              Some (if \<not> dirty \<or> err \<noteq> None then (False, rn, err) else (True, nn, None))
            }
          }
        | ValueNode v \<Rightarrow> None)"

text \<open>The end of \<open>delete\<close> on a full node: with one child left it becomes a short node.\<close>

definition reduce_full :: "node_db \<Rightarrow> trie_node list \<Rightarrow> bytes \<Rightarrow> (bool \<times> trie_node \<times> trie_error option) option" where
  "reduce_full db cs prefix =
     (let pos = only_loop (\<lambda>cld. cld \<noteq> NilNode) 0 (-1) cs in
      if pos \<ge> 0 then
        if pos \<noteq> 16 then do {
          (cnode, err) \<leftarrow> resolve db (cs ! nat pos) prefix;
          if err \<noteq> None then Some (False, NilNode, err)
          else case cnode of
                 ShortNode ckey cval cflags \<Rightarrow> Some (True, ShortNode (of_int pos # ckey) cval newFlag, None)
               | _ \<Rightarrow> Some (True, ShortNode [of_int pos] (cs ! nat pos) newFlag, None)
        }
        else Some (True, ShortNode [of_int pos] (cs ! nat pos) newFlag, None)
      else Some (True, FullNode cs newFlag, None))"

partial_function (option) trie_delete ::
  "node_db \<Rightarrow> trie_node \<Rightarrow> bytes \<Rightarrow> bytes \<Rightarrow> (bool \<times> trie_node \<times> trie_error option) option" where
  "trie_delete db n prefix key =
     (case n of
        ShortNode nkey nval flags \<Rightarrow>
          let matchlen = prefixLen key nkey in
          if matchlen < length nkey then Some (False, n, None)
          else if matchlen = length key then Some (True, NilNode, None)
          else do {
            (dirty, child, err) \<leftarrow> trie_delete db nval (prefix @ take (length nkey) key) (drop (length nkey) key);
            Some (if \<not> dirty \<or> err \<noteq> None then (False, n, err)
                  else case child of
                         ShortNode ckey cval cflags \<Rightarrow> (True, ShortNode (nkey @ ckey) cval newFlag, None)
                       | _ \<Rightarrow> (True, ShortNode nkey child newFlag, None))
          }
      | FullNode cs flags \<Rightarrow> do {
          i \<leftarrow> child_index key 0 cs;
          (dirty, nn, err) \<leftarrow> trie_delete db (cs ! i) (prefix @ [key ! 0]) (drop 1 key);
          if \<not> dirty \<or> err \<noteq> None then Some (False, n, err)
          else
            reduce_full db (cs[i := nn]) prefix
        }
      | ValueNode v \<Rightarrow> Some (True, NilNode, None)
      | NilNode \<Rightarrow> Some (False, NilNode, None)
      | HashNode h \<Rightarrow> do {
          (rn, err) \<leftarrow> resolveHash db h prefix;
          if err \<noteq> None then Some (False, NilNode, err)
          else do {
            (dirty, nn, err) \<leftarrow> trie_delete db rn prefix key;
            Some (if \<not> dirty \<or> err \<noteq> None then (False, rn, err) else (True, nn, None))
          }
        })"

definition TryDelete :: "Trie \<Rightarrow> bytes \<Rightarrow> (Trie \<times> trie_error option) option" where
  "TryDelete t key =
     (let t = t\<lparr>tr_unhashed := tr_unhashed t + 1\<rparr>; k = keybytesToHex key in do {
        (_, n, err) \<leftarrow> trie_delete (tr_db t) (tr_root t) [] k;
        Some (if err \<noteq> None then (t, err) else (t\<lparr>tr_root := n\<rparr>, None))
      })"

definition TryUpdate :: "Trie \<Rightarrow> bytes \<Rightarrow> bytes \<Rightarrow> (Trie \<times> trie_error option) option" where
  "TryUpdate t key val =
     (let t = t\<lparr>tr_unhashed := tr_unhashed t + 1\<rparr>; k = keybytesToHex key in
      if length val \<noteq> 0 then do {
        (_, n, err) \<leftarrow> trie_insert (tr_db t) (tr_root t) [] k (ValueNode val);
        Some (if err \<noteq> None then (t, err) else (t\<lparr>tr_root := n\<rparr>, None))
      }
      else do {
        (_, n, err) \<leftarrow> trie_delete (tr_db t) (tr_root t) [] k;
        Some (if err \<noteq> None then (t, err) else (t\<lparr>tr_root := n\<rparr>, None))
      })"

text \<open>The wrappers that log an error instead of returning it, \<open>New\<close> on a database, and \<open>Reset\<close>.\<close>

definition trie_Get :: "Trie \<Rightarrow> bytes \<Rightarrow> (Trie \<times> bytes option) option" where
  "trie_Get t key = do { (t, res, err) \<leftarrow> TryGet t key; Some (t, res) }"

definition trie_Update :: "Trie \<Rightarrow> bytes \<Rightarrow> bytes \<Rightarrow> Trie option" where
  "trie_Update t key val = do { (t, err) \<leftarrow> TryUpdate t key val; Some t }"

definition trie_Delete :: "Trie \<Rightarrow> bytes \<Rightarrow> Trie option" where
  "trie_Delete t key = do { (t, err) \<leftarrow> TryDelete t key; Some t }"

definition trie_New :: "hash \<Rightarrow> node_db \<Rightarrow> (trie_error + Trie) option" where
  "trie_New root db =
     (let trie = \<lparr>tr_db = db, tr_root = NilNode, tr_unhashed = 0\<rparr> in
      if root \<noteq> 0 \<and> root \<noteq> emptyRoot then do {
        (rootnode, err) \<leftarrow> resolveHash db (hash_Bytes root) [];
        Some (case err of Some e \<Rightarrow> Inl e | None \<Rightarrow> Inr (trie\<lparr>tr_root := rootnode\<rparr>))
      }
      else Some (Inr trie))"

definition trie_Reset :: "Trie \<Rightarrow> Trie" where
  "trie_Reset t = t\<lparr>tr_root := NilNode, tr_unhashed := 0\<rparr>"

section \<open>The tree of a node\<close>

text \<open>\<open>ok h t\<close> says that the hash \<open>h\<close> may stand for the subtree \<open>t\<close>; the outermost node has a predicate of its own.\<close>

fun inner_node :: "trie_node \<Rightarrow> bool" where
  "inner_node (ShortNode k n flags) = True"
| "inner_node (FullNode cs flags) = True"
| "inner_node _ = False"

inductive expands :: "node_db \<Rightarrow> (bytes \<Rightarrow> tree \<Rightarrow> bool) \<Rightarrow> (bytes \<Rightarrow> tree \<Rightarrow> bool) \<Rightarrow> trie_node \<Rightarrow> tree \<Rightarrow> bool"
  for db ok where
  Nil: "expands db ok P NilNode Void"
| Value: "expands db ok P (ValueNode v) (Leaf v)"
| Short: "expands db ok P (ShortNode k n flags) (Ext k t)"
    if "expands db ok ok n t" "\<And>h. nf_hash flags = Some h \<Longrightarrow> P h (Ext k t)"
| Full: "expands db ok P (FullNode ns flags) (Branch ts)"
    if "list_all2 (expands db ok ok) ns ts" "\<And>h. nf_hash flags = Some h \<Longrightarrow> P h (Branch ts)"
| Hash: "expands db ok P (HashNode h) t"
    if "db (BytesToHash h) = Some (Some n)" "inner_node n" "P h t" "expands db ok P n t"

inductive_cases expands_NilE: "expands db ok P NilNode t"
inductive_cases expands_ValueE: "expands db ok P (ValueNode v) t"
inductive_cases expands_ShortE: "expands db ok P (ShortNode k n flags) t"
inductive_cases expands_FullE: "expands db ok P (FullNode ns flags) t"
inductive_cases expands_HashE: "expands db ok P (HashNode h) t"

lemma expands_inner: "expands db ok P n t \<Longrightarrow> inner_node n \<Longrightarrow> (\<exists>k s. t = Ext k s) \<or> (\<exists>ts. t = Branch ts)"
  by (erule expands.cases) auto

lemma expands_Empty: "expands db ok P n Void \<longleftrightarrow> n = NilNode"
  by (auto intro: expands.Nil elim: expands.cases dest: expands_inner)

lemma expands_Leaf: "expands db ok P n (Leaf v) \<longleftrightarrow> n = ValueNode v"
  by (auto intro: expands.Value elim: expands.cases dest: expands_inner)

lemma expands_nil: "expands db ok P NilNode t \<longleftrightarrow> t = Void"
  by (auto intro: expands.Nil elim: expands_NilE)

lemma expands_short_new: "expands db ok ok n t \<Longrightarrow> expands db ok P (ShortNode k n newFlag) (Ext k t)"
  by (rule expands.Short) (simp_all add: newFlag_def)

lemma expands_full_new: "list_all2 (expands db ok ok) ns ts \<Longrightarrow> expands db ok P (FullNode ns newFlag) (Branch ts)"
  by (rule expands.Full) (simp_all add: newFlag_def)

lemma expands_mono: "expands db ok P n t \<Longrightarrow> (\<And>h. P h t \<Longrightarrow> Q h t) \<Longrightarrow> expands db ok Q n t"
  by (induction rule: expands.induct) (auto intro: expands.intros elim: list_all2_mono)

section \<open>Lookup\<close>

text \<open>Where a node stands in a key: a value at its end, a node before it.\<close>

definition placed :: "tree \<Rightarrow> bytes \<Rightarrow> bool" where
  "placed t key \<longleftrightarrow> (if key = [] then val_slot t else slot t \<and> term_key key)"

lemma placed_Ext:
  assumes "placed (Ext k t) (k @ r)" "k @ r \<noteq> []"
  shows "placed t r"
proof -
  have *: "canon (Ext k t)" "term_key (k @ r)" using assms by (auto simp: placed_def)
  show ?thesis
  proof (cases "term_key k")
    case True
    then show ?thesis using * term_key_end [OF *(2) refl True] by (auto simp: placed_def)
  next
    case False
    then show ?thesis using * term_key_append [of k r] by (auto simp: placed_def)
  qed
qed

lemma placed_Branch:
  assumes "placed (Branch ts) key"
  obtains x r where "key = x # r" "unat x < 17" "length ts = 17" "placed (ts ! unat x) r" "term_key (x # r)"
proof -
  obtain x r where key: "key = x # r" using assms by (cases key) (auto simp: placed_def)
  have *: "canon (Branch ts)" "term_key (x # r)" using assms key by (auto simp: placed_def)
  then have "placed (ts ! unat x) r"
    by (cases rule: canon_branch_child) (auto simp: placed_def)
  then show ?thesis using that key * term_key_index [OF *(2)] by (auto simp: canon_Branch)
qed

lemma list_all2_update:
  "list_all2 P xs ys \<Longrightarrow> P x y \<Longrightarrow> list_all2 P (xs[i := x]) (ys[i := y])"
  by (rule list_all2_update_cong)

lemma tryGet_refines:
  "expands db ok P n t \<Longrightarrow> pos \<le> length key \<Longrightarrow> placed t (drop pos key) \<Longrightarrow>
   \<exists>n' did. tryGet db n key pos = Some (tget t (drop pos key), n', did, None) \<and> expands db ok P n' t"
proof (induction arbitrary: pos rule: expands.induct)
  case (Nil P)
  have "tryGet db NilNode key pos = Some (None, NilNode, False, None)" by (subst tryGet.simps) simp
  then show ?case using expands.Nil by auto
next
  case (Value P v)
  have "tryGet db (ValueNode v) key pos = Some (Some v, ValueNode v, False, None)" by (subst tryGet.simps) simp
  then show ?case using Value expands.Value by (auto simp: placed_def split: if_splits)
next
  case (Short n t flags P k)
  show ?case
  proof (cases "strip k (drop pos key)")
    case None
    then have "int (length key) - int pos < int (length k) \<or> k \<noteq> take (length k) (drop pos key)"
      by (metis append_take_drop_id strip_None)
    then have "tryGet db (ShortNode k n flags) key pos = Some (None, ShortNode k n flags, False, None)"
      by (subst tryGet.simps) simp
    then show ?thesis using None Short.hyps by (auto intro: expands.Short)
  next
    case (Some r)
    then have key: "drop pos key = k @ r" by (simp add: strip_iff)
    then have r: "drop (pos + length k) key = r" by (metis add.commute append_eq_conv_conj drop_drop)
    have len: "length key - pos = length k + length r" using arg_cong [OF key, of length] by simp
    have "k @ r \<noteq> []" using Short.prems(2) key by (auto simp: placed_def split: if_splits)
    then have "placed t r" using placed_Ext Short.prems(2) key by metis
    moreover have "pos + length k \<le> length key" using len Short.prems(1) by simp
    ultimately obtain n' did where ih: "tryGet db n key (pos + length k) = Some (tget t r, n', did, None)" "expands db ok ok n' t"
      using Short.IH [of "pos + length k"] unfolding r by blast
    have "tryGet db (ShortNode k n flags) key pos = Some (tget t r, if did then ShortNode k n' flags else ShortNode k n flags, did, None)"
      using ih(1) key len Short.prems(1) by (subst tryGet.simps) (auto simp: of_nat_diff [symmetric])
    then show ?thesis using Some ih(2) Short.hyps by (auto intro: expands.Short)
  qed
next
  case (Full ns ts flags P)
  have all: "list_all2 (expands db ok ok) ns ts" using Full.IH by (auto elim: list_all2_mono)
  obtain x r where key: "drop pos key = x # r" "unat x < 17" "length ts = 17" "placed (ts ! unat x) r"
    using placed_Branch [OF Full.prems(2)] by metis
  then have "pos < length key" using not_less [of pos "length key"] by force
  then have pos: "pos < length key" "key ! pos = x" "drop (pos + 1) key = r" using key(1) by (auto simp: Cons_nth_drop_Suc [symmetric])
  have len: "length ns = 17" using list_all2_lengthD [OF all] key(3) by simp
  have "\<exists>n' did. tryGet db (ns ! unat x) key (pos + 1) = Some (tget (ts ! unat x) r, n', did, None) \<and> expands db ok ok n' (ts ! unat x)"
    using list_all2_nthD [OF Full.IH, of "unat x"] len key(2,4) pos(1,3) by (metis Suc_eq_plus1 Suc_leI)
  then obtain n' did where
    ih: "tryGet db (ns ! unat x) key (pos + 1) = Some (tget (ts ! unat x) r, n', did, None)" "expands db ok ok n' (ts ! unat x)" by blast
  have "tryGet db (FullNode ns flags) key pos = Some (tget (ts ! unat x) r, if did then FullNode (ns[unat x := n']) flags else FullNode ns flags, did, None)"
    using ih(1) pos len key(2) by (subst tryGet.simps) (simp add: child_index_def)
  moreover have "expands db ok P (FullNode (ns[unat x := n']) flags) (Branch ts)"
    using list_all2_update [OF all ih(2), of "unat x"] Full.hyps by (auto intro: expands.Full)
  ultimately show ?case using Full.hyps all key by (auto intro: expands.Full)
next
  case (Hash h n P t)
  then obtain n' did where "tryGet db n key pos = Some (tget t (drop pos key), n', did, None)" "expands db ok P n' t" by blast
  moreover from this have "tryGet db (HashNode h) key pos = Some (tget t (drop pos key), n', True, None)"
    using Hash.hyps by (subst tryGet.simps) (simp add: resolveHash_def)
  ultimately show ?case by blast
qed

section \<open>Insertion\<close>

text \<open>What an update returns for a node that stands for \<open>t\<close>, where the tree is to become \<open>t'\<close>: no error, and either a new
  node without cached hash or, without a change, the node loaded.\<close>

definition updated ::
  "node_db \<Rightarrow> (bytes \<Rightarrow> tree \<Rightarrow> bool) \<Rightarrow> (bytes \<Rightarrow> tree \<Rightarrow> bool) \<Rightarrow> tree \<Rightarrow> tree \<Rightarrow> (bool \<times> trie_node \<times> trie_error option) option \<Rightarrow> bool" where
  "updated db ok P t t' res \<longleftrightarrow>
     (case res of
        Some (dirty, n, None) \<Rightarrow>
          if dirty then (\<forall>h. n \<noteq> HashNode h) \<and> (\<forall>Q. expands db ok Q n t') else t' = t \<and> expands db ok P n t
      | _ \<Rightarrow> False)"

lemma updated_dirty: "(\<And>Q. expands db ok Q n t') \<Longrightarrow> \<forall>h. n \<noteq> HashNode h \<Longrightarrow> updated db ok P t t' (Some (True, n, None))"
  by (simp add: updated_def)

lemma updatedE:
  assumes "updated db ok P t t' res"
  obtains (dirty) n where "res = Some (True, n, None)" "\<And>Q. expands db ok Q n t'" "\<And>h. n \<noteq> HashNode h"
  | (clean) n where "res = Some (False, n, None)" "t' = t" "expands db ok P n t"
  using assms by (auto simp: updated_def split: if_splits option.splits)

lemma insert_nil: "trie_insert db NilNode prefix key val = Some (True, if key = [] then val else ShortNode key val newFlag, None)"
  by (subst trie_insert.simps) simp

lemma insert_value:
  assumes "val_slot t" "expands db ok P n t"
  shows "updated db ok P t (Leaf v) (trie_insert db n prefix [] (ValueNode v))"
proof (cases t)
  case Void
  then show ?thesis using assms(2) by (simp add: expands_Empty insert_nil updated_def expands.Value)
next
  case (Leaf w)
  then show ?thesis using assms(2)
    by (subst trie_insert.simps) (auto simp: expands_Leaf updated_def expands.Value)
qed (use assms(1) in auto)

lemma insert_extends:
  assumes "key \<noteq> []" "prefixLen key k = length k" "n = ShortNode k m flags" "expands db ok P n (Ext k t)"
    and "updated db ok ok t t' (trie_insert db m (prefix @ take (length k) key) (drop (length k) key) val)"
  shows "updated db ok P (Ext k t) (Ext k t') (trie_insert db n prefix key val)"
  using assms(5)
proof (cases rule: updatedE)
  case (dirty nn)
  then have "trie_insert db n prefix key val = Some (True, ShortNode k nn newFlag, None)"
    using assms(1-3) by (subst trie_insert.simps) simp
  then show ?thesis using dirty(2) by (auto intro!: updated_dirty expands_short_new)
next
  case (clean nn)
  then have "trie_insert db n prefix key val = Some (False, n, None)"
    using assms(1-3) by (subst trie_insert.simps) simp
  then show ?thesis using clean(2) assms(4) by (simp add: updated_def)
qed

text \<open>The tree of a node put at the end of a key.\<close>

lemma expands_ext: "expands db ok ok m t \<Longrightarrow> expands db ok ok (if k = [] then m else ShortNode k m newFlag) (ext k t)"
  by (simp add: ext_def expands_short_new)

lemma insert_parts:
  assumes "key = p @ x # a" "k = p @ y # b" "x \<noteq> y" "prefixLen key k = length p" "unat x < 17" "unat y < 17"
    and "expands db ok ok m t"
  shows "updated db ok P (Ext k t) (ext p (fork y (ext b t) x (ext a (Leaf v)))) (trie_insert db (ShortNode k m flags) prefix key (ValueNode v))"
proof -
  define branch where "branch = FullNode ((replicate 17 NilNode)
    [unat y := if b = [] then m else ShortNode b m newFlag, unat x := if a = [] then ValueNode v else ShortNode a (ValueNode v) newFlag]) newFlag"
  have res: "trie_insert db (ShortNode k m flags) prefix key (ValueNode v) =
      Some (True, if p = [] then branch else ShortNode p branch newFlag, None)"
    using assms(1-6) by (subst trie_insert.simps) (simp add: child_index_def insert_nil branch_def)
  have "expands db ok Q branch (fork y (ext b t) x (ext a (Leaf v)))" for Q
    unfolding branch_def fork_def
    by (intro expands_full_new list_all2_update_cong expands_ext assms(7) expands.Value)
      (simp add: list_all2_conv_all_nth expands.Nil)
  then show ?thesis unfolding res ext_def [of p] by (auto intro!: updated_dirty expands_short_new simp: branch_def)
qed

lemma insert_full:
  assumes "unat x < length ns" "list_all2 (expands db ok ok) ns ts" "n = FullNode ns flags" "expands db ok P n (Branch ts)"
    and "updated db ok ok (ts ! unat x) t' (trie_insert db (ns ! unat x) (prefix @ [x]) r val)"
  shows "updated db ok P (Branch ts) (Branch (ts[unat x := t'])) (trie_insert db n prefix (x # r) val)"
  using assms(5)
proof (cases rule: updatedE)
  case (dirty nn)
  then have "trie_insert db n prefix (x # r) val = Some (True, FullNode (ns[unat x := nn]) newFlag, None)"
    using assms(1,3) by (subst trie_insert.simps) (simp add: child_index_def)
  then show ?thesis using dirty(2) assms(2) by (auto intro!: updated_dirty expands_full_new list_all2_update_cong)
next
  case (clean nn)
  then have "trie_insert db n prefix (x # r) val = Some (False, n, None)"
    using assms(1,3) by (subst trie_insert.simps) (simp add: child_index_def)
  then show ?thesis using clean(2) assms(4) by (simp add: updated_def)
qed

lemma insert_refines:
  "expands db ok P n t \<Longrightarrow> placed t key \<Longrightarrow> updated db ok P t (tins t key (Leaf v)) (trie_insert db n prefix key (ValueNode v))"
proof (induction arbitrary: prefix key rule: expands.induct)
  case (Nil P)
  then show ?case by (cases key) (auto simp: insert_nil intro!: updated_dirty expands_short_new expands.Value)
next
  case (Value P w)
  then have "key = []" by (auto simp: placed_def split: if_splits)
  then show ?case using insert_value [of "Leaf w"] Value by (simp add: placed_def expands.Value)
next
  case (Short m t flags P k)
  have n: "expands db ok P (ShortNode k m flags) (Ext k t)" using Short.hyps by (rule expands.Short)
  have key: "canon (Ext k t)" "term_key key" using Short.prems by (auto simp: placed_def split: if_splits)
  note ne = term_key_not_Nil [OF key(2)]
  show ?case
  proof (cases key k rule: prefixLen_cases)
    case (extends r)
    have "placed t r" using placed_Ext Short.prems extends(1) ne by metis
    then have "updated db ok ok t (tins t r (Leaf v)) (trie_insert db m (prefix @ take (length k) key) r (ValueNode v))" by (rule Short.IH)
    then show ?thesis using insert_extends [OF ne extends(2) refl n] tins_Ext(1) [OF ne extends(2)] extends(1) by simp
  next
    case (shorter x b)
    then show ?thesis using term_key_shorter [OF key(2)] key(1) by metis
  next
    case (parts p x a y b)
    have "term_key (x # a)" using key(2) parts(1) term_key_nib term_key_append by metis
    then have "unat x < 17" by (rule term_key_index)
    moreover have "unat y < 17" using canon_ext(4) key(1) parts(2) by metis
    ultimately show ?thesis using insert_parts [OF parts _ _ Short.hyps(1)] tins_Ext(2) [OF ne parts(1,2,4)] by simp
  qed
next
  case (Full ns ts flags P)
  have all: "list_all2 (expands db ok ok) ns ts" using Full.IH by (auto elim: list_all2_mono)
  have n: "expands db ok P (FullNode ns flags) (Branch ts)" using all Full.hyps by (rule expands.Full)
  obtain x r where key: "key = x # r" "unat x < 17" "length ts = 17" "placed (ts ! unat x) r"
    using placed_Branch [OF Full.prems] by metis
  have len: "length ns = 17" using list_all2_lengthD [OF all] key(3) by simp
  have "updated db ok ok (ts ! unat x) (tins (ts ! unat x) r (Leaf v)) (trie_insert db (ns ! unat x) (prefix @ [x]) r (ValueNode v))"
    using list_all2_nthD [OF Full.IH, of "unat x"] len key(2,4) by simp
  then show ?case using insert_full [OF _ all refl n] key len by simp
next
  case (Hash h n P t)
  have ne: "key \<noteq> []" using expands_inner [OF Hash.hyps(4,2)] Hash.prems by (auto simp: placed_def)
  from Hash.IH [OF Hash.prems, of prefix] show ?case
  proof (cases rule: updatedE)
    case (dirty nn)
    have "trie_insert db (HashNode h) prefix key (ValueNode v) = Some (True, nn, None)"
      using dirty(1) Hash.hyps(1) ne by (subst trie_insert.simps) (simp add: resolveHash_def)
    then show ?thesis using dirty by (simp add: updated_def)
  next
    case (clean nn)
    have "trie_insert db (HashNode h) prefix key (ValueNode v) = Some (False, n, None)"
      using clean(1) Hash.hyps(1) ne by (subst trie_insert.simps) (simp add: resolveHash_def)
    then show ?thesis using clean(2) Hash.hyps(4) by (simp add: updated_def)
  qed
qed

section \<open>Deletion\<close>

lemma only_loop_rel:
  "list_all2 (\<lambda>a b. f a = g b) cs ts \<Longrightarrow> only_loop f i pos cs = only_loop g i pos ts"
  by (induction cs ts arbitrary: i pos rule: list_all2_induct) auto

lemma nil_iff_Empty: "expands db ok P n t \<Longrightarrow> n = NilNode \<longleftrightarrow> t = Void"
  using expands_Empty expands_nil by metis

lemma expands_not_Ext:
  "expands db ok P n t \<Longrightarrow> \<forall>h. n \<noteq> HashNode h \<Longrightarrow> \<forall>k m f. n \<noteq> ShortNode k m f \<Longrightarrow> join k t = Ext k t"
  by (erule expands.cases) (auto simp: join_def)

lemma resolve_refines:
  assumes "expands db ok P n t"
  obtains c where "resolve db n prefix = Some (c, None)" "expands db ok P c t" "\<forall>h. c \<noteq> HashNode h"
proof (cases n)
  case (HashNode h)
  then obtain m where "db (BytesToHash h) = Some (Some m)" "inner_node m" "expands db ok P m t" using assms by (auto elim: expands_HashE)
  moreover from this have "\<forall>h. m \<noteq> HashNode h" by auto
  ultimately show ?thesis using that [of m] HashNode by (simp add: resolve_def resolveHash_def)
qed (use that [of n] assms in \<open>auto simp: resolve_def\<close>)

lemma expands_join:
  assumes "expands db ok ok c t" "\<forall>h. c \<noteq> HashNode h"
  shows "expands db ok P (case c of ShortNode ckey cval cflags \<Rightarrow> ShortNode (k @ ckey) cval newFlag | _ \<Rightarrow> ShortNode k c newFlag) (join k t)"
proof (cases c)
  case (ShortNode ckey cval cflags)
  then obtain s where "t = Ext ckey s" "expands db ok ok cval s" using assms(1) by (auto elim: expands_ShortE)
  then show ?thesis using ShortNode by (simp add: join_def expands_short_new)
qed (use assms expands_not_Ext [OF assms, of k] expands_short_new [OF assms(1)] in auto)

lemma reduce_full_refines:
  assumes "list_all2 (expands db ok ok) cs ts" "length ts = 17" "val_slot (ts ! 16)"
  shows "updated db ok P t (collapse ts) (reduce_full db cs prefix)"
proof -
  define pos where "pos = only_loop (\<lambda>t. t \<noteq> Void) 0 (-1) ts"
  have "list_all2 (\<lambda>n t. (n \<noteq> NilNode) = (t \<noteq> Void)) cs ts" using assms(1) by (rule list_all2_mono) (simp add: nil_iff_Empty)
  then have pos: "only_loop (\<lambda>cld. cld \<noteq> NilNode) 0 (-1) cs = pos" unfolding pos_def by (rule only_loop_rel)
  show ?thesis
  proof (cases "pos \<ge> 0")
    case True
    then obtain p where p: "pos = int p" using nonneg_int_cases by blast
    then have "p < 17" using only_loop_iff [of "\<lambda>t. t \<noteq> Void" ts p] assms(2) pos_def by simp
    then have sub: "expands db ok ok (cs ! p) (ts ! p)" using list_all2_nthD2 [OF assms(1)] assms(2) by simp
    have col: "collapse ts = join [of_nat p] (ts ! p)" using p pos_def by (simp add: collapse_def)
    show ?thesis
    proof (cases "p = 16")
      case True
      then have "join [of_nat p] (ts ! p) = Ext [of_nat p] (ts ! p)" using assms(3) by (cases "ts ! 16") (auto simp: join_def)
      then show ?thesis unfolding col reduce_full_def pos p
        using True sub by (auto intro!: updated_dirty expands_short_new)
    next
      case False
      obtain c where c: "resolve db (cs ! p) prefix = Some (c, None)" "expands db ok ok c (ts ! p)" "\<forall>h. c \<noteq> HashNode h"
        using resolve_refines [OF sub] .
      show ?thesis
      proof (cases "\<exists>k m f. c = ShortNode k m f")
        case True
        then have "reduce_full db cs prefix = Some (True, case c of ShortNode ckey cval cflags \<Rightarrow> ShortNode ([of_nat p] @ ckey) cval newFlag
            | _ \<Rightarrow> ShortNode [of_nat p] c newFlag, None)"
          using False c(1) by (auto simp: reduce_full_def pos p)
        then show ?thesis using expands_join [OF c(2,3)] True unfolding col by (auto intro!: updated_dirty)
      next
        case no: False
        then have "reduce_full db cs prefix = Some (True, ShortNode [of_nat p] (cs ! p) newFlag, None)"
          using False c(1) by (auto simp: reduce_full_def Let_def pos p split: trie_node.splits)
        then show ?thesis using expands_not_Ext [OF c(2,3)] no sub unfolding col by (auto intro!: updated_dirty expands_short_new)
      qed
    qed
  next
    case False
    then have "collapse ts = Branch ts" by (simp add: collapse_def pos_def)
    then show ?thesis using False pos assms(1) by (auto simp: reduce_full_def intro!: updated_dirty expands_full_new)
  qed
qed

lemma delete_extends:
  assumes "key = k @ r" "r \<noteq> []" "prefixLen key k = length k" "n = ShortNode k m flags" "expands db ok P n (Ext k t)" "is_Branch t"
    and "updated db ok ok t t' (trie_delete db m (prefix @ k) r)"
  shows "updated db ok P (Ext k t) (join k t') (trie_delete db n prefix key)"
  using assms(7)
proof (cases rule: updatedE)
  case (dirty c)
  then have "trie_delete db n prefix key =
      Some (True, case c of ShortNode ckey cval cflags \<Rightarrow> ShortNode (k @ ckey) cval newFlag | _ \<Rightarrow> ShortNode k c newFlag, None)"
    using assms(1-4) by (subst trie_delete.simps) (auto split: trie_node.splits)
  then show ?thesis using expands_join [OF dirty(2)] dirty(3) by (auto intro!: updated_dirty split: trie_node.splits)
next
  case (clean c)
  then have "trie_delete db n prefix key = Some (False, n, None)"
    using assms(1-4) by (subst trie_delete.simps) simp
  moreover have "join k t = Ext k t" using assms(6) by (cases t) (auto simp: join_def)
  ultimately show ?thesis using clean(2) assms(5) by (simp add: updated_def)
qed

lemma delete_full:
  assumes "unat x < 17" "length ts = 17" "list_all2 (expands db ok ok) ns ts" "n = FullNode ns flags" "expands db ok P n (Branch ts)"
    and "two ts" "val_slot (ts[unat x := t'] ! 16)"
    and "updated db ok ok (ts ! unat x) t' (trie_delete db (ns ! unat x) (prefix @ [x]) r)"
  shows "updated db ok P (Branch ts) (collapse (ts[unat x := t'])) (trie_delete db n prefix (x # r))"
proof -
  have len: "length ns = 17" using list_all2_lengthD [OF assms(3)] assms(2) by simp
  from assms(8) show ?thesis
  proof (cases rule: updatedE)
    case (dirty nn)
    then have "trie_delete db n prefix (x # r) = reduce_full db (ns[unat x := nn]) prefix"
      using assms(1,4) len by (subst trie_delete.simps) (simp add: child_index_def)
    then show ?thesis using dirty(2) assms(2,3,7) by (auto intro!: reduce_full_refines list_all2_update_cong)
  next
    case (clean nn)
    then have "trie_delete db n prefix (x # r) = Some (False, n, None)"
      using assms(1,4) len by (subst trie_delete.simps) (simp add: child_index_def)
    then show ?thesis using clean(2) assms(5,6) by (simp add: updated_def collapse_two)
  qed
qed

lemma tdel_value_slot: "val_slot t \<Longrightarrow> tdel t key = Void"
  by (cases t) auto

lemma delete_refines:
  "expands db ok P n t \<Longrightarrow> placed t key \<Longrightarrow> updated db ok P t (tdel t key) (trie_delete db n prefix key)"
proof (induction arbitrary: prefix key rule: expands.induct)
  case (Nil P)
  then show ?case by (subst trie_delete.simps) (simp add: updated_def expands.Nil)
next
  case (Value P w)
  then show ?case by (subst trie_delete.simps) (simp add: updated_def expands.Nil)
next
  case (Short m t flags P k)
  have n: "expands db ok P (ShortNode k m flags) (Ext k t)" using Short.hyps by (rule expands.Short)
  have key: "canon (Ext k t)" "term_key key" using Short.prems by (auto simp: placed_def split: if_splits)
  show ?case
  proof (cases key k rule: prefixLen_cases)
    case (extends r)
    show ?thesis
    proof (cases "r = []")
      case True
      then show ?thesis using extends tdel_Ext(2) [of k t]
        by (subst trie_delete.simps) (simp add: updated_def expands.Nil del: tdel.simps)
    next
      case False
      then have "is_Branch t" using key extends(1) term_key_end [of key k r] by (auto split: if_splits)
      moreover have "placed t r" using placed_Ext [of k t r] Short.prems extends(1) False by simp
      ultimately show ?thesis
        using delete_extends [OF extends(1) False extends(2) refl n _ Short.IH] tdel_Ext(3) [OF False, of k t] extends by simp
    qed
  next
    case (shorter x b)
    then show ?thesis using term_key_shorter [OF key(2)] key(1) by metis
  next
    case (parts p x a y b)
    then have "prefixLen key k < length k" by simp
    then show ?thesis using tdel_Ext(1) [of key k t] n by (subst trie_delete.simps) (simp add: updated_def del: tdel.simps)
  qed
next
  case (Full ns ts flags P)
  have all: "list_all2 (expands db ok ok) ns ts" using Full.IH by (auto elim: list_all2_mono)
  have n: "expands db ok P (FullNode ns flags) (Branch ts)" using all Full.hyps by (rule expands.Full)
  obtain x r where key: "key = x # r" "unat x < 17" "length ts = 17" "placed (ts ! unat x) r" "term_key (x # r)"
    using placed_Branch [OF Full.prems] by metis
  have wf: "canon (Branch ts)" using Full.prems by (auto simp: placed_def split: if_splits)
  have len: "length ns = 17" using list_all2_lengthD [OF all] key(3) by simp
  have "updated db ok ok (ts ! unat x) (tdel (ts ! unat x) r) (trie_delete db (ns ! unat x) (prefix @ [x]) r)"
    using list_all2_nthD [OF Full.IH, of "unat x"] len key(2,4) by simp
  moreover have "val_slot (ts[unat x := tdel (ts ! unat x) r] ! 16)"
    using wf tdel_value_slot [of "ts ! 16" r] key(3) by (cases "unat x = 16") (auto simp: canon_Branch)
  ultimately show ?case using delete_full [OF key(2,3) all refl n] wf key by (simp add: canon_Branch)
next
  case (Hash h n P t)
  from Hash.IH [OF Hash.prems, of prefix] show ?case
  proof (cases rule: updatedE)
    case (dirty nn)
    have "trie_delete db (HashNode h) prefix key = Some (True, nn, None)"
      using dirty(1) Hash.hyps(1) by (subst trie_delete.simps) (simp add: resolveHash_def)
    then show ?thesis using dirty by (simp add: updated_def)
  next
    case (clean nn)
    have "trie_delete db (HashNode h) prefix key = Some (False, n, None)"
      using clean(1) Hash.hyps(1) by (subst trie_delete.simps) (simp add: resolveHash_def)
    then show ?thesis using clean(2) Hash.hyps(4) by (simp add: updated_def)
  qed
qed

section \<open>The trie as a map\<close>

text \<open>What a key-value store promises: it answers as a map does, and an update with an empty value deletes.\<close>

locale kv_store =
  fixes rep :: "'s \<Rightarrow> (bytes \<Rightarrow> bytes option) \<Rightarrow> bool"
    and get :: "'s \<Rightarrow> bytes \<Rightarrow> ('s \<times> bytes option \<times> 'e option) option"
    and update :: "'s \<Rightarrow> bytes \<Rightarrow> bytes \<Rightarrow> ('s \<times> 'e option) option"
    and delete :: "'s \<Rightarrow> bytes \<Rightarrow> ('s \<times> 'e option) option"
  assumes get_law: "rep s c \<Longrightarrow> \<exists>s'. get s k = Some (s', c k, None) \<and> rep s' c"
    and update_law: "rep s c \<Longrightarrow> \<exists>s'. update s k v = Some (s', None) \<and> rep s' (c(k := if v = [] then None else Some v))"
    and delete_law: "rep s c \<Longrightarrow> \<exists>s'. delete s k = Some (s', None) \<and> rep s' (c(k := None))"

datatype kv_op = OpGet bytes | OpUpdate bytes bytes | OpDelete bytes

fun kv_run ::
  "('s \<Rightarrow> bytes \<Rightarrow> ('s \<times> bytes option \<times> 'e option) option) \<Rightarrow> ('s \<Rightarrow> bytes \<Rightarrow> bytes \<Rightarrow> ('s \<times> 'e option) option) \<Rightarrow>
   ('s \<Rightarrow> bytes \<Rightarrow> ('s \<times> 'e option) option) \<Rightarrow> 's \<Rightarrow> kv_op list \<Rightarrow> ('s \<times> (bytes option \<times> 'e option) list) option" where
  "kv_run get update delete s [] = Some (s, [])"
| "kv_run get update delete s (OpGet k # ops) =
     do { (s, v, err) \<leftarrow> get s k; (s, outs) \<leftarrow> kv_run get update delete s ops; Some (s, (v, err) # outs) }"
| "kv_run get update delete s (OpUpdate k v # ops) =
     do { (s, err) \<leftarrow> update s k v; (s, outs) \<leftarrow> kv_run get update delete s ops; Some (s, (None, err) # outs) }"
| "kv_run get update delete s (OpDelete k # ops) =
     do { (s, err) \<leftarrow> delete s k; (s, outs) \<leftarrow> kv_run get update delete s ops; Some (s, (None, err) # outs) }"

text \<open>The same operations on a map: what it becomes and what is read.\<close>

fun map_run :: "(bytes \<Rightarrow> bytes option) \<Rightarrow> kv_op list \<Rightarrow> (bytes \<Rightarrow> bytes option)" where
  "map_run c [] = c"
| "map_run c (OpGet k # ops) = map_run c ops"
| "map_run c (OpUpdate k v # ops) = map_run (c(k := if v = [] then None else Some v)) ops"
| "map_run c (OpDelete k # ops) = map_run (c(k := None)) ops"

fun map_outs :: "(bytes \<Rightarrow> bytes option) \<Rightarrow> kv_op list \<Rightarrow> (bytes option \<times> 'e option) list" where
  "map_outs c [] = []"
| "map_outs c (OpGet k # ops) = (c k, None) # map_outs c ops"
| "map_outs c (OpUpdate k v # ops) = (None, None) # map_outs (c(k := if v = [] then None else Some v)) ops"
| "map_outs c (OpDelete k # ops) = (None, None) # map_outs (c(k := None)) ops"

context kv_store
begin

lemma run_as_map:
  "rep s c \<Longrightarrow> \<exists>s'. kv_run get update delete s ops = Some (s', map_outs c ops) \<and> rep s' (map_run c ops)"
proof (induction ops arbitrary: s c)
  case (Cons op ops)
  show ?case
  proof (cases op)
    case (OpGet k)
    obtain s1 where s1: "get s k = Some (s1, c k, None)" "rep s1 c" using get_law [OF Cons.prems] by blast
    obtain s' where "kv_run get update delete s1 ops = Some (s', map_outs c ops)" "rep s' (map_run c ops)"
      using Cons.IH [OF s1(2)] by blast
    then show ?thesis using s1(1) OpGet by simp
  next
    case (OpUpdate k v)
    define c1 where "c1 = c(k := if v = [] then None else Some v)"
    obtain s1 where s1: "update s k v = Some (s1, None)" "rep s1 c1" using update_law [OF Cons.prems] c1_def by blast
    obtain s' where "kv_run get update delete s1 ops = Some (s', map_outs c1 ops)" "rep s' (map_run c1 ops)"
      using Cons.IH [OF s1(2)] by blast
    then show ?thesis using s1(1) OpUpdate by (simp flip: c1_def)
  next
    case (OpDelete k)
    obtain s1 where s1: "delete s k = Some (s1, None)" "rep s1 (c(k := None))" using delete_law [OF Cons.prems] by blast
    obtain s' where "kv_run get update delete s1 ops = Some (s', map_outs (c(k := None)) ops)" "rep s' (map_run (c(k := None)) ops)"
      using Cons.IH [OF s1(2)] by blast
    then show ?thesis using s1(1) OpDelete by simp
  qed
qed simp

end

text \<open>A trie stands for a canonical tree whose keys are those of byte strings.\<close>

definition byte_keys :: "tree \<Rightarrow> bool" where
  "byte_keys tr \<longleftrightarrow> (\<forall>k. term_key k \<longrightarrow> tget tr k \<noteq> None \<longrightarrow> (\<exists>b. k = keybytesToHex b))"

definition content :: "tree \<Rightarrow> bytes \<Rightarrow> bytes option" where
  "content tr = (\<lambda>k. tget tr (keybytesToHex k))"

definition trie_rep :: "(bytes \<Rightarrow> tree \<Rightarrow> bool) \<Rightarrow> (bytes \<Rightarrow> tree \<Rightarrow> bool) \<Rightarrow> Trie \<Rightarrow> tree \<Rightarrow> bool" where
  "trie_rep ok P t tr \<longleftrightarrow> expands (tr_db t) ok P (tr_root t) tr \<and> slot tr \<and> byte_keys tr"

lemma placed_root: "slot tr \<Longrightarrow> placed tr (keybytesToHex k)"
  using keybytes_term [of k] term_key_not_Nil [OF keybytes_term [of k]] by (simp add: placed_def)

lemma keybytes_eq [simp]: "keybytesToHex a = keybytesToHex b \<longleftrightarrow> a = b"
  using keybytes_inj by blast

lemma updated_root: "updated db ok P t t' res \<Longrightarrow> \<exists>d n. res = Some (d, n, None) \<and> expands db ok P n t'"
  by (erule updatedE) auto

lemma TryGet_rep:
  assumes "trie_rep ok P t tr"
  shows "\<exists>t'. TryGet t k = Some (t', content tr k, None) \<and> trie_rep ok P t' tr"
proof -
  obtain n did where "tryGet (tr_db t) (tr_root t) (keybytesToHex k) 0 = Some (content tr k, n, did, None)"
    "expands (tr_db t) ok P n tr"
    using tryGet_refines [of "tr_db t" ok P "tr_root t" tr 0 "keybytesToHex k"] placed_root [of tr k] assms
    unfolding trie_rep_def content_def drop_0 by blast
  then show ?thesis using assms by (cases did) (auto simp: TryGet_def trie_rep_def)
qed

lemma byte_keys_update:
  assumes "byte_keys tr" "\<And>k. term_key k \<Longrightarrow> tget tr' k = (if k = keybytesToHex b then v else tget tr k)"
  shows "byte_keys tr'"
proof -
  have "\<exists>b'. k = keybytesToHex b'" if "term_key k" "tget tr' k \<noteq> None" for k
    by (cases "k = keybytesToHex b") (use that assms in \<open>auto simp: byte_keys_def\<close>)
  then show ?thesis by (simp add: byte_keys_def)
qed

lemma insert_rep:
  fixes k :: bytes
  assumes "trie_rep ok P t tr" "v \<noteq> []"
  defines "tr' \<equiv> tins tr (keybytesToHex k) (Leaf v)"
  shows "slot tr'" "byte_keys tr'" "content tr' = (content tr)(k := Some v)"
    "\<exists>d n. trie_insert (tr_db t) (tr_root t) prefix (keybytesToHex k) (ValueNode v) = Some (d, n, None) \<and> expands (tr_db t) ok P n tr'"
proof -
  have tr: "slot tr" "byte_keys tr" "expands (tr_db t) ok P (tr_root t) tr" using assms(1) by (auto simp: trie_rep_def)
  note ins = tins_correct [OF tr(1) keybytes_term [of k] assms(2), folded tr'_def]
  show "slot tr'" using ins by blast
  show "byte_keys tr'" using ins by (intro byte_keys_update [OF tr(2)]) blast
  show "content tr' = (content tr)(k := Some v)" using ins keybytes_term by (auto simp: content_def fun_eq_iff)
  show "\<exists>d n. trie_insert (tr_db t) (tr_root t) prefix (keybytesToHex k) (ValueNode v) = Some (d, n, None) \<and> expands (tr_db t) ok P n tr'"
    unfolding tr'_def by (rule updated_root [OF insert_refines [OF tr(3) placed_root [OF tr(1)]]])
qed

lemma delete_rep:
  fixes k :: bytes
  assumes "trie_rep ok P t tr"
  defines "tr' \<equiv> tdel tr (keybytesToHex k)"
  shows "slot tr'" "byte_keys tr'" "content tr' = (content tr)(k := None)"
    "\<exists>d n. trie_delete (tr_db t) (tr_root t) prefix (keybytesToHex k) = Some (d, n, None) \<and> expands (tr_db t) ok P n tr'"
proof -
  have tr: "slot tr" "byte_keys tr" "expands (tr_db t) ok P (tr_root t) tr" using assms(1) by (auto simp: trie_rep_def)
  note del = tdel_correct [OF tr(1) keybytes_term [of k], folded tr'_def]
  show "slot tr'" using del by blast
  show "byte_keys tr'" using del by (intro byte_keys_update [OF tr(2)]) blast
  show "content tr' = (content tr)(k := None)" using del keybytes_term by (auto simp: content_def fun_eq_iff)
  show "\<exists>d n. trie_delete (tr_db t) (tr_root t) prefix (keybytesToHex k) = Some (d, n, None) \<and> expands (tr_db t) ok P n tr'"
    unfolding tr'_def by (rule updated_root [OF delete_refines [OF tr(3) placed_root [OF tr(1)]]])
qed

definition trie_map :: "(bytes \<Rightarrow> tree \<Rightarrow> bool) \<Rightarrow> (bytes \<Rightarrow> tree \<Rightarrow> bool) \<Rightarrow> node_db \<Rightarrow> Trie \<Rightarrow> (bytes \<Rightarrow> bytes option) \<Rightarrow> bool" where
  "trie_map ok P db t c \<longleftrightarrow> (\<exists>tr. trie_rep ok P t tr \<and> content tr = c) \<and> tr_db t = db"

interpretation mpt: kv_store "trie_map ok P db" TryGet TryUpdate TryDelete for ok P db
proof
  fix s c k v
  assume "trie_map ok P db s c"
  then obtain tr where tr: "trie_rep ok P s tr" "content tr = c" "tr_db s = db" by (auto simp: trie_map_def)
  have same: "tr_db s' = db" if "TryGet s k = Some (s', x)" for s' x
    using that tr(3) by (auto simp: TryGet_def split: bind_splits if_splits)
  show "\<exists>s'. TryGet s k = Some (s', c k, None) \<and> trie_map ok P db s' c"
    using TryGet_rep [OF tr(1), of k] tr(2) same unfolding trie_map_def by blast
  define s1 where "s1 = s\<lparr>tr_unhashed := tr_unhashed s + 1\<rparr>"
  have s1: "trie_rep ok P s1 tr" "tr_db s1 = tr_db s" "tr_root s1 = tr_root s" using tr(1) by (auto simp: trie_rep_def s1_def)
  obtain d n where del: "trie_delete (tr_db s1) (tr_root s1) [] (keybytesToHex k) = Some (d, n, None)"
    "expands (tr_db s1) ok P n (tdel tr (keybytesToHex k))" using delete_rep(4) [OF s1(1)] by blast
  have rep: "trie_map ok P db (s1\<lparr>tr_root := n\<rparr>) (c(k := None))"
    using delete_rep(1-3) [OF s1(1), of k] del(2) tr(2,3) s1(2) by (auto simp: trie_map_def trie_rep_def)
  then show "\<exists>s'. TryDelete s k = Some (s', None) \<and> trie_map ok P db s' (c(k := None))"
    using del(1) by (simp add: TryDelete_def Let_def s1_def)
  show "\<exists>s'. TryUpdate s k v = Some (s', None) \<and> trie_map ok P db s' (c(k := if v = [] then None else Some v))"
  proof (cases "v = []")
    case True
    then show ?thesis using rep del(1) by (simp add: TryUpdate_def Let_def s1_def)
  next
    case False
    obtain d n where ins: "trie_insert (tr_db s1) (tr_root s1) [] (keybytesToHex k) (ValueNode v) = Some (d, n, None)"
      "expands (tr_db s1) ok P n (tins tr (keybytesToHex k) (Leaf v))" using insert_rep(4) [OF s1(1) False] by blast
    have "trie_map ok P db (s1\<lparr>tr_root := n\<rparr>) (c(k := Some v))"
      using insert_rep(1-3) [OF s1(1) False, of k] ins(2) tr(2,3) s1(2) by (auto simp: trie_map_def trie_rep_def)
    then show ?thesis using ins(1) False by (simp add: TryUpdate_def Let_def s1_def)
  qed
qed

text \<open>C2: a trie is a map. From any state of a trie, with nodes loaded or still in the database, any sequence of lookups,
  updates and deletions returns from every call without an error or a panic, each lookup returns what the map holds at
  that point (an update with an empty value is a deletion), and the trie that results stands for the map that results, in
  canonical form and with a correct hash in every node that keeps one.\<close>

theorem trie_is_map:
  assumes "trie_map ok P db t c"
  shows "\<exists>t'. kv_run TryGet TryUpdate TryDelete t ops = Some (t', map_outs c ops) \<and> trie_map ok P db t' (map_run c ops)"
  using assms by (rule mpt.run_as_map)

text \<open>A trie whose only node is still in the database.\<close>

definition stored_db :: node_db where
  "stored_db = (\<lambda>h. if h = 1 then Some (Some (ShortNode (keybytesToHex [5]) (ValueNode [7]) \<lparr>nf_hash = Some [1], nf_dirty = False\<rparr>)) else Some None)"

lemma stored_trie_map:
  "trie_map (\<lambda>_ _. True) (\<lambda>_ _. True) stored_db \<lparr>tr_db = stored_db, tr_root = HashNode [1], tr_unhashed = 0\<rparr> [[5] \<mapsto> [7]]"
proof -
  define tr where "tr = Ext (keybytesToHex [5]) (Leaf [7])"
  have "expands stored_db (\<lambda>_ _. True) (\<lambda>_ _. True) (ShortNode (keybytesToHex [5]) (ValueNode [7]) \<lparr>nf_hash = Some [1], nf_dirty = False\<rparr>) tr"
    unfolding tr_def by (intro expands.intros) simp_all
  then have "expands stored_db (\<lambda>_ _. True) (\<lambda>_ _. True) (HashNode [1]) tr"
    by (rule expands.Hash [rotated 3]) (simp_all add: stored_db_def BytesToHash_def be_nat_def)
  moreover have "canon tr" unfolding tr_def using keybytes_term by (rule canon_leaf) simp
  moreover have "byte_keys tr" by (auto simp: byte_keys_def tr_def tget_Leaf_end simp del: tget.simps(3))
  moreover have "content tr = [[5] \<mapsto> [7]]" by (auto simp: content_def tr_def tget_Leaf_end fun_eq_iff simp del: tget.simps(3))
  ultimately show ?thesis unfolding trie_map_def trie_rep_def by auto
qed

lemma trie_is_map_witness:
  "\<exists>t. kv_run TryGet TryUpdate TryDelete \<lparr>tr_db = stored_db, tr_root = HashNode [1], tr_unhashed = 0\<rparr>
     [OpUpdate [5, 1] [8], OpGet [5], OpUpdate [5] [], OpGet [5], OpGet [5, 1]] =
     Some (t, [(None, None), (Some [7], None), (None, None), (None, None), (Some [8], None)])"
  using trie_is_map [OF stored_trie_map, of "[OpUpdate [5, 1] [8], OpGet [5], OpUpdate [5] [], OpGet [5], OpGet [5, 1]]"] by auto

end
