(* ===== verification/TrieHash.thy ===== *)
theory TrieHash
  imports Trie RlpRaw StateUndo
begin

text \<open>
  The root hash of a trie (\<open>trie/hasher.go\<close>): nodes are collapsed bottom up, a node whose encoding has 32 bytes or more
  is replaced by its hash, and hashes once computed are kept in the nodes. \<open>H\<close> is the Keccak-256 hash. The parallel
  mode hashes the sixteen children in goroutines that write disjoint elements, with the result of the loop.
\<close>

section \<open>Hashing\<close>

text \<open>What the encoder sees of a node: flags are not encoded, and \<open>EncodeRLP\<close> of a full node writes a nil child as an
  empty string.\<close>

fun node_value :: "trie_node \<Rightarrow> rlp_value" where
  "node_value NilNode = VRaw [0xC0]"
| "node_value (ValueNode v) = VBytes v"
| "node_value (HashNode h) = VBytes h"
| "node_value (ShortNode k n flags) = VList [VBytes k, node_value n]"
| "node_value (FullNode cs flags) = VList (map (\<lambda>c. if c \<noteq> NilNode then node_value c else VBytes []) cs)"

definition hashData :: "(bytes \<Rightarrow> bytes) \<Rightarrow> bytes \<Rightarrow> trie_node" where
  "hashData H data = HashNode (H data)"

text \<open>\<open>shortnodeToHash\<close> and \<open>fullnodeToHash\<close>.\<close>

definition nodeToHash :: "(bytes \<Rightarrow> bytes) \<Rightarrow> trie_node \<Rightarrow> bool \<Rightarrow> trie_node option" where
  "nodeToHash H n force =
     (case Encode (node_value n) of
        Inr (Some tmp) \<Rightarrow> if length tmp < 32 \<and> \<not> force then Some n else Some (hashData H tmp)
      | _ \<Rightarrow> None)"

fun hash_of_node :: "trie_node \<Rightarrow> bytes option" where
  "hash_of_node (HashNode h) = Some h"
| "hash_of_node _ = None"

fun hasher_hash :: "(bytes \<Rightarrow> bytes) \<Rightarrow> bool \<Rightarrow> trie_node \<Rightarrow> (trie_node \<times> trie_node) option"
  and hashShortNodeChildren :: "(bytes \<Rightarrow> bytes) \<Rightarrow> bytes \<Rightarrow> trie_node \<Rightarrow> nodeFlag \<Rightarrow> (trie_node \<times> trie_node) option"
  and hashFullNodeChildren :: "(bytes \<Rightarrow> bytes) \<Rightarrow> nat \<Rightarrow> trie_node list \<Rightarrow> (trie_node list \<times> trie_node list) option" where
  "hasher_hash H force (ShortNode k n flags) =
     (case nf_hash flags of
        Some hash \<Rightarrow> Some (HashNode hash, ShortNode k n flags)
      | None \<Rightarrow> do {
          (collapsed, val) \<leftarrow> hashShortNodeChildren H k n flags;
          hashed \<leftarrow> nodeToHash H collapsed force;
          Some (hashed, ShortNode k val (flags\<lparr>nf_hash := hash_of_node hashed\<rparr>))
        })"
| "hasher_hash H force (FullNode cs flags) =
     (case nf_hash flags of
        Some hash \<Rightarrow> Some (HashNode hash, FullNode cs flags)
      | None \<Rightarrow> do {
          (collapsed, cached) \<leftarrow> hashFullNodeChildren H 16 cs;
          hashed \<leftarrow> nodeToHash H (FullNode collapsed flags) force;
          Some (hashed, FullNode cached (flags\<lparr>nf_hash := hash_of_node hashed\<rparr>))
        })"
| "hasher_hash H force NilNode = None"
| "hasher_hash H force n = Some (n, n)"
| "hashShortNodeChildren H k n flags = do {
     key \<leftarrow> hexToCompact k;
     (collapsed, cached) \<leftarrow> (if inner_node n then hasher_hash H False n else Some (n, n));
     Some (ShortNode key collapsed flags, cached)
   }"
| "hashFullNodeChildren H 0 cs = Some (cs, cs)"
| "hashFullNodeChildren H (Suc i) [] = Some ([], [])"
| "hashFullNodeChildren H (Suc i) (child # cs) = do {
     (collapsed, cached) \<leftarrow> (if child \<noteq> NilNode then hasher_hash H False child else Some (ValueNode [], NilNode));
     (cs1, cs2) \<leftarrow> hashFullNodeChildren H i cs;
     Some (collapsed # cs1, cached # cs2)
   }"

definition hashRoot :: "(bytes \<Rightarrow> bytes) \<Rightarrow> Trie \<Rightarrow> (Trie \<times> trie_node \<times> trie_node) option" where
  "hashRoot H t =
     (if tr_root t = NilNode then Some (t, HashNode (hash_Bytes emptyRoot), NilNode)
      else do {
        (hashed, cached) \<leftarrow> hasher_hash H True (tr_root t);
        Some (t\<lparr>tr_unhashed := 0\<rparr>, hashed, cached)
      })"

definition trie_Hash :: "(bytes \<Rightarrow> bytes) \<Rightarrow> Trie \<Rightarrow> (Trie \<times> hash) option" where
  "trie_Hash H t = do {
     (t, hash, cached) \<leftarrow> hashRoot H t;
     h \<leftarrow> hash_of_node hash;
     Some (t\<lparr>tr_root := cached\<rparr>, BytesToHash h)
   }"

section \<open>The hash of a tree\<close>

definition shrink :: "(bytes \<Rightarrow> bytes) \<Rightarrow> item \<Rightarrow> item" where
  "shrink H x = (case x of Str b \<Rightarrow> x | Lst xs \<Rightarrow> if length (rlp_enc x) < 32 then x else Str (H (rlp_enc x)))"

definition compact_key :: "bytes \<Rightarrow> bytes" where
  "compact_key k = (case hexToCompact k of Some c \<Rightarrow> c | None \<Rightarrow> [])"

fun titem :: "(bytes \<Rightarrow> bytes) \<Rightarrow> tree \<Rightarrow> item" where
  "titem H Void = Str []"
| "titem H (Leaf v) = Str v"
| "titem H (Ext k t) = Lst [Str (compact_key k), shrink H (titem H t)]"
| "titem H (Branch ts) = Lst (map (\<lambda>t. shrink H (titem H t)) ts)"

abbreviation node_enc :: "(bytes \<Rightarrow> bytes) \<Rightarrow> tree \<Rightarrow> bytes" where
  "node_enc H t \<equiv> rlp_enc (titem H t)"

definition root_hash :: "(bytes \<Rightarrow> bytes) \<Rightarrow> tree \<Rightarrow> hash" where
  "root_hash H t = (if t = Void then emptyRoot else BytesToHash (H (node_enc H t)))"

text \<open>A hash kept in a node is that of its encoding, which below the root has 32 bytes or more.\<close>

definition stands :: "(bytes \<Rightarrow> bytes) \<Rightarrow> bool \<Rightarrow> bytes \<Rightarrow> tree \<Rightarrow> bool" where
  "stands H root h t \<longleftrightarrow> h = H (node_enc H t) \<and> (root \<or> 32 \<le> length (node_enc H t))"

fun small :: "tree \<Rightarrow> bool" where
  "small Void = True"
| "small (Leaf v) = (length v < 2 ^ 32)"
| "small (Ext k t) = (length k < 2 ^ 32 \<and> small t)"
| "small (Branch ts) = (\<forall>t \<in> set ts. small t)"

fun item_value :: "item \<Rightarrow> rlp_value" where
  "item_value (Str b) = VBytes b"
| "item_value (Lst xs) = VList (map item_value xs)"

lemma value_enc_item [simp]: "value_enc (item_value x) = rlp_enc x"
  by (induction x) (simp_all add: Let_def comp_def cong: map_cong)

lemma value_ok_item [simp]: "value_ok (item_value x)"
  by (induction x) simp_all

lemma Encode_item: "length (rlp_enc x) < 2 ^ 64 \<Longrightarrow> Encode (item_value x) = Inr (Some (rlp_enc x))"
  by (simp add: Encode_def value_simps)

section \<open>Sizes\<close>

lemma enc_head_le: "n < 2 ^ 64 \<Longrightarrow> length (enc_head tag n) \<le> 9"
  using nat_bytes_length_uint64 [of n] by (auto simp: enc_head_def)

lemma enc_str_le: "length b < 2 ^ 64 \<Longrightarrow> length (enc_str b) \<le> length b + 9"
  using enc_head_le [where n = "length b" and tag = "0x80"] by (auto simp: enc_str_def)

lemma length_concat_le: "\<forall>x \<in> set xs. length (f x) \<le> B \<Longrightarrow> length (concat (map f xs)) \<le> length xs * B"
  by (induction xs) auto

lemma term_key_iff: "term_key k \<longleftrightarrow> (\<exists>ns. nib_key ns \<and> k = ns @ [16])"
proof
  show "term_key k \<Longrightarrow> \<exists>ns. nib_key ns \<and> k = ns @ [16]"
  proof (induction k)
    case (Cons x k)
    then consider "x = 16" "k = []" | ns where "x < 16" "nib_key ns" "k = ns @ [16]" by auto
    then show ?case
    proof cases
      case 2
      then show ?thesis by (intro exI [of _ "x # ns"]) (simp add: nib_key_def)
    qed (simp add: nib_key_def)
  qed simp
qed (auto simp: term_key_append)

lemma canon_Ext_key:
  assumes "canon (Ext k t)"
  obtains ns where "\<forall>x \<in> set ns. x < 16" "k = ns @ (if term_key k then [16] else [])"
proof (cases "term_key k")
  case True
  then obtain ns where "nib_key ns" "k = ns @ [16]" by (auto simp: term_key_iff)
  then show ?thesis using that [of ns] True by (simp add: nib_key_def)
next
  case False
  then show ?thesis using that [of k] assms by (simp add: nib_key_def)
qed

lemma compact_key_facts:
  assumes "canon (Ext k t)"
  shows "hexToCompact k = Some (compact_key k)" "compactToHex (compact_key k) = k" "length (compact_key k) \<le> length k + 1"
proof -
  obtain ns where ns: "\<forall>x \<in> set ns. x < 16" "k = ns @ (if term_key k then [16] else [])" using assms by (rule canon_Ext_key)
  have c: "hexToCompact k = Some (compact_of (term_key k) ns)" using hexToCompact_eq [OF ns(1), of "term_key k"] ns(2) by simp
  then have ck: "compact_key k = compact_of (term_key k) ns" by (simp add: compact_key_def)
  with c show "hexToCompact k = Some (compact_key k)" by simp
  show "compactToHex (compact_key k) = k" using compactToHex_eq [OF ns(1), of "term_key k"] ck ns(2) by simp
  have "length ns \<le> length k" using arg_cong [OF ns(2), of length] by simp
  then show "length (compact_key k) \<le> length k + 1" by (auto simp: ck compact_of_def)
qed

lemma titem_canon: "canon t \<Longrightarrow> \<exists>xs. titem H t = Lst xs"
  by (cases t) auto

lemma shrink_canon: "canon t \<Longrightarrow> shrink H (titem H t) = (if length (node_enc H t) < 32 then titem H t else Str (H (node_enc H t)))"
  using titem_canon [of t H] by (auto simp: shrink_def)

lemma ref_le:
  assumes "\<And>x. length (H x) = 32" "slot t \<or> val_slot t" "small t"
  shows "length (rlp_enc (shrink H (titem H t))) \<le> 2 ^ 32 + 41"
proof (cases "canon t")
  case True
  then show ?thesis using enc_str_le [of "H (node_enc H t)"] assms(1) by (simp add: shrink_canon)
next
  case False
  then consider "t = Void" | v where "t = Leaf v" "length v < 2 ^ 32" using assms(2,3) by (cases t) auto
  then show ?thesis
  proof cases
    case 2
    then show ?thesis using enc_str_le [of v] by (simp add: shrink_def)
  qed (simp add: shrink_def enc_str_def enc_head_def)
qed

lemma node_enc_less:
  assumes "\<And>x. length (H x) = 32" "canon t" "small t"
  shows "length (node_enc H t) < 2 ^ 64"
proof -
  have list: "length (rlp_enc (Lst xs)) < 2 ^ 64" if "length (concat (map rlp_enc xs)) < 2 ^ 40" for xs
    using that enc_head_le [where n = "length (concat (map rlp_enc xs))" and tag = "0xC0"] by (simp add: Let_def)
  show ?thesis
  proof (cases t)
    case (Ext k s)
    have "slot s \<or> val_slot s" "small s" "length k < 2 ^ 32" using assms(2,3) Ext by (auto split: if_splits)
    then have "length (rlp_enc (shrink H (titem H s))) \<le> 2 ^ 32 + 41" using ref_le assms(1) by blast
    moreover have "length (enc_str (compact_key k)) \<le> 2 ^ 32 + 10"
      using compact_key_facts(3) [OF assms(2) [unfolded Ext]] enc_str_le [of "compact_key k"] \<open>length k < 2 ^ 32\<close> by simp
    ultimately show ?thesis unfolding Ext titem.simps by (intro list) simp
  next
    case (Branch ts)
    have sub: "(slot s \<or> val_slot s) \<and> small s" if "s \<in> set ts" for s
    proof -
      obtain i where "i < 17" "s = ts ! i" using \<open>s \<in> set ts\<close> assms(2) Branch by (auto simp: in_set_conv_nth canon_Branch)
      then show ?thesis using assms(2,3) Branch that less_Suc_eq [of i 16] by (auto simp: canon_Branch)
    qed
    have "length (concat (map (\<lambda>s. rlp_enc (shrink H (titem H s))) ts)) \<le> length ts * (2 ^ 32 + 41)"
      by (rule length_concat_le) (use ref_le assms(1) sub in blast)
    then show ?thesis unfolding Branch titem.simps using assms(2) Branch by (intro list) (simp add: canon_Branch comp_def)
  qed (use assms(2) in auto)
qed

section \<open>The hasher computes the hash of the tree\<close>

lemma nodeToHash_eq:
  assumes "node_value n = item_value (titem H t)" "length (node_enc H t) < 2 ^ 64"
  shows "nodeToHash H n force = Some (if length (node_enc H t) < 32 \<and> \<not> force then n else HashNode (H (node_enc H t)))"
  using assms Encode_item [of "titem H t"] by (simp add: nodeToHash_def hashData_def)

text \<open>What hashing a node returns: the collapsed node, and the node with the hashes.\<close>

definition hashes :: "(bytes \<Rightarrow> bytes) \<Rightarrow> node_db \<Rightarrow> bool \<Rightarrow> tree \<Rightarrow> (trie_node \<times> trie_node) option \<Rightarrow> bool" where
  "hashes H db force t res \<longleftrightarrow>
     (case res of
        Some (hashed, cached) \<Rightarrow>
          expands db (stands H False) (stands H force) cached t \<and>
          node_value hashed = item_value (if force then Str (H (node_enc H t)) else shrink H (titem H t)) \<and>
          (force \<longrightarrow> hashed = HashNode (H (node_enc H t))) \<and> hashed \<noteq> NilNode
      | None \<Rightarrow> False)"

lemma hashes_HashNode:
  "canon t \<Longrightarrow> stands H force h t \<Longrightarrow> expands db (stands H False) (stands H force) n t \<Longrightarrow> hashes H db force t (Some (HashNode h, n))"
  by (auto simp: hashes_def stands_def shrink_canon)

lemma hashes_built:
  assumes "canon t" "length (node_enc H t) < 2 ^ 64" "node_value n = item_value (titem H t)" "n \<noteq> NilNode" "\<And>h. n \<noteq> HashNode h"
    and "\<And>f. (\<And>h. nf_hash f = Some h \<Longrightarrow> stands H force h t) \<Longrightarrow> expands db (stands H False) (stands H force) (mk f) t"
  shows "\<exists>hashed. nodeToHash H n force = Some hashed \<and>
    hashes H db force t (Some (hashed, mk (flags\<lparr>nf_hash := hash_of_node hashed\<rparr>)))"
proof (cases "length (node_enc H t) < 32 \<and> \<not> force")
  case True
  have none: "hash_of_node n = None" using assms(5) by (cases n) auto
  have "expands db (stands H False) (stands H force) (mk (flags\<lparr>nf_hash := None\<rparr>)) t" by (rule assms(6)) simp
  then show ?thesis using True none assms(1,3,4) nodeToHash_eq [OF assms(3,2), of force]
    by (intro exI [of _ n]) (simp add: hashes_def shrink_canon)
next
  case False
  have "expands db (stands H False) (stands H force) (mk (flags\<lparr>nf_hash := Some (H (node_enc H t))\<rparr>)) t"
    by (rule assms(6)) (use False in \<open>auto simp: stands_def\<close>)
  then show ?thesis using False assms(1) nodeToHash_eq [OF assms(3,2), of force]
    by (intro exI [of _ "HashNode (H (node_enc H t))"]) (auto simp: hashes_def shrink_canon)
qed

text \<open>A child of a node: a value or nil as it is, another by its own hash.\<close>

definition kid_hashes :: "(bytes \<Rightarrow> bytes) \<Rightarrow> node_db \<Rightarrow> tree \<Rightarrow> trie_node \<times> trie_node \<Rightarrow> bool" where
  "kid_hashes H db t p \<longleftrightarrow>
     expands db (stands H False) (stands H False) (snd p) t \<and>
     (if fst p = NilNode then VBytes [] else node_value (fst p)) = item_value (shrink H (titem H t))"

lemma kid_hashes_node: "hashes H db False t (Some p) \<Longrightarrow> kid_hashes H db t p"
  by (cases p) (auto simp: hashes_def kid_hashes_def)

lemma kid_hashes_value: "val_slot t \<Longrightarrow> expands db (stands H False) (stands H False) n t \<Longrightarrow> kid_hashes H db t (n, n)"
  by (cases t) (auto simp: kid_hashes_def expands_Empty expands_Leaf expands.Nil expands.Value shrink_def)

lemma kid_hashes_nil: "kid_hashes H db Void (ValueNode [], NilNode)"
  by (simp add: kid_hashes_def expands.Nil shrink_def)

lemma hashFull_kids:
  assumes "list_all2 (\<lambda>n t. expands db (stands H False) (stands H False) n t \<and> (canon t \<longrightarrow> hashes H db False t (hasher_hash H False n))) ns ts"
    and "\<forall>j < length ts. if j < i then slot (ts ! j) else val_slot (ts ! j)"
  shows "\<exists>cs1 cs2. hashFullNodeChildren H i ns = Some (cs1, cs2) \<and> length cs1 = length ts \<and> length cs2 = length ts \<and>
    (\<forall>j < length ts. kid_hashes H db (ts ! j) (cs1 ! j, cs2 ! j))"
  using assms
proof (induction ns ts arbitrary: i rule: list_all2_induct)
  case Nil
  then show ?case by (cases i) auto
next
  case (Cons n ns t ts)
  show ?case
  proof (cases i)
    case 0
    have "kid_hashes H db ((t # ts) ! j) ((n # ns) ! j, (n # ns) ! j)" if "j < length (t # ts)" for j
    proof (rule kid_hashes_value)
      show "val_slot ((t # ts) ! j)" using Cons.prems that 0 by simp
      show "expands db (stands H False) (stands H False) ((n # ns) ! j) ((t # ts) ! j)"
        using Cons.hyps that by (cases j) (auto dest: list_all2_nthD2)
    qed
    then show ?thesis using 0 list_all2_lengthD [OF Cons.hyps(2)] by simp
  next
    case (Suc i')
    have "\<exists>p. (if n \<noteq> NilNode then hasher_hash H False n else Some (ValueNode [], NilNode)) = Some p \<and> kid_hashes H db t p"
    proof (cases "n = NilNode")
      case True
      then show ?thesis using Cons.hyps(1) kid_hashes_nil by (auto simp: expands_nil)
    next
      case False
      then have "canon t" using Cons.prems Cons.hyps(1) Suc by (force simp: expands_Empty)
      then show ?thesis using Cons.hyps(1) False kid_hashes_node by (cases "hasher_hash H False n") (auto simp: hashes_def)
    qed
    then obtain p where p: "(if n \<noteq> NilNode then hasher_hash H False n else Some (ValueNode [], NilNode)) = Some p" "kid_hashes H db t p" by blast
    have "\<forall>j < length ts. if j < i' then slot (ts ! j) else val_slot (ts ! j)"
      using Cons.prems Suc by (metis Suc_less_eq length_Cons nth_Cons_Suc)
    then obtain cs1 cs2 where ih: "hashFullNodeChildren H i' ns = Some (cs1, cs2)" "length cs1 = length ts" "length cs2 = length ts"
      "\<forall>j < length ts. kid_hashes H db (ts ! j) (cs1 ! j, cs2 ! j)" using Cons.IH by blast
    have "hashFullNodeChildren H i (n # ns) = Some (fst p # cs1, snd p # cs2)"
      using p(1) ih(1) Suc by (cases p) simp
    then show ?thesis using ih p(2) by (simp add: all_less_Suc)
  qed
qed

lemma hash_short:
  assumes "expands db (stands H False) (stands H False) m s" "nf_hash flags = None" "canon (Ext k s)"
    and "length (node_enc H (Ext k s)) < 2 ^ 64" "canon s \<longrightarrow> hashes H db False s (hasher_hash H False m)"
  shows "hashes H db force (Ext k s) (hasher_hash H force (ShortNode k m flags))"
proof -
  note key = compact_key_facts(1) [OF assms(3)]
  have "\<exists>p. (if inner_node m then hasher_hash H False m else Some (m, m)) = Some p \<and> kid_hashes H db s p \<and> fst p \<noteq> NilNode"
  proof (cases "canon s")
    case True
    then have "\<exists>p. hasher_hash H False m = Some p \<and> kid_hashes H db s p \<and> fst p \<noteq> NilNode"
      using assms(5) kid_hashes_node by (cases "hasher_hash H False m") (auto simp: hashes_def)
    moreover have "hasher_hash H False m = Some (m, m)" if "\<not> inner_node m"
      using that True assms(1) by (cases m) (auto simp: expands_nil elim: expands_ValueE)
    ultimately show ?thesis by (cases "inner_node m") auto
  next
    case False
    then obtain v where "s = Leaf v" using assms(3) by (cases s) (auto split: if_splits)
    then show ?thesis using assms(1) kid_hashes_value [of s db H m] assms(3) by (auto simp: expands_Leaf split: if_splits)
  qed
  then obtain p where p: "(if inner_node m then hasher_hash H False m else Some (m, m)) = Some p" "kid_hashes H db s p" "fst p \<noteq> NilNode" by blast
  then have val: "node_value (ShortNode (compact_key k) (fst p) flags) = item_value (titem H (Ext k s))"
    by (simp add: kid_hashes_def)
  obtain hashed where "nodeToHash H (ShortNode (compact_key k) (fst p) flags) force = Some hashed"
    "hashes H db force (Ext k s) (Some (hashed, ShortNode k (snd p) (flags\<lparr>nf_hash := hash_of_node hashed\<rparr>)))"
    using hashes_built [OF assms(3,4) val, where mk = "ShortNode k (snd p)" and force = force and db = db and flags = flags] p(2)
    by (auto simp: kid_hashes_def intro: expands.Short)
  then show ?thesis using assms(2) p(1) key by (cases p) (simp split: if_splits)
qed

lemma hash_full:
  assumes "list_all2 (\<lambda>n t. expands db (stands H False) (stands H False) n t \<and> (canon t \<longrightarrow> hashes H db False t (hasher_hash H False n))) ns ts"
    and "nf_hash flags = None" "canon (Branch ts)" "length (node_enc H (Branch ts)) < 2 ^ 64"
  shows "hashes H db force (Branch ts) (hasher_hash H force (FullNode ns flags))"
proof -
  have "\<forall>j < length ts. if j < 16 then slot (ts ! j) else val_slot (ts ! j)"
    using assms(3) less_Suc_eq [of _ 16] by (auto simp: canon_Branch)
  then obtain cs1 cs2 where kids: "hashFullNodeChildren H 16 ns = Some (cs1, cs2)" "length cs1 = length ts" "length cs2 = length ts"
    "\<forall>j < length ts. kid_hashes H db (ts ! j) (cs1 ! j, cs2 ! j)" using hashFull_kids [OF assms(1)] by blast
  have val: "node_value (FullNode cs1 flags) = item_value (titem H (Branch ts))"
    using kids(2,4) by (auto simp: kid_hashes_def list_eq_iff_nth_eq)
  have "list_all2 (expands db (stands H False) (stands H False)) cs2 ts"
    using kids(3,4) by (simp add: kid_hashes_def list_all2_conv_all_nth)
  then obtain hashed where "nodeToHash H (FullNode cs1 flags) force = Some hashed"
    "hashes H db force (Branch ts) (Some (hashed, FullNode cs2 (flags\<lparr>nf_hash := hash_of_node hashed\<rparr>)))"
    using hashes_built [OF assms(3,4) val, where mk = "FullNode cs2" and force = force and db = db and flags = flags]
    by (auto intro: expands.Full)
  then show ?thesis using assms(2) kids(1) by simp
qed

lemma hash_refines:
  assumes H: "\<And>x. length (H x) = 32"
  shows "expands db ok P n t \<Longrightarrow> ok = stands H False \<Longrightarrow> P = stands H force \<Longrightarrow> canon t \<Longrightarrow> small t \<Longrightarrow>
    hashes H db force t (hasher_hash H force n)"
proof (induction arbitrary: force rule: expands.induct)
  case (Short m s flags P k)
  note enc = node_enc_less [OF H Short.prems(3,4)]
  have n: "expands db ok P (ShortNode k m flags) (Ext k s)" using Short.hyps by (rule expands.Short)
  show ?case
  proof (cases "nf_hash flags")
    case None
    have "canon s \<longrightarrow> hashes H db False s (hasher_hash H False m)" using Short.IH Short.prems by simp
    then show ?thesis using hash_short [OF _ None Short.prems(3) enc] Short.hyps(1) Short.prems(1) by simp
  next
    case (Some h)
    then show ?thesis using hashes_HashNode [OF Short.prems(3)] Short.hyps(2) Short.prems(1,2) n by simp
  qed
next
  case (Full ns ts flags P)
  note enc = node_enc_less [OF H Full.prems(3,4)]
  have all: "list_all2 (expands db ok ok) ns ts" using Full.IH by (auto elim: list_all2_mono)
  have n: "expands db ok P (FullNode ns flags) (Branch ts)" using all Full.hyps by (rule expands.Full)
  show ?case
  proof (cases "nf_hash flags")
    case None
    have "list_all2 (\<lambda>n t. expands db (stands H False) (stands H False) n t \<and> (canon t \<longrightarrow> hashes H db False t (hasher_hash H False n))) ns ts"
      using Full.IH Full.prems by (auto simp: list_all2_conv_all_nth)
    then show ?thesis using hash_full [OF _ None Full.prems(3) enc] by simp
  next
    case (Some h)
    then show ?thesis using hashes_HashNode [OF Full.prems(3)] Full.hyps Full.prems(1,2) n by simp
  qed
next
  case (Hash h n P t)
  then show ?case using hashes_HashNode [of t H force h db "HashNode h"] expands.Hash [of db h n P t ok] by simp
qed simp_all

lemma trie_Hash_rep:
  assumes "\<And>x. length (H x) = 32" "trie_rep (stands H False) (stands H True) t tr" "small tr"
  shows "\<exists>t'. trie_Hash H t = Some (t', root_hash H tr) \<and> trie_rep (stands H False) (stands H True) t' tr \<and> tr_db t' = tr_db t"
proof (cases "tr = Void")
  case True
  then show ?thesis using assms(2) by (auto simp: trie_rep_def expands_Empty trie_Hash_def hashRoot_def root_hash_def)
next
  case False
  then have root: "tr_root t \<noteq> NilNode" "canon tr" using assms(2) by (auto simp: trie_rep_def expands_nil)
  have "hashes H (tr_db t) True tr (hasher_hash H True (tr_root t))"
    using hash_refines [OF assms(1) _ refl refl root(2) assms(3)] assms(2) by (simp add: trie_rep_def)
  then show ?thesis using root(1) False assms(2)
    by (auto simp: hashes_def trie_Hash_def hashRoot_def root_hash_def trie_rep_def split: option.splits)
qed

section \<open>The hash determines the tree\<close>

lemma rlp_enc_unique:
  "rlp_enc x @ r = rlp_enc y @ s \<Longrightarrow> length (rlp_enc x @ r) < 2 ^ 64 \<Longrightarrow> x = y \<and> r = s"
proof (induction x arbitrary: y r s)
  case (Str b)
  have "Split (rlp_enc (Str b) @ r) = Inr (item_kind (Str b), b, r)"
    using Str.prems(2) by (subst Split_iff) (use rlp_enc_kind [of "Str b"] in simp_all)
  moreover have "Split (rlp_enc (Str b) @ r) = Inr (item_kind y, item_content y, s)"
    using Str.prems by (subst Split_iff) (use rlp_enc_kind [of y] in simp_all)
  ultimately show ?case by (cases y) (auto split: if_splits)
next
  case (Lst xs)
  have "Split (rlp_enc (Lst xs) @ r) = Inr (List, concat (map rlp_enc xs), r)"
    using Lst.prems(2) by (subst Split_iff) (use rlp_enc_kind [of "Lst xs"] in simp_all)
  moreover have "Split (rlp_enc (Lst xs) @ r) = Inr (item_kind y, item_content y, s)"
    using Lst.prems by (subst Split_iff) (use rlp_enc_kind [of y] in simp_all)
  ultimately obtain ys where y: "y = Lst ys" "concat (map rlp_enc xs) = concat (map rlp_enc ys)" "r = s"
    by (cases y) (auto split: if_splits)
  have len: "length (concat (map rlp_enc xs)) < 2 ^ 64" using Lst.prems(2) by (simp add: Let_def)
  have ne: "rlp_enc z \<noteq> []" for z using rlp_enc_kind [of z] kind_enc_neq_Nil by metis
  have "us = vs" if "set us \<subseteq> set xs" "concat (map rlp_enc us) = concat (map rlp_enc vs)" "length (concat (map rlp_enc us)) < 2 ^ 64" for us vs
    using that
  proof (induction us arbitrary: vs)
    case Nil
    then show ?case using ne by (cases vs) auto
  next
    case (Cons u us)
    then obtain v vs' where vs: "vs = v # vs'" using ne [of u] by (cases vs) auto
    have "u = v \<and> concat (map rlp_enc us) = concat (map rlp_enc vs')"
      using Lst.IH [of u "concat (map rlp_enc us)" v "concat (map rlp_enc vs')"] Cons.prems vs by simp
    then show ?case using Cons.IH [of vs'] Cons.prems vs by simp
  qed
  then show ?case using y len by blast
qed

fun subs :: "tree \<Rightarrow> tree set" where
  "subs Void = {Void}"
| "subs (Leaf v) = {}"
| "subs (Ext k t) = insert (Ext k t) (subs t)"
| "subs (Branch ts) = insert (Branch ts) (\<Union> (subs ` set ts))"

text \<open>What is hashed for a tree: the encodings of its nodes.\<close>

definition encs :: "(bytes \<Rightarrow> bytes) \<Rightarrow> tree \<Rightarrow> bytes set" where
  "encs H t = node_enc H ` subs t"

lemma subs_refl: "slot t \<Longrightarrow> t \<in> subs t"
  by (cases t) auto

lemma titem_inj_ref:
  assumes H: "\<And>x. length (H x) = 32" and inj: "inj_on H (encs H s \<union> encs H t)" and "small s" "small t"
    and "shrink H (titem H s) = shrink H (titem H t)" and "slot s" "slot t"
    and eq: "canon s \<Longrightarrow> canon t \<Longrightarrow> titem H s = titem H t \<Longrightarrow> s = t"
  shows "s = t"
proof -
  have void: "u = Void" if "shrink H (titem H u) = Str []" "slot u" for u
    using that H [of "node_enc H u"] titem_canon [of u H] by (auto simp: shrink_canon split: if_splits)
  show ?thesis
  proof (cases "canon s \<and> canon t")
    case True
    then have *: "node_enc H s \<in> encs H s \<union> encs H t" "node_enc H t \<in> encs H s \<union> encs H t"
      using subs_refl by (auto simp: encs_def)
    have ns: "titem H s \<noteq> Str b" "titem H t \<noteq> Str b" for b using True titem_canon [of s H] titem_canon [of t H] by force+
    have "titem H s = titem H t \<or> H (node_enc H s) = H (node_enc H t)"
      using assms(5) [unfolded shrink_canon [OF conjunct1 [OF True]] shrink_canon [OF conjunct2 [OF True]]] ns
      by (metis item.inject(1))
    moreover have "length (node_enc H s) < 2 ^ 64" using node_enc_less [of H s, OF H] True assms(3) by blast
    ultimately have "titem H s = titem H t"
      using inj_onD [OF inj _ *] rlp_enc_unique [of "titem H s" "[]" "titem H t" "[]"] by auto
    then show ?thesis using eq True by blast
  next
    case False
    then show ?thesis using void [of s] void [of t] assms(5-7) by (auto simp: shrink_def)
  qed
qed

lemma shrink_val_inj: "val_slot s \<Longrightarrow> val_slot t \<Longrightarrow> shrink H (titem H s) = shrink H (titem H t) \<Longrightarrow> s = t"
  by (cases s; cases t) (auto simp: shrink_def)

lemma titem_inj:
  assumes H: "\<And>x. length (H x) = 32"
  shows "canon s \<Longrightarrow> canon t \<Longrightarrow> small s \<Longrightarrow> small t \<Longrightarrow> inj_on H (encs H s \<union> encs H t) \<Longrightarrow> titem H s = titem H t \<Longrightarrow> s = t"
proof (induction s arbitrary: t)
  case (Ext k s)
  obtain k' s' where t: "t = Ext k' s'" using Ext.prems(2,6) by (cases t) (auto simp: canon_Branch)
  have "compact_key k = compact_key k'" using Ext.prems(6) t by simp
  then have k: "k = k'" using compact_key_facts(2) Ext.prems(1,2) t by metis
  have ref: "shrink H (titem H s) = shrink H (titem H s')" using Ext.prems(6) t by simp
  have inj: "inj_on H (encs H s \<union> encs H s')"
    by (rule inj_on_subset [OF Ext.prems(5)]) (auto simp: t encs_def)
  show ?case
  proof (cases "term_key k")
    case True
    then show ?thesis using shrink_val_inj [OF _ _ ref] Ext.prems(1,2) t k by simp
  next
    case False
    then have "canon s" "canon s'" using Ext.prems(1,2) t k by simp_all
    then show ?thesis using titem_inj_ref [of H, OF H inj _ _ ref] Ext.IH [of s'] Ext.prems(3,4) t k inj by simp
  qed
next
  case (Branch ss)
  obtain ts where t: "t = Branch ts" using Branch.prems(1,2,6) by (cases t) (auto simp: canon_Branch)
  have len: "length ss = 17" "length ts = 17" using Branch.prems(1,2) t by (simp_all add: canon_Branch)
  have maps: "map (\<lambda>t. shrink H (titem H t)) ss = map (\<lambda>t. shrink H (titem H t)) ts" using Branch.prems(6) t by simp
  have "ss ! i = ts ! i" if i: "i < 17" for i
  proof -
    have mem: "ss ! i \<in> set ss" "ts ! i \<in> set ts" using i len by simp_all
    have ref: "shrink H (titem H (ss ! i)) = shrink H (titem H (ts ! i))"
      using maps i len by (metis nth_map)
    have inj: "inj_on H (encs H (ss ! i) \<union> encs H (ts ! i))"
      by (rule inj_on_subset [OF Branch.prems(5)]) (use mem in \<open>auto simp: t encs_def\<close>)
    have sm: "small (ss ! i)" "small (ts ! i)" using Branch.prems(3,4) mem t by auto
    show ?thesis
    proof (cases "i = 16")
      case True
      then show ?thesis using shrink_val_inj [OF _ _ ref] Branch.prems(1,2) t by (simp add: canon_Branch)
    next
      case False
      then have "slot (ss ! i)" "slot (ts ! i)" using Branch.prems(1,2) t i by (simp_all add: canon_Branch)
      then show ?thesis by (rule titem_inj_ref [of H, OF H inj sm ref]) (rule Branch.IH [OF mem(1) _ _ sm inj])
    qed
  qed
  then show ?case using t len by (simp add: list_eq_iff_nth_eq)
qed simp_all

lemma root_hash_inj:
  assumes H: "\<And>x. length (H x) = 32" and "BytesToHash (H [0x80]) = emptyRoot"
    and "slot s" "slot t" "small s" "small t" "inj_on H (encs H s \<union> encs H t)" "root_hash H s = root_hash H t"
  shows "s = t"
proof -
  have root: "root_hash H u = BytesToHash (H (node_enc H u))" for u
    using assms(2) by (simp add: root_hash_def enc_str_def enc_head_def)
  have "hash_Bytes (root_hash H u) = H (node_enc H u)" for u unfolding root by (rule hash_Bytes_BytesToHash) (rule H)
  then have "H (node_enc H s) = H (node_enc H t)" using assms(8) by metis
  moreover have "node_enc H s \<in> encs H s \<union> encs H t" "node_enc H t \<in> encs H s \<union> encs H t"
    using subs_refl assms(3,4) unfolding encs_def by blast+
  ultimately have enc: "node_enc H s = node_enc H t" by (rule inj_onD [OF assms(7)])
  have "length (node_enc H s) < 2 ^ 64" using node_enc_less [of H s, OF H] assms(3,5) by (auto simp: enc_str_def enc_head_def)
  then have eq: "titem H s = titem H t" using rlp_enc_unique [of "titem H s" "[]" "titem H t" "[]"] enc by simp
  show ?thesis
  proof (cases "canon s \<and> canon t")
    case True
    then show ?thesis using titem_inj [of H s t, OF H _ _ assms(5,6,7) eq] by blast
  next
    case False
    then show ?thesis using assms(3,4) eq titem_canon [of s H] titem_canon [of t H] by auto
  qed
qed

section \<open>Content\<close>

lemma small_content:
  "slot t \<Longrightarrow> (\<And>k v. term_key k \<Longrightarrow> tget t k = Some v \<Longrightarrow> length k < 2 ^ 32 \<and> length v < 2 ^ 32) \<Longrightarrow> small t"
proof (induction t)
  case (Ext k t)
  have wf: "canon (Ext k t)" using Ext.prems(1) by simp
  show ?case
  proof (cases "term_key k")
    case True
    then obtain v where "t = Leaf v" using wf by (cases t) auto
    then show ?thesis using Ext.prems(2) [OF True, of v] by (simp add: tget_Leaf_end del: tget.simps(3))
  next
    case False
    then have k: "nib_key k" "canon t" using wf by auto
    have sub: "length (k @ r) < 2 ^ 32 \<and> length v < 2 ^ 32" if "term_key r" "tget t r = Some v" for r v
      using Ext.prems(2) [of "k @ r" v] that term_key_append [OF k(1)] by simp
    obtain r v where "term_key r" "tget t r = Some v" using canon_has_key [OF k(2)] by blast
    then have "length k < 2 ^ 32" using sub by fastforce
    moreover have "small t" using Ext.IH k(2) sub by fastforce
    ultimately show ?thesis by simp
  qed
next
  case (Branch ts)
  have wf: "canon (Branch ts)" using Branch.prems(1) by simp
  have "small (ts ! i)" if i: "i < 17" for i
  proof (cases "i = 16")
    case True
    then show ?thesis using wf Branch.prems(2) [of "[16]"] by (cases "ts ! 16") (auto simp: canon_Branch)
  next
    case False
    then have c: "slot (ts ! i)" "i < 16" "length ts = 17" using wf i by (simp_all add: canon_Branch)
    have "length k < 2 ^ 32 \<and> length v < 2 ^ 32" if "term_key k" "tget (ts ! i) k = Some v" for k v
    proof -
      have "unat (of_nat i :: byte) = i" using c(2) by (simp add: unat_of_nat)
      then show ?thesis using Branch.prems(2) [of "of_nat i # k" v] that c by (simp add: word_less_nat_alt)
    qed
    then show ?thesis using Branch.IH [of "ts ! i"] c by simp
  qed
  then show ?case using wf by (auto simp: in_set_conv_nth canon_Branch)
qed simp_all

definition content_small :: "(bytes \<Rightarrow> bytes option) \<Rightarrow> bool" where
  "content_small c \<longleftrightarrow> (\<forall>k v. c k = Some v \<longrightarrow> length k < 2 ^ 31 \<and> length v < 2 ^ 32)"

lemma small_trie:
  assumes "slot tr" "byte_keys tr" "content_small (content tr)"
  shows "small tr"
proof (rule small_content [OF assms(1)])
  fix k v
  assume kv: "term_key k" "tget tr k = Some v"
  then obtain b where b: "k = keybytesToHex b" using assms(2) by (auto simp: byte_keys_def)
  then have "content tr b = Some v" using kv(2) by (simp add: content_def)
  then have "length b < 2 ^ 31 \<and> length v < 2 ^ 32" using assms(3) by (auto simp: content_small_def)
  then show "length k < 2 ^ 32 \<and> length v < 2 ^ 32" using b by (auto simp: keybytesToHex_unpack)
qed

lemma content_tree:
  assumes "slot s" "byte_keys s" "slot t" "byte_keys t" "content s = content t"
  shows "s = t"
proof (rule content_unique [OF assms(1,3)], intro allI impI)
  fix k assume k: "term_key k"
  have same: "tget s (keybytesToHex b) = tget t (keybytesToHex b)" for b using assms(5) by (metis content_def)
  show "tget s k = tget t k"
    using assms(2,4) k same unfolding byte_keys_def by metis
qed

text \<open>C1: the root hash commits to the content, and to nothing else. For any two tries, with whatever histories of updates,
  parts loaded from the database and hashes computed before, \<open>Hash\<close> returns (the content has no key of 2^31 bytes or more
  and no value of 2^32 or more), leaves a trie with the same content, and the two hashes are equal exactly when both
  tries map the same keys to the same values. The hash function returns 32 bytes, hashes the encoding of the empty
  string to the constant \<open>emptyRoot\<close>, and has no collision among the encodings of the nodes of the two tries.\<close>

theorem root_hash_content:
  assumes "\<And>x. length (H x) = 32" "BytesToHash (H [0x80]) = emptyRoot"
    and "trie_rep (stands H False) (stands H True) t1 tr1" "trie_rep (stands H False) (stands H True) t2 tr2"
    and "content_small (content tr1)" "content_small (content tr2)" "inj_on H (encs H tr1 \<union> encs H tr2)"
  shows "\<exists>t1' t2' h1 h2. trie_Hash H t1 = Some (t1', h1) \<and> trie_Hash H t2 = Some (t2', h2) \<and>
    trie_map (stands H False) (stands H True) (tr_db t1) t1' (content tr1) \<and>
    (h1 = h2 \<longleftrightarrow> content tr1 = content tr2)"
proof -
  have rep: "slot tr1" "byte_keys tr1" "slot tr2" "byte_keys tr2" using assms(3,4) by (simp_all add: trie_rep_def)
  have small: "small tr1" "small tr2" using small_trie rep assms(5,6) by blast+
  obtain t1' where t1: "trie_Hash H t1 = Some (t1', root_hash H tr1)" "trie_rep (stands H False) (stands H True) t1' tr1" "tr_db t1' = tr_db t1"
    using trie_Hash_rep [of H, OF assms(1,3) small(1)] by blast
  obtain t2' where t2: "trie_Hash H t2 = Some (t2', root_hash H tr2)" using trie_Hash_rep [of H, OF assms(1,4) small(2)] by blast
  have "root_hash H tr1 = root_hash H tr2 \<longleftrightarrow> content tr1 = content tr2"
    using root_hash_inj [of H, OF assms(1,2) rep(1,3) small assms(7)] content_tree [OF rep] by auto
  then show ?thesis using t1 t2 by (auto simp: trie_map_def)
qed

text \<open>Two tries with one key and different values, and a hash that pads with zeros.\<close>

definition pad_hash :: "bytes \<Rightarrow> bytes" where
  "pad_hash x = (if x = [0x80] then hash_Bytes emptyRoot else take 32 (x @ replicate 32 0))"

definition one_tree :: "byte \<Rightarrow> tree" where
  "one_tree v = Ext (keybytesToHex [1]) (Leaf [v])"

definition one_trie :: "byte \<Rightarrow> Trie" where
  "one_trie v = \<lparr>tr_db = (\<lambda>_. Some None), tr_root = ShortNode (keybytesToHex [1]) (ValueNode [v]) newFlag, tr_unhashed = 1\<rparr>"

lemma one_tree_content: "content (one_tree v) = [[1] \<mapsto> [v]]"
  by (auto simp: content_def one_tree_def tget_Leaf_end fun_eq_iff simp del: tget.simps(3))

lemma one_trie_rep: "trie_rep ok P (one_trie v) (one_tree v)"
proof -
  have "canon (one_tree v)" unfolding one_tree_def using keybytes_term by (rule canon_leaf) simp
  moreover have "byte_keys (one_tree v)" by (auto simp: byte_keys_def one_tree_def tget_Leaf_end simp del: tget.simps(3))
  ultimately show ?thesis
    unfolding trie_rep_def by (auto simp: one_trie_def one_tree_def intro!: expands_short_new expands.Value simp del: canon.simps)
qed

lemma one_tree_enc: "v < 0x80 \<Longrightarrow> encs H (one_tree v) = {[0xC4, 0x82, 0x20, 1, v]}"
proof -
  have "keybytesToHex [1] = [0, 1, 16]" by code_simp
  moreover have "hexToCompact [0, 1, 16] = Some [0x20, 1]" by code_simp
  ultimately show "v < 0x80 \<Longrightarrow> encs H (one_tree v) = {[0xC4, 0x82, 0x20, 1, v]}"
    by (simp add: encs_def one_tree_def compact_key_def shrink_def enc_str_def enc_head_def)
qed

lemma root_hash_content_witness:
  "\<exists>t1 t2 h1 h2. trie_Hash pad_hash (one_trie 5) = Some (t1, h1) \<and> trie_Hash pad_hash (one_trie 6) = Some (t2, h2) \<and> h1 \<noteq> h2"
proof -
  have len: "length (pad_hash x) = 32" for x by (simp add: pad_hash_def hash_Bytes_def min_def)
  have empty: "BytesToHash (pad_hash [0x80]) = emptyRoot" by (simp add: pad_hash_def)
  have small: "content_small (content (one_tree v))" for v by (simp add: one_tree_content content_small_def)
  have "inj_on pad_hash (encs pad_hash (one_tree 5) \<union> encs pad_hash (one_tree 6))"
    by (simp add: one_tree_enc pad_hash_def)
  from root_hash_content [of pad_hash, OF len empty one_trie_rep one_trie_rep small small this]
  obtain t1 t2 h1 h2 where "trie_Hash pad_hash (one_trie 5) = Some (t1, h1)" "trie_Hash pad_hash (one_trie 6) = Some (t2, h2)"
    "h1 = h2 \<longleftrightarrow> content (one_tree 5) = content (one_tree 6)" by blast
  moreover have "content (one_tree 5) [1] \<noteq> content (one_tree 6) [1]" by (simp add: one_tree_content)
  ultimately show ?thesis by metis
qed

end
