(* ===== verification/Spec2Isabelle.thy ===== *)
theory Spec2Isabelle
  imports CompactTarget Transactions TrieHash
begin

text \<open>
  A verification development for the HayekChain node, \<open>src/go-hayekchain\<close>, a Go implementation of an
  Ethereum-like blockchain. It models the deterministic core that all nodes must agree on: the encoding of data
  (RLP), the account database with its journal and snapshots, the virtual machine that runs contracts, the
  application of messages to the state, the tries whose root hashes stand for a state, and the targets of the proof
  of work. File names below are relative to
  \<open>src/go-hayekchain\<close>.

  \<^bold>\<open>How the parts interact.\<close> \<open>core.ApplyMessage\<close> buys gas from the sender and from the gas pool of the block,
  runs the message with \<open>vm.EVM.Call\<close> or \<open>vm.EVM.Create\<close>, refunds what is left and pays the miner. The EVM runs code
  turn by turn in \<open>EVMInterpreter.Run\<close>, which looks an instruction up in the jump table of the fork, checks the
  stack, charges gas and executes it; instructions that call start the EVM again. All of them work on
  \<open>state.StateDB\<close>, which caches accounts as \<open>stateObject\<close>s, records every change in its journal and undoes the
  journal back to a snapshot when a call fails. Accounts are stored in RLP. The proof of work compares hashes with
  targets that block headers carry in a compact form.

  \<^bold>\<open>Conventions.\<close> Bytes are \<open>8 word\<close>s and slices lists of them; the sized integers of Go are words and wrap;
  \<open>big.Int\<close> is \<open>int\<close>. Structs are records, interfaces and enumerations datatypes. An error is a value of a datatype
  in a sum. A run-time panic is \<open>None\<close> in the codecs and in the database, and \<open>Panic\<close> with its kind in the virtual
  machine. Methods with a pointer receiver return the new state. What lies outside is an argument: the key-value
  store and the tries behind the database (record \<open>backend\<close>, with the hypotheses \<open>env_ok\<close>: hashes of addresses do
  not collide, stored accounts carry a code hash of 32 bytes, and the size of code is the length of the code), the 256-bit arithmetic of the holiman/uint256 package (record
  \<open>uint256\<close>, hypotheses \<open>uint256_ok\<close>), and the native contracts that wrap cryptographic libraries (\<open>ee_native\<close>).

  \<^bold>\<open>Prelude\<close> holds the shared types and the lemmas on big-endian numbers.

  \<^bold>\<open>RLP.\<close> \<open>RlpEncode\<close> models \<open>rlp/encode.go\<close>: the buffer \<open>encbuf\<close> with its list headers, one writer per kind of
  value, and the outputs \<open>Encode\<close>, \<open>EncodeToBytes\<close> and \<open>EncodeToReader\<close>; its theorems show that the buffer with
  headers woven in is the encoding of the RLP rules, that the outputs agree and when encoding fails. \<open>RlpRaw\<close> models
  \<open>rlp/raw.go\<close> and \<open>rlp/iterator.go\<close>; \<open>Split\<close> accepts exactly the canonical encodings. The codecs of strings, lists
  and integers are instances of the locale \<open>prefix_codec\<close>. \<open>RlpStream\<close> models \<open>rlp/decode.go\<close>: \<open>Stream\<close> with its
  stack of lists and the decoders by kind of type, on fuel linear in the input, and shows the round trip. Two
  behaviours are shown that look unintended: decoding any list of one-byte arrays with a zero never ends, and the
  list iterator does not advance on malformed data.

  \<^bold>\<open>State.\<close> \<open>AccessList\<close> models \<open>core/state/access_list.go\<close>, \<open>StateObject\<close> and \<open>StateDB\<close> model
  \<open>core/state/state_object.go\<close>, \<open>statedb.go\<close> and \<open>journal.go\<close>: reads through the caches, all setters, the journal,
  \<open>Snapshot\<close>, \<open>RevertToSnapshot\<close>, \<open>Finalise\<close>, \<open>New\<close> and \<open>Reset\<close>. \<open>StateView\<close> abstracts a database to what clients
  can read; \<open>StateUndo\<close> gives every journal entry its effect on that view; \<open>StateRevert\<close> shows that every operation
  appends entries that undo it (\<open>evolves\<close>) and keeps for every valid snapshot the state it stands for (\<open>tracked\<close>);
  \<open>StateSnapshots\<close> has the theorems for all databases that client calls can reach: reverts restore what is read,
  panics happen exactly on invalid identifiers, dirty counters are exact, setters and getters agree, \<open>Finalise\<close>
  removes what it should, and reads change nothing. Clients are those that do not use the debugging override
  \<open>SetStorage\<close>, whose storage is written without journal entries; what that means for reverts is shown apart.

  \<^bold>\<open>Trie.\<close> \<open>TrieKeys\<close> models the key encodings of \<open>trie/encoding.go\<close> and shows that they lose nothing.
  \<open>TrieTree\<close> has the specification: trees with every node loaded, their operations and canonical form, and that the
  content determines a canonical tree. \<open>Trie\<close> models \<open>trie/trie.go\<close>: nodes may be hashes that are resolved from the
  database (an argument: what \<open>Database.node\<close> returns) when they are reached, \<open>insert\<close> and \<open>delete\<close> rebuild the path they
  change. The recursion may not end on a database with cycles, hence \<open>partial_function\<close>, with \<open>None\<close> for that and for a
  panic; the relation \<open>expands\<close> between nodes and trees gives that every call returns. Nodes implement the operations on
  trees, so a trie is an instance of the locale \<open>kv_store\<close>, what a client relies on of a map. \<open>TrieHash\<close> models
  \<open>trie/hasher.go\<close> with the hash function as an argument; cached hashes are correct, and the root hash of two tries is
  equal exactly when their contents are.

  \<^bold>\<open>Virtual machine.\<close> \<open>EvmAnalysis\<close> models \<open>core/vm/analysis.go\<close> and shows the bit vector equal to a scan of the
  code. \<open>EvmBase\<close> (stack, memory, contracts, checked arithmetic), \<open>EvmGas\<close> (\<open>gas.go\<close>, \<open>gas_table.go\<close>,
  \<open>operations_acl.go\<close>), \<open>EvmCall\<close> (\<open>evm.go\<close>, \<open>contracts.go\<close>, \<open>core/evm.go\<close>), \<open>EvmInstr\<close> (\<open>instructions.go\<close>,
  \<open>eips.go\<close>), \<open>EvmTable\<close> (\<open>jump_table.go\<close>, \<open>stack_table.go\<close>) and \<open>EvmInterp\<close> (\<open>interpreter.go\<close>) model the machine.
  Calls take the interpreter as a parameter (\<open>runner\<close>), and \<open>Run\<close> closes the knot on fuel. The lemmas:
  \<^item> \<open>EvmMeter\<close>: every instruction, gas function and call keeps to the stack it declares and gives back no gas it did
    not get;
  \<^item> \<open>EvmEntries\<close>: every jump table holds only entries of one list, so facts about all operations are shown once;
  \<^item> \<open>EvmFuel\<close>: a run that ends with some fuel ends the same way with more;
  \<^item> \<open>EvmProgress\<close>: every turn pays gas, so that fuel above the gas of the contract is always enough;
  \<^item> \<open>EvmStore\<close>: the locale \<open>evm_store\<close>, what the machine relies on of the database, and that all code stays within it;
  \<^item> \<open>EvmRuns\<close>: runs end, gas and depth are kept, the stack is never underrun and holds at most 1024 words, \<open>NewEVM\<close>
    with its chain configuration and extra EIPs panics only in the cases listed, and the lists of native contract
    addresses are wrong;
  \<^item> \<open>EvmIsolation\<close>: the database is an instance of \<open>evm_store\<close>, hence failed calls leave no trace, static calls write
    nothing, and the EVM never reverts to an invalid snapshot.

  \<^bold>\<open>Chain configuration.\<close> \<open>ChainConfig\<close> models \<open>params/config.go\<close>: the blocks at which forks are scheduled, the rules
  at a block, which \<open>NewEVM\<close> hands to the machine, the order of forks and the check of a new configuration against the
  stored one. Accepted configurations do not change the rules of past blocks, with Petersburg as the exception.

  \<^bold>\<open>Messages.\<close> \<open>StateTransition\<close> models \<open>core/state_transition.go\<close> and \<open>core/gaspool.go\<close> and shows \<open>IntrinsicGas\<close>
  exact. \<open>Transactions\<close> puts messages, EVM and database together: which messages are refused, that the gas adds up,
  and that a message whose code fails costs its gas and one nonce and changes nothing else that is read.

  \<^bold>\<open>Proof of work.\<close> \<open>CompactTarget\<close> models \<open>consensus/hykash/calcTarget.go\<close> and \<open>uint256.go\<close>: packing and unpacking
  of targets, difficulty conversions and hash checks, their rounding, their agreement and their panics.

  \<^bold>\<open>Fuel.\<close> Decoders get fuel linear in the length of the input, and the round trip shows that it is enough.
  \<open>Run\<close> gets a number of turns; \<open>Run_total\<close> shows that more turns than gas always suffice and that the outcome does
  not depend on the number, so that no theorem about results is vacuous.

  \<^bold>\<open>Not modelled.\<close> Of the modelled files: the commit of the database to its tries (\<open>Commit\<close>, \<open>IntermediateRoot\<close>,
  \<open>updateTrie\<close>), \<open>Copy\<close> and proofs, which need the trie and its database; reflection and the type cache of RLP, which
  choose the writers and decoders modelled here; tracing and cancellation of the interpreter; that \<open>EnableEIP\<close> changes
  the jump tables that all interpreters share; floating point (\<open>GetDifficulty\<close>); the
  configurations of the networks. Of the repository: networking (\<open>p2p\<close>,
  \<open>hyk\<close>, \<open>les\<close>, \<open>rpc\<close>), block import and the transaction pool, which are concurrent and driven by I/O; storage
  engines, wallets, signing and cryptography, whose content is in libraries; mining (\<open>miner\<close>,
  \<open>consensus/hykash\<close> sealing); command line tools, tests and generated tables such as \<open>signer/fourbyte/4byte.go\<close>.
\<close>

end
